(* ===== verification/Prelude.thy ===== *)
theory Prelude
  imports Complex_Main "HOL-Library.Sublist" "HOL-Library.Char_ord"
begin

text \<open>
  What every component of the development shares: the JSON values that cross the boundary
  between the TypeScript SDK and Postgres, decimal text of integers (the SDK sends every
  \<open>bigint\<close> as text and reads every \<open>int8\<close> column back as text), sequencing of fallible
  computations, and generic lemmas on lists. Fallible computations are values of a sum type,
  \<open>Inl\<close> for what was thrown or raised and \<open>Inr\<close> for the result.
\<close>

named_theorems spec_simps \<open>characteristic equations of the operations of the components\<close>
named_theorems frame_simps \<open>what an operation leaves unchanged\<close>

section \<open>JSON values\<close>

text \<open>
  \<open>JsonValue\<close> of types/queryable.ts. Numbers are the finite ones (JSON has no other), and the
  members of an object keep their order; a key occurs at most once in the objects the SDK builds.
\<close>

datatype json =
    JNull
  | JBool bool
  | JNum rat
  | JStr string
  | JArr "json list"
  | JObj "(string \<times> json) list"

text \<open>Member access \<open>v[k]\<close> (and SQL's \<open>v -> k\<close>): \<open>None\<close> for a missing member.\<close>

fun json_get :: "string \<Rightarrow> json \<Rightarrow> json option" where
  "json_get k (JObj kvs) = map_of kvs k"
| "json_get k _ = None"

text \<open>SQL's \<open>v ? k\<close>: a top-level key of an object, or a string element of an array.\<close>

fun json_has :: "string \<Rightarrow> json \<Rightarrow> bool" where
  "json_has k (JObj kvs) = (k \<in> fst ` set kvs)"
| "json_has k (JArr vs) = (JStr k \<in> set vs)"
| "json_has k (JStr s) = (s = k)"
| "json_has k _ = False"

fun json_typeof :: "json \<Rightarrow> string" where
  "json_typeof JNull = ''null''"
| "json_typeof (JBool _) = ''boolean''"
| "json_typeof (JNum _) = ''number''"
| "json_typeof (JStr _) = ''string''"
| "json_typeof (JArr _) = ''array''"
| "json_typeof (JObj _) = ''object''"

lemma json_has_get: "json_has k (JObj kvs) \<longleftrightarrow> json_get k (JObj kvs) \<noteq> None"
  by (simp add: map_of_eq_None_iff)

section \<open>Decimal text\<close>

definition digit_char :: "nat \<Rightarrow> char" where
  "digit_char d = char_of (48 + d)"

definition char_digit :: "char \<Rightarrow> nat option" where
  "char_digit c = (let n = of_char c :: nat in if 48 \<le> n \<and> n \<le> 57 then Some (n - 48) else None)"

fun show_nat :: "nat \<Rightarrow> string" where
  "show_nat n = (if n < 10 then [digit_char n] else show_nat (n div 10) @ [digit_char (n mod 10)])"

declare show_nat.simps [simp del]

definition show_int :: "int \<Rightarrow> string" where
  "show_int i = (if i < 0 then CHR ''-'' # show_nat (nat (- i)) else show_nat (nat i))"

text \<open>Digits read from the left into an accumulator, and the longest run of digits of a text.\<close>

fun digits_value :: "nat \<Rightarrow> string \<Rightarrow> nat option" where
  "digits_value acc [] = Some acc"
| "digits_value acc (c # cs) =
     (case char_digit c of None \<Rightarrow> None | Some d \<Rightarrow> digits_value (10 * acc + d) cs)"

definition is_digit :: "char \<Rightarrow> bool" where
  "is_digit c \<longleftrightarrow> char_digit c \<noteq> None"

text \<open>An optional minus sign and at least one digit.\<close>

fun read_int :: "string \<Rightarrow> int option" where
  "read_int [] = None"
| "read_int (c # cs) =
     (if c = CHR ''-'' then (if cs = [] then None else map_option (\<lambda>n. - int n) (digits_value 0 cs))
      else map_option int (digits_value 0 (c # cs)))"

lemma char_digit_digit_char [simp]: "d < 10 \<Longrightarrow> char_digit (digit_char d) = Some d"
  by (simp add: char_digit_def digit_char_def Let_def)

lemma is_digit_digit_char [simp]: "d < 10 \<Longrightarrow> is_digit (digit_char d)"
  by (simp add: is_digit_def)

lemma is_digit_not_minus [simp]: "\<not> is_digit (CHR ''-'')"
  by (simp add: is_digit_def char_digit_def)

lemma is_digit_not_comma [simp]: "\<not> is_digit (CHR '','')"
  by (simp add: is_digit_def char_digit_def)

lemma is_digit_not_colon [simp]: "\<not> is_digit (CHR '':'')"
  by (simp add: is_digit_def char_digit_def)

lemma digits_value_append:
  "digits_value acc (xs @ ys) = (case digits_value acc xs of None \<Rightarrow> None | Some v \<Rightarrow> digits_value v ys)"
  by (induction acc xs rule: digits_value.induct) (auto split: option.split)

lemma show_nat_not_Nil [simp]: "show_nat n \<noteq> []"
  by (subst show_nat.simps) simp

lemma show_nat_digits: "\<forall>c \<in> set (show_nat n). is_digit c"
proof (induction n rule: show_nat.induct)
  case (1 n)
  then show ?case by (subst show_nat.simps) auto
qed

lemma digits_value_show_nat: "digits_value 0 (show_nat n) = Some n"
proof (induction n rule: show_nat.induct)
  case (1 n)
  show ?case
  proof (cases "n < 10")
    case True
    then show ?thesis by (subst show_nat.simps) simp
  next
    case False
    with 1 have "digits_value 0 (show_nat (n div 10)) = Some (n div 10)" by simp
    with False show ?thesis by (subst show_nat.simps) (simp add: digits_value_append)
  qed
qed

lemma hd_show_nat: "hd (show_nat n) \<noteq> CHR ''-''"
  by (metis hd_in_set is_digit_not_minus show_nat_digits show_nat_not_Nil)

lemma read_int_show_nat [simp]: "read_int (show_nat n) = Some (int n)"
proof -
  obtain c cs where c: "show_nat n = c # cs" by (cases "show_nat n") auto
  with hd_show_nat [of n] have "c \<noteq> CHR ''-''" by simp
  with c digits_value_show_nat [of n] show ?thesis by simp
qed

lemma read_int_show_int [simp]: "read_int (show_int i) = Some i"
  by (simp add: show_int_def digits_value_show_nat)

lemma show_nat_inject [simp]: "show_nat m = show_nat n \<longleftrightarrow> m = n"
  by (metis digits_value_show_nat option.inject)

lemma show_int_inject [simp]: "show_int i = show_int j \<longleftrightarrow> i = j"
  by (metis read_int_show_int option.inject)

section \<open>Sequencing\<close>

text \<open>The next step of a computation that may already have failed.\<close>

fun bind_sum :: "'e + 'a \<Rightarrow> ('a \<Rightarrow> 'e + 'b) \<Rightarrow> 'e + 'b" where
  "bind_sum (Inl e) f = Inl e"
| "bind_sum (Inr x) f = f x"

text \<open>A guard: \<open>if (bad) throw e\<close> before the rest of a routine.\<close>

definition guard_sum :: "bool \<Rightarrow> 'e \<Rightarrow> 'e + 'a \<Rightarrow> 'e + 'a" where
  "guard_sum bad e rest = (if bad then Inl e else rest)"

text \<open>\<open>xs.map(f)\<close> for an \<open>f\<close> that may throw: the first failure wins.\<close>

fun map_sum_list :: "('a \<Rightarrow> 'e + 'b) \<Rightarrow> 'a list \<Rightarrow> 'e + 'b list" where
  "map_sum_list f [] = Inr []"
| "map_sum_list f (x # xs) =
     bind_sum (f x) (\<lambda>y. bind_sum (map_sum_list f xs) (\<lambda>ys. Inr (y # ys)))"

lemma bind_sum_Inr: "bind_sum m f = Inr y \<longleftrightarrow> (\<exists>x. m = Inr x \<and> f x = Inr y)"
  by (cases m) auto

lemma bind_sum_Inl: "bind_sum m f = Inl e \<longleftrightarrow> m = Inl e \<or> (\<exists>x. m = Inr x \<and> f x = Inl e)"
  by (cases m) auto

lemma guard_sum_False [simp]: "guard_sum False e rest = rest"
  by (simp add: guard_sum_def)

lemma guard_sum_True [simp]: "guard_sum True e rest = Inl e"
  by (simp add: guard_sum_def)

lemma guard_sum_Inr: "guard_sum bad e rest = Inr y \<longleftrightarrow> \<not> bad \<and> rest = Inr y"
  by (simp add: guard_sum_def)

lemma guard_sum_Inl: "guard_sum bad e rest = Inl y \<longleftrightarrow> (bad \<and> y = e) \<or> (\<not> bad \<and> rest = Inl y)"
  by (auto simp: guard_sum_def)

lemmas sum_iffs = bind_sum_Inr bind_sum_Inl guard_sum_Inr guard_sum_Inl

lemma map_sum_list_total:
  "(\<And>x. x \<in> set xs \<Longrightarrow> f x = Inr (g x)) \<Longrightarrow> map_sum_list f xs = Inr (map g xs)"
  by (induction xs) auto

lemma map_sum_list_Inr:
  "map_sum_list f xs = Inr ys \<longleftrightarrow> list_all2 (\<lambda>x y. f x = Inr y) xs ys"
  by (induction xs arbitrary: ys) (auto simp: bind_sum_Inr list_all2_Cons1)

section \<open>Lists\<close>

lemma filter_sorted_prefix_drop:
  "map f xs = [Suc 0..<Suc (length xs)] \<Longrightarrow> filter (\<lambda>x. Suc k \<le> f x) xs = drop k xs"
proof (induction xs rule: rev_induct)
  case Nil
  then show ?case by simp
next
  case (snoc x xs)
  from snoc.prems have xs: "map f xs = [Suc 0..<Suc (length xs)]" and x: "f x = Suc (length xs)"
    by (simp_all add: upt_Suc_append)
  show ?case using snoc.IH [OF xs] x by auto
qed

lemma sort_key_sorted: "sorted (map f xs) \<Longrightarrow> sort_key f xs = xs"
  by (simp add: sort_key_id_if_sorted)

lemma prefix_length_le_eq: "prefix xs ys \<Longrightarrow> length ys \<le> length xs \<Longrightarrow> xs = ys"
  by (auto simp: prefix_def)

lemma prefix_same_cases_le:
  "prefix xs zs \<Longrightarrow> prefix ys zs \<Longrightarrow> length xs \<le> length ys \<Longrightarrow> prefix xs ys"
  using prefix_length_prefix by blast

lemma prefix_take_eq: "prefix xs ys \<Longrightarrow> n \<le> length xs \<Longrightarrow> take n xs = take n ys"
  by (auto simp: prefix_def)

lemma prefix_filter: "prefix xs ys \<Longrightarrow> prefix (filter P xs) (filter P ys)"
  by (auto simp: prefix_def)

section \<open>Maps in insertion order\<close>

text \<open>A JavaScript Map is the list of its entries. \<open>m.set(k, v)\<close> keeps the place of a key that is present; \<open>m.delete(k)\<close> drops its entry.\<close>

fun map_set :: "'k \<Rightarrow> 'v \<Rightarrow> ('k \<times> 'v) list \<Rightarrow> ('k \<times> 'v) list" where
  "map_set k v [] = [(k, v)]"
| "map_set k v ((k', v') # es) = (if k' = k then (k, v) # es else (k', v') # map_set k v es)"

definition map_delete :: "'k \<Rightarrow> ('k \<times> 'v) list \<Rightarrow> ('k \<times> 'v) list" where
  "map_delete k es = filter (\<lambda>e. fst e \<noteq> k) es"

text \<open>A JavaScript Set of strings, in insertion order.\<close>

fun set_add :: "'a \<Rightarrow> 'a list \<Rightarrow> 'a list" where
  "set_add x xs = (if x \<in> set xs then xs else xs @ [x])"

lemma map_of_map_set [simp]: "map_of (map_set k v es) = (map_of es)(k \<mapsto> v)"
  by (induction es) (auto simp: fun_eq_iff)

lemma map_set_keys: "fst ` set (map_set k v es) = insert k (fst ` set es)"
  by (induction k v es rule: map_set.induct) auto

lemma map_set_distinct: "distinct (map fst es) \<Longrightarrow> distinct (map fst (map_set k v es))"
proof (induction es)
  case (Cons e es)
  then show ?case using map_set_keys [of k v es] by (cases e) auto
qed simp

lemma map_set_twice [simp]: "map_set k v (map_set k v' es) = map_set k v es"
  by (induction es) auto

lemma length_map_set: "length (map_set k v es) \<le> Suc (length es)"
  by (induction es) auto

lemma fold_set_add: "set (fold set_add xs ys) = set xs \<union> set ys"
  by (induction xs arbitrary: ys) auto

lemma map_set_sub: "set (map_set k v es) \<subseteq> insert (k, v) (set es)"
proof (induction es)
  case (Cons e es)
  then show ?case by (cases e; cases "fst e = k") auto
qed simp

lemma map_delete_simps [simp]:
  "set (map_delete k es) = {e \<in> set es. fst e \<noteq> k}" "length (map_delete k es) \<le> length es"
  by (auto simp: map_delete_def)

section \<open>Numbers\<close>

text \<open>
  \<open>Number(n)\<close> of a bigint: the nearest double, ties to the even significand of 53 bits.
\<close>

fun bit_length :: "nat \<Rightarrow> nat" where
  "bit_length n = (if n = 0 then 0 else Suc (bit_length (n div 2)))"

declare bit_length.simps [simp del]

definition Number :: "int \<Rightarrow> rat" where
  "Number i =
     (let a = nat \<bar>i\<bar>; e = bit_length a - 53; q = a div 2 ^ e; r = a mod 2 ^ e;
          q' = (if 2 * r > 2 ^ e \<or> (2 * r = 2 ^ e \<and> odd q) then q + 1 else q)
      in of_int (sgn i * int (q' * 2 ^ e)))"

lemma bit_length_le: "bit_length n \<le> k \<longleftrightarrow> n < 2 ^ k"
proof (induction n arbitrary: k rule: bit_length.induct)
  case (1 n)
  show ?case
  proof (cases "n = 0")
    case True
    then show ?thesis by (simp add: bit_length.simps)
  next
    case False
    show ?thesis
    proof (cases k)
      case 0
      with False show ?thesis by (subst bit_length.simps) simp
    next
      case (Suc k')
      have "n div 2 < 2 ^ k' \<longleftrightarrow> n < 2 ^ Suc k'" by auto
      with 1 False Suc show ?thesis by (subst bit_length.simps) simp
    qed
  qed
qed

lemma Number_exact:
  assumes "\<bar>i\<bar> \<le> 2 ^ 53"
  shows "Number i = of_int i"
proof -
  let ?a = "nat \<bar>i\<bar>" and ?e = "bit_length (nat \<bar>i\<bar>) - 53"
  have a: "int ?a = \<bar>i\<bar>" by simp
  have "?a mod 2 ^ ?e = 0"
  proof (cases "?a < 2 ^ 53")
    case True
    then show ?thesis using bit_length_le [of ?a 53] by simp
  next
    case False
    have "?a = 2 ^ 53" using assms False by simp
    moreover have "bit_length (2 ^ 53) \<le> 54" by (simp only: bit_length_le) simp
    moreover have "(2 :: nat) ^ (bit_length (2 ^ 53) - 53) dvd 2 ^ 53"
      using calculation(2) by (intro le_imp_power_dvd) simp
    ultimately show ?thesis by simp
  qed
  then have m: "?a mod 2 ^ ?e = 0" and d: "?a div 2 ^ ?e * 2 ^ ?e = ?a" by auto
  have "Number i = of_int (sgn i * int (?a div 2 ^ ?e * 2 ^ ?e))"
    unfolding Number_def Let_def m by simp
  also have "\<dots> = of_int (sgn i * int ?a)" by (simp only: d)
  also have "sgn i * int ?a = i" by (simp add: a mult_sgn_abs)
  finally show ?thesis .
qed

lemma Number_zero [simp]: "Number i = 0 \<longleftrightarrow> i = 0"
proof (cases "bit_length (nat \<bar>i\<bar>) \<le> 53")
  case True
  then have "\<bar>i\<bar> \<le> 2 ^ 53" by (simp add: bit_length_le)
  then show ?thesis by (simp add: Number_exact)
next
  case False
  let ?a = "nat \<bar>i\<bar>" and ?e = "bit_length (nat \<bar>i\<bar>) - 53"
  from False have "\<not> bit_length ?a \<le> ?e" by arith
  then have "2 ^ ?e \<le> ?a" by (simp add: bit_length_le)
  then have "0 < ?a div 2 ^ ?e" by (simp add: div_greater_zero_iff)
  moreover from False have "i \<noteq> 0" by (auto simp: bit_length.simps)
  ultimately show ?thesis by (simp add: Number_def Let_def sgn_0_0)
qed

end
