(* ===== verification/Errors.thy ===== *)
theory Errors
  imports Prelude
begin

text \<open>
  The SDK's error classes (sdks/typescript/src/errors/*.ts) and the translation of Postgres errors
  into them (errors/map-pg-error.ts). The class hierarchy is an instance of \<open>order\<close>: \<open>c \<le> d\<close>
  holds when \<open>c\<close> is \<open>d\<close> or extends it, so \<open>e instanceof D\<close> is \<open>class_of e \<le> D\<close>. A thrown value is
  a raw error of the Postgres driver, an error object of one of the SDK's or JavaScript's classes
  with the fields its class declares, or a value that is not an error at all.
\<close>

section \<open>Classes\<close>

datatype err_class =
    C_Error
  | C_TypeError
  | C_RangeError
  | C_SyntaxError
  | InstructedError
  | InvalidParameterValue
  | AppendError
  | WrongExpectedVersion
  | StreamExists
  | StreamNotFound
  | DuplicateEvent
  | ReservedStreamUuid
  | AppendOnlyViolation
  | SnapshotNotFound
  | SubscriptionError
  | SubscriptionNotFound
  | SubscriptionAlreadyClaimed
  | SubscriptionLeaseLost
  | WorkItemLeaseLost
  | RetryBudgetExhausted
  | ConsistencyTimeout
  | ConsistencyTargetError
  | UnknownAggregateType

text \<open>The class a class extends, as declared.\<close>

fun extends :: "err_class \<Rightarrow> err_class option" where
  "extends C_Error = None"
| "extends C_TypeError = Some C_Error"
| "extends C_RangeError = Some C_Error"
| "extends C_SyntaxError = Some C_Error"
| "extends InstructedError = Some C_Error"
| "extends WrongExpectedVersion = Some AppendError"
| "extends StreamExists = Some AppendError"
| "extends StreamNotFound = Some AppendError"
| "extends DuplicateEvent = Some AppendError"
| "extends ReservedStreamUuid = Some AppendError"
| "extends SubscriptionNotFound = Some SubscriptionError"
| "extends SubscriptionAlreadyClaimed = Some SubscriptionError"
| "extends SubscriptionLeaseLost = Some SubscriptionError"
| "extends _ = Some InstructedError"

fun class_depth :: "err_class \<Rightarrow> nat" where
  "class_depth C_Error = 0"
| "class_depth C_TypeError = 1"
| "class_depth C_RangeError = 1"
| "class_depth C_SyntaxError = 1"
| "class_depth InstructedError = 1"
| "class_depth WrongExpectedVersion = 3"
| "class_depth StreamExists = 3"
| "class_depth StreamNotFound = 3"
| "class_depth DuplicateEvent = 3"
| "class_depth ReservedStreamUuid = 3"
| "class_depth SubscriptionNotFound = 3"
| "class_depth SubscriptionAlreadyClaimed = 3"
| "class_depth SubscriptionLeaseLost = 3"
| "class_depth _ = 2"

lemma extends_depth: "extends c = Some d \<Longrightarrow> class_depth d < class_depth c"
  by (cases c) auto

function ancestors :: "err_class \<Rightarrow> err_class list" where
  "ancestors c = c # (case extends c of None \<Rightarrow> [] | Some d \<Rightarrow> ancestors d)"
  by pat_completeness auto
termination
  by (relation "measure class_depth") (auto simp: extends_depth)

declare ancestors.simps [simp del]

lemma ancestors_refl [simp]: "c \<in> set (ancestors c)"
  by (subst ancestors.simps) simp

lemma ancestors_depth: "d \<in> set (ancestors c) \<Longrightarrow> d = c \<or> class_depth d < class_depth c"
proof (induction c rule: ancestors.induct)
  case (1 c)
  show ?case
  proof (cases "extends c")
    case None
    with "1.prems" show ?thesis by (subst (asm) ancestors.simps) simp
  next
    case (Some p)
    with "1.prems" have "d = c \<or> d \<in> set (ancestors p)" by (subst (asm) ancestors.simps) simp
    with "1.IH" [OF Some] extends_depth [OF Some] show ?thesis by auto
  qed
qed

lemma ancestors_trans: "d \<in> set (ancestors c) \<Longrightarrow> e \<in> set (ancestors d) \<Longrightarrow> e \<in> set (ancestors c)"
proof (induction c rule: ancestors.induct)
  case (1 c)
  show ?case
  proof (cases "d = c")
    case True
    with "1.prems" show ?thesis by simp
  next
    case False
    have "d \<in> set (c # (case extends c of None \<Rightarrow> [] | Some d \<Rightarrow> ancestors d))"
      using "1.prems"(1) by (simp only: ancestors.simps [of c, symmetric])
    with False obtain p where p: "extends c = Some p" and d: "d \<in> set (ancestors p)"
      by (cases "extends c") auto
    from "1.IH" [OF p d "1.prems"(2)] p show ?thesis by (subst ancestors.simps) simp
  qed
qed

instantiation err_class :: order
begin

definition less_eq_err_class :: "err_class \<Rightarrow> err_class \<Rightarrow> bool" where
  "c \<le> d \<longleftrightarrow> d \<in> set (ancestors c)"

definition less_err_class :: "err_class \<Rightarrow> err_class \<Rightarrow> bool" where
  "c < d \<longleftrightarrow> c \<le> d \<and> c \<noteq> (d :: err_class)"

instance
proof
  fix a b c :: err_class
  show "a \<le> a" by (simp add: less_eq_err_class_def)
  show "a \<le> b \<Longrightarrow> b \<le> c \<Longrightarrow> a \<le> c" by (auto simp: less_eq_err_class_def intro: ancestors_trans)
  show "a \<le> b \<Longrightarrow> b \<le> a \<Longrightarrow> a = b"
    by (auto simp: less_eq_err_class_def dest!: ancestors_depth)
  then show "(a < b) = (a \<le> b \<and> \<not> b \<le> a)"
    by (auto simp: less_err_class_def less_eq_err_class_def)
qed

end

lemma subclass_iff: "c \<le> d \<longleftrightarrow> c = d \<or> (case extends c of None \<Rightarrow> False | Some p \<Rightarrow> p \<le> d)"
  unfolding less_eq_err_class_def by (subst ancestors.simps) (auto split: option.split)

section \<open>Thrown values\<close>

text \<open>\<open>PgErrorLike\<close>: what the \<open>pg\<close> driver rejects a query with. \<open>code\<close> is absent for transport errors.\<close>

record pg_error =
  pg_code :: "string option"
  pg_message :: "string option"
  pg_detail :: "string option"
  pg_hint :: "string option"

text \<open>The fields the subclasses add to \<open>InstructedError\<close>.\<close>

datatype thrown =
    PgErr pg_error
  | Err (err_cls: err_class) (err_msg: string) (err_code: "string option")
        (err_detail: "string option") (err_hint: "string option") (err_fields: err_fields)
        (err_cause: "thrown option")
  | NotError json
and err_fields =
    NoFields
  | VersionFields (actualVersion: "int option") (expectedVersion: "int option")
  | StreamField (streamUuid: "string option")
  | SourceField (sourceUuid: "string option")
  | SubFields (subStream: "string option") (subName: "string option")
  | ItemFields (itemStream: "string option") (itemSub: "string option")
      (itemPartition: "string option") (itemEvent: "int option")
  | RetryFields (attempts: nat) (lastError: "thrown option")
  | TimeoutFields (waitedMs: rat) (missing: "string list")
  | TargetFields (subscriptionStream: string) (subscriptionName: string)
      (appendedStreams: "string list")
  | AggregateField (aggregateType: string)

fun class_of :: "thrown \<Rightarrow> err_class option" where
  "class_of (PgErr _) = Some C_Error"
| "class_of (Err c _ _ _ _ _ _) = Some c"
| "class_of (NotError _) = None"

definition instance_of :: "thrown \<Rightarrow> err_class \<Rightarrow> bool" where
  "instance_of e c = (case class_of e of None \<Rightarrow> False | Some d \<Rightarrow> d \<le> c)"

text \<open>Member access \<open>err.code\<close>, \<open>err.message\<close>, \<open>err.detail\<close>, \<open>err.hint\<close> on a thrown value.\<close>

fun json_str :: "json option \<Rightarrow> string option" where
  "json_str (Some (JStr s)) = Some s"
| "json_str _ = None"

fun code_of :: "thrown \<Rightarrow> string option" where
  "code_of (PgErr p) = pg_code p"
| "code_of (Err _ _ c _ _ _ _) = c"
| "code_of (NotError j) = json_str (json_get ''code'' j)"

fun message_of :: "thrown \<Rightarrow> string option" where
  "message_of (PgErr p) = pg_message p"
| "message_of (Err _ m _ _ _ _ _) = Some m"
| "message_of (NotError j) = json_str (json_get ''message'' j)"

fun detail_of :: "thrown \<Rightarrow> string option" where
  "detail_of (PgErr p) = pg_detail p"
| "detail_of (Err _ _ _ d _ _ _) = d"
| "detail_of (NotError j) = json_str (json_get ''detail'' j)"

fun hint_of :: "thrown \<Rightarrow> string option" where
  "hint_of (PgErr p) = pg_hint p"
| "hint_of (Err _ _ _ _ h _ _) = h"
| "hint_of (NotError j) = json_str (json_get ''hint'' j)"

text \<open>\<open>!err || typeof err !== 'object'\<close> fails for error objects and for plain objects and arrays.\<close>

fun is_object :: "thrown \<Rightarrow> bool" where
  "is_object (NotError (JObj _)) = True"
| "is_object (NotError (JArr _)) = True"
| "is_object (NotError _) = False"
| "is_object _ = True"

text \<open>\<open>new Error(m)\<close>, \<open>new RangeError(m)\<close>, \<open>new TypeError(m)\<close>.\<close>

abbreviation js_error :: "string \<Rightarrow> thrown" where
  "js_error m \<equiv> Err C_Error m None None None NoFields None"

abbreviation range_error :: "string \<Rightarrow> thrown" where
  "range_error m \<equiv> Err C_RangeError m None None None NoFields None"

abbreviation type_error :: "string \<Rightarrow> thrown" where
  "type_error m \<equiv> Err C_TypeError m None None None NoFields None"

section \<open>parseWrongExpectedVersion\<close>

text \<open>
  The regular expression \<open>actual\s+(-?\d+),\s*expected\s+(-?\d+)\<close>. Every quantified part is
  followed by a character outside its class, so reading greedily from the left finds the match a
  backtracking matcher finds.
\<close>

definition is_space :: "char \<Rightarrow> bool" where
  "is_space c \<longleftrightarrow> (of_char c :: nat) \<in> {9, 10, 11, 12, 13, 32, 160}"

definition skip_text :: "string \<Rightarrow> string \<Rightarrow> string option" where
  "skip_text p s = (if take (length p) s = p then Some (drop (length p) s) else None)"

definition skip_spaces1 :: "string \<Rightarrow> string option" where
  "skip_spaces1 s = (if s \<noteq> [] \<and> is_space (hd s) then Some (dropWhile is_space s) else None)"

definition int_token :: "string \<Rightarrow> (string \<times> string) option" where
  "int_token s =
     (let neg = (s \<noteq> [] \<and> hd s = CHR ''-'');
          r = (if neg then tl s else s);
          ds = takeWhile is_digit r
      in if ds = [] then None
         else Some ((if neg then CHR ''-'' # ds else ds), dropWhile is_digit r))"

definition match_versions :: "string \<Rightarrow> (string \<times> string) option" where
  "match_versions s =
     Option.bind (skip_text ''actual'' s) (\<lambda>s1.
     Option.bind (skip_spaces1 s1) (\<lambda>s2.
     Option.bind (int_token s2) (\<lambda>(a, s3).
     Option.bind (skip_text '','' s3) (\<lambda>s4.
     Option.bind (skip_text ''expected'' (dropWhile is_space s4)) (\<lambda>s5.
     Option.bind (skip_spaces1 s5) (\<lambda>s6.
     Option.bind (int_token s6) (\<lambda>(b, _). Some (a, b))))))))"

fun search_versions :: "string \<Rightarrow> (string \<times> string) option" where
  "search_versions s =
     (case match_versions s of
        Some m \<Rightarrow> Some m
      | None \<Rightarrow> (case s of [] \<Rightarrow> None | _ # t \<Rightarrow> search_versions t))"

declare search_versions.simps [simp del]

text \<open>Both fields absent when there is no message, no match, or (\<open>catch\<close>) no integer.\<close>

definition parseWrongExpectedVersion :: "string option \<Rightarrow> int option \<times> int option" where
  "parseWrongExpectedVersion message =
     (case message of
        None \<Rightarrow> (None, None)
      | Some m \<Rightarrow>
          (if m = [] then (None, None)
           else (case search_versions m of
                   None \<Rightarrow> (None, None)
                 | Some (a, b) \<Rightarrow>
                     (case (read_int a, read_int b) of
                        (Some x, Some y) \<Rightarrow> (Some x, Some y)
                      | _ \<Rightarrow> (None, None)))))"

lemma int_token_show_int:
  assumes "rest = [] \<or> \<not> is_digit (hd rest)"
  shows "int_token (show_int i @ rest) = Some (show_int i, rest)"
proof -
  have tk: "takeWhile is_digit (show_nat n @ rest) = show_nat n" for n
    using assms show_nat_digits [of n] by (cases rest) (auto simp: takeWhile_append2)
  have dr: "dropWhile is_digit (show_nat n @ rest) = rest" for n
    using assms show_nat_digits [of n] by (cases rest) (auto simp: dropWhile_append2)
  show ?thesis
  proof (cases "i < 0")
    case True
    then show ?thesis by (simp add: int_token_def show_int_def tk dr)
  next
    case False
    have "hd (show_nat (nat i) @ rest) \<noteq> CHR ''-''"
      using hd_show_nat [of "nat i"] by (simp add: hd_append)
    with False show ?thesis by (simp add: int_token_def show_int_def tk dr)
  qed
qed

lemma show_int_not_space: "\<not> is_space (hd (show_int i @ rest))" "show_int i @ rest \<noteq> []"
proof -
  show ne: "show_int i @ rest \<noteq> []" by (simp add: show_int_def)
  have "is_digit c \<Longrightarrow> \<not> is_space c" for c
    by (auto simp: is_digit_def char_digit_def is_space_def Let_def split: if_splits)
  moreover have "is_digit (hd (show_nat n))" for n
    by (meson hd_in_set show_nat_digits show_nat_not_Nil)
  ultimately show "\<not> is_space (hd (show_int i @ rest))"
    by (auto simp: show_int_def hd_append) (simp add: is_space_def)
qed

lemma dropWhile_hd: "\<not> P (hd xs) \<Longrightarrow> dropWhile P xs = xs"
  by (cases xs) auto

lemma match_versions_message:
  "match_versions (''actual '' @ show_int a @ '', expected '' @ show_int b)
     = Some (show_int a, show_int b)"
proof -
  have sp: "is_space (CHR '' '')" by (simp add: is_space_def)
  have 1: "skip_text ''actual'' (''actual '' @ show_int a @ '', expected '' @ show_int b)
      = Some ('' '' @ show_int a @ '', expected '' @ show_int b)"
    by (simp add: skip_text_def)
  have 2: "skip_spaces1 ('' '' @ show_int a @ '', expected '' @ show_int b)
      = Some (show_int a @ '', expected '' @ show_int b)"
    using sp show_int_not_space [of a "'', expected '' @ show_int b"]
    by (simp add: skip_spaces1_def dropWhile_hd del: append_assoc)
  have 3: "int_token (show_int a @ '', expected '' @ show_int b)
      = Some (show_int a, '', expected '' @ show_int b)"
    by (rule int_token_show_int) simp
  have 4: "skip_text '','' ('', expected '' @ show_int b) = Some ('' expected '' @ show_int b)"
    by (simp add: skip_text_def)
  have 5: "dropWhile is_space ('' expected '' @ show_int b) = ''expected '' @ show_int b"
    by (simp add: is_space_def)
  have 6: "skip_text ''expected'' (''expected '' @ show_int b) = Some ('' '' @ show_int b)"
    by (simp add: skip_text_def)
  have 7: "skip_spaces1 ('' '' @ show_int b) = Some (show_int b)"
    using sp show_int_not_space [of b "[]"] by (simp add: skip_spaces1_def dropWhile_hd)
  have 8: "int_token (show_int b) = Some (show_int b, [])"
    using int_token_show_int [of "[]" b] by simp
  show ?thesis
    unfolding match_versions_def 1 bind.bind_lunit 2 3 prod.case 4 5 6 7 8 ..
qed

section \<open>mapPgError\<close>

text \<open>What the call site knows: \<open>MapPgErrorContext\<close>.\<close>

record err_ctx =
  ctx_streamUuid :: "string option"
  ctx_subscriptionName :: "string option"
  ctx_sourceUuid :: "string option"
  ctx_partitionKey :: "string option"
  ctx_eventNumber :: "int option"

definition no_ctx :: err_ctx where
  "no_ctx = \<lparr>ctx_streamUuid = None, ctx_subscriptionName = None, ctx_sourceUuid = None,
             ctx_partitionKey = None, ctx_eventNumber = None\<rparr>"

text \<open>
  \<open>mapPgError\<close>: a value without a (non-empty) \<open>code\<close> and a code outside the catalogue pass through
  unchanged; the others become the class of their SQLSTATE, with the original as \<open>cause\<close>.
\<close>

definition mapPgError :: "thrown \<Rightarrow> err_ctx \<Rightarrow> thrown" where
  "mapPgError err ctx =
     (if \<not> is_object err then err
      else case code_of err of
        None \<Rightarrow> err
      | Some code \<Rightarrow>
         (let msg = (case message_of err of Some m \<Rightarrow> m | None \<Rightarrow> ''instructed error '' @ code);
              mk = (\<lambda>c fields. Err c msg (Some code) (detail_of err) (hint_of err) fields (Some err))
          in if code = '''' then err
             else if code = ''IS001'' then
               (case parseWrongExpectedVersion (message_of err) of
                  (a, b) \<Rightarrow> mk WrongExpectedVersion (VersionFields a b))
             else if code = ''IS002'' then mk StreamExists (StreamField (ctx_streamUuid ctx))
             else if code = ''IS003'' then mk StreamNotFound (StreamField (ctx_streamUuid ctx))
             else if code = ''IS004'' then mk DuplicateEvent NoFields
             else if code = ''IS005'' then mk ReservedStreamUuid (StreamField (ctx_streamUuid ctx))
             else if code = ''IS006'' then mk AppendOnlyViolation NoFields
             else if code = ''IS010'' then mk SnapshotNotFound (SourceField (ctx_sourceUuid ctx))
             else if code = ''IS020'' then
               mk SubscriptionNotFound (SubFields (ctx_streamUuid ctx) (ctx_subscriptionName ctx))
             else if code = ''IS021'' then
               mk SubscriptionAlreadyClaimed (SubFields (ctx_streamUuid ctx) (ctx_subscriptionName ctx))
             else if code = ''IS022'' then
               mk SubscriptionLeaseLost (SubFields (ctx_streamUuid ctx) (ctx_subscriptionName ctx))
             else if code = ''IS030'' then
               mk WorkItemLeaseLost (ItemFields (ctx_streamUuid ctx) (ctx_subscriptionName ctx)
                  (ctx_partitionKey ctx) (ctx_eventNumber ctx))
             else if code = ''22023'' then mk InvalidParameterValue NoFields
             else err))"

end
