(* ===== verification/Types.thy ===== *)
theory Types
  imports Errors
begin

text \<open>
  The wire shapes of the SDK (sdks/typescript/src/types/*.ts), the values the Postgres driver puts
  in a result row, and the two boundary files of the client: client/row-mappers.ts (rows to typed
  values) and client/pack-event.ts (typed values to procedure parameters). An \<open>option\<close> field is an
  optional member; \<open>bigint\<close> is \<open>int\<close>, a JavaScript number is \<open>rat\<close>, a \<open>Date\<close> its
  milliseconds (\<open>None\<close> for an Invalid Date).
\<close>

section \<open>Numbers\<close>

definition is_int :: "rat \<Rightarrow> bool" where
  "is_int r \<longleftrightarrow> of_int \<lfloor>r\<rfloor> = r"

lemma is_int_of_int [simp]: "is_int (of_int i)"
  by (simp add: is_int_def)

text \<open>A number where the source guards against the values that are not finite.\<close>

datatype js_num = Fin rat | Infinity | NegInfinity | NaN

fun isFinite :: "js_num \<Rightarrow> bool" where
  "isFinite (Fin _) = True"
| "isFinite _ = False"

fun isInteger :: "js_num \<Rightarrow> bool" where
  "isInteger (Fin r) = is_int r"
| "isInteger _ = False"

text \<open>\<open>n <= 0\<close> and \<open>n < k\<close>: every comparison with NaN is false.\<close>

fun num_less :: "js_num \<Rightarrow> rat \<Rightarrow> bool" where
  "num_less (Fin r) k = (r < k)"
| "num_less NegInfinity k = True"
| "num_less _ k = False"

fun num_le :: "js_num \<Rightarrow> rat \<Rightarrow> bool" where
  "num_le (Fin r) k = (r \<le> k)"
| "num_le NegInfinity k = True"
| "num_le _ k = False"

fun num_value :: "js_num \<Rightarrow> rat" where
  "num_value (Fin r) = r"
| "num_value _ = 0"

text \<open>Text of a number in a message; one that is not an integer is written as a fraction.\<close>

definition show_num :: "rat \<Rightarrow> string" where
  "show_num r = (case quotient_of r of
     (p, q) \<Rightarrow> if q = 1 then show_int p else show_int p @ ''/'' @ show_int q)"

fun show_jsnum :: "js_num \<Rightarrow> string" where
  "show_jsnum (Fin r) = show_num r"
| "show_jsnum Infinity = ''Infinity''"
| "show_jsnum NegInfinity = ''-Infinity''"
| "show_jsnum NaN = ''NaN''"

section \<open>Events\<close>

type_synonym date = "int option"

record new_event =
  ne_event_id :: "string option"
  ne_type :: string
  ne_data :: "json option"
  ne_metadata :: "json option"
  ne_causation_id :: "string option"
  ne_correlation_id :: "string option"

record appended_event =
  ae_event_id :: string
  ae_stream_uuid :: string
  ae_stream_version :: int
  ae_event_number :: int
  ae_created_at :: date

record recorded_event =
  re_event_id :: string
  re_event_number :: int
  re_stream_uuid :: string
  re_stream_version :: int
  re_causation_id :: "string option"
  re_correlation_id :: "string option"
  re_metadata :: json
  re_created_at :: date
  re_type :: string
  re_data :: json

datatype expected_version = AnyVersion | NoStream | StreamExistsV | Exact int

text \<open>\<open>BigInt(n)\<close> of a number: only integers convert.\<close>

definition bigint_of_num :: "rat \<Rightarrow> thrown + int" where
  "bigint_of_num r =
     (if is_int r then Inr \<lfloor>r\<rfloor>
      else Inl (range_error ''The number cannot be converted to a BigInt because it is not an integer''))"

definition expected_exact :: "int + rat \<Rightarrow> thrown + expected_version" where
  "expected_exact v = (case v of Inl i \<Rightarrow> Inr (Exact i) | Inr r \<Rightarrow> bind_sum (bigint_of_num r) (\<lambda>i. Inr (Exact i)))"

record command =
  cmd_type :: string
  cmd_body :: json

section \<open>Snapshots, subscriptions, work items\<close>

record snapshot_input =
  si_source_uuid :: string
  si_source_type :: string
  si_source_version :: int
  si_data :: json
  si_metadata :: "json option"

record snapshot =
  sn_source_uuid :: string
  sn_source_type :: string
  sn_source_version :: int
  sn_data :: json
  sn_metadata :: json
  sn_created_at :: date

datatype claim_result =
    Claimed (cl_last_seen: int) (cl_claimed_by: string) (cl_expires_at: date)
  | AlreadyClaimed (ac_last_seen: int) (ac_claimed_by: "string option") (ac_expires_at: "date option")

datatype start_from = FromOrigin | FromCurrent | FromBig int | FromNum rat

record route_decision =
  rd_partition_key :: string
  rd_event_number :: int

record route_batch_result =
  rb_inserted_count :: int
  rb_new_last_seen :: int

record claimed_work_item =
  cw_partition_key :: string
  cw_event_number :: int
  cw_claimed_by :: string
  cw_lease_expires_at :: date
  cw_was_takeover :: bool
  cw_prior_claimed_by :: "string option"

record complete_pm_instance_result =
  cp_work_items_deleted :: int
  cp_snapshot_deleted :: bool

section \<open>Driver values\<close>

text \<open>
  A column of a result row as the \<open>pg\<close> driver hands it over: an \<open>int8\<close> arrives as text (or as a
  number under another type configuration), a \<open>timestamptz\<close> as a \<open>Date\<close> (or as text), \<open>jsonb\<close>
  as the parsed value.
\<close>

datatype cell =
    CUndefined
  | CNull
  | CBool bool
  | CNum rat
  | CBig int
  | CStr string
  | CDate int
  | CJson json

fun cell_typeof :: "cell \<Rightarrow> string" where
  "cell_typeof CUndefined = ''undefined''"
| "cell_typeof CNull = ''object''"
| "cell_typeof (CBool _) = ''boolean''"
| "cell_typeof (CNum _) = ''number''"
| "cell_typeof (CBig _) = ''bigint''"
| "cell_typeof (CStr _) = ''string''"
| "cell_typeof (CDate _) = ''object''"
| "cell_typeof (CJson j) =
     (if json_typeof j = ''null'' \<or> json_typeof j = ''array'' then ''object'' else json_typeof j)"

text \<open>\<open>String(v)\<close>; arrays are joined with commas, an object has no text of its own.\<close>

function js_string :: "json \<Rightarrow> string" where
  "js_string JNull = ''null''"
| "js_string (JBool b) = (if b then ''true'' else ''false'')"
| "js_string (JNum r) = show_num r"
| "js_string (JStr s) = s"
| "js_string (JArr vs) =
     concat (case map (\<lambda>v. if v = JNull then [] else js_string v) vs of
               [] \<Rightarrow> [] | t # ts \<Rightarrow> t # map (\<lambda>u. CHR '','' # u) ts)"
| "js_string (JObj _) = ''[object Object]''"
  by pat_completeness auto
termination
  by (relation "measure size") (auto simp: less_Suc_eq_le size_list_estimation')

fun cell_string :: "cell \<Rightarrow> string" where
  "cell_string CUndefined = ''undefined''"
| "cell_string CNull = ''null''"
| "cell_string (CBool b) = (if b then ''true'' else ''false'')"
| "cell_string (CNum r) = show_num r"
| "cell_string (CBig i) = show_int i"
| "cell_string (CStr s) = s"
| "cell_string (CDate t) = ''Date('' @ show_int t @ '')''"
| "cell_string (CJson j) = js_string j"

section \<open>Row mapping\<close>

text \<open>
  \<open>BigInt(s)\<close> of a text: surrounding white space is dropped, the empty text is 0, a sign may precede
  decimal digits; the prefixes 0x, 0o and 0b are not decimal and are read in their base.
\<close>

definition trim :: "string \<Rightarrow> string" where
  "trim s = rev (dropWhile is_space (rev (dropWhile is_space s)))"

definition base_digit :: "nat \<Rightarrow> char \<Rightarrow> nat option" where
  "base_digit b c =
     (let n = of_char c :: nat;
          d = (if 48 \<le> n \<and> n \<le> 57 then n - 48
               else if 97 \<le> n \<and> n \<le> 102 then n - 87
               else if 65 \<le> n \<and> n \<le> 70 then n - 55 else 99)
      in if d < b then Some d else None)"

fun base_value :: "nat \<Rightarrow> nat \<Rightarrow> string \<Rightarrow> nat option" where
  "base_value b acc [] = Some acc"
| "base_value b acc (c # cs) =
     (case base_digit b c of None \<Rightarrow> None | Some d \<Rightarrow> base_value b (b * acc + d) cs)"

definition bigint_of_string :: "string \<Rightarrow> thrown + int" where
  "bigint_of_string s =
     (let t = trim s;
          syntax = Inl (Err C_SyntaxError (''Cannot convert '' @ s @ '' to a BigInt'')
                          None None None NoFields None);
          based = (\<lambda>b ds. if ds = [] then syntax
                          else case base_value b 0 ds of None \<Rightarrow> syntax | Some n \<Rightarrow> Inr (int n))
      in if t = [] then Inr 0
         else if take 2 t \<in> {''0x'', ''0X''} then based 16 (drop 2 t)
         else if take 2 t \<in> {''0o'', ''0O''} then based 8 (drop 2 t)
         else if take 2 t \<in> {''0b'', ''0B''} then based 2 (drop 2 t)
         else if hd t = CHR ''+'' then
           (case tl t of [] \<Rightarrow> syntax
            | c # cs \<Rightarrow> (case digits_value 0 (c # cs) of None \<Rightarrow> syntax | Some n \<Rightarrow> Inr (int n)))
         else (case read_int t of None \<Rightarrow> syntax | Some i \<Rightarrow> Inr i))"

fun toBigInt :: "cell \<Rightarrow> thrown + int" where
  "toBigInt (CBig i) = Inr i"
| "toBigInt (CNum r) = bigint_of_num r"
| "toBigInt (CStr s) = bigint_of_string s"
| "toBigInt (CJson (JNum r)) = bigint_of_num r"
| "toBigInt (CJson (JStr s)) = bigint_of_string s"
| "toBigInt v = Inl (js_error (''expected bigint-like, got '' @ cell_typeof v @ '': '' @ cell_string v))"

text \<open>
  \<open>new Date(text)\<close> for the one date-time format the language fixes,
  \<open>YYYY-MM-DDTHH:mm:ss.sssZ\<close>: milliseconds since 1970-01-01. \<open>None\<close> is an Invalid Date.
\<close>

definition days_from_civil :: "int \<Rightarrow> int \<Rightarrow> int \<Rightarrow> int" where
  "days_from_civil y m d =
     (let y' = (if m \<le> 2 then y - 1 else y);
          yoe = y' mod 400;
          doy = (153 * ((m + 9) mod 12) + 2) div 5 + d - 1;
          doe = yoe * 365 + yoe div 4 - yoe div 100 + doy
      in (y' div 400) * 146097 + doe - 719468)"

definition date_field :: "string \<Rightarrow> nat \<Rightarrow> nat \<Rightarrow> nat \<Rightarrow> nat \<Rightarrow> int option" where
  "date_field s from len lo hi =
     (case digits_value 0 (take len (drop from s)) of
        None \<Rightarrow> None
      | Some n \<Rightarrow> if lo \<le> n \<and> n \<le> hi then Some (int n) else None)"

definition date_parse :: "string \<Rightarrow> date" where
  "date_parse s =
     (if length s = 24 \<and> s ! 4 = CHR ''-'' \<and> s ! 7 = CHR ''-'' \<and> s ! 10 = CHR ''T''
         \<and> s ! 13 = CHR '':'' \<and> s ! 16 = CHR '':'' \<and> s ! 19 = CHR ''.'' \<and> s ! 23 = CHR ''Z''
      then (case (date_field s 0 4 0 9999, date_field s 5 2 1 12, date_field s 8 2 1 31,
                  date_field s 11 2 0 23, date_field s 14 2 0 59, date_field s 17 2 0 59,
                  date_field s 20 3 0 999) of
              (Some y, Some mo, Some d, Some h, Some mi, Some sc, Some ms) \<Rightarrow>
                Some ((((days_from_civil y mo d * 24 + h) * 60 + mi) * 60 + sc) * 1000 + ms)
            | _ \<Rightarrow> None)
      else None)"

fun toDate :: "cell \<Rightarrow> thrown + date" where
  "toDate (CDate t) = Inr (Some t)"
| "toDate (CStr s) = Inr (date_parse s)"
| "toDate v = Inl (js_error (''expected Date, got '' @ cell_typeof v))"

lemma date_parse_epoch: "date_parse ''1970-01-01T00:00:00.000Z'' = Some 0"
  by code_simp

lemma date_parse_2000: "date_parse ''2000-03-01T12:30:00.250Z'' = Some 951913800250"
  by code_simp

record raw_event_row =
  rw_event_id :: string
  rw_event_number :: cell
  rw_stream_uuid :: string
  rw_stream_version :: cell
  rw_event_type :: string
  rw_causation_id :: "string option"
  rw_correlation_id :: "string option"
  rw_data :: json
  rw_metadata :: json
  rw_created_at :: cell

definition READ_EVENT_COLUMNS :: "string list" where
  "READ_EVENT_COLUMNS =
     [''event_id'', ''event_number'', ''stream_uuid'', ''stream_version'', ''event_type'',
      ''causation_id'', ''correlation_id'', ''data'', ''metadata'', ''created_at'']"

definition mapRecordedEvent :: "raw_event_row \<Rightarrow> thrown + recorded_event" where
  "mapRecordedEvent row =
     bind_sum (toBigInt (rw_event_number row)) (\<lambda>en.
     bind_sum (toBigInt (rw_stream_version row)) (\<lambda>sv.
     bind_sum (toDate (rw_created_at row)) (\<lambda>ts.
       Inr \<lparr>re_event_id = rw_event_id row, re_event_number = en, re_stream_uuid = rw_stream_uuid row,
            re_stream_version = sv, re_causation_id = rw_causation_id row,
            re_correlation_id = rw_correlation_id row, re_metadata = rw_metadata row,
            re_created_at = ts, re_type = rw_event_type row, re_data = rw_data row\<rparr>)))"

section \<open>Packing\<close>

text \<open>A member whose value is \<open>undefined\<close> is dropped by \<open>JSON.stringify\<close>.\<close>

definition opt_member :: "string \<Rightarrow> json option \<Rightarrow> (string \<times> json) list" where
  "opt_member k v = (case v of None \<Rightarrow> [] | Some j \<Rightarrow> [(k, j)])"

definition packEvent :: "new_event \<Rightarrow> (string \<times> json) list" where
  "packEvent e =
     opt_member ''event_id'' (map_option JStr (ne_event_id e))
     @ [(''event_type'', JStr (ne_type e)),
        (''data'', case ne_data e of None \<Rightarrow> JNull | Some d \<Rightarrow> d)]
     @ opt_member ''metadata'' (ne_metadata e)
     @ opt_member ''causation_id'' (map_option JStr (ne_causation_id e))
     @ opt_member ''correlation_id'' (map_option JStr (ne_correlation_id e))"

fun expectedVersionParams :: "expected_version \<Rightarrow> string \<times> string option" where
  "expectedVersionParams AnyVersion = (''any'', None)"
| "expectedVersionParams NoStream = (''no_stream'', None)"
| "expectedVersionParams StreamExistsV = (''stream_exists'', None)"
| "expectedVersionParams (Exact v) = (''exact'', Some (show_int v))"

section \<open>Lemmas on the row mapping\<close>

lemma trim_id: "s \<noteq> [] \<Longrightarrow> \<not> is_space (hd s) \<Longrightarrow> \<not> is_space (last s) \<Longrightarrow> trim s = s"
  by (simp add: trim_def dropWhile_hd hd_rev)

lemma digit_not_space: "is_digit c \<Longrightarrow> \<not> is_space c"
  by (auto simp: is_digit_def char_digit_def is_space_def Let_def split: if_splits)

lemma last_show_int: "is_digit (last (show_int i))"
  using show_nat_digits [of "nat i"] show_nat_digits [of "nat (- i)"]
  by (simp add: show_int_def)

lemma take2_show_int: "take 2 (show_int i) \<notin> {[a, b] |a b. \<not> is_digit b}"
proof -
  have d: "\<forall>c \<in> set (show_nat n). is_digit c" for n by (rule show_nat_digits)
  show ?thesis
  proof (cases "i < 0")
    case True
    obtain c cs where c: "show_nat (nat (- i)) = c # cs" by (cases "show_nat (nat (- i))") auto
    with d [of "nat (- i)"] True show ?thesis by (simp add: show_int_def)
  next
    case False
    obtain c cs where c: "show_nat (nat i) = c # cs" by (cases "show_nat (nat i)") auto
    with d [of "nat i"] False show ?thesis
      by (cases cs) (auto simp: show_int_def)
  qed
qed

lemma bigint_of_string_show_int [simp]: "bigint_of_string (show_int i) = Inr i"
proof -
  have ne: "show_int i \<noteq> []" using show_int_not_space [of i "[]"] by simp
  have t: "trim (show_int i) = show_int i"
    using show_int_not_space [of i "[]"] last_show_int digit_not_space by (intro trim_id) auto
  have pre: "take 2 (show_int i) \<noteq> [a, b]" if "\<not> is_digit b" for a b
    using take2_show_int [of i] that by blast
  have nd: "\<not> is_digit (CHR ''x'')" "\<not> is_digit (CHR ''X'')" "\<not> is_digit (CHR ''o'')"
    "\<not> is_digit (CHR ''O'')" "\<not> is_digit (CHR ''b'')" "\<not> is_digit (CHR ''B'')"
    by (simp_all add: is_digit_def char_digit_def)
  have "hd (show_nat n) \<noteq> CHR ''+''" for n
  proof -
    have "is_digit (hd (show_nat n))" by (meson hd_in_set show_nat_digits show_nat_not_Nil)
    moreover have "\<not> is_digit (CHR ''+'')" by (simp add: is_digit_def char_digit_def)
    ultimately show ?thesis by metis
  qed
  then have hd: "hd (show_int i) \<noteq> CHR ''+''" by (simp add: show_int_def)
  show ?thesis using ne hd nd by (simp add: bigint_of_string_def t pre Let_def)
qed

lemma toBigInt_text [simp]: "toBigInt (CStr (show_int i)) = Inr i"
  by simp

end
