(* ===== verification/Sql_Events.thy ===== *)
theory Sql_Events
  imports Types
begin

text \<open>
  The event half of sql/instructed.sql: the tables of the \<open>instructed\<close> schema and the procedures
  append_to_stream, read_stream, read_all, record_snapshot, read_snapshot, delete_snapshot. A
  procedure maps its arguments (\<open>None\<close> is SQL's NULL) and the database to the error it raises (the
  transaction is rolled back, so there is no new database) or to its result rows and the new
  database. A procedure runs as one step: the row locks it takes serialise it against the others.
\<close>

section \<open>Tables\<close>

record stream_row =
  s_id :: nat
  s_uuid :: string
  s_version :: nat
  s_created :: int

record event_row =
  e_id :: string
  e_type :: string
  e_causation :: "string option"
  e_correlation :: "string option"
  e_data :: json
  e_metadata :: "json option"
  e_created :: int

record link_row =
  l_event :: string
  l_stream :: nat
  l_version :: nat
  l_orig_stream :: nat
  l_orig_version :: nat

record snapshot_row =
  n_source_uuid :: string
  n_source_type :: string
  n_source_version :: nat
  n_data :: json
  n_metadata :: "json option"
  n_created :: int

record sub_row =
  b_stream :: nat
  b_name :: string
  b_last_seen :: nat
  b_claimed_by :: "string option"
  b_expires :: "int option"
  b_created :: int

datatype item_state = Pending | ClaimedS | Failed | Done

record item_row =
  i_stream :: nat
  i_sub :: string
  i_partition :: string
  i_event :: int
  i_state :: item_state
  i_claimed_by :: "string option"
  i_lease :: "int option"
  i_failed_at :: "int option"
  i_error :: "string option"

text \<open>The schema with its server clock (milliseconds).\<close>

record db =
  streams :: "stream_row list"
  events :: "event_row list"
  links :: "link_row list"
  snaps :: "snapshot_row list"
  subs :: "sub_row list"
  items :: "item_row list"
  now :: int

definition all_uuid :: string where
  "all_uuid = ''$all''"

text \<open>The database right after installation: the seed row of the global stream and nothing else.\<close>

definition initial_db :: "int \<Rightarrow> db" where
  "initial_db t =
     \<lparr>streams = [\<lparr>s_id = 0, s_uuid = all_uuid, s_version = 0, s_created = t\<rparr>], events = [],
      links = [], snaps = [], subs = [], items = [], now = t\<rparr>"

section \<open>Errors and input conversions\<close>

abbreviation pg :: "string \<Rightarrow> string \<Rightarrow> pg_error" where
  "pg code msg \<equiv> \<lparr>pg_code = Some code, pg_message = Some msg, pg_detail = None, pg_hint = None\<rparr>"

definition coalesce :: "string \<Rightarrow> string option \<Rightarrow> string" where
  "coalesce d v = (case v of None \<Rightarrow> d | Some x \<Rightarrow> x)"

text \<open>\<open>p is null or p < 0\<close>, and \<open>p is null or p = ''\<close>.\<close>

definition null_or_neg :: "int option \<Rightarrow> bool" where
  "null_or_neg v = (case v of None \<Rightarrow> True | Some i \<Rightarrow> i < 0)"

definition null_or_empty :: "string option \<Rightarrow> bool" where
  "null_or_empty v = (case v of None \<Rightarrow> True | Some s \<Rightarrow> s = [])"

text \<open>
  Input of type \<open>uuid\<close>: 32 hex digits in either case, a hyphen allowed after each group of four,
  optionally in braces. The value is its canonical lower-case text.
\<close>

definition hex_lower :: "char \<Rightarrow> char option" where
  "hex_lower c =
     (let n = of_char c :: nat
      in if (48 \<le> n \<and> n \<le> 57) \<or> (97 \<le> n \<and> n \<le> 102) then Some c
         else if 65 \<le> n \<and> n \<le> 70 then Some (char_of (n + 32)) else None)"

fun uuid_digits :: "nat \<Rightarrow> string \<Rightarrow> (string \<times> string) option" where
  "uuid_digits k [] = (if k = 32 then Some ([], []) else None)"
| "uuid_digits k (c # cs) =
     (if k = 32 then Some ([], c # cs)
      else if c = CHR ''-'' \<and> k mod 4 = 0 \<and> 0 < k then
        (case cs of [] \<Rightarrow> None
         | d # ds \<Rightarrow> (case hex_lower d of None \<Rightarrow> None
             | Some h \<Rightarrow> map_option (\<lambda>(hs, r). (h # hs, r)) (uuid_digits (Suc k) ds)))
      else (case hex_lower c of None \<Rightarrow> None
             | Some h \<Rightarrow> map_option (\<lambda>(hs, r). (h # hs, r)) (uuid_digits (Suc k) cs)))"

definition uuid_text :: "string \<Rightarrow> string" where
  "uuid_text h = take 8 h @ ''-'' @ take 4 (drop 8 h) @ ''-'' @ take 4 (drop 12 h) @ ''-''
                 @ take 4 (drop 16 h) @ ''-'' @ drop 20 h"

definition uuid_in :: "string \<Rightarrow> string option" where
  "uuid_in s =
     (let braced = (s \<noteq> [] \<and> hd s = CHR ''{'')
      in case uuid_digits 0 (if braced then tl s else s) of
           None \<Rightarrow> None
         | Some (h, rest) \<Rightarrow> if rest = (if braced then ''}'' else []) then Some (uuid_text h) else None)"

definition uuid_error :: "string \<Rightarrow> pg_error" where
  "uuid_error s = pg ''22P02'' (''invalid input syntax for type uuid: '' @ s)"

text \<open>
  \<open>nullif(evt->>k, '')::uuid\<close>: NULL for a missing member, JSON null and the empty text. Of the values
  that are not texts only a whole number of 32 digits can be a uuid.
\<close>

definition uuid_member :: "string \<Rightarrow> json \<Rightarrow> pg_error + string option" where
  "uuid_member k evt =
     (let cast = (\<lambda>s. if s = [] then Inr None
                      else case uuid_in s of None \<Rightarrow> Inl (uuid_error s) | Some u \<Rightarrow> Inr (Some u))
      in case json_get k evt of
           None \<Rightarrow> Inr None
         | Some JNull \<Rightarrow> Inr None
         | Some (JStr s) \<Rightarrow> cast s
         | Some (JNum r) \<Rightarrow> cast (show_num r)
         | Some v \<Rightarrow> Inl (uuid_error (js_string v)))"

section \<open>append_to_stream\<close>

definition find_stream :: "string \<Rightarrow> db \<Rightarrow> stream_row option" where
  "find_stream u d = find (\<lambda>s. s_uuid s = u) (streams d)"

text \<open>\<open>update streams set stream_version = stream_version + n where stream_id = k\<close>\<close>

definition bump_stream :: "nat \<Rightarrow> nat \<Rightarrow> db \<Rightarrow> db" where
  "bump_stream k n d =
     d\<lparr>streams := map (\<lambda>s. if s_id s = k then s\<lparr>s_version := s_version s + n\<rparr> else s) (streams d)\<rparr>"

text \<open>An identity not in use.\<close>

definition next_stream_id :: "db \<Rightarrow> nat" where
  "next_stream_id d = Suc (fold max (map s_id (streams d)) 0)"

definition insert_stream :: "string \<Rightarrow> nat \<Rightarrow> db \<Rightarrow> db" where
  "insert_stream u n d =
     d\<lparr>streams := streams d @ [\<lparr>s_id = next_stream_id d, s_uuid = u, s_version = n, s_created = now d\<rparr>]\<rparr>"

text \<open>The element check of the input validation, in SQL's three-valued logic: NULL is not TRUE.\<close>

definition bad_event_shape :: "json \<Rightarrow> bool" where
  "bad_event_shape evt \<longleftrightarrow>
     \<not> json_has ''event_id'' evt \<or> \<not> json_has ''event_type'' evt \<or> \<not> json_has ''data'' evt
     \<or> (case json_get ''event_type'' evt of None \<Rightarrow> False | Some v \<Rightarrow> json_typeof v \<noteq> ''string'')
     \<or> (case json_get ''event_id'' evt of None \<Rightarrow> False | Some v \<Rightarrow> json_typeof v \<noteq> ''string'')"

definition bad_event_id :: "json \<Rightarrow> bool" where
  "bad_event_id evt \<longleftrightarrow>
     (case json_get ''event_id'' evt of Some (JStr s) \<Rightarrow> uuid_in s = None | _ \<Rightarrow> False)"

definition append_check ::
  "string option \<Rightarrow> string option \<Rightarrow> int option \<Rightarrow> json option \<Rightarrow> pg_error + json list" where
  "append_check su vt ver evs =
     guard_sum (su = None) (pg ''22023'' ''append_to_stream: p_stream_uuid is null'')
    (guard_sum (su = Some all_uuid) (pg ''IS005'' ''append_to_stream: stream_uuid '$all' is reserved'')
    (guard_sum (vt = None \<or> the vt \<notin> {''any'', ''no_stream'', ''stream_exists'', ''exact''})
       (pg ''22023'' (''append_to_stream: invalid p_expected_version_type: '' @ coalesce ''<null>'' vt))
    (guard_sum (vt = Some ''exact'' \<and> null_or_neg ver)
       (pg ''22023'' (''append_to_stream: p_expected_version must be a non-negative integer for 'exact'' @ [CHR 0x27]))
    (case evs of
       Some (JArr (x # xs)) \<Rightarrow>
         guard_sum (\<exists>evt \<in> set (x # xs). bad_event_shape evt)
           (pg ''22023'' ''append_to_stream: each event must have event_id, event_type, data'')
        (guard_sum (\<exists>evt \<in> set (x # xs). bad_event_id evt)
           (pg ''22023'' ''append_to_stream: malformed event_id (must be UUID)'')
        (Inr (x # xs)))
     | _ \<Rightarrow> Inl (pg ''22023'' ''append_to_stream: p_events must be a non-empty JSON array'')))))"

text \<open>Step (1): the target stream's row, its id and its version before this batch.\<close>

definition append_resolve :: "string \<Rightarrow> string \<Rightarrow> int \<Rightarrow> nat \<Rightarrow> db \<Rightarrow> pg_error + (nat \<times> nat \<times> db)" where
  "append_resolve u vt ver n d =
     (case find_stream u d of
        Some s \<Rightarrow>
          (if vt = ''no_stream'' then
             Inl (pg ''IS002'' (''append_to_stream: stream '' @ u @ '' already exists''))
           else if vt = ''exact'' \<and> int (s_version s) \<noteq> ver then
             Inl (pg ''IS001'' (''append_to_stream: wrong expected version: actual ''
               @ show_int (int (s_version s)) @ '', expected '' @ show_int ver))
           else Inr (s_id s, s_version s, bump_stream (s_id s) n d))
      | None \<Rightarrow>
          (if vt = ''stream_exists'' then
             Inl (pg ''IS003'' (''append_to_stream: stream '' @ u @ '' does not exist''))
           else if vt = ''exact'' \<and> ver \<noteq> 0 then
             Inl (pg ''IS001'' (''append_to_stream: stream '' @ u @ '' does not exist (expected version ''
               @ show_int ver @ '')''))
           else Inr (next_stream_id d, 0, insert_stream u n d)))"

text \<open>The rows of steps (3) and (4).\<close>

definition new_event_row :: "int \<Rightarrow> json \<Rightarrow> pg_error + event_row" where
  "new_event_row t evt =
     bind_sum (uuid_member ''event_id'' evt) (\<lambda>eid.
     bind_sum (uuid_member ''causation_id'' evt) (\<lambda>ca.
     bind_sum (uuid_member ''correlation_id'' evt) (\<lambda>co.
       (case (eid, json_get ''event_type'' evt) of
          (Some i, Some (JStr ty)) \<Rightarrow>
            Inr \<lparr>e_id = i, e_type = ty, e_causation = ca, e_correlation = co,
                 e_data = (case json_get ''data'' evt of None \<Rightarrow> JNull | Some v \<Rightarrow> v),
                 e_metadata = json_get ''metadata'' evt, e_created = t\<rparr>
        | _ \<Rightarrow> Inl (pg ''23502'' ''null value in column of relation events violates not-null constraint'')))))"

definition origin_links :: "nat \<Rightarrow> nat \<Rightarrow> event_row list \<Rightarrow> link_row list" where
  "origin_links k bv evs =
     map (\<lambda>(i, e). \<lparr>l_event = e_id e, l_stream = k, l_version = bv + Suc i,
                    l_orig_stream = k, l_orig_version = bv + Suc i\<rparr>) (enumerate 0 evs)"

definition all_links :: "nat \<Rightarrow> nat \<Rightarrow> nat \<Rightarrow> event_row list \<Rightarrow> link_row list" where
  "all_links k bv bn evs =
     map (\<lambda>(i, e). \<lparr>l_event = e_id e, l_stream = 0, l_version = bn + Suc i,
                    l_orig_stream = k, l_orig_version = bv + Suc i\<rparr>) (enumerate 0 evs)"

record append_row =
  a_event_id :: string
  a_stream_version :: nat
  a_event_number :: nat
  a_created :: int

definition append_rows :: "nat \<Rightarrow> nat \<Rightarrow> event_row list \<Rightarrow> append_row list" where
  "append_rows bv bn evs =
     map (\<lambda>(i, e). \<lparr>a_event_id = e_id e, a_stream_version = bv + Suc i, a_event_number = bn + Suc i,
                    a_created = e_created e\<rparr>) (enumerate 0 evs)"

text \<open>The two unique constraints the exception block tells apart.\<close>

definition duplicate_ids :: "event_row list \<Rightarrow> db \<Rightarrow> bool" where
  "duplicate_ids evs d \<longleftrightarrow>
     \<not> distinct (map e_id evs) \<or> (\<exists>e \<in> set evs. e_id e \<in> e_id ` set (events d))"

definition version_taken :: "link_row list \<Rightarrow> db \<Rightarrow> bool" where
  "version_taken ls d \<longleftrightarrow>
     (\<exists>l \<in> set ls. \<exists>m \<in> set (links d). l_stream m = l_stream l \<and> l_version m = l_version l)"

definition append_insert :: "nat \<Rightarrow> nat \<Rightarrow> json list \<Rightarrow> db \<Rightarrow> pg_error + (append_row list \<times> db)" where
  "append_insert k bv evs d =
     (case find (\<lambda>s. s_id s = 0) (streams d) of
        None \<Rightarrow> Inl (pg ''23502'' ''null value in column stream_version violates not-null constraint'')
      | Some a \<Rightarrow>
          (let bn = s_version a; n = length evs; d1 = bump_stream 0 n d
           in bind_sum (map_sum_list (new_event_row (now d)) evs) (\<lambda>rows.
              (if duplicate_ids rows d then Inl (pg ''IS004'' ''append_to_stream: duplicate event_id'')
               else if version_taken (origin_links k bv rows @ all_links k bv bn rows) d then
                 Inl (pg ''IS001'' ''append_to_stream: wrong expected version (concurrent append)'')
               else Inr (append_rows bv bn rows,
                 d1\<lparr>events := events d1 @ rows,
                    links := links d1 @ origin_links k bv rows @ all_links k bv bn rows\<rparr>)))))"

definition append_to_stream ::
  "string option \<Rightarrow> string option \<Rightarrow> int option \<Rightarrow> json option \<Rightarrow> json option \<Rightarrow> db
     \<Rightarrow> pg_error + (append_row list \<times> db)" where
  "append_to_stream su vt ver evs opts d =
     bind_sum (append_check su vt ver evs) (\<lambda>es.
     bind_sum (append_resolve (the su) (the vt) (case ver of None \<Rightarrow> 0 | Some v \<Rightarrow> v) (length es) d)
       (\<lambda>(k, bv, d1). append_insert k bv es d1))"

section \<open>read_stream and read_all\<close>

record event_out =
  o_event_id :: string
  o_event_number :: nat
  o_stream_uuid :: string
  o_stream_version :: nat
  o_event_type :: string
  o_causation :: "string option"
  o_correlation :: "string option"
  o_data :: json
  o_metadata :: "json option"
  o_created :: int

definition out_row :: "nat \<Rightarrow> string \<Rightarrow> nat \<Rightarrow> event_row \<Rightarrow> event_out" where
  "out_row en u sv e =
     \<lparr>o_event_id = e_id e, o_event_number = en, o_stream_uuid = u, o_stream_version = sv,
      o_event_type = e_type e, o_causation = e_causation e, o_correlation = e_correlation e,
      o_data = e_data e, o_metadata = e_metadata e, o_created = e_created e\<rparr>"

definition stream_query :: "string \<Rightarrow> nat \<Rightarrow> int \<Rightarrow> db \<Rightarrow> event_out list" where
  "stream_query u k from d =
     sort_key o_stream_version
       [out_row (l_version al) u (l_version se) e.
          se \<leftarrow> filter (\<lambda>l. l_stream l = k \<and> from \<le> int (l_version l)) (links d),
          e \<leftarrow> filter (\<lambda>e. e_id e = l_event se) (events d),
          al \<leftarrow> filter (\<lambda>l. l_event l = l_event se \<and> l_stream l = 0) (links d)]"

definition all_query :: "int \<Rightarrow> db \<Rightarrow> event_out list" where
  "all_query from d =
     sort_key o_event_number
       [out_row (l_version se) (s_uuid orig) (l_orig_version se) e.
          se \<leftarrow> filter (\<lambda>l. l_stream l = 0 \<and> from \<le> int (l_version l)) (links d),
          e \<leftarrow> filter (\<lambda>e. e_id e = l_event se) (events d),
          orig \<leftarrow> filter (\<lambda>s. s_id s = l_orig_stream se) (streams d)]"

definition read_stream ::
  "string option \<Rightarrow> int option \<Rightarrow> int option \<Rightarrow> json option \<Rightarrow> db \<Rightarrow> pg_error + (event_out list \<times> db)" where
  "read_stream su from qty opts d =
     guard_sum (su = None) (pg ''22023'' ''read_stream: p_stream_uuid is null'')
    (guard_sum (su = Some all_uuid)
       (pg ''IS005'' ''read_stream: stream_uuid '$all' is reserved; use read_all'')
    (guard_sum (null_or_neg from)
       (pg ''22023'' ''read_stream: p_from_stream_version must be a non-negative integer'')
    (guard_sum (qty = None \<or> the qty \<le> 0) (pg ''22023'' ''read_stream: p_qty must be a positive integer'')
    (case find_stream (the su) d of
       None \<Rightarrow> Inl (pg ''IS003'' (''read_stream: stream '' @ the su @ '' not found''))
     | Some s \<Rightarrow> Inr (take (nat (the qty)) (stream_query (the su) (s_id s) (the from) d), d)))))"

definition read_all ::
  "int option \<Rightarrow> int option \<Rightarrow> json option \<Rightarrow> db \<Rightarrow> pg_error + (event_out list \<times> db)" where
  "read_all from qty opts d =
     guard_sum (null_or_neg from)
       (pg ''22023'' ''read_all: p_from_event_number must be a non-negative integer'')
    (guard_sum (qty = None \<or> the qty \<le> 0) (pg ''22023'' ''read_all: p_qty must be a positive integer'')
    (Inr (take (nat (the qty)) (all_query (the from) d), d)))"

section \<open>Snapshots\<close>

definition upsert_snapshot ::
  "string \<Rightarrow> string \<Rightarrow> nat \<Rightarrow> json \<Rightarrow> json option \<Rightarrow> db \<Rightarrow> db" where
  "upsert_snapshot u ty v data md d =
     (let row = \<lparr>n_source_uuid = u, n_source_type = ty, n_source_version = v, n_data = data,
                 n_metadata = md, n_created = now d\<rparr>
      in if u \<in> n_source_uuid ` set (snaps d)
         then d\<lparr>snaps := map (\<lambda>r. if n_source_uuid r = u then row else r) (snaps d)\<rparr>
         else d\<lparr>snaps := snaps d @ [row]\<rparr>)"

definition record_snapshot ::
  "string option \<Rightarrow> string option \<Rightarrow> int option \<Rightarrow> json option \<Rightarrow> json option \<Rightarrow> json option \<Rightarrow> db
     \<Rightarrow> pg_error + (unit \<times> db)" where
  "record_snapshot u ty v data md opts d =
     guard_sum (null_or_empty u) (pg ''22023'' ''record_snapshot: p_source_uuid is null/empty'')
    (guard_sum (null_or_empty ty) (pg ''22023'' ''record_snapshot: p_source_type is null/empty'')
    (guard_sum (null_or_neg v)
       (pg ''22023'' ''record_snapshot: p_source_version must be a non-negative integer'')
    (guard_sum (data = None) (pg ''22023'' ''record_snapshot: p_data is null'')
    (Inr ((), upsert_snapshot (the u) (the ty) (nat (the v)) (the data) md d)))))"

definition find_snapshot :: "string \<Rightarrow> db \<Rightarrow> snapshot_row option" where
  "find_snapshot u d = find (\<lambda>r. n_source_uuid r = u) (snaps d)"

definition read_snapshot :: "string option \<Rightarrow> json option \<Rightarrow> db \<Rightarrow> pg_error + (snapshot_row list \<times> db)" where
  "read_snapshot u opts d =
     guard_sum (u = None) (pg ''22023'' ''read_snapshot: p_source_uuid is null'')
    (case find_snapshot (the u) d of
       None \<Rightarrow> Inl (pg ''IS010'' (''read_snapshot: snapshot '' @ the u @ '' not found''))
     | Some r \<Rightarrow> Inr ([r], d))"

definition delete_snapshot :: "string option \<Rightarrow> json option \<Rightarrow> db \<Rightarrow> pg_error + (unit \<times> db)" where
  "delete_snapshot u opts d =
     guard_sum (u = None) (pg ''22023'' ''delete_snapshot: p_source_uuid is null'')
    (Inr ((), d\<lparr>snaps := filter (\<lambda>r. n_source_uuid r \<noteq> the u) (snaps d)\<rparr>))"

end
