(* ===== verification/Event_Store.thy ===== *)
theory Event_Store
  imports Sql_Events
begin

text \<open>
  What the event procedures promise. The store is a global log: \<open>store_log d\<close> is the list of the
  recorded events of the database, in order. The invariant \<open>wf_events\<close> says how the tables hold it
  (ids unique, versions gapless, each event linked into its stream and into \<open>$all\<close>); under it the
  read queries are slices of the log and an append extends it at its end.
\<close>

section \<open>The log a database holds\<close>

definition glinks :: "db \<Rightarrow> link_row list" where
  "glinks d = filter (\<lambda>l. l_stream l = 0) (links d)"

definition uuid_of :: "stream_row list \<Rightarrow> nat \<Rightarrow> string" where
  "uuid_of ss k = (case find (\<lambda>s. s_id s = k) ss of None \<Rightarrow> [] | Some s \<Rightarrow> s_uuid s)"

definition log_row :: "stream_row list \<Rightarrow> link_row \<times> event_row \<Rightarrow> event_out" where
  "log_row ss le = out_row (l_version (fst le)) (uuid_of ss (l_orig_stream (fst le)))
                     (l_orig_version (fst le)) (snd le)"

definition store_log :: "db \<Rightarrow> event_out list" where
  "store_log d = map (log_row (streams d)) (zip (glinks d) (events d))"

definition stream_log :: "string \<Rightarrow> event_out list \<Rightarrow> event_out list" where
  "stream_log u lg = filter (\<lambda>r. o_stream_uuid r = u) lg"

definition relink :: "link_row \<Rightarrow> link_row" where
  "relink l = l\<lparr>l_stream := l_orig_stream l, l_version := l_orig_version l\<rparr>"

definition from_stream :: "nat \<Rightarrow> link_row list \<Rightarrow> link_row list" where
  "from_stream k ls = filter (\<lambda>l. l_orig_stream l = k) ls"

definition wf_streams :: "db \<Rightarrow> bool" where
  "wf_streams d \<longleftrightarrow>
     streams d \<noteq> [] \<and> s_id (hd (streams d)) = 0 \<and> s_uuid (hd (streams d)) = all_uuid
     \<and> s_version (hd (streams d)) = length (events d)
     \<and> distinct (map s_id (streams d)) \<and> distinct (map s_uuid (streams d))"

definition wf_links :: "db \<Rightarrow> bool" where
  "wf_links d \<longleftrightarrow>
     map l_event (glinks d) = map e_id (events d) \<and> distinct (map e_id (events d))
     \<and> map l_version (glinks d) = [1..<Suc (length (events d))]
     \<and> (\<forall>l \<in> set (glinks d). l_orig_stream l \<noteq> 0 \<and> l_orig_stream l \<in> s_id ` set (streams d))
     \<and> (\<forall>l \<in> set (links d). l_stream l \<in> s_id ` set (streams d))"

definition wf_origin :: "db \<Rightarrow> bool" where
  "wf_origin d \<longleftrightarrow>
     (\<forall>s \<in> set (streams d). s_id s \<noteq> 0 \<longrightarrow>
        filter (\<lambda>l. l_stream l = s_id s) (links d) = map relink (from_stream (s_id s) (glinks d))
        \<and> map l_orig_version (from_stream (s_id s) (glinks d)) = [1..<Suc (s_version s)]
        \<and> 0 < s_version s)"

definition wf_events :: "db \<Rightarrow> bool" where
  "wf_events d \<longleftrightarrow> wf_streams d \<and> wf_links d \<and> wf_origin d"

section \<open>Joins on unique keys\<close>

lemma filter_key_unique:
  "distinct (map g ys) \<Longrightarrow> y \<in> set ys \<Longrightarrow> filter (\<lambda>z. g z = g y) ys = [y]"
  by (induction ys) (auto simp: filter_empty_conv image_iff)

lemma find_key_unique:
  "distinct (map g ys) \<Longrightarrow> y \<in> set ys \<Longrightarrow> find (\<lambda>z. g z = g y) ys = Some y"
  by (induction ys) (auto simp: image_iff)

lemma find_key_None: "find (\<lambda>z. g z = k) ys = None \<longleftrightarrow> k \<notin> g ` set ys"
  by (auto simp: find_None_iff)

lemma find_key_Some: "find (\<lambda>z. g z = k) ys = Some y \<Longrightarrow> y \<in> set ys \<and> g y = k"
  by (auto simp: find_Some_iff in_set_conv_nth)

lemma concat_map_single:
  "(\<And>x. x \<in> set xs \<Longrightarrow> f x = [h x]) \<Longrightarrow> concat (map f xs) = map h xs"
  by (induction xs) auto

lemma filter_fst_zip:
  "length xs = length ys \<Longrightarrow> filter P xs = map fst (filter (P \<circ> fst) (zip xs ys))"
  by (induction xs ys rule: list_induct2) auto

lemma zip_keys: "map f xs = map g ys \<Longrightarrow> p \<in> set (zip xs ys) \<Longrightarrow> f (fst p) = g (snd p)"
  by (induction xs arbitrary: ys) (auto simp: Cons_eq_map_conv dest: sym)

lemma uuid_of_stream:
  "distinct (map s_id ss) \<Longrightarrow> s \<in> set ss \<Longrightarrow> uuid_of ss (s_id s) = s_uuid s"
  by (simp add: uuid_of_def find_key_unique)

lemma uuid_of_inj:
  assumes "distinct (map s_id ss)" "distinct (map s_uuid ss)" "s \<in> set ss" "k \<in> s_id ` set ss"
  shows "uuid_of ss k = s_uuid s \<longleftrightarrow> k = s_id s"
  using assms by (auto simp: uuid_of_stream distinct_map inj_on_def)

section \<open>Facts of the invariant\<close>

lemma wf_lens: "wf_events d \<Longrightarrow> length (glinks d) = length (events d)"
  by (metis length_map wf_events_def wf_links_def)

lemma wf_pair_keys:
  "wf_events d \<Longrightarrow> p \<in> set (zip (glinks d) (events d)) \<Longrightarrow> l_event (fst p) = e_id (snd p)"
  using zip_keys [of l_event "glinks d" e_id "events d"]
  by (auto simp: wf_events_def wf_links_def)

lemma wf_event_ids:
  "wf_events d \<Longrightarrow> distinct (map e_id (events d))"
  "wf_events d \<Longrightarrow> distinct (map l_event (glinks d))"
  by (auto simp: wf_events_def wf_links_def)

lemma wf_stream_ids:
  "wf_events d \<Longrightarrow> distinct (map s_id (streams d))"
  "wf_events d \<Longrightarrow> distinct (map s_uuid (streams d))"
  by (auto simp: wf_events_def wf_streams_def)

lemma wf_glink_orig:
  "wf_events d \<Longrightarrow> l \<in> set (glinks d) \<Longrightarrow> l_orig_stream l \<in> s_id ` set (streams d)"
  by (auto simp: wf_events_def wf_links_def)

lemma wf_pair_orig:
  "wf_events d \<Longrightarrow> p \<in> set (zip (glinks d) (events d)) \<Longrightarrow> l_orig_stream (fst p) \<in> s_id ` set (streams d)"
  by (metis prod.collapse set_zip_leftD wf_glink_orig)

lemma length_store_log: "wf_events d \<Longrightarrow> length (store_log d) = length (events d)"
  by (simp add: store_log_def wf_lens)

lemma store_log_numbers:
  assumes wf: "wf_events d"
  shows "map o_event_number (store_log d) = [1..<Suc (length (events d))]"
proof -
  have "map o_event_number (store_log d) = map (l_version \<circ> fst) (zip (glinks d) (events d))"
    by (simp add: store_log_def log_row_def out_row_def)
  also have "\<dots> = map l_version (map fst (zip (glinks d) (events d)))" by simp
  also have "map fst (zip (glinks d) (events d)) = glinks d" by (simp add: wf_lens [OF wf])
  finally show ?thesis using wf by (simp add: wf_events_def wf_links_def del: upt_Suc)
qed

lemma store_log_ids:
  assumes wf: "wf_events d"
  shows "map o_event_id (store_log d) = map e_id (events d)"
proof -
  have "map o_event_id (store_log d) = map e_id (map snd (zip (glinks d) (events d)))"
    by (simp add: store_log_def log_row_def out_row_def)
  then show ?thesis by (simp add: wf_lens [OF wf])
qed

lemma event_of_pair:
  assumes wf: "wf_events d" and p: "p \<in> set (zip (glinks d) (events d))"
  shows "filter (\<lambda>e. e_id e = l_event (fst p)) (events d) = [snd p]"
  using filter_key_unique [OF wf_event_ids(1) [OF wf]] wf_pair_keys [OF wf p] p
  by (metis prod.collapse set_zip_rightD)

text \<open>The rows of the log with chosen numbers, as the queries join them.\<close>

lemma log_rows_where:
  assumes wf: "wf_events d"
  shows "concat (map (\<lambda>se. concat (map (\<lambda>e. map (\<lambda>orig. out_row (l_version se) (s_uuid orig) (l_orig_version se) e)
          (filter (\<lambda>s. s_id s = l_orig_stream se) (streams d)))
          (filter (\<lambda>e. e_id e = l_event se) (events d))))
        (filter (\<lambda>l. l_stream l = 0 \<and> P (l_version l)) (links d)))
     = filter (\<lambda>r. P (o_event_number r)) (store_log d)"
proof -
  let ?z = "zip (glinks d) (events d)"
  let ?P = "\<lambda>l. P (l_version l)"
  let ?f = "\<lambda>se. concat (map (\<lambda>e. map (\<lambda>orig. out_row (l_version se) (s_uuid orig) (l_orig_version se) e)
        (filter (\<lambda>s. s_id s = l_orig_stream se) (streams d)))
        (filter (\<lambda>e. e_id e = l_event se) (events d)))"
  have f: "?f (fst p) = [log_row (streams d) p]" if p: "p \<in> set ?z" for p
  proof -
    obtain s where s: "s \<in> set (streams d)" "l_orig_stream (fst p) = s_id s"
      using wf_pair_orig [OF wf p] by auto
    show ?thesis
      by (simp add: event_of_pair [OF wf p] s filter_key_unique [OF wf_stream_ids(1) [OF wf] s(1)]
          log_row_def uuid_of_stream [OF wf_stream_ids(1) [OF wf] s(1)])
  qed
  have "filter (\<lambda>l. l_stream l = 0 \<and> ?P l) (links d) = filter ?P (glinks d)"
    by (simp add: glinks_def conj_commute)
  also have "\<dots> = map fst (filter (?P \<circ> fst) ?z)" by (rule filter_fst_zip [OF wf_lens [OF wf]])
  finally have "concat (map ?f (filter (\<lambda>l. l_stream l = 0 \<and> ?P l) (links d)))
      = concat (map (?f \<circ> fst) (filter (?P \<circ> fst) ?z))" by simp
  also have "\<dots> = map (log_row (streams d)) (filter (?P \<circ> fst) ?z)"
    by (rule concat_map_single) (simp add: f)
  also have "\<dots> = filter (\<lambda>r. P (o_event_number r)) (store_log d)"
    by (simp add: store_log_def filter_map comp_def log_row_def out_row_def)
  finally show ?thesis .
qed

lemma all_query_log:
  assumes wf: "wf_events d"
  shows "all_query from d = filter (\<lambda>r. from \<le> int (o_event_number r)) (store_log d)"
proof -
  have "sorted (map o_event_number (store_log d))"
    by (simp only: store_log_numbers [OF wf] sorted_upt)
  then have "sorted (map o_event_number (filter (\<lambda>r. from \<le> int (o_event_number r)) (store_log d)))"
    by (rule sorted_filter)
  then show ?thesis
    using log_rows_where [OF wf, of "\<lambda>v. from \<le> int v"] by (simp add: all_query_def sort_key_sorted)
qed

lemma stream_versions:
  assumes wf: "wf_events d" and s: "s \<in> set (streams d)" "s_id s \<noteq> 0"
  shows "map o_stream_version (stream_log (s_uuid s) (store_log d)) = [1..<Suc (s_version s)]"
proof -
  let ?z = "zip (glinks d) (events d)"
  have u: "uuid_of (streams d) (l_orig_stream (fst p)) = s_uuid s \<longleftrightarrow> l_orig_stream (fst p) = s_id s"
    if "p \<in> set ?z" for p
    using uuid_of_inj wf_stream_ids [OF wf] s(1) wf_pair_orig [OF wf that] by blast
  have "map o_stream_version (stream_log (s_uuid s) (store_log d))
      = map (l_orig_version \<circ> fst) (filter (\<lambda>p. l_orig_stream (fst p) = s_id s) ?z)"
    using u by (simp add: stream_log_def store_log_def filter_map comp_def log_row_def out_row_def
        cong: filter_cong)
  also have "\<dots> = map l_orig_version (map fst (filter ((\<lambda>l. l_orig_stream l = s_id s) \<circ> fst) ?z))"
    by (simp add: comp_def)
  also have "\<dots> = map l_orig_version (from_stream (s_id s) (glinks d))"
    by (simp only: filter_fst_zip [OF wf_lens [OF wf], symmetric] from_stream_def)
  finally show ?thesis using wf s by (simp add: wf_events_def wf_origin_def del: upt_Suc)
qed

lemma stream_query_log:
  assumes wf: "wf_events d" and s: "s \<in> set (streams d)" "s_id s \<noteq> 0"
  shows "stream_query (s_uuid s) (s_id s) from d
      = filter (\<lambda>r. from \<le> int (o_stream_version r)) (stream_log (s_uuid s) (store_log d))"
proof -
  let ?z = "zip (glinks d) (events d)"
  let ?u = "s_uuid s" and ?k = "s_id s"
  let ?f = "\<lambda>se. concat (map (\<lambda>e. map (\<lambda>al. out_row (l_version al) ?u (l_version se) e)
        (filter (\<lambda>l. l_event l = l_event se \<and> l_stream l = 0) (links d)))
        (filter (\<lambda>e. e_id e = l_event se) (events d)))"
  let ?Q = "\<lambda>l. l_orig_stream l = ?k \<and> from \<le> int (l_orig_version l)"
  have u: "uuid_of (streams d) (l_orig_stream (fst p)) = ?u \<longleftrightarrow> l_orig_stream (fst p) = ?k"
    if "p \<in> set ?z" for p
    using uuid_of_inj wf_stream_ids [OF wf] s(1) wf_pair_orig [OF wf that] by blast
  have f: "?f (relink (fst p)) = [log_row (streams d) p]"
    if p: "p \<in> set ?z" and k: "l_orig_stream (fst p) = ?k" for p
  proof -
    have "filter (\<lambda>l. l_event l = l_event (fst p) \<and> l_stream l = 0) (links d)
        = filter (\<lambda>l. l_event l = l_event (fst p)) (glinks d)"
      by (simp add: glinks_def conj_commute)
    also have "\<dots> = [fst p]"
      using filter_key_unique [OF wf_event_ids(2) [OF wf]] p by (metis prod.collapse set_zip_leftD)
    finally show ?thesis using u [OF p] k
      by (simp add: relink_def event_of_pair [OF wf p] log_row_def)
  qed
  have "filter (\<lambda>l. l_stream l = ?k \<and> from \<le> int (l_version l)) (links d)
      = filter (\<lambda>l. from \<le> int (l_version l)) (filter (\<lambda>l. l_stream l = ?k) (links d))"
    by (simp add: conj_commute)
  also have "filter (\<lambda>l. l_stream l = ?k) (links d) = map relink (from_stream ?k (glinks d))"
    using wf s by (simp add: wf_events_def wf_origin_def)
  also have "filter (\<lambda>l. from \<le> int (l_version l)) \<dots> = map relink (filter ?Q (glinks d))"
    by (simp add: filter_map comp_def relink_def from_stream_def conj_commute)
  also have "\<dots> = map (relink \<circ> fst) (filter (?Q \<circ> fst) ?z)"
    by (simp only: filter_fst_zip [OF wf_lens [OF wf]] map_map)
  finally have "concat (map ?f (filter (\<lambda>l. l_stream l = ?k \<and> from \<le> int (l_version l)) (links d)))
      = concat (map (?f \<circ> (relink \<circ> fst)) (filter (?Q \<circ> fst) ?z))" by simp
  also have "\<dots> = map (log_row (streams d)) (filter (?Q \<circ> fst) ?z)"
    by (rule concat_map_single) (use f in auto)
  also have "filter (?Q \<circ> fst) ?z
      = filter (\<lambda>p. uuid_of (streams d) (l_orig_stream (fst p)) = ?u \<and> from \<le> int (l_orig_version (fst p))) ?z"
    by (rule filter_cong) (simp_all add: u)
  also have "map (log_row (streams d)) \<dots>
      = filter (\<lambda>r. from \<le> int (o_stream_version r)) (stream_log ?u (store_log d))"
    by (simp add: store_log_def stream_log_def filter_map comp_def log_row_def out_row_def conj_commute)
  finally have q: "stream_query ?u ?k from d
      = sort_key o_stream_version (filter (\<lambda>r. from \<le> int (o_stream_version r)) (stream_log ?u (store_log d)))"
    by (simp only: stream_query_def)
  have "sorted (map o_stream_version (stream_log ?u (store_log d)))"
    by (simp only: stream_versions [OF wf s] sorted_upt)
  then show ?thesis using q by (simp add: sort_key_sorted sorted_filter)
qed

section \<open>Streams and their logs\<close>

lemma find_stream_Some:
  assumes wf: "wf_events d" and f: "find_stream u d = Some s" and u: "u \<noteq> all_uuid"
  shows "s \<in> set (streams d)" "s_uuid s = u" "s_id s \<noteq> 0"
    "length (stream_log u (store_log d)) = s_version s" "0 < s_version s"
proof -
  from f show s: "s \<in> set (streams d)" and uu: "s_uuid s = u"
    using find_key_Some by (fastforce simp: find_stream_def)+
  show k: "s_id s \<noteq> 0"
  proof
    assume "s_id s = 0"
    moreover have "hd (streams d) \<in> set (streams d)" "s_id (hd (streams d)) = 0"
      "s_uuid (hd (streams d)) = all_uuid"
      using wf by (auto simp: wf_events_def wf_streams_def)
    ultimately have "s = hd (streams d)"
      using wf_stream_ids(1) [OF wf] s by (auto simp: distinct_map inj_on_def)
    with uu u \<open>s_uuid (hd (streams d)) = all_uuid\<close> show False by simp
  qed
  show "length (stream_log u (store_log d)) = s_version s"
    using arg_cong [OF stream_versions [OF wf s k], of length] uu by simp
  show "0 < s_version s" using wf s k by (auto simp: wf_events_def wf_origin_def)
qed

lemma find_stream_log:
  assumes wf: "wf_events d" and u: "u \<noteq> all_uuid"
  shows "find_stream u d = None \<longleftrightarrow> stream_log u (store_log d) = []"
proof
  assume n: "find_stream u d = None"
  have "o_stream_uuid r \<noteq> u" if r: "r \<in> set (store_log d)" for r
  proof -
    from r obtain p where p: "p \<in> set (zip (glinks d) (events d))" "r = log_row (streams d) p"
      by (auto simp: store_log_def)
    from wf_pair_orig [OF wf p(1)] obtain s where s: "s \<in> set (streams d)" "s_id s = l_orig_stream (fst p)"
      by auto
    have "s_uuid s \<noteq> u" using n s(1) by (auto simp: find_stream_def find_key_None)
    with p(2) s show ?thesis
      using uuid_of_stream [OF wf_stream_ids(1) [OF wf] s(1)] by (simp add: log_row_def out_row_def)
  qed
  then show "stream_log u (store_log d) = []" by (simp add: stream_log_def filter_empty_conv)
next
  assume e: "stream_log u (store_log d) = []"
  show "find_stream u d = None"
  proof (rule ccontr)
    assume "find_stream u d \<noteq> None"
    then obtain s where "find_stream u d = Some s" by auto
    from find_stream_Some(4,5) [OF wf this u] e show False by simp
  qed
qed

section \<open>Appending\<close>

text \<open>The recorded form of the rows of one batch.\<close>

definition appended_log :: "string \<Rightarrow> nat \<Rightarrow> nat \<Rightarrow> event_row list \<Rightarrow> event_out list" where
  "appended_log u bv bn rows =
     map (\<lambda>(i, e). out_row (bn + Suc i) u (bv + Suc i) e) (enumerate 0 rows)"

lemma map_enumerate_fst: "map (\<lambda>(i, e). f i) (enumerate n xs) = map f [n..<n + length xs]"
  by (induction xs arbitrary: n) (auto simp: upt_rec)

lemma map_enumerate_snd: "map (\<lambda>(i, e). f e) (enumerate n xs) = map f xs"
  by (induction xs arbitrary: n) auto

lemma zip_map_enumerate: "zip (map f (enumerate n xs)) xs = map (\<lambda>p. (f p, snd p)) (enumerate n xs)"
  by (induction xs arbitrary: n) auto

lemma all_links_simps:
  "map l_event (all_links k bv bn rows) = map e_id rows"
  "map l_version (all_links k bv bn rows) = [Suc bn..<Suc (bn + length rows)]"
  "map l_orig_version (all_links k bv bn rows) = [Suc bv..<Suc (bv + length rows)]"
  "\<forall>l \<in> set (all_links k bv bn rows). l_stream l = 0 \<and> l_orig_stream l = k"
proof -
  show "map l_event (all_links k bv bn rows) = map e_id rows"
    using map_enumerate_snd [of e_id 0 rows] by (simp add: all_links_def comp_def case_prod_unfold)
  have sh: "map (\<lambda>i. b + Suc i) [0..<0 + length rows] = [Suc b..<Suc (b + length rows)]" for b
    by (rule nth_equalityI) (auto simp del: upt_Suc)
  have "map l_version (all_links k bv bn rows) = map (\<lambda>(i, e). bn + Suc i) (enumerate 0 rows)"
    by (simp add: all_links_def comp_def case_prod_unfold)
  then show "map l_version (all_links k bv bn rows) = [Suc bn..<Suc (bn + length rows)]"
    using sh [of bn] by (simp only: map_enumerate_fst)
  have "map l_orig_version (all_links k bv bn rows) = map (\<lambda>(i, e). bv + Suc i) (enumerate 0 rows)"
    by (simp add: all_links_def comp_def case_prod_unfold)
  then show "map l_orig_version (all_links k bv bn rows) = [Suc bv..<Suc (bv + length rows)]"
    using sh [of bv] by (simp only: map_enumerate_fst)
  show "\<forall>l \<in> set (all_links k bv bn rows). l_stream l = 0 \<and> l_orig_stream l = k"
    by (auto simp: all_links_def)
qed

lemma origin_links_relink: "origin_links k bv rows = map relink (all_links k bv bn rows)"
  by (simp add: origin_links_def all_links_def relink_def comp_def case_prod_unfold)

lemma length_all_links: "length (all_links k bv bn rows) = length rows"
  by (simp add: all_links_def)

lemma find_map_key:
  "(\<And>s. g (f s) = g s) \<Longrightarrow> find (\<lambda>s. g s = k) (map f ss) = map_option f (find (\<lambda>s. g s = k) ss)"
  by (induction ss) auto

lemma uuid_of_bump:
  "uuid_of (map (\<lambda>s. if s_id s = j then s\<lparr>s_version := v s\<rparr> else s) ss) k = uuid_of ss k"
  by (subst uuid_of_def, subst find_map_key) (auto simp: uuid_of_def split: option.split)

lemma bump_keys [simp]:
  "map s_id (map (\<lambda>s. if s_id s = j then s\<lparr>s_version := v s\<rparr> else s) ss) = map s_id ss"
  "map s_uuid (map (\<lambda>s. if s_id s = j then s\<lparr>s_version := v s\<rparr> else s) ss) = map s_uuid ss"
  by auto

text \<open>What resolving the target stream leaves: its row is there, already bumped.\<close>

definition resolved :: "db \<Rightarrow> string \<Rightarrow> nat \<Rightarrow> nat \<Rightarrow> nat \<Rightarrow> db \<Rightarrow> bool" where
  "resolved d u k bv n d1 \<longleftrightarrow>
     d1 = d\<lparr>streams := streams d1\<rparr> \<and> k \<noteq> 0 \<and> streams d1 \<noteq> [] \<and> hd (streams d1) = hd (streams d)
     \<and> distinct (map s_id (streams d1)) \<and> distinct (map s_uuid (streams d1))
     \<and> s_id ` set (streams d1) = insert k (s_id ` set (streams d))
     \<and> (\<forall>s \<in> set (streams d1). if s_id s = k then s_uuid s = u \<and> s_version s = bv + n
          else s \<in> set (streams d))
     \<and> (\<forall>j \<in> s_id ` set (streams d). uuid_of (streams d1) j = uuid_of (streams d) j)
     \<and> filter (\<lambda>l. l_stream l = k) (links d) = map relink (from_stream k (glinks d))
     \<and> map l_orig_version (from_stream k (glinks d)) = [1..<Suc bv]
     \<and> length (stream_log u (store_log d)) = bv"

lemma bump_head:
  "ss \<noteq> [] \<Longrightarrow> hd (map (\<lambda>s. if s_id s = j then s\<lparr>s_version := s_version s + n\<rparr> else s) ss)
     = (if s_id (hd ss) = j then (hd ss)\<lparr>s_version := s_version (hd ss) + n\<rparr> else hd ss)"
  by (cases ss) auto

lemma resolved_existing:
  assumes wf: "wf_events d" and f: "find_stream u d = Some s" and u: "u \<noteq> all_uuid"
  shows "resolved d u (s_id s) (s_version s) n (bump_stream (s_id s) n d)"
proof -
  note S = find_stream_Some [OF wf f u]
  have hd0: "streams d \<noteq> []" "s_id (hd (streams d)) = 0"
    using wf by (auto simp: wf_events_def wf_streams_def)
  have uniq: "t = s" if "t \<in> set (streams d)" "s_id t = s_id s" for t
    using that S(1) wf_stream_ids(1) [OF wf] by (auto simp: distinct_map inj_on_def)
  show ?thesis
    unfolding resolved_def
  proof (intro conjI)
    show "bump_stream (s_id s) n d = d\<lparr>streams := streams (bump_stream (s_id s) n d)\<rparr>"
      by (simp add: bump_stream_def)
    show "hd (streams (bump_stream (s_id s) n d)) = hd (streams d)"
      using hd0 S(3) by (simp add: bump_stream_def bump_head)
    show "\<forall>t \<in> set (streams (bump_stream (s_id s) n d)). if s_id t = s_id s
        then s_uuid t = u \<and> s_version t = s_version s + n else t \<in> set (streams d)"
      using S(2) by (auto simp: bump_stream_def dest: uniq)
    show "s_id ` set (streams (bump_stream (s_id s) n d)) = insert (s_id s) (s_id ` set (streams d))"
    proof -
      have "map s_id (streams (bump_stream (s_id s) n d)) = map s_id (streams d)"
        by (simp add: bump_stream_def del: map_map)
      from arg_cong [OF this, of set] S(1) show ?thesis by auto
    qed
    show "filter (\<lambda>l. l_stream l = s_id s) (links d) = map relink (from_stream (s_id s) (glinks d))"
      "map l_orig_version (from_stream (s_id s) (glinks d)) = [1..<Suc (s_version s)]"
      using wf S(1,3) by (auto simp: wf_events_def wf_origin_def simp del: upt_Suc)
  qed (use hd0 S wf_stream_ids [OF wf] in \<open>simp_all add: bump_stream_def uuid_of_bump del: map_map\<close>)
qed

lemma fold_max_le: "x \<in> set xs \<Longrightarrow> x \<le> fold max xs (a::nat)"
proof (induction xs arbitrary: a)
  case (Cons y xs)
  have "b \<le> fold max zs b" for b :: nat and zs
    by (induction zs arbitrary: b) (auto intro: order_trans [OF max.cobounded2])
  from this [of "max y a" xs] Cons show ?case by (auto intro: order_trans [OF max.cobounded1])
qed simp

lemma next_stream_id_fresh: "s \<in> set (streams d) \<Longrightarrow> s_id s < next_stream_id d"
  using fold_max_le [of "s_id s" "map s_id (streams d)" 0] by (simp add: next_stream_id_def le_imp_less_Suc)

lemma uuid_of_append: "j \<in> s_id ` set ss \<Longrightarrow> uuid_of (ss @ ts) j = uuid_of ss j"
proof -
  assume "j \<in> s_id ` set ss"
  then obtain s where "find (\<lambda>s. s_id s = j) ss = Some s"
    using find_key_None [of s_id j ss] by (cases "find (\<lambda>s. s_id s = j) ss") auto
  moreover have "find P xs = Some x \<Longrightarrow> find P (xs @ ys) = Some x" for P and xs ys :: "stream_row list" and x
    by (induction xs) (auto split: if_splits)
  ultimately show ?thesis by (simp add: uuid_of_def)
qed

lemma resolved_fresh:
  assumes wf: "wf_events d" and f: "find_stream u d = None" and u: "u \<noteq> all_uuid"
  shows "resolved d u (next_stream_id d) 0 n (insert_stream u n d)"
proof -
  let ?k = "next_stream_id d"
  have hd0: "streams d \<noteq> []" using wf by (auto simp: wf_events_def wf_streams_def)
  have nk: "s_id s \<noteq> ?k" if "s \<in> set (streams d)" for s
    using next_stream_id_fresh [OF that] by simp
  have nu: "s_uuid s \<noteq> u" if "s \<in> set (streams d)" for s
    using f that by (auto simp: find_stream_def find_key_None)
  have nki: "?k \<notin> s_id ` set (streams d)" and nui: "u \<notin> s_uuid ` set (streams d)"
    using nk nu by force+
  have l: "l_stream l \<noteq> ?k" if "l \<in> set (links d)" for l
    using wf that nk by (auto simp: wf_events_def wf_links_def)
  have g: "l_orig_stream l \<noteq> ?k" if "l \<in> set (glinks d)" for l
    using wf_glink_orig [OF wf that] nk by (metis imageE)
  show ?thesis
    unfolding resolved_def
  proof (intro conjI)
    show "insert_stream u n d = d\<lparr>streams := streams (insert_stream u n d)\<rparr>"
      by (simp add: insert_stream_def)
    show "?k \<noteq> 0" by (simp add: next_stream_id_def)
    show "\<forall>s \<in> set (streams (insert_stream u n d)). if s_id s = ?k
        then s_uuid s = u \<and> s_version s = 0 + n else s \<in> set (streams d)"
      using nk by (auto simp: insert_stream_def)
    show "\<forall>j \<in> s_id ` set (streams d). uuid_of (streams (insert_stream u n d)) j = uuid_of (streams d) j"
      by (simp add: insert_stream_def uuid_of_append)
    show "filter (\<lambda>l. l_stream l = ?k) (links d) = map relink (from_stream ?k (glinks d))"
      using l g by (auto simp: from_stream_def filter_empty_conv)
    show "map l_orig_version (from_stream ?k (glinks d)) = [1..<Suc 0]"
      using g by (auto simp: from_stream_def filter_empty_conv)
    show "length (stream_log u (store_log d)) = 0" using find_stream_log [OF wf u] f by simp
  qed (use hd0 nki nui wf_stream_ids [OF wf] in \<open>simp_all add: insert_stream_def\<close>)
qed

lemma bump_zero_resolved:
  assumes "resolved d u k bv n d1"
  shows "uuid_of (streams (bump_stream 0 n d1)) j = uuid_of (streams d1) j"
    "s_id ` set (streams (bump_stream 0 n d1)) = insert k (s_id ` set (streams d))"
    "distinct (map s_id (streams (bump_stream 0 n d1)))"
    "distinct (map s_uuid (streams (bump_stream 0 n d1)))"
proof -
  have i: "map s_id (streams (bump_stream 0 n d1)) = map s_id (streams d1)"
    and u: "map s_uuid (streams (bump_stream 0 n d1)) = map s_uuid (streams d1)"
    by (simp_all add: bump_stream_def del: map_map)
  show "uuid_of (streams (bump_stream 0 n d1)) j = uuid_of (streams d1) j"
    by (simp add: bump_stream_def uuid_of_bump)
  show "s_id ` set (streams (bump_stream 0 n d1)) = insert k (s_id ` set (streams d))"
    using arg_cong [OF i, of set] assms by (simp add: resolved_def)
  show "distinct (map s_id (streams (bump_stream 0 n d1)))"
    "distinct (map s_uuid (streams (bump_stream 0 n d1)))"
    using i u assms by (simp_all add: resolved_def)
qed

lemma upt_split: "[a..<a + m] @ [a + m..<a + m + n] = [a..<a + m + (n::nat)]"
  by (simp add: upt_add_eq_append [of a "a + m" n])

text \<open>The batch of a resolved append, put in place.\<close>

definition put_batch :: "nat \<Rightarrow> nat \<Rightarrow> event_row list \<Rightarrow> db \<Rightarrow> db" where
  "put_batch k bv rows d =
     (let bn = length (events d); d1 = bump_stream 0 (length rows) d
      in d1\<lparr>events := events d1 @ rows,
            links := links d1 @ origin_links k bv rows @ all_links k bv bn rows\<rparr>)"

lemma put_batch_fields:
  assumes r: "resolved d u k bv n d1"
  shows "events (put_batch k bv rows d1) = events d @ rows"
    "streams (put_batch k bv rows d1) = streams (bump_stream 0 (length rows) d1)"
    "links (put_batch k bv rows d1)
       = links d @ map relink (all_links k bv (length (events d)) rows) @ all_links k bv (length (events d)) rows"
    "glinks (put_batch k bv rows d1) = glinks d @ all_links k bv (length (events d)) rows"
proof -
  from r have d1: "events d1 = events d" "links d1 = links d" and k: "k \<noteq> 0"
    by (metis resolved_def db.select_convs(2) db.update_convs(1) db.surjective,
        metis resolved_def db.select_convs(3) db.update_convs(1) db.surjective, simp add: resolved_def)
  show ev: "events (put_batch k bv rows d1) = events d @ rows"
    "streams (put_batch k bv rows d1) = streams (bump_stream 0 (length rows) d1)"
    by (simp_all add: put_batch_def Let_def bump_stream_def d1)
  show l: "links (put_batch k bv rows d1)
       = links d @ map relink (all_links k bv (length (events d)) rows) @ all_links k bv (length (events d)) rows"
    by (simp add: put_batch_def Let_def bump_stream_def d1 origin_links_relink)
  have "filter (\<lambda>l. l_stream l = 0) (all_links k bv b rows) = all_links k bv b rows"
    and "filter (\<lambda>l. l_stream l = 0) (map relink (all_links k bv b rows)) = []" for b
    using all_links_simps(4) [of k bv b rows] k by (auto simp: filter_empty_conv filter_id_conv relink_def)
  then show "glinks (put_batch k bv rows d1) = glinks d @ all_links k bv (length (events d)) rows"
    by (simp add: glinks_def l)
qed

lemma put_batch_log:
  assumes wf: "wf_events d" and r: "resolved d u k bv n d1"
  shows "store_log (put_batch k bv rows d1)
      = store_log d @ appended_log u bv (length (events d)) rows"
proof -
  let ?ss = "streams (bump_stream 0 (length rows) d1)"
  have old: "map (log_row ?ss) (zip (glinks d) (events d)) = store_log d"
  proof -
    have "log_row ?ss p = log_row (streams d) p" if "p \<in> set (zip (glinks d) (events d))" for p
      using wf_pair_orig [OF wf that] r
      by (auto simp: log_row_def bump_stream_def uuid_of_bump resolved_def)
    then show ?thesis by (simp add: store_log_def)
  qed
  obtain s where s: "s \<in> set (streams d1)" "s_id s = k" "s_uuid s = u"
  proof -
    have "k \<in> s_id ` set (streams d1)" using r by (simp add: resolved_def)
    then obtain s where "s \<in> set (streams d1)" "s_id s = k" by auto
    moreover from this r have "s_uuid s = u" by (auto simp: resolved_def)
    ultimately show thesis by (rule that)
  qed
  have uk: "uuid_of ?ss k = u"
    using uuid_of_stream [of "streams d1" s] s r
    by (simp add: bump_stream_def uuid_of_bump resolved_def)
  have "map (log_row ?ss) (zip (all_links k bv (length (events d)) rows) rows)
      = appended_log u bv (length (events d)) rows"
    by (simp add: all_links_def zip_map_enumerate appended_log_def log_row_def uk comp_def case_prod_unfold)
  with old show ?thesis
    by (simp add: store_log_def put_batch_fields [OF r] wf_lens [OF wf] zip_append)
qed

lemma put_batch_wf:
  assumes wf: "wf_events d" and r: "resolved d u k bv (length rows) d1" and rows: "rows \<noteq> []"
    and dup: "\<not> duplicate_ids rows d"
  shows "wf_events (put_batch k bv rows d1)"
proof -
  let ?d = "put_batch k bv rows d1"
  let ?al = "all_links k bv (length (events d)) rows"
  note F = put_batch_fields [OF r]
  note Z = bump_zero_resolved [OF r]
  have k: "k \<noteq> 0" using r by (simp add: resolved_def)
  have hd_ss: "streams ?d \<noteq> []" "hd (streams ?d)
      = (hd (streams d))\<lparr>s_version := s_version (hd (streams d)) + length rows\<rparr>"
  proof -
    have "streams d1 \<noteq> []" "hd (streams d1) = hd (streams d)" "s_id (hd (streams d)) = 0"
      using r wf by (auto simp: resolved_def wf_events_def wf_streams_def)
    then show "streams ?d \<noteq> []" "hd (streams ?d)
        = (hd (streams d))\<lparr>s_version := s_version (hd (streams d)) + length rows\<rparr>"
      by (simp_all add: F bump_stream_def bump_head)
  qed
  have ws: "wf_streams ?d"
    using hd_ss wf Z(3,4) by (simp add: wf_streams_def wf_events_def F)
  have ids: "s_id ` set (streams ?d) = insert k (s_id ` set (streams d))"
    using Z(2) by (simp add: F)
  have wl: "wf_links ?d"
    unfolding wf_links_def F(1,4) ids
  proof (intro conjI)
    show "map l_event (glinks d @ ?al) = map e_id (events d @ rows)"
      using wf by (simp add: all_links_simps wf_events_def wf_links_def)
    show "distinct (map e_id (events d @ rows))"
    proof -
      have "e_id e \<notin> e_id ` set rows" if "e \<in> set (events d)" for e
        using dup that unfolding duplicate_ids_def by (metis imageE imageI)
      then show ?thesis
        using wf_event_ids(1) [OF wf] dup by (auto simp: duplicate_ids_def)
    qed
    have "map l_version (glinks d) = [1..<Suc (length (events d))]"
      using wf by (simp add: wf_events_def wf_links_def del: upt_Suc)
    then show "map l_version (glinks d @ ?al) = [1..<Suc (length (events d @ rows))]"
      using upt_split [of 1 "length (events d)" "length rows"]
      by (simp add: all_links_simps del: upt_Suc)
    show "\<forall>l \<in> set (glinks d @ ?al). l_orig_stream l \<noteq> 0
        \<and> l_orig_stream l \<in> insert k (s_id ` set (streams d))"
      using wf k all_links_simps(4) [of k bv "length (events d)" rows]
      by (auto simp: wf_events_def wf_links_def)
    have "0 \<in> s_id ` set (streams d)"
      using wf by (force simp: wf_events_def wf_streams_def image_iff intro: bexI [of _ "hd (streams d)"])
    then show "\<forall>l \<in> set (links ?d). l_stream l \<in> insert k (s_id ` set (streams d))"
      using wf all_links_simps(4) [of k bv "length (events d)" rows]
      by (auto simp: F(3) relink_def wf_events_def wf_links_def)
  qed
  have fo: "from_stream j ?al = (if j = k then ?al else [])" for j
    using all_links_simps(4) [of k bv "length (events d)" rows]
    by (auto simp: from_stream_def filter_empty_conv filter_id_conv)
  have fs: "filter (\<lambda>l. l_stream l = j) (map relink ?al @ ?al) = map relink (from_stream j ?al)"
    if "j \<noteq> 0" for j
    using all_links_simps(4) [of k bv "length (events d)" rows] that
    by (auto simp: fo relink_def filter_empty_conv filter_id_conv)
  have wo: "wf_origin ?d"
    unfolding wf_origin_def F(3,4)
  proof (intro ballI impI)
    fix s assume s: "s \<in> set (streams ?d)" and s0: "s_id s \<noteq> 0"
    have s1: "s \<in> set (streams d1)" using s s0 by (auto simp: F bump_stream_def)
    have old: "filter (\<lambda>l. l_stream l = s_id s) (links d) = map relink (from_stream (s_id s) (glinks d))
        \<and> (\<exists>v. map l_orig_version (from_stream (s_id s) (glinks d)) = [1..<Suc v]
             \<and> s_version s = v + (if s_id s = k then length rows else 0) \<and> (s_id s \<noteq> k \<longrightarrow> 0 < v)
             \<and> (s_id s = k \<longrightarrow> v = bv))"
    proof (cases "s_id s = k")
      case True
      then show ?thesis using r s1 by (auto simp: resolved_def simp del: upt_Suc)
    next
      case False
      then have "s \<in> set (streams d)" using r s1 by (auto simp: resolved_def)
      then show ?thesis using wf s0 False by (auto simp: wf_events_def wf_origin_def simp del: upt_Suc)
    qed
    then obtain v where v: "map l_orig_version (from_stream (s_id s) (glinks d)) = [1..<Suc v]"
      "s_version s = v + (if s_id s = k then length rows else 0)" "s_id s \<noteq> k \<longrightarrow> 0 < v"
      "s_id s = k \<longrightarrow> v = bv" by blast
    have app: "from_stream (s_id s) (glinks d @ ?al)
        = from_stream (s_id s) (glinks d) @ (if s_id s = k then ?al else [])"
      using fo [of "s_id s"] by (simp add: from_stream_def)
    show "filter (\<lambda>l. l_stream l = s_id s) (links d @ map relink ?al @ ?al)
          = map relink (from_stream (s_id s) (glinks d @ ?al))
        \<and> map l_orig_version (from_stream (s_id s) (glinks d @ ?al)) = [1..<Suc (s_version s)]
        \<and> 0 < s_version s"
      using old fs [OF s0] v app rows upt_split [of 1 bv "length rows"]
      by (auto simp: fo all_links_simps simp del: upt_Suc)
  qed
  from ws wl wo show ?thesis by (simp add: wf_events_def)
qed

lemma wf_initial: "wf_events (initial_db t)"
  by (auto simp: wf_events_def wf_streams_def wf_links_def wf_origin_def initial_db_def glinks_def)

section \<open>The outcome of an append\<close>

text \<open>
  Whether the expected version holds of a stream of \<open>n\<close> events, and the error when it does not.
  A stream exists exactly when it has events.
\<close>

definition version_error :: "string \<Rightarrow> string \<Rightarrow> int \<Rightarrow> nat \<Rightarrow> pg_error option" where
  "version_error u vt ver n =
     (if vt = ''no_stream'' \<and> n \<noteq> 0 then
        Some (pg ''IS002'' (''append_to_stream: stream '' @ u @ '' already exists''))
      else if vt = ''stream_exists'' \<and> n = 0 then
        Some (pg ''IS003'' (''append_to_stream: stream '' @ u @ '' does not exist''))
      else if vt = ''exact'' \<and> n \<noteq> 0 \<and> int n \<noteq> ver then
        Some (pg ''IS001'' (''append_to_stream: wrong expected version: actual '' @ show_int (int n)
          @ '', expected '' @ show_int ver))
      else if vt = ''exact'' \<and> n = 0 \<and> ver \<noteq> 0 then
        Some (pg ''IS001'' (''append_to_stream: stream '' @ u @ '' does not exist (expected version ''
          @ show_int ver @ '')''))
      else None)"

lemma append_resolve_log:
  assumes wf: "wf_events d" and u: "u \<noteq> all_uuid"
  shows "(case version_error u vt ver (length (stream_log u (store_log d))) of
      Some e \<Rightarrow> append_resolve u vt ver n d = Inl e
    | None \<Rightarrow> \<exists>k d1. append_resolve u vt ver n d = Inr (k, length (stream_log u (store_log d)), d1)
        \<and> resolved d u k (length (stream_log u (store_log d))) n d1)"
proof (cases "find_stream u d")
  case None
  then have "length (stream_log u (store_log d)) = 0" using find_stream_log [OF wf u] by simp
  with None resolved_fresh [OF wf None u, of n] show ?thesis
    by (auto simp: append_resolve_def version_error_def)
next
  case (Some s)
  with find_stream_Some [OF wf Some u] resolved_existing [OF wf Some u, of n] show ?thesis
    by (auto simp: append_resolve_def version_error_def)
qed

lemma resolved_head:
  assumes wf: "wf_events d" and r: "resolved d u k bv n d1"
  shows "find (\<lambda>s. s_id s = 0) (streams d1) = Some (hd (streams d))"
    "s_version (hd (streams d)) = length (events d)" "events d1 = events d" "links d1 = links d"
    "now d1 = now d"
proof -
  have h: "streams d1 \<noteq> []" "hd (streams d1) = hd (streams d)" "s_id (hd (streams d)) = 0"
    "s_version (hd (streams d)) = length (events d)"
    using wf r by (auto simp: resolved_def wf_events_def wf_streams_def)
  then show "find (\<lambda>s. s_id s = 0) (streams d1) = Some (hd (streams d))"
    by (cases "streams d1") auto
  show "s_version (hd (streams d)) = length (events d)" by (rule h)
  have "d1 = d\<lparr>streams := streams d1\<rparr>" using r by (simp add: resolved_def)
  from arg_cong [OF this, of events] arg_cong [OF this, of links] arg_cong [OF this, of now]
  show "events d1 = events d" "links d1 = links d" "now d1 = now d" by simp_all
qed

lemma version_not_taken:
  assumes wf: "wf_events d" and r: "resolved d u k bv n d1"
  shows "\<not> version_taken (origin_links k bv rows @ all_links k bv (length (events d)) rows) d1"
proof -
  note H = resolved_head [OF wf r]
  have v0: "l_version l \<le> length (events d)" if "l \<in> set (links d)" "l_stream l = 0" for l
  proof -
    have "l_version l \<in> set (map l_version (glinks d))" using that by (simp add: glinks_def)
    also have "map l_version (glinks d) = [1..<Suc (length (events d))]"
      using wf by (simp add: wf_events_def wf_links_def)
    finally show ?thesis by (simp only: set_upt atLeastLessThan_iff less_Suc_eq_le)
  qed
  have vk: "l_version l \<le> bv" if "l \<in> set (links d)" "l_stream l = k" for l
  proof -
    have "filter (\<lambda>l. l_stream l = k) (links d) = map relink (from_stream k (glinks d))"
      and "map l_orig_version (from_stream k (glinks d)) = [1..<Suc bv]"
      using r by (auto simp: resolved_def simp del: upt_Suc)
    then have "map l_version (filter (\<lambda>l. l_stream l = k) (links d)) = [1..<Suc bv]"
      by (simp add: comp_def relink_def del: upt_Suc)
    moreover have "l_version l \<in> set (map l_version (filter (\<lambda>l. l_stream l = k) (links d)))"
      using that by simp
    ultimately show ?thesis by (simp only: set_upt atLeastLessThan_iff less_Suc_eq_le)
  qed
  have k: "k \<noteq> 0" using r by (simp add: resolved_def)
  show ?thesis
    using k by (auto simp: version_taken_def H(4) origin_links_def all_links_def dest: v0 vk)
qed

text \<open>The whole procedure over the log: every branch after the argument checks.\<close>

lemma append_to_stream_log:
  assumes wf: "wf_events d" and c: "append_check su vt ver evs = Inr es"
  shows "(case version_error (the su) (the vt) (case ver of None \<Rightarrow> 0 | Some v \<Rightarrow> v)
            (length (stream_log (the su) (store_log d))) of
      Some e \<Rightarrow> append_to_stream su vt ver evs opts d = Inl e
    | None \<Rightarrow> (case map_sum_list (new_event_row (now d)) es of
         Inl e \<Rightarrow> append_to_stream su vt ver evs opts d = Inl e
       | Inr rows \<Rightarrow>
           (if duplicate_ids rows d
            then append_to_stream su vt ver evs opts d
              = Inl (pg ''IS004'' ''append_to_stream: duplicate event_id'')
            else \<exists>d'. append_to_stream su vt ver evs opts d
                = Inr (append_rows (length (stream_log (the su) (store_log d))) (length (store_log d)) rows, d')
              \<and> wf_events d'
              \<and> store_log d' = store_log d
                  @ appended_log (the su) (length (stream_log (the su) (store_log d))) (length (store_log d)) rows
              \<and> s_id ` set (streams d) \<subseteq> s_id ` set (streams d')
              \<and> snaps d' = snaps d \<and> subs d' = subs d \<and> items d' = items d \<and> now d' = now d)))"
proof -
  let ?u = "the su" and ?v = "case ver of None \<Rightarrow> 0 | Some v \<Rightarrow> v"
  let ?bv = "length (stream_log ?u (store_log d))"
  have u: "?u \<noteq> all_uuid" and ne: "es \<noteq> []"
    using c by (auto simp: append_check_def sum_iffs split: option.splits json.splits list.splits)
  note R = append_resolve_log [OF wf u, of "the vt" ?v "length es"]
  show ?thesis
  proof (cases "version_error ?u (the vt) ?v ?bv")
    case (Some e)
    with R c show ?thesis by (simp add: append_to_stream_def)
  next
    case None
    with R obtain k d1 where a: "append_resolve ?u (the vt) ?v (length es) d = Inr (k, ?bv, d1)"
      and r: "resolved d ?u k ?bv (length es) d1" by auto
    note H = resolved_head [OF wf r]
    have app: "append_to_stream su vt ver evs opts d = append_insert k ?bv es d1"
      using c a by (simp add: append_to_stream_def)
    show ?thesis
    proof (cases "map_sum_list (new_event_row (now d)) es")
      case (Inl e)
      with None app H show ?thesis by (simp add: append_insert_def Let_def)
    next
      case (Inr rows)
      have len: "length rows = length es" and rne: "rows \<noteq> []"
        using Inr ne by (auto simp: map_sum_list_Inr list_all2_lengthD [symmetric])
      have dups: "duplicate_ids rows d1 = duplicate_ids rows d" by (simp add: duplicate_ids_def H)
      have ins: "append_insert k ?bv es d1 =
          (if duplicate_ids rows d then Inl (pg ''IS004'' ''append_to_stream: duplicate event_id'')
           else Inr (append_rows ?bv (length (events d)) rows, put_batch k ?bv rows d1))"
        using Inr version_not_taken [OF wf r, of rows]
        by (simp add: append_insert_def H Let_def dups put_batch_def len)
      have keep: "snaps (put_batch k ?bv rows d1) = snaps d" "subs (put_batch k ?bv rows d1) = subs d"
        "items (put_batch k ?bv rows d1) = items d" "now (put_batch k ?bv rows d1) = now d"
      proof -
        have "d1 = d\<lparr>streams := streams d1\<rparr>" using r by (simp add: resolved_def)
        then show "snaps (put_batch k ?bv rows d1) = snaps d" "subs (put_batch k ?bv rows d1) = subs d"
          "items (put_batch k ?bv rows d1) = items d" "now (put_batch k ?bv rows d1) = now d"
          by (simp_all add: put_batch_def Let_def bump_stream_def)
             (metis db.ext_inject db.surjective db.update_convs(1))+
      qed
      have r': "resolved d ?u k ?bv (length rows) d1" using r len by simp
      have sid: "s_id ` set (streams d) \<subseteq> s_id ` set (streams (put_batch k ?bv rows d1))"
        using bump_zero_resolved(2) [OF r'] put_batch_fields(2) [OF r'] by auto
      show ?thesis
        using None Inr app ins sid put_batch_wf [OF wf r' rne] put_batch_log [OF wf r'] keep
        by (simp add: length_store_log [OF wf])
    qed
  qed
qed

end
