(* ===== verification/Sql_Queue.thy ===== *)
theory Sql_Queue
  imports Event_Store
begin

text \<open>
  The subscription half of sql/instructed.sql: leased routing cursors (claim_subscription,
  release_subscription, delete_subscription, route_batch, is_subscription_caught_up) and the work
  queue (claim_work_item, extend_work_item_claim, complete_work_item_projection,
  complete_work_item_pm, complete_pm_instance, fail_work_item, list_pm_rebuild_events).
  \<open>SKIP LOCKED\<close> sees the rows other transactions hold: they are arguments of the two claims.
\<close>

section \<open>Rows and their updates\<close>

definition find_sub :: "nat \<Rightarrow> string \<Rightarrow> db \<Rightarrow> sub_row option" where
  "find_sub k n d = find (\<lambda>b. b_stream b = k \<and> b_name b = n) (subs d)"

definition update_sub :: "nat \<Rightarrow> string \<Rightarrow> (sub_row \<Rightarrow> sub_row) \<Rightarrow> db \<Rightarrow> db" where
  "update_sub k n f d =
     d\<lparr>subs := map (\<lambda>b. if b_stream b = k \<and> b_name b = n then f b else b) (subs d)\<rparr>"

definition item_of :: "nat \<Rightarrow> string \<Rightarrow> item_row \<Rightarrow> bool" where
  "item_of k n i \<longleftrightarrow> i_stream i = k \<and> i_sub i = n"

definition item_key :: "nat \<Rightarrow> string \<Rightarrow> string \<Rightarrow> int \<Rightarrow> item_row \<Rightarrow> bool" where
  "item_key k n p e i \<longleftrightarrow> item_of k n i \<and> i_partition i = p \<and> i_event i = e"

definition find_item :: "nat \<Rightarrow> string \<Rightarrow> string \<Rightarrow> int \<Rightarrow> db \<Rightarrow> item_row option" where
  "find_item k n p e d = find (item_key k n p e) (items d)"

definition update_item ::
  "nat \<Rightarrow> string \<Rightarrow> string \<Rightarrow> int \<Rightarrow> (item_row \<Rightarrow> item_row) \<Rightarrow> db \<Rightarrow> db" where
  "update_item k n p e f d = d\<lparr>items := map (\<lambda>i. if item_key k n p e i then f i else i) (items d)\<rparr>"

definition open_item :: "item_row \<Rightarrow> bool" where
  "open_item i \<longleftrightarrow> i_state i \<in> {Pending, ClaimedS, Failed}"

section \<open>Argument checks the procedures share\<close>

definition check_sub :: "string \<Rightarrow> string option \<Rightarrow> string option \<Rightarrow> pg_error + 'a \<Rightarrow> pg_error + 'a" where
  "check_sub proc su name rest =
     guard_sum (su = None) (pg ''22023'' (proc @ '': p_stream_uuid is null''))
    (guard_sum (null_or_empty name) (pg ''22023'' (proc @ '': p_subscription_name is null/empty''))
    rest)"

definition check_worker :: "string \<Rightarrow> string option \<Rightarrow> pg_error + 'a \<Rightarrow> pg_error + 'a" where
  "check_worker proc w rest =
     guard_sum (null_or_empty w) (pg ''22023'' (proc @ '': p_worker_id is null/empty'')) rest"

definition check_lease :: "string \<Rightarrow> int option \<Rightarrow> pg_error + 'a \<Rightarrow> pg_error + 'a" where
  "check_lease proc secs rest =
     guard_sum (secs = None \<or> the secs \<le> 0)
       (pg ''22023'' (proc @ '': p_lease_seconds must be a positive integer'')) rest"

definition check_item :: "string \<Rightarrow> string option \<Rightarrow> int option \<Rightarrow> pg_error + 'a \<Rightarrow> pg_error + 'a" where
  "check_item proc p e rest =
     guard_sum (p = None) (pg ''22023'' (proc @ '': p_partition_key is null''))
    (guard_sum (null_or_neg e) (pg ''22023'' (proc @ '': p_event_number must be non-negative''))
    rest)"

text \<open>The stream lookup and \<open>_require_subscription\<close>.\<close>

definition with_stream :: "string \<Rightarrow> string \<Rightarrow> db \<Rightarrow> (nat \<Rightarrow> pg_error + 'a) \<Rightarrow> pg_error + 'a" where
  "with_stream proc u d f =
     (case find_stream u d of
        None \<Rightarrow> Inl (pg ''IS020'' (proc @ '': subscription not found (no such stream)''))
      | Some s \<Rightarrow> f (s_id s))"

definition sub_not_found :: "string \<Rightarrow> string \<Rightarrow> string \<Rightarrow> pg_error" where
  "sub_not_found proc name u =
     pg ''IS020'' (proc @ '': subscription '' @ name @ '' on '' @ u @ '' not found'')"

definition require_subscription ::
  "string \<Rightarrow> string \<Rightarrow> string \<Rightarrow> db \<Rightarrow> (nat \<Rightarrow> pg_error + 'a) \<Rightarrow> pg_error + 'a" where
  "require_subscription proc u name d f =
     with_stream proc u d (\<lambda>k.
       (case find_sub k name d of None \<Rightarrow> Inl (sub_not_found proc name u) | Some _ \<Rightarrow> f k))"

text \<open>\<open>v_holder is distinct from p_worker_id\<close> and the work item's row under its lock.\<close>

definition lease_lost :: "string \<Rightarrow> string \<Rightarrow> string option \<Rightarrow> string \<Rightarrow> pg_error" where
  "lease_lost code proc holder w =
     pg code (proc @ '': lease lost (holder='' @ coalesce ''<none>'' holder @ '', caller='' @ w @ '')'')"

definition with_claimed_item ::
  "string \<Rightarrow> string \<Rightarrow> string \<Rightarrow> string \<Rightarrow> string \<Rightarrow> int \<Rightarrow> db \<Rightarrow> (nat \<Rightarrow> item_row \<Rightarrow> pg_error + 'a)
     \<Rightarrow> pg_error + 'a" where
  "with_claimed_item proc u name w p e d f =
     require_subscription proc u name d (\<lambda>k.
       (case find_item k name p e d of
          None \<Rightarrow> Inl (pg ''IS030'' (proc @ '': work item ('' @ p @ '', '' @ show_int e @ '') gone (takeover)''))
        | Some i \<Rightarrow> if i_claimed_by i \<noteq> Some w then Inl (lease_lost ''IS030'' proc (i_claimed_by i) w)
                    else f k i))"

section \<open>claim_subscription\<close>

text \<open>Input of type \<open>bigint\<close>: decimal text with an optional sign, in range.\<close>

definition bigint_in :: "string \<Rightarrow> pg_error + int" where
  "bigint_in s =
     (let t = trim s;
          v = (if t \<noteq> [] \<and> hd t = CHR ''+'' then
                 (case tl t of [] \<Rightarrow> None | c # cs \<Rightarrow> map_option int (digits_value 0 (c # cs)))
               else read_int t)
      in case v of
           None \<Rightarrow> Inl (pg ''22P02'' (''invalid input syntax for type bigint: '' @ s))
         | Some i \<Rightarrow> if - (2 ^ 63) \<le> i \<and> i < 2 ^ 63 then Inr i
                     else Inl (pg ''22003'' (''value '' @ s @ '' is out of range for type bigint'')))"

text \<open>\<open>coalesce(p_options->>k, d)\<close>\<close>

definition option_text :: "string \<Rightarrow> json option \<Rightarrow> string option" where
  "option_text k opts =
     (case opts of None \<Rightarrow> None
      | Some o1 \<Rightarrow> (case json_get k o1 of None \<Rightarrow> None | Some JNull \<Rightarrow> None | Some v \<Rightarrow> Some (js_string v)))"

definition initial_cursor :: "string \<Rightarrow> stream_row \<Rightarrow> pg_error + nat" where
  "initial_cursor start s =
     (if start = ''origin'' then Inr 0
      else if start = ''current'' then Inr (s_version s)
      else case bigint_in start of
        Inl e \<Rightarrow>
          (if pg_code e = Some ''22P02'' then
             Inl (pg ''22023'' ''claim_subscription: start_from must be 'origin', 'current', or a non-negative integer'')
           else Inl e)
      | Inr i \<Rightarrow>
          guard_sum (i < 0) (pg ''22023'' ''claim_subscription: start_from must be non-negative'')
          (Inr (nat i)))"

record claim_row =
  q_claimed :: bool
  q_last_seen :: nat
  q_claimed_by :: "string option"
  q_expires :: "int option"

definition refused :: "sub_row \<Rightarrow> claim_row" where
  "refused b = \<lparr>q_claimed = False, q_last_seen = b_last_seen b, q_claimed_by = b_claimed_by b,
                q_expires = b_expires b\<rparr>"

definition granted :: "nat \<Rightarrow> string \<Rightarrow> int \<Rightarrow> claim_row" where
  "granted ls w ex = \<lparr>q_claimed = True, q_last_seen = ls, q_claimed_by = Some w, q_expires = Some ex\<rparr>"

text \<open>A live lease of another worker (the unlocked pre-check), and a lease \<open>w\<close> may take.\<close>

definition held_by_other :: "sub_row \<Rightarrow> string \<Rightarrow> int \<Rightarrow> bool" where
  "held_by_other b w t \<longleftrightarrow>
     (case (b_claimed_by b, b_expires b) of (Some h, Some ex) \<Rightarrow> h \<noteq> w \<and> t < ex | _ \<Rightarrow> False)"

definition claimable_by :: "sub_row \<Rightarrow> string \<Rightarrow> int \<Rightarrow> bool" where
  "claimable_by b w t \<longleftrightarrow>
     b_claimed_by b = None \<or> b_claimed_by b = Some w
     \<or> (case b_expires b of None \<Rightarrow> True | Some ex \<Rightarrow> ex \<le> t)"

definition claim_subscription ::
  "bool \<Rightarrow> string option \<Rightarrow> string option \<Rightarrow> string option \<Rightarrow> int option \<Rightarrow> json option \<Rightarrow> db
     \<Rightarrow> pg_error + (claim_row list \<times> db)" where
  "claim_subscription locked su name w secs opts d =
     check_sub ''claim_subscription'' su name
    (check_worker ''claim_subscription'' w
    (check_lease ''claim_subscription'' secs
    (let u = the su; n = the name; wk = the w;
         start = (case option_text ''start_from'' opts of None \<Rightarrow> ''origin'' | Some t \<Rightarrow> t);
         ex = now d + 1000 * the secs
     in case find_stream u d of
          None \<Rightarrow> Inl (pg ''IS003'' (''claim_subscription: stream '' @ u @ '' not found''))
        | Some s \<Rightarrow>
          (case find_sub (s_id s) n d of
             None \<Rightarrow>
               bind_sum (initial_cursor start s) (\<lambda>ls.
                 Inr ([granted ls wk ex],
                   d\<lparr>subs := subs d @ [\<lparr>b_stream = s_id s, b_name = n, b_last_seen = ls,
                        b_claimed_by = Some wk, b_expires = Some ex, b_created = now d\<rparr>]\<rparr>))
           | Some b \<Rightarrow>
               if held_by_other b wk (now d) \<or> locked \<or> \<not> claimable_by b wk (now d)
               then Inr ([refused b], d)
               else Inr ([granted (b_last_seen b) wk ex],
                 update_sub (s_id s) n (\<lambda>r. r\<lparr>b_claimed_by := Some wk, b_expires := Some ex\<rparr>) d)))))"

section \<open>release_subscription, delete_subscription, route_batch\<close>

definition with_lease ::
  "string \<Rightarrow> string \<Rightarrow> string \<Rightarrow> string \<Rightarrow> db \<Rightarrow> (nat \<Rightarrow> sub_row \<Rightarrow> pg_error + 'a) \<Rightarrow> pg_error + 'a" where
  "with_lease proc u n w d f =
     with_stream proc u d (\<lambda>k.
       (case find_sub k n d of
          None \<Rightarrow> Inl (sub_not_found proc n u)
        | Some b \<Rightarrow> if b_claimed_by b \<noteq> Some w then Inl (lease_lost ''IS022'' proc (b_claimed_by b) w)
                    else f k b))"

definition release_subscription ::
  "string option \<Rightarrow> string option \<Rightarrow> string option \<Rightarrow> json option \<Rightarrow> db \<Rightarrow> pg_error + (unit \<times> db)" where
  "release_subscription su name w opts d =
     check_sub ''release_subscription'' su name
    (check_worker ''release_subscription'' w
    (with_lease ''release_subscription'' (the su) (the name) (the w) d (\<lambda>k b.
       Inr ((), update_sub k (the name) (\<lambda>r. r\<lparr>b_claimed_by := None, b_expires := None\<rparr>) d))))"

text \<open>Deleting a subscription cascades to its work items.\<close>

definition delete_subscription ::
  "string option \<Rightarrow> string option \<Rightarrow> json option \<Rightarrow> db \<Rightarrow> pg_error + (unit \<times> db)" where
  "delete_subscription su name opts d =
     check_sub ''delete_subscription'' su name
    (with_stream ''delete_subscription'' (the su) d (\<lambda>k.
       (case find_sub k (the name) d of
          None \<Rightarrow> Inl (sub_not_found ''delete_subscription'' (the name) (the su))
        | Some _ \<Rightarrow> Inr ((),
            d\<lparr>subs := filter (\<lambda>b. \<not> (b_stream b = k \<and> b_name b = the name)) (subs d),
              items := filter (\<lambda>i. \<not> item_of k (the name) i) (items d)\<rparr>))))"

definition bad_decision :: "json \<Rightarrow> bool" where
  "bad_decision v \<longleftrightarrow>
     \<not> json_has ''partition_key'' v \<or> \<not> json_has ''event_number'' v
     \<or> (case json_get ''partition_key'' v of None \<Rightarrow> False | Some x \<Rightarrow> json_typeof x \<noteq> ''string'')
     \<or> (case json_get ''event_number'' v of None \<Rightarrow> False | Some x \<Rightarrow> json_typeof x \<noteq> ''number'')"

definition decision_row :: "nat \<Rightarrow> string \<Rightarrow> json \<Rightarrow> pg_error + item_row" where
  "decision_row k n v =
     (case (json_get ''partition_key'' v, json_get ''event_number'' v) of
        (Some (JStr p), Some (JNum e)) \<Rightarrow>
          bind_sum (bigint_in (show_num e)) (\<lambda>i.
            Inr \<lparr>i_stream = k, i_sub = n, i_partition = p, i_event = i, i_state = Pending,
                 i_claimed_by = None, i_lease = None, i_failed_at = None, i_error = None\<rparr>)
      | _ \<Rightarrow> Inl (pg ''23502'' ''null value in column partition_key violates not-null constraint''))"

text \<open>\<open>insert ... on conflict do nothing\<close>: a key already present is skipped.\<close>

definition same_item :: "item_row \<Rightarrow> item_row \<Rightarrow> bool" where
  "same_item i j \<longleftrightarrow> item_key (i_stream i) (i_sub i) (i_partition i) (i_event i) j"

fun insert_items :: "item_row list \<Rightarrow> item_row list \<Rightarrow> item_row list" where
  "insert_items [] old = old"
| "insert_items (i # is) old =
     insert_items is (if \<exists>j \<in> set old. same_item i j then old else old @ [i])"

record route_row =
  rr_inserted :: nat
  rr_last_seen :: nat

definition route_batch ::
  "string option \<Rightarrow> string option \<Rightarrow> string option \<Rightarrow> int option \<Rightarrow> json option \<Rightarrow> json option \<Rightarrow> db
     \<Rightarrow> pg_error + (route_row list \<times> db)" where
  "route_batch su name w cur decs opts d =
     check_sub ''route_batch'' su name
    (check_worker ''route_batch'' w
    (guard_sum (null_or_neg cur) (pg ''22023'' ''route_batch: p_new_cursor must be non-negative'')
    (case decs of
       Some (JArr vs) \<Rightarrow>
         guard_sum (\<exists>v \<in> set vs. bad_decision v)
           (pg ''22023'' ''route_batch: each decision must have partition_key:text and event_number:int'')
        (with_lease ''route_batch'' (the su) (the name) (the w) d (\<lambda>k b.
           bind_sum (map_sum_list (decision_row k (the name)) vs) (\<lambda>rows.
             let its = insert_items rows (items d);
                 ls = max (b_last_seen b) (nat (the cur))
             in Inr ([\<lparr>rr_inserted = length its - length (items d), rr_last_seen = ls\<rparr>],
                  (update_sub k (the name) (\<lambda>r. r\<lparr>b_last_seen := ls\<rparr>) d)\<lparr>items := its\<rparr>))))
     | _ \<Rightarrow> Inl (pg ''22023'' ''route_batch: p_decisions must be a JSON array (possibly empty)''))))"

section \<open>claim_work_item\<close>

text \<open>\<open>wi.state = 'pending' or (wi.state = 'claimed' and wi.lease_expires_at < now)\<close>\<close>

definition takeable :: "int \<Rightarrow> item_row \<Rightarrow> bool" where
  "takeable t i \<longleftrightarrow>
     i_state i = Pending
     \<or> (i_state i = ClaimedS \<and> (case i_lease i of None \<Rightarrow> False | Some ex \<Rightarrow> ex < t))"

text \<open>The \<open>not exists\<close> clause: an earlier row of the same partition is not terminal.\<close>

definition blocked :: "item_row list \<Rightarrow> item_row \<Rightarrow> bool" where
  "blocked is i \<longleftrightarrow>
     (\<exists>j \<in> set is. item_of (i_stream i) (i_sub i) j \<and> i_partition j = i_partition i
        \<and> i_event j < i_event i \<and> open_item j)"

definition claim_candidates :: "nat \<Rightarrow> string \<Rightarrow> (item_row \<Rightarrow> bool) \<Rightarrow> db \<Rightarrow> item_row list" where
  "claim_candidates k n locked d =
     sort_key i_event
       (filter (\<lambda>i. item_of k n i \<and> takeable (now d) i \<and> \<not> blocked (items d) i \<and> \<not> locked i) (items d))"

record work_row =
  w_partition :: string
  w_event :: int
  w_claimed_by :: string
  w_lease :: int
  w_takeover :: bool
  w_prior :: "string option"

definition claim_work_item ::
  "(item_row \<Rightarrow> bool) \<Rightarrow> string option \<Rightarrow> string option \<Rightarrow> string option \<Rightarrow> int option \<Rightarrow> json option
     \<Rightarrow> db \<Rightarrow> pg_error + (work_row list \<times> db)" where
  "claim_work_item locked su name w secs opts d =
     check_sub ''claim_work_item'' su name
    (check_worker ''claim_work_item'' w
    (check_lease ''claim_work_item'' secs
    (require_subscription ''claim_work_item'' (the su) (the name) d (\<lambda>k.
       (case claim_candidates k (the name) locked d of
          [] \<Rightarrow> Inr ([], d)
        | i # _ \<Rightarrow>
            (let ex = now d + 1000 * the secs;
                 tk = (case i_claimed_by i of None \<Rightarrow> False | Some h \<Rightarrow> h \<noteq> the w)
             in Inr ([\<lparr>w_partition = i_partition i, w_event = i_event i, w_claimed_by = the w,
                       w_lease = ex, w_takeover = tk,
                       w_prior = (if tk then i_claimed_by i else None)\<rparr>],
                  update_item k (the name) (i_partition i) (i_event i)
                    (\<lambda>r. r\<lparr>i_state := ClaimedS, i_claimed_by := w, i_lease := Some ex\<rparr>) d)))))))"

section \<open>Terminal steps\<close>

definition complete_work_item_projection ::
  "string option \<Rightarrow> string option \<Rightarrow> string option \<Rightarrow> string option \<Rightarrow> int option \<Rightarrow> json option
     \<Rightarrow> db \<Rightarrow> pg_error + (unit \<times> db)" where
  "complete_work_item_projection su name w p e opts d =
     check_sub ''complete_work_item_projection'' su name
    (check_worker ''complete_work_item_projection'' w
    (check_item ''complete_work_item_projection'' p e
    (with_claimed_item ''complete_work_item_projection'' (the su) (the name) (the w) (the p) (the e) d
       (\<lambda>k i. Inr ((), d\<lparr>items := filter (\<lambda>j. \<not> item_key k (the name) (the p) (the e) j) (items d)\<rparr>)))))"

definition complete_work_item_pm ::
  "string option \<Rightarrow> string option \<Rightarrow> string option \<Rightarrow> string option \<Rightarrow> int option
     \<Rightarrow> string option \<Rightarrow> string option \<Rightarrow> int option \<Rightarrow> json option \<Rightarrow> json option \<Rightarrow> json option
     \<Rightarrow> db \<Rightarrow> pg_error + (unit \<times> db)" where
  "complete_work_item_pm su name w p e snu snt snv sdata smd opts d =
     check_sub ''complete_work_item_pm'' su name
    (check_worker ''complete_work_item_pm'' w
    (check_item ''complete_work_item_pm'' p e
    (guard_sum (null_or_empty snu) (pg ''22023'' ''complete_work_item_pm: p_snapshot_uuid is null/empty'')
    (guard_sum (null_or_empty snt) (pg ''22023'' ''complete_work_item_pm: p_snapshot_type is null/empty'')
    (guard_sum (null_or_neg snv)
       (pg ''22023'' ''complete_work_item_pm: p_snapshot_version must be non-negative'')
    (guard_sum (sdata = None) (pg ''22023'' ''complete_work_item_pm: p_snapshot_data is null'')
    (with_claimed_item ''complete_work_item_pm'' (the su) (the name) (the w) (the p) (the e) d
       (\<lambda>k i. Inr ((), upsert_snapshot (the snu) (the snt) (nat (the snv)) (the sdata) smd
          (update_item k (the name) (the p) (the e)
             (\<lambda>r. r\<lparr>i_state := Done, i_claimed_by := None, i_lease := None\<rparr>) d))))))))))"

record pm_done_row =
  pd_items :: nat
  pd_snapshot :: bool

definition complete_pm_instance ::
  "string option \<Rightarrow> string option \<Rightarrow> string option \<Rightarrow> string option \<Rightarrow> json option \<Rightarrow> db
     \<Rightarrow> pg_error + (pm_done_row list \<times> db)" where
  "complete_pm_instance su name p snu opts d =
     check_sub ''complete_pm_instance'' su name
    (guard_sum (p = None) (pg ''22023'' ''complete_pm_instance: p_partition_key is null'')
    (guard_sum (null_or_empty snu) (pg ''22023'' ''complete_pm_instance: p_snapshot_uuid is null/empty'')
    (require_subscription ''complete_pm_instance'' (the su) (the name) d (\<lambda>k.
       (let mine = (\<lambda>j. item_of k (the name) j \<and> i_partition j = the p);
            snap = (\<lambda>r. n_source_uuid r = the snu)
        in Inr ([\<lparr>pd_items = length (filter mine (items d)),
                  pd_snapshot = (0 < length (filter snap (snaps d)))\<rparr>],
             d\<lparr>items := filter (\<lambda>j. \<not> mine j) (items d), snaps := filter (\<lambda>r. \<not> snap r) (snaps d)\<rparr>))))))"

definition fail_work_item ::
  "string option \<Rightarrow> string option \<Rightarrow> string option \<Rightarrow> string option \<Rightarrow> int option \<Rightarrow> string option
     \<Rightarrow> json option \<Rightarrow> db \<Rightarrow> pg_error + (unit \<times> db)" where
  "fail_work_item su name w p e err opts d =
     check_sub ''fail_work_item'' su name
    (check_worker ''fail_work_item'' w
    (check_item ''fail_work_item'' p e
    (with_claimed_item ''fail_work_item'' (the su) (the name) (the w) (the p) (the e) d
       (\<lambda>k i. Inr ((), update_item k (the name) (the p) (the e)
          (\<lambda>r. r\<lparr>i_state := Failed, i_failed_at := Some (now d), i_error := err,
                 i_claimed_by := None, i_lease := None\<rparr>) d)))))"

definition state_text :: "item_state \<Rightarrow> string" where
  "state_text s =
     (case s of Pending \<Rightarrow> ''pending'' | ClaimedS \<Rightarrow> ''claimed'' | Failed \<Rightarrow> ''failed'' | Done \<Rightarrow> ''done'')"

definition extend_work_item_claim ::
  "string option \<Rightarrow> string option \<Rightarrow> string option \<Rightarrow> string option \<Rightarrow> int option \<Rightarrow> int option
     \<Rightarrow> json option \<Rightarrow> db \<Rightarrow> pg_error + (int list \<times> db)" where
  "extend_work_item_claim su name w p e secs opts d =
     check_sub ''extend_work_item_claim'' su name
    (check_worker ''extend_work_item_claim'' w
    (check_item ''extend_work_item_claim'' p e
    (check_lease ''extend_work_item_claim'' secs
    (require_subscription ''extend_work_item_claim'' (the su) (the name) d (\<lambda>k.
       (case find_item k (the name) (the p) (the e) d of
          None \<Rightarrow> Inl (pg ''IS030'' (''extend_work_item_claim: work item ('' @ the p @ '', ''
                    @ show_int (the e) @ '') gone (takeover)''))
        | Some i \<Rightarrow>
            (if i_state i \<noteq> ClaimedS \<or> i_claimed_by i \<noteq> w then
               Inl (pg ''IS030'' (''extend_work_item_claim: lease lost (state='' @ state_text (i_state i)
                 @ '', holder='' @ coalesce ''<none>'' (i_claimed_by i) @ '', caller='' @ the w @ '')''))
             else (let ex = now d + 1000 * the secs
                   in Inr ([ex], update_item k (the name) (the p) (the e) (\<lambda>r. r\<lparr>i_lease := Some ex\<rparr>) d)))))))))"

section \<open>Predicates and cold reads\<close>

definition is_subscription_caught_up ::
  "string option \<Rightarrow> string option \<Rightarrow> int option \<Rightarrow> json option \<Rightarrow> db \<Rightarrow> pg_error + (bool list \<times> db)" where
  "is_subscription_caught_up su name target opts d =
     check_sub ''is_subscription_caught_up'' su name
    (guard_sum (null_or_neg target)
       (pg ''22023'' ''is_subscription_caught_up: p_target must be non-negative'')
    (with_stream ''is_subscription_caught_up'' (the su) d (\<lambda>k.
       (case find_sub k (the name) d of
          None \<Rightarrow> Inl (sub_not_found ''is_subscription_caught_up'' (the name) (the su))
        | Some b \<Rightarrow>
            Inr ([the target \<le> int (b_last_seen b)
                  \<and> \<not> (\<exists>i \<in> set (items d). item_of k (the name) i \<and> i_event i \<le> the target \<and> open_item i)],
                 d)))))"

definition rebuild_query :: "nat \<Rightarrow> string \<Rightarrow> string \<Rightarrow> int \<Rightarrow> db \<Rightarrow> event_out list" where
  "rebuild_query k n p e d =
     sort_key o_event_number
       [out_row (l_version se) (s_uuid orig) (l_orig_version se) ev.
          wi \<leftarrow> filter (\<lambda>i. item_of k n i \<and> i_partition i = p \<and> i_state i = Done \<and> i_event i < e) (items d),
          se \<leftarrow> filter (\<lambda>l. l_stream l = 0 \<and> int (l_version l) = i_event wi) (links d),
          ev \<leftarrow> filter (\<lambda>ev. e_id ev = l_event se) (events d),
          orig \<leftarrow> filter (\<lambda>s. s_id s = l_orig_stream se) (streams d)]"

definition list_pm_rebuild_events ::
  "string option \<Rightarrow> string option \<Rightarrow> string option \<Rightarrow> int option \<Rightarrow> json option \<Rightarrow> db
     \<Rightarrow> pg_error + (event_out list \<times> db)" where
  "list_pm_rebuild_events su name p e opts d =
     check_sub ''list_pm_rebuild_events'' su name
    (check_item ''list_pm_rebuild_events'' p e
    (require_subscription ''list_pm_rebuild_events'' (the su) (the name) d (\<lambda>k.
       Inr (rebuild_query k (the name) (the p) (the e) d, d))))"

end
