(* ===== verification/Procs.thy ===== *)
theory Procs
  imports Sql_Queue
begin

text \<open>
  The procedures as one labelled transition system: \<open>call\<close> is an invocation with its arguments,
  \<open>exec\<close> its outcome, \<open>db_step\<close> a call by any client or the passing of time. The invariants of the
  two halves of the schema hold in every database reachable from the installed one.
\<close>

datatype call =
    CAppend "string option" "string option" "int option" "json option"
  | CReadStream "string option" "int option" "int option"
  | CReadAll "int option" "int option"
  | CRecordSnapshot "string option" "string option" "int option" "json option" "json option"
  | CReadSnapshot "string option"
  | CDeleteSnapshot "string option"
  | CClaimSub bool "string option" "string option" "string option" "int option" "json option"
  | CReleaseSub "string option" "string option" "string option"
  | CDeleteSub "string option" "string option"
  | CRouteBatch "string option" "string option" "string option" "int option" "json option"
  | CClaimItem "item_row list" "string option" "string option" "string option" "int option"
  | CExtendItem "string option" "string option" "string option" "string option" "int option" "int option"
  | CCompleteProjection "string option" "string option" "string option" "string option" "int option"
  | CCompletePm "string option" "string option" "string option" "string option" "int option"
      "string option" "string option" "int option" "json option" "json option"
  | CCompleteInstance "string option" "string option" "string option" "string option"
  | CFailItem "string option" "string option" "string option" "string option" "int option" "string option"
  | CCaughtUp "string option" "string option" "int option"
  | CRebuildEvents "string option" "string option" "string option" "int option"

datatype reply =
    RUnit
  | RAppend "append_row list"
  | REvents "event_out list"
  | RSnaps "snapshot_row list"
  | RClaim "claim_row list"
  | RRoute "route_row list"
  | RWork "work_row list"
  | RLease "int list"
  | RDone "pm_done_row list"
  | RBools "bool list"

text \<open>Tagging the rows of an outcome.\<close>

definition tag :: "('a \<Rightarrow> reply) \<Rightarrow> pg_error + ('a \<times> db) \<Rightarrow> pg_error + (reply \<times> db)" where
  "tag f r = (case r of Inl e \<Rightarrow> Inl e | Inr (x, d) \<Rightarrow> Inr (f x, d))"

fun exec :: "call \<Rightarrow> db \<Rightarrow> pg_error + (reply \<times> db)" where
  "exec (CAppend su vt ver evs) d = tag RAppend (append_to_stream su vt ver evs (Some (JObj [])) d)"
| "exec (CReadStream su from qty) d = tag REvents (read_stream su from qty (Some (JObj [])) d)"
| "exec (CReadAll from qty) d = tag REvents (read_all from qty (Some (JObj [])) d)"
| "exec (CRecordSnapshot u ty v data md) d =
     tag (\<lambda>_. RUnit) (record_snapshot u ty v data md (Some (JObj [])) d)"
| "exec (CReadSnapshot u) d = tag RSnaps (read_snapshot u (Some (JObj [])) d)"
| "exec (CDeleteSnapshot u) d = tag (\<lambda>_. RUnit) (delete_snapshot u (Some (JObj [])) d)"
| "exec (CClaimSub locked su n w secs opts) d = tag RClaim (claim_subscription locked su n w secs opts d)"
| "exec (CReleaseSub su n w) d = tag (\<lambda>_. RUnit) (release_subscription su n w (Some (JObj [])) d)"
| "exec (CDeleteSub su n) d = tag (\<lambda>_. RUnit) (delete_subscription su n (Some (JObj [])) d)"
| "exec (CRouteBatch su n w cur decs) d = tag RRoute (route_batch su n w cur decs (Some (JObj [])) d)"
| "exec (CClaimItem locked su n w secs) d =
     tag RWork (claim_work_item (\<lambda>i. i \<in> set locked) su n w secs (Some (JObj [])) d)"
| "exec (CExtendItem su n w p e secs) d =
     tag RLease (extend_work_item_claim su n w p e secs (Some (JObj [])) d)"
| "exec (CCompleteProjection su n w p e) d =
     tag (\<lambda>_. RUnit) (complete_work_item_projection su n w p e (Some (JObj [])) d)"
| "exec (CCompletePm su n w p e snu snt snv sd smd) d =
     tag (\<lambda>_. RUnit) (complete_work_item_pm su n w p e snu snt snv sd smd (Some (JObj [])) d)"
| "exec (CCompleteInstance su n p snu) d =
     tag RDone (complete_pm_instance su n p snu (Some (JObj [])) d)"
| "exec (CFailItem su n w p e err) d =
     tag (\<lambda>_. RUnit) (fail_work_item su n w p e err (Some (JObj [])) d)"
| "exec (CCaughtUp su n target) d =
     tag RBools (is_subscription_caught_up su n target (Some (JObj [])) d)"
| "exec (CRebuildEvents su n p e) d =
     tag REvents (list_pm_rebuild_events su n p e (Some (JObj [])) d)"

text \<open>A call that raises is rolled back.\<close>

definition after :: "call \<Rightarrow> db \<Rightarrow> db" where
  "after c d = (case exec c d of Inl _ \<Rightarrow> d | Inr (_, d') \<Rightarrow> d')"

definition pass :: "nat \<Rightarrow> db \<Rightarrow> db" where
  "pass ms d = d\<lparr>now := now d + int ms\<rparr>"

inductive db_step :: "db \<Rightarrow> db \<Rightarrow> bool" where
  step_call: "db_step d (after c d)"
| step_pass: "db_step d (pass ms d)"

inductive reachable :: "db \<Rightarrow> bool" where
  reach_init: "reachable (initial_db t)"
| reach_step: "reachable d \<Longrightarrow> db_step d d' \<Longrightarrow> reachable d'"

inductive_simps db_step_iff: "db_step d d'"

lemma tag_Inr: "tag f r = Inr (x, d') \<longleftrightarrow> (\<exists>y. r = Inr (y, d') \<and> x = f y)"
  by (auto simp: tag_def split: sum.splits)

lemma tag_Inl: "tag f r = Inl e \<longleftrightarrow> r = Inl e"
  by (auto simp: tag_def split: sum.splits)

section \<open>The queue tables\<close>

definition sub_key :: "sub_row \<Rightarrow> nat \<times> string" where
  "sub_key b = (b_stream b, b_name b)"

definition full_key :: "item_row \<Rightarrow> nat \<times> string \<times> string \<times> int" where
  "full_key i = (i_stream i, i_sub i, i_partition i, i_event i)"

text \<open>The CHECK constraints of subscription_work_items.\<close>

definition row_ok :: "item_row \<Rightarrow> bool" where
  "row_ok i \<longleftrightarrow>
     (i_state i = ClaimedS \<longleftrightarrow> i_claimed_by i \<noteq> None \<and> i_lease i \<noteq> None)
     \<and> (i_state i = Failed \<longleftrightarrow> i_failed_at i \<noteq> None)
     \<and> (i_error i \<noteq> None \<longrightarrow> i_state i = Failed)
     \<and> (i_claimed_by i = None \<longleftrightarrow> i_lease i = None)"

text \<open>Primary keys, foreign keys and checks of the three tables.\<close>

definition wf_queue :: "db \<Rightarrow> bool" where
  "wf_queue d \<longleftrightarrow>
     distinct (map sub_key (subs d)) \<and> distinct (map full_key (items d))
     \<and> distinct (map n_source_uuid (snaps d))
     \<and> (\<forall>b \<in> set (subs d). b_stream b \<in> s_id ` set (streams d))
     \<and> (\<forall>i \<in> set (items d). (i_stream i, i_sub i) \<in> sub_key ` set (subs d))
     \<and> (\<forall>i \<in> set (items d). row_ok i)"

definition wf_db :: "db \<Rightarrow> bool" where
  "wf_db d \<longleftrightarrow> wf_events d \<and> wf_queue d"

lemma map_key_update:
  "(\<And>x. g (f x) = g x) \<Longrightarrow> map g (map (\<lambda>x. if P x then f x else x) xs) = map g xs"
  by simp

lemma update_sub_fields [simp]:
  "streams (update_sub k n f d) = streams d" "events (update_sub k n f d) = events d"
  "links (update_sub k n f d) = links d" "snaps (update_sub k n f d) = snaps d"
  "items (update_sub k n f d) = items d" "now (update_sub k n f d) = now d"
  by (simp_all add: update_sub_def)

lemma update_item_fields [simp]:
  "streams (update_item k n p e f d) = streams d" "events (update_item k n p e f d) = events d"
  "links (update_item k n p e f d) = links d" "snaps (update_item k n p e f d) = snaps d"
  "subs (update_item k n p e f d) = subs d" "now (update_item k n p e f d) = now d"
  by (simp_all add: update_item_def)

lemma upsert_snapshot_fields [simp]:
  "streams (upsert_snapshot u ty v data md d) = streams d" "events (upsert_snapshot u ty v data md d) = events d"
  "links (upsert_snapshot u ty v data md d) = links d" "items (upsert_snapshot u ty v data md d) = items d"
  "subs (upsert_snapshot u ty v data md d) = subs d" "now (upsert_snapshot u ty v data md d) = now d"
  by (simp_all add: upsert_snapshot_def Let_def)

lemma update_sub_keys:
  "(\<And>b. sub_key (f b) = sub_key b) \<Longrightarrow> map sub_key (subs (update_sub k n f d)) = map sub_key (subs d)"
  by (simp add: update_sub_def)

lemma wf_update_sub:
  assumes "wf_queue d" "\<And>b. sub_key (f b) = sub_key b"
  shows "wf_queue (update_sub k n f d)"
proof -
  have m: "map sub_key (subs (update_sub k n f d)) = map sub_key (subs d)"
    by (simp add: update_sub_def assms(2))
  have k: "sub_key ` set (subs (update_sub k n f d)) = sub_key ` set (subs d)"
    using arg_cong [OF m, of set] by simp
  have "b_stream b \<in> s_id ` set (streams d)" if "b \<in> set (subs (update_sub k n f d))" for b
  proof -
    from that k obtain b' where "b' \<in> set (subs d)" "sub_key b' = sub_key b" by (metis imageE imageI)
    with assms(1) show ?thesis unfolding wf_queue_def sub_key_def by (metis prod.inject)
  qed
  with assms(1) m k show ?thesis by (simp add: wf_queue_def)
qed

lemma wf_update_item:
  assumes wf: "wf_queue d" and key: "\<And>i. full_key (f i) = full_key i"
    and ok: "\<And>i. i \<in> set (items d) \<Longrightarrow> item_key k n p e i \<Longrightarrow> row_ok i \<Longrightarrow> row_ok (f i)"
  shows "wf_queue (update_item k n p e f d)"
proof -
  have m: "map full_key (items (update_item k n p e f d)) = map full_key (items d)"
    by (simp add: update_item_def key)
  have it: "(i_stream i, i_sub i) \<in> sub_key ` set (subs d) \<and> row_ok i"
    if "i \<in> set (items (update_item k n p e f d))" for i
  proof -
    from that obtain j where j: "j \<in> set (items d)" "i = (if item_key k n p e j then f j else j)"
      by (auto simp: update_item_def)
    then have "full_key i = full_key j" by (simp add: key)
    then have "(i_stream i, i_sub i) = (i_stream j, i_sub j)" by (simp add: full_key_def)
    with j wf ok [of j] show ?thesis by (auto simp: wf_queue_def)
  qed
  with wf m show ?thesis by (simp add: wf_queue_def)
qed

lemma distinct_map_filter_key: "distinct (map g xs) \<Longrightarrow> distinct (map g (filter P xs))"
  by (rule distinct_map_filter)

lemma wf_filter_items: "wf_queue d \<Longrightarrow> wf_queue (d\<lparr>items := filter P (items d)\<rparr>)"
  by (simp add: wf_queue_def distinct_map_filter)

lemma wf_upsert:
  assumes wf: "wf_queue d"
  shows "wf_queue (upsert_snapshot u ty v data md d)"
proof -
  have "distinct (map n_source_uuid (snaps (upsert_snapshot u ty v data md d)))"
  proof (cases "u \<in> n_source_uuid ` set (snaps d)")
    case True
    then have "map n_source_uuid (snaps (upsert_snapshot u ty v data md d)) = map n_source_uuid (snaps d)"
      by (simp add: upsert_snapshot_def Let_def)
    with wf show ?thesis by (simp only: wf_queue_def)
  next
    case False
    with wf show ?thesis by (simp add: upsert_snapshot_def Let_def wf_queue_def)
  qed
  with wf show ?thesis by (simp add: wf_queue_def)
qed

lemma same_item_iff: "same_item i j \<longleftrightarrow> full_key j = full_key i"
  by (auto simp: same_item_def item_key_def item_of_def full_key_def)

lemma insert_items_grow: "\<exists>more. insert_items is old = old @ more \<and> set more \<subseteq> set is"
proof (induction "is" old rule: insert_items.induct)
  case (2 i "is" old)
  then obtain more where more:
    "insert_items is (if \<exists>j \<in> set old. same_item i j then old else old @ [i])
      = (if \<exists>j \<in> set old. same_item i j then old else old @ [i]) @ more" "set more \<subseteq> set is" by blast
  show ?case
  proof (cases "\<exists>j \<in> set old. same_item i j")
    case True
    with more show ?thesis by auto
  next
    case False
    with more have "insert_items (i # is) old = old @ (i # more)" by simp
    moreover have "set (i # more) \<subseteq> set (i # is)" using more by auto
    ultimately show ?thesis by blast
  qed
qed simp

lemma insert_items_distinct:
  "distinct (map full_key old) \<Longrightarrow> distinct (map full_key (insert_items is old))"
proof (induction "is" old rule: insert_items.induct)
  case (2 i "is" old)
  have "distinct (map full_key (if \<exists>j \<in> set old. same_item i j then old else old @ [i]))"
    using "2.prems" by (auto simp: same_item_iff)
  from "2.IH" [OF this] show ?case by (simp only: insert_items.simps)
qed simp

section \<open>What each procedure keeps\<close>

text \<open>The tables of the log are left as they are.\<close>

definition same_log :: "db \<Rightarrow> db \<Rightarrow> bool" where
  "same_log d d' \<longleftrightarrow> streams d' = streams d \<and> events d' = events d \<and> links d' = links d"

lemma same_log_wf: "same_log d d' \<Longrightarrow> wf_events d \<Longrightarrow> wf_events d'"
  by (simp add: same_log_def wf_events_def wf_streams_def wf_links_def wf_origin_def glinks_def)

lemma same_log_log: "same_log d d' \<Longrightarrow> store_log d' = store_log d"
  by (simp add: same_log_def store_log_def glinks_def)

lemma same_log_refl [simp]: "same_log d d"
  by (simp add: same_log_def)

lemmas check_defs = check_sub_def check_worker_def check_lease_def check_item_def

lemmas lookup_defs = with_stream_def require_subscription_def with_claimed_item_def with_lease_def

lemma find_sub_Some: "find_sub k n d = Some b \<Longrightarrow> b \<in> set (subs d) \<and> b_stream b = k \<and> b_name b = n"
  by (auto simp: find_sub_def find_Some_iff in_set_conv_nth)

lemma find_sub_None: "find_sub k n d = None \<longleftrightarrow> (k, n) \<notin> sub_key ` set (subs d)"
  by (auto simp: find_sub_def find_None_iff sub_key_def)

lemma find_item_Some: "find_item k n p e d = Some i \<Longrightarrow> i \<in> set (items d) \<and> item_key k n p e i"
  by (auto simp: find_item_def find_Some_iff in_set_conv_nth)

lemma find_stream_in: "find_stream u d = Some s \<Longrightarrow> s \<in> set (streams d) \<and> s_uuid s = u"
  unfolding find_stream_def by (rule find_key_Some)

lemma claim_subscription_step:
  assumes "claim_subscription locked su name w secs opts d = Inr (r, d')" "wf_queue d"
  shows "same_log d d' \<and> wf_queue d'"
  using assms
  by (auto simp: claim_subscription_def check_defs sum_iffs Let_def same_log_def find_sub_None
      split: option.splits if_splits intro!: wf_update_sub)
     (auto simp: wf_queue_def sub_key_def image_iff dest!: find_stream_in)

lemma release_subscription_step:
  assumes "release_subscription su name w opts d = Inr (r, d')" "wf_queue d"
  shows "same_log d d' \<and> wf_queue d'"
  using assms
  by (auto simp: release_subscription_def check_defs lookup_defs sum_iffs same_log_def sub_key_def
      split: option.splits if_splits intro!: wf_update_sub)

lemma wf_delete_sub:
  assumes "wf_queue d"
  shows "wf_queue (d\<lparr>subs := filter (\<lambda>b. \<not> (b_stream b = k \<and> b_name b = n)) (subs d),
                      items := filter (\<lambda>i. \<not> item_of k n i) (items d)\<rparr>)"
proof -
  have s: "(\<lambda>b. \<not> (b_stream b = k \<and> b_name b = n)) = (\<lambda>b. sub_key b \<noteq> (k, n))"
    by (auto simp: sub_key_def)
  have i: "(\<lambda>i. \<not> item_of k n i) = (\<lambda>i. (i_stream i, i_sub i) \<noteq> (k, n))"
    by (auto simp: item_of_def)
  show ?thesis
    using assms unfolding s i by (fastforce simp: wf_queue_def distinct_map_filter image_iff)
qed

lemma delete_subscription_step:
  assumes "delete_subscription su name opts d = Inr (r, d')" "wf_queue d"
  shows "same_log d d' \<and> wf_queue d'"
  using assms(1) wf_delete_sub [OF assms(2)]
  by (auto simp: delete_subscription_def check_defs lookup_defs sum_iffs same_log_def
      simp del: de_Morgan_conj split: option.splits)

lemma decision_row_ok: "decision_row k n v = Inr i \<Longrightarrow> i_stream i = k \<and> i_sub i = n \<and> row_ok i"
  by (auto simp: decision_row_def sum_iffs row_ok_def split: option.splits json.splits)

lemma route_batch_step:
  assumes "route_batch su name w cur decs opts d = Inr (r, d')" "wf_queue d"
  shows "same_log d d' \<and> wf_queue d'"
proof -
  from assms(1) obtain k b vs rows ls where k: "find_sub k (the name) d = Some b"
    and rows: "map_sum_list (decision_row k (the name)) vs = Inr rows"
    and d': "d' = (update_sub k (the name) (\<lambda>r. r\<lparr>b_last_seen := ls\<rparr>) d)\<lparr>items := insert_items rows (items d)\<rparr>"
    by (auto simp: route_batch_def check_defs lookup_defs sum_iffs Let_def split: option.splits json.splits if_splits)
  have ri: "i_stream i = k \<and> i_sub i = the name \<and> row_ok i" if "i \<in> set rows" for i
    using rows that decision_row_ok by (fastforce simp: map_sum_list_Inr in_set_conv_nth list_all2_conv_all_nth)
  obtain more where more: "insert_items rows (items d) = items d @ more" "set more \<subseteq> set rows"
    using insert_items_grow by blast
  have kk: "(k, the name) \<in> sub_key ` set (subs d)"
    using k find_sub_None by (metis option.distinct(1))
  have u: "wf_queue (update_sub k (the name) (\<lambda>r. r\<lparr>b_last_seen := ls\<rparr>) d)"
    by (rule wf_update_sub [OF assms(2)]) (simp add: sub_key_def)
  have sk: "sub_key ` set (subs (update_sub k (the name) (\<lambda>r. r\<lparr>b_last_seen := ls\<rparr>) d)) = sub_key ` set (subs d)"
    using arg_cong [OF update_sub_keys [of "\<lambda>r. r\<lparr>b_last_seen := ls\<rparr>" k "the name" d], of set] by (simp add: sub_key_def)
  have "distinct (map full_key (insert_items rows (items d)))"
    using assms(2) insert_items_distinct by (simp add: wf_queue_def)
  with u sk kk more ri d' show ?thesis
    by (auto simp: wf_queue_def same_log_def)
qed

lemma claim_candidates_Cons:
  assumes "claim_candidates k n locked d = i # rest"
  shows "i \<in> set (items d)" "item_of k n i" "takeable (now d) i" "\<not> blocked (items d) i" "\<not> locked i"
proof -
  have "i \<in> set (claim_candidates k n locked d)" using assms by simp
  then show "i \<in> set (items d)" "item_of k n i" "takeable (now d) i" "\<not> blocked (items d) i" "\<not> locked i"
    by (auto simp: claim_candidates_def)
qed

text \<open>A successful claim: an empty queue, or the first candidate handed to the worker.\<close>

definition claim_update :: "string \<Rightarrow> int \<Rightarrow> item_row \<Rightarrow> item_row" where
  "claim_update w ex r = r\<lparr>i_state := ClaimedS, i_claimed_by := Some w, i_lease := Some ex\<rparr>"

definition claimed_row :: "string \<Rightarrow> int \<Rightarrow> item_row \<Rightarrow> work_row" where
  "claimed_row w ex i =
     (let tk = (case i_claimed_by i of None \<Rightarrow> False | Some h \<Rightarrow> h \<noteq> w)
      in \<lparr>w_partition = i_partition i, w_event = i_event i, w_claimed_by = w, w_lease = ex,
          w_takeover = tk, w_prior = (if tk then i_claimed_by i else None)\<rparr>)"

lemma claim_work_item_Inr:
  assumes "claim_work_item locked su name w secs opts d = Inr (rows, d')"
  obtains s u n wk sc where "su = Some u" "name = Some n" "w = Some wk" "secs = Some sc" "0 < sc"
    "find_stream u d = Some s" "find_sub (s_id s) n d \<noteq> None"
    "(case claim_candidates (s_id s) n locked d of [] \<Rightarrow> rows = [] \<and> d' = d
      | i # _ \<Rightarrow> rows = [claimed_row wk (now d + 1000 * sc) i]
          \<and> d' = update_item (s_id s) n (i_partition i) (i_event i) (claim_update wk (now d + 1000 * sc)) d)"
proof -
  from assms obtain u n wk sc where a: "su = Some u" "name = Some n" "w = Some wk" "secs = Some sc" "0 < sc"
    by (auto simp: claim_work_item_def check_defs sum_iffs null_or_empty_def not_le split: option.splits)
  from assms a obtain s where s: "find_stream u d = Some s" "find_sub (s_id s) n d \<noteq> None"
    by (auto simp: claim_work_item_def check_defs sum_iffs lookup_defs split: option.splits)
  have u: "claim_update wk ex = (\<lambda>r. r\<lparr>i_state := ClaimedS, i_claimed_by := Some wk, i_lease := Some ex\<rparr>)" for ex
    by (simp add: claim_update_def fun_eq_iff)
  from s obtain b where b: "find_sub (s_id s) n d = Some b" by auto
  have "(case claim_candidates (s_id s) n locked d of [] \<Rightarrow> rows = [] \<and> d' = d
      | i # _ \<Rightarrow> rows = [claimed_row wk (now d + 1000 * sc) i]
          \<and> d' = update_item (s_id s) n (i_partition i) (i_event i) (claim_update wk (now d + 1000 * sc)) d)"
    using assms a s(1) b
    by (cases "claim_candidates (s_id s) n locked d")
       (auto simp: claim_work_item_def check_defs sum_iffs lookup_defs claimed_row_def Let_def u
          cong del: option.case_cong_weak)
  from a s this show thesis by (rule that)
qed

lemma claim_work_item_step:
  assumes c: "claim_work_item locked su name w secs opts d = Inr (r, d')" and wf: "wf_queue d"
  shows "same_log d d' \<and> wf_queue d'"
proof (rule claim_work_item_Inr [OF c])
  fix s u n wk sc
  assume r: "case claim_candidates (s_id s) n locked d of [] \<Rightarrow> r = [] \<and> d' = d
      | i # _ \<Rightarrow> r = [claimed_row wk (now d + 1000 * sc) i]
          \<and> d' = update_item (s_id s) n (i_partition i) (i_event i) (claim_update wk (now d + 1000 * sc)) d"
  show ?thesis
  proof (cases "claim_candidates (s_id s) n locked d")
    case Nil
    with r wf show ?thesis by simp
  next
    case (Cons i rest)
    note C = claim_candidates_Cons [OF Cons]
    have "wf_queue (update_item (s_id s) n (i_partition i) (i_event i) (claim_update wk (now d + 1000 * sc)) d)"
    proof (rule wf_update_item [OF wf])
      fix j assume j: "j \<in> set (items d)" "item_key (s_id s) n (i_partition i) (i_event i) j" "row_ok j"
      then have "full_key j = full_key i" using C(2) by (simp add: item_key_def item_of_def full_key_def)
      then have "j = i" using wf j(1) C(1) by (auto simp: wf_queue_def distinct_map inj_on_def)
      with j(3) C(3) show "row_ok (claim_update wk (now d + 1000 * sc) j)"
        by (auto simp: row_ok_def takeable_def claim_update_def)
    qed (simp add: full_key_def claim_update_def)
    with Cons r show ?thesis by (simp add: same_log_def)
  qed
qed

text \<open>The procedures that require the caller to hold the item's claim.\<close>

lemma with_claimed_item_Inr:
  "with_claimed_item proc u name w p e d f = Inr x \<longleftrightarrow>
     (\<exists>s i. find_stream u d = Some s \<and> find_sub (s_id s) name d \<noteq> None
        \<and> find_item (s_id s) name p e d = Some i \<and> i_claimed_by i = Some w \<and> f (s_id s) i = Inr x)"
  by (auto simp: with_claimed_item_def lookup_defs split: option.splits)

lemma with_claimed_itemE:
  assumes "with_claimed_item proc u name w p e d f = Inr x"
  obtains s i where "find_stream u d = Some s" "find_sub (s_id s) name d \<noteq> None"
    "find_item (s_id s) name p e d = Some i" "i_claimed_by i = Some w" "f (s_id s) i = Inr x"
  using assms unfolding with_claimed_item_Inr by (elim exE conjE)

lemma unique_item:
  "wf_queue d \<Longrightarrow> i \<in> set (items d) \<Longrightarrow> j \<in> set (items d) \<Longrightarrow> item_key k n p e i \<Longrightarrow> item_key k n p e j \<Longrightarrow> i = j"
  by (auto simp: wf_queue_def distinct_map inj_on_def item_key_def item_of_def full_key_def)

lemma wf_claimed_update:
  assumes wf: "wf_queue d" and i: "find_item k n p e d = Some i" "i_claimed_by i \<noteq> None"
    and key: "\<And>r. full_key (f r) = full_key r"
    and ok: "\<And>r. row_ok r \<Longrightarrow> i_state r = ClaimedS \<Longrightarrow> row_ok (f r)"
  shows "wf_queue (update_item k n p e f d)"
proof (rule wf_update_item [OF wf key])
  fix j assume j: "j \<in> set (items d)" "item_key k n p e j" "row_ok j"
  from find_item_Some [OF i(1)] j have "j = i" by (auto intro: unique_item [OF wf])
  with j(3) i(2) have "i_state j = ClaimedS" by (auto simp: row_ok_def)
  with j(3) show "row_ok (f j)" by (rule ok)
qed

lemma complete_projection_step:
  assumes "complete_work_item_projection su name w p e opts d = Inr (r, d')" "wf_queue d"
  shows "same_log d d' \<and> wf_queue d'"
  using assms
  by (auto simp: complete_work_item_projection_def check_defs sum_iffs with_claimed_item_Inr same_log_def
      intro: wf_filter_items)

lemma complete_pm_step:
  assumes "complete_work_item_pm su name w p e snu snt snv sd smd opts d = Inr (r, d')" and wf: "wf_queue d"
  shows "same_log d d' \<and> wf_queue d'"
proof -
  let ?f = "\<lambda>r. r\<lparr>i_state := Done, i_claimed_by := None, i_lease := None\<rparr>"
  let ?g = "\<lambda>k (i :: item_row). Inr ((), upsert_snapshot (the snu) (the snt) (nat (the snv)) (the sd) smd
      (update_item k (the name) (the p) (the e) ?f d)) :: pg_error + unit \<times> db"
  have "\<exists>proc. with_claimed_item proc (the su) (the name) (the w) (the p) (the e) d ?g = Inr (r, d')"
    using assms(1) unfolding complete_work_item_pm_def check_defs sum_iffs by blast
  then show ?thesis
  proof (elim exE, elim with_claimed_itemE)
    fix proc s i
    assume i: "find_item (s_id s) (the name) (the p) (the e) d = Some i" and c: "i_claimed_by i = Some (the w)"
      and d': "?g (s_id s) i = Inr (r, d')"
    have "wf_queue (update_item (s_id s) (the name) (the p) (the e) ?f d)"
      by (rule wf_claimed_update [OF wf i]) (simp_all add: c full_key_def row_ok_def)
    with d' show ?thesis by (auto simp: same_log_def wf_upsert)
  qed
qed

lemma fail_work_item_step:
  assumes "fail_work_item su name w p e err opts d = Inr (r, d')" and wf: "wf_queue d"
  shows "same_log d d' \<and> wf_queue d'"
proof -
  let ?f = "\<lambda>r. r\<lparr>i_state := Failed, i_failed_at := Some (now d), i_error := err,
                 i_claimed_by := None, i_lease := None\<rparr>"
  let ?g = "\<lambda>k (i :: item_row). Inr ((), update_item k (the name) (the p) (the e) ?f d) :: pg_error + unit \<times> db"
  have "\<exists>proc. with_claimed_item proc (the su) (the name) (the w) (the p) (the e) d ?g = Inr (r, d')"
    using assms(1) unfolding fail_work_item_def check_defs sum_iffs by blast
  then show ?thesis
  proof (elim exE, elim with_claimed_itemE)
    fix proc s i
    assume i: "find_item (s_id s) (the name) (the p) (the e) d = Some i" and c: "i_claimed_by i = Some (the w)"
      and d': "?g (s_id s) i = Inr (r, d')"
    have "wf_queue (update_item (s_id s) (the name) (the p) (the e) ?f d)"
      by (rule wf_claimed_update [OF wf i]) (simp_all add: c full_key_def row_ok_def)
    with d' show ?thesis by (auto simp: same_log_def wf_upsert)
  qed
qed

lemma extend_work_item_Inr:
  assumes "extend_work_item_claim su name w p e secs opts d = Inr (r, d')"
  obtains s i where "find_stream (the su) d = Some s"
    "find_item (s_id s) (the name) (the p) (the e) d = Some i" "i_state i = ClaimedS"
    "i_claimed_by i = w" "w \<noteq> None" "r = [now d + 1000 * the secs]"
    "d' = update_item (s_id s) (the name) (the p) (the e) (\<lambda>x. x\<lparr>i_lease := Some (now d + 1000 * the secs)\<rparr>) d"
proof -
  from assms have w: "w \<noteq> None"
    by (auto simp: extend_work_item_claim_def check_defs sum_iffs null_or_empty_def split: option.splits)
  from assms obtain s where s: "find_stream (the su) d = Some s"
    by (auto simp: extend_work_item_claim_def check_defs sum_iffs lookup_defs split: option.splits)
  from assms s obtain i where "find_item (s_id s) (the name) (the p) (the e) d = Some i"
    by (auto simp: extend_work_item_claim_def check_defs sum_iffs lookup_defs split: option.splits)
  with s w assms show thesis
    by (intro that) (auto simp: extend_work_item_claim_def check_defs sum_iffs lookup_defs Let_def
        split: option.splits if_splits)
qed

lemma extend_work_item_step:
  assumes "extend_work_item_claim su name w p e secs opts d = Inr (r, d')" and wf: "wf_queue d"
  shows "same_log d d' \<and> wf_queue d'"
proof (rule extend_work_item_Inr [OF assms(1)])
  fix s i
  assume i: "find_item (s_id s) (the name) (the p) (the e) d = Some i" and "i_claimed_by i = w" "w \<noteq> None"
    and d': "d' = update_item (s_id s) (the name) (the p) (the e)
      (\<lambda>x. x\<lparr>i_lease := Some (now d + 1000 * the secs)\<rparr>) d"
  then have c: "i_claimed_by i \<noteq> None" by simp
  have "wf_queue d'"
    unfolding d' by (rule wf_claimed_update [OF wf i c]) (auto simp: full_key_def row_ok_def)
  then show ?thesis by (simp add: d' same_log_def)
qed

lemma complete_instance_step:
  assumes "complete_pm_instance su name p snu opts d = Inr (r, d')" "wf_queue d"
  shows "same_log d d' \<and> wf_queue d'"
  using assms
  by (auto simp: complete_pm_instance_def check_defs sum_iffs lookup_defs same_log_def Let_def
      wf_queue_def distinct_map_filter split: option.splits)

section \<open>Every step\<close>

lemma append_step:
  assumes a: "append_to_stream su vt ver evs opts d = Inr (r, d')" and wf: "wf_events d"
  shows "wf_events d'" "prefix (store_log d) (store_log d')"
    "s_id ` set (streams d) \<subseteq> s_id ` set (streams d')"
    "snaps d' = snaps d" "subs d' = subs d" "items d' = items d" "now d' = now d"
proof -
  from a obtain es where c: "append_check su vt ver evs = Inr es"
    by (auto simp: append_to_stream_def bind_sum_Inr)
  note L = append_to_stream_log [OF wf c, of opts]
  show "wf_events d'" "prefix (store_log d) (store_log d')"
    "s_id ` set (streams d) \<subseteq> s_id ` set (streams d')"
    "snaps d' = snaps d" "subs d' = subs d" "items d' = items d" "now d' = now d"
    using L a by (auto split: option.splits sum.splits if_splits)
qed

lemma append_step_queue:
  assumes "append_to_stream su vt ver evs opts d = Inr (r, d')" "wf_events d" "wf_queue d"
  shows "wf_queue d'"
  using append_step [OF assms(1,2)] assms(3) by (auto simp: wf_queue_def)

lemma read_steps:
  "read_stream su from qty opts d = Inr (evs, d') \<Longrightarrow> d' = d"
  "read_all from qty opts d = Inr (evs, d') \<Longrightarrow> d' = d"
  "read_snapshot u opts d = Inr (sns, d') \<Longrightarrow> d' = d"
  "is_subscription_caught_up su name target opts d = Inr (bs, d') \<Longrightarrow> d' = d"
  "list_pm_rebuild_events su name p e opts d = Inr (evs, d') \<Longrightarrow> d' = d"
  by (auto simp: read_stream_def read_all_def read_snapshot_def is_subscription_caught_up_def
      list_pm_rebuild_events_def check_defs lookup_defs sum_iffs split: option.splits)

lemma record_snapshot_step:
  "record_snapshot u ty v data md opts d = Inr (r, d') \<Longrightarrow> wf_queue d \<Longrightarrow> same_log d d' \<and> wf_queue d'"
  by (auto simp: record_snapshot_def sum_iffs same_log_def wf_upsert)

lemma delete_snapshot_step:
  "delete_snapshot u opts d = Inr (r, d') \<Longrightarrow> wf_queue d \<Longrightarrow> same_log d d' \<and> wf_queue d'"
  by (auto simp: delete_snapshot_def sum_iffs same_log_def wf_queue_def distinct_map_filter)

lemma exec_step:
  assumes e: "exec c d = Inr (r, d')" and wf: "wf_db d"
  shows "wf_db d' \<and> (same_log d d' \<or> (\<exists>su vt ver evs. c = CAppend su vt ver evs))"
proof -
  have we: "wf_events d" and wq: "wf_queue d" using wf by (simp_all add: wf_db_def)
  have q: "?thesis" if "same_log d d' \<and> wf_queue d'"
    using that same_log_wf we by (auto simp: wf_db_def)
  have same: "?thesis" if "d' = d" using that wf by simp
  show ?thesis
  proof (cases c)
    case CAppend
    with e append_step(1) [OF _ we] append_step_queue [OF _ we wq] show ?thesis
      by (auto simp: tag_Inr wf_db_def)
  next
    case CReadStream
    with e show ?thesis by (intro same) (auto simp: tag_Inr dest: read_steps(1))
  next
    case CReadAll
    with e show ?thesis by (intro same) (auto simp: tag_Inr dest: read_steps(2))
  next
    case CRecordSnapshot
    with e record_snapshot_step [OF _ wq] q show ?thesis by (auto simp: tag_Inr)
  next
    case CReadSnapshot
    with e show ?thesis by (intro same) (auto simp: tag_Inr dest: read_steps(3))
  next
    case CDeleteSnapshot
    with e delete_snapshot_step [OF _ wq] q show ?thesis by (auto simp: tag_Inr)
  next
    case CClaimSub
    with e claim_subscription_step [OF _ wq] q show ?thesis by (auto simp: tag_Inr)
  next
    case CReleaseSub
    with e release_subscription_step [OF _ wq] q show ?thesis by (auto simp: tag_Inr)
  next
    case CDeleteSub
    with e delete_subscription_step [OF _ wq] q show ?thesis by (auto simp: tag_Inr)
  next
    case CRouteBatch
    with e route_batch_step [OF _ wq] q show ?thesis by (auto simp: tag_Inr)
  next
    case CClaimItem
    with e claim_work_item_step [OF _ wq] q show ?thesis by (auto simp: tag_Inr)
  next
    case CExtendItem
    with e extend_work_item_step [OF _ wq] q show ?thesis by (auto simp: tag_Inr)
  next
    case CCompleteProjection
    with e complete_projection_step [OF _ wq] q show ?thesis by (auto simp: tag_Inr)
  next
    case CCompletePm
    with e complete_pm_step [OF _ wq] q show ?thesis by (auto simp: tag_Inr)
  next
    case CCompleteInstance
    with e complete_instance_step [OF _ wq] q show ?thesis by (auto simp: tag_Inr)
  next
    case CFailItem
    with e fail_work_item_step [OF _ wq] q show ?thesis by (auto simp: tag_Inr)
  next
    case CCaughtUp
    with e show ?thesis by (intro same) (auto simp: tag_Inr dest: read_steps(4))
  next
    case CRebuildEvents
    with e show ?thesis by (intro same) (auto simp: tag_Inr dest: read_steps(5))
  qed
qed

lemma wf_after: "wf_db d \<Longrightarrow> wf_db (after c d)"
  using exec_step by (fastforce simp: after_def split: sum.splits)

lemma prefix_after: "wf_db d \<Longrightarrow> prefix (store_log d) (store_log (after c d))"
proof (cases "exec c d")
  case (Inr p)
  assume wf: "wf_db d"
  obtain r d' where p: "exec c d = Inr (r, d')" using Inr by (cases p) auto
  from exec_step [OF p wf] show ?thesis
  proof (elim conjE disjE exE)
    assume "same_log d d'"
    then show ?thesis using p same_log_log by (simp add: after_def)
  next
    fix su vt ver evs assume "c = CAppend su vt ver evs"
    with p obtain y where "append_to_stream su vt ver evs (Some (JObj [])) d = Inr (y, d')"
      by (auto simp: tag_Inr)
    with wf have "prefix (store_log d) (store_log d')" by (auto simp: wf_db_def dest: append_step(2))
    with p show ?thesis by (simp add: after_def)
  qed
qed (simp add: after_def)

lemma wf_pass: "wf_db d \<Longrightarrow> wf_db (pass ms d)"
  by (simp add: pass_def wf_db_def wf_events_def wf_streams_def wf_links_def wf_origin_def wf_queue_def
      glinks_def)

lemma store_log_pass [simp]: "store_log (pass ms d) = store_log d"
  by (simp add: pass_def store_log_def glinks_def)

lemma wf_reachable: "reachable d \<Longrightarrow> wf_db d"
proof (induction rule: reachable.induct)
  case (reach_init t)
  show ?case using wf_initial by (simp add: wf_db_def) (simp add: wf_queue_def initial_db_def)
next
  case (reach_step d d')
  then show ?case by (auto simp: db_step_iff wf_after wf_pass)
qed

end
