(* ===== verification/World.thy ===== *)
theory World
  imports Procs
begin

text \<open>
  Where the SDK runs: one process whose awaited calls interleave with other clients of the same
  database. A world holds the database, the clocks, the supply of random UUIDs, the log sink and the
  environment: for the n-th awaited point, the calls other clients make before it takes effect, the
  time that passes, the rows others have locked, whether the connection fails, and whether a stop is
  requested. An asynchronous function is a function from worlds to its outcome (\<open>Inl\<close> for a
  rejection) and the next world. A statement for every world covers every interleaving.
\<close>

section \<open>Environment and worlds\<close>

text \<open>A connection may fail before the statement reaches the server or after it has committed.\<close>

datatype fault = NoFault | FailBefore pg_error | FailAfter pg_error

record env_step =
  ev_others :: "call list"
  ev_pause :: nat
  ev_locked :: bool
  ev_locked_items :: "item_row list"
  ev_fault :: fault
  ev_stop :: bool

definition calm :: env_step where
  "calm = \<lparr>ev_others = [], ev_pause = 0, ev_locked = False, ev_locked_items = [],
           ev_fault = NoFault, ev_stop = False\<rparr>"

datatype log_level = Info | Warn | ErrorL | Trace

record world =
  w_db :: db
  w_env :: "nat \<Rightarrow> env_step"
  w_pos :: nat
  w_clock :: int
  w_uuids :: "nat \<Rightarrow> string"
  w_uuid_pos :: nat
  w_log :: "(log_level \<times> string) list"
  w_stop :: bool

type_synonym 'a io = "world \<Rightarrow> (thrown + 'a) \<times> world"

definition return_io :: "'a \<Rightarrow> 'a io" where
  "return_io x w = (Inr x, w)"

definition throw_io :: "thrown \<Rightarrow> 'a io" where
  "throw_io e w = (Inl e, w)"

definition bind_io :: "'a io \<Rightarrow> ('a \<Rightarrow> 'b io) \<Rightarrow> 'b io" where
  "bind_io m f w = (case m w of (Inl e, w1) \<Rightarrow> (Inl e, w1) | (Inr x, w1) \<Rightarrow> f x w1)"

text \<open>\<open>try { return await m } catch (err) { return h(err) }\<close>\<close>

definition catch_io :: "'a io \<Rightarrow> (thrown \<Rightarrow> 'a io) \<Rightarrow> 'a io" where
  "catch_io m h w = (case m w of (Inl e, w1) \<Rightarrow> h e w1 | (Inr x, w1) \<Rightarrow> (Inr x, w1))"

definition lift_io :: "thrown + 'a \<Rightarrow> 'a io" where
  "lift_io r w = (r, w)"

text \<open>What happens while an await is pending: time passes and the other clients make their calls.\<close>

definition interfere :: "env_step \<Rightarrow> db \<Rightarrow> db" where
  "interfere e d = fold after (ev_others e) (pass (ev_pause e) d)"

definition turn :: "world \<Rightarrow> env_step \<times> world" where
  "turn w =
     (let e = w_env w (w_pos w)
      in (e, w\<lparr>w_db := interfere e (w_db w), w_pos := Suc (w_pos w),
               w_clock := w_clock w + int (ev_pause e), w_stop := (w_stop w \<or> ev_stop e)\<rparr>))"

text \<open>\<open>globalThis.crypto.randomUUID()\<close>\<close>

definition randomUUID :: "world \<Rightarrow> string \<times> world" where
  "randomUUID w = (w_uuids w (w_uuid_pos w), w\<lparr>w_uuid_pos := Suc (w_uuid_pos w)\<rparr>)"

text \<open>
  \<open>setTimeout(f, ms)\<close>: the delay is cut to whole milliseconds, and is 1 ms when it is below that
  or does not fit 31 bits. \<open>timer\<close> is \<open>sleep(ms)\<close> of internal/sleep.ts without a signal; with one,
  it ends at once when the signal has fired (\<open>fired\<close>, or a stop request) and early when a stop
  request comes while it waits.
\<close>

definition timer_ms :: "rat \<Rightarrow> nat" where
  "timer_ms ms = (if 1 \<le> ms \<and> ms \<le> 2 ^ 31 - 1 then nat \<lfloor>ms\<rfloor> else 1)"

definition elapse :: "nat \<Rightarrow> world \<Rightarrow> world" where
  "elapse t w = w\<lparr>w_db := pass t (w_db w), w_clock := w_clock w + int t\<rparr>"

definition timer :: "rat \<Rightarrow> unit io" where
  "timer ms w = (Inr (), elapse (timer_ms ms) (snd (turn w)))"

definition sleep :: "bool \<Rightarrow> rat \<Rightarrow> unit io" where
  "sleep fired ms w =
     (if fired \<or> w_stop w then (Inr (), w)
      else let (e, w1) = turn w
           in (Inr (), if ev_stop e then w1 else elapse (timer_ms ms) w1))"

section \<open>Queries\<close>

text \<open>The rows others have locked are what \<open>SKIP LOCKED\<close> skips.\<close>

fun with_locks :: "env_step \<Rightarrow> call \<Rightarrow> call" where
  "with_locks e (CClaimSub _ su n wk secs opts) = CClaimSub (ev_locked e) su n wk secs opts"
| "with_locks e (CClaimItem _ su n wk secs) = CClaimItem (ev_locked_items e) su n wk secs"
| "with_locks e c = c"

text \<open>Parameters are sent as text; the server converts them before the procedure runs.\<close>

definition bigint_param :: "int \<Rightarrow> pg_error + int" where
  "bigint_param i = bigint_in (show_int i)"

definition int_param :: "rat \<Rightarrow> pg_error + int" where
  "int_param r =
     (if \<not> is_int r then Inl (pg ''22P02'' (''invalid input syntax for type integer: '' @ show_num r))
      else if r < - (2 ^ 31) \<or> 2 ^ 31 \<le> r then
        Inl (pg ''22003'' (''value '' @ show_num r @ '' is out of range for type integer''))
      else Inr \<lfloor>r\<rfloor>)"

definition query :: "pg_error + call \<Rightarrow> reply io" where
  "query c w =
     (let (e, w1) = turn w
      in case ev_fault e of
           FailBefore p \<Rightarrow> (Inl (PgErr p), w1)
         | f \<Rightarrow>
             (case c of
                Inl p \<Rightarrow> (Inl (PgErr p), w1)
              | Inr c1 \<Rightarrow>
                  (case exec (with_locks e c1) (w_db w1) of
                     Inl p \<Rightarrow> (Inl (PgErr p), w1)
                   | Inr (r, d) \<Rightarrow>
                       ((case f of FailAfter p \<Rightarrow> Inl (PgErr p) | _ \<Rightarrow> Inr r), w1\<lparr>w_db := d\<rparr>))))"

section \<open>Laws of the sequencing operations\<close>

lemma return_bind [simp]: "bind_io (return_io x) f = f x"
  by (simp add: bind_io_def return_io_def fun_eq_iff)

lemma throw_bind [simp]: "bind_io (throw_io e) f = throw_io e"
  by (simp add: bind_io_def throw_io_def fun_eq_iff)

lemma bind_bind: "bind_io (bind_io m f) g = bind_io m (\<lambda>x. bind_io (f x) g)"
  by (auto simp: bind_io_def fun_eq_iff split: prod.split sum.split)

lemma bind_io_Inr: "bind_io m f w = (Inr y, w2) \<longleftrightarrow> (\<exists>x w1. m w = (Inr x, w1) \<and> f x w1 = (Inr y, w2))"
  by (auto simp: bind_io_def split: prod.split sum.split)

lemma bind_io_Inl: "bind_io m f w = (Inl e, w2) \<longleftrightarrow>
    m w = (Inl e, w2) \<or> (\<exists>x w1. m w = (Inr x, w1) \<and> f x w1 = (Inl e, w2))"
  by (auto simp: bind_io_def split: prod.split sum.split)

lemma lift_io_eq: "lift_io r w = (r', w') \<longleftrightarrow> r' = r \<and> w' = w"
  by (auto simp: lift_io_def)

section \<open>The world moves forward\<close>

text \<open>
  \<open>w \<rightarrow> w'\<close> in the sense the SDK's functions rely on: the environment is the same script, the
  database stays well formed and its log only grows.
\<close>

definition extends_world :: "world \<Rightarrow> world \<Rightarrow> bool" where
  "extends_world w w' \<longleftrightarrow>
     w_env w' = w_env w \<and> w_uuids w' = w_uuids w \<and> w_pos w \<le> w_pos w' \<and> w_uuid_pos w \<le> w_uuid_pos w'
     \<and> w_clock w \<le> w_clock w'
     \<and> (wf_db (w_db w) \<longrightarrow> wf_db (w_db w') \<and> prefix (store_log (w_db w)) (store_log (w_db w')))
     \<and> (w_stop w \<longrightarrow> w_stop w') \<and> prefix (w_log w) (w_log w')"

lemma extends_refl [simp]: "extends_world w w"
  by (simp add: extends_world_def)

lemma extends_trans: "extends_world w w1 \<Longrightarrow> extends_world w1 w2 \<Longrightarrow> extends_world w w2"
  by (auto simp: extends_world_def intro: prefix_order.trans)

lemma fold_after_wf: "wf_db d \<Longrightarrow> wf_db (fold after cs d) \<and> prefix (store_log d) (store_log (fold after cs d))"
proof (induction cs arbitrary: d)
  case (Cons c cs)
  from Cons.IH [OF wf_after [OF Cons.prems, of c]] prefix_after [OF Cons.prems, of c]
  show ?case by (auto intro: prefix_order.trans)
qed simp

lemma interfere_wf:
  "wf_db d \<Longrightarrow> wf_db (interfere e d) \<and> prefix (store_log d) (store_log (interfere e d))"
  unfolding interfere_def using fold_after_wf [OF wf_pass] by fastforce

lemma turn_extends: "turn w = (e, w1) \<Longrightarrow> extends_world w w1"
  using interfere_wf by (auto simp: turn_def Let_def extends_world_def)

lemma elapse_extends [simp]: "extends_world w (elapse n w)"
  by (simp add: extends_world_def elapse_def wf_pass)

lemma timer_ms_pos [simp]: "0 < timer_ms ms"
proof (cases "1 \<le> ms \<and> ms \<le> 2 ^ 31 - 1")
  case True
  then have "1 \<le> \<lfloor>ms\<rfloor>" by simp
  with True show ?thesis by (simp add: timer_ms_def)
qed (simp add: timer_ms_def)

lemma timer_extends: "timer ms w = (r, w') \<Longrightarrow> extends_world w w'"
  by (metis elapse_extends extends_trans prod.collapse snd_conv timer_def turn_extends)

lemma timer_clock: "timer ms w = (r, w') \<Longrightarrow> w_clock w + int (timer_ms ms) \<le> w_clock w'"
  by (auto simp: timer_def elapse_def turn_def Let_def)

lemma timer_tick: "w_clock w + 1 \<le> w_clock (snd (timer ms w))"
proof -
  have "1 \<le> int (timer_ms ms)" using timer_ms_pos [of ms] by linarith
  with timer_clock [of ms w "fst (timer ms w)" "snd (timer ms w)"] show ?thesis by simp
qed

lemma sleep_extends: "sleep fired ms w = (r, w') \<Longrightarrow> extends_world w w'"
  by (auto simp: sleep_def dest!: turn_extends split: if_splits prod.splits intro: extends_trans)

lemma exec_world: "exec c (w_db w) = Inr (r, d) \<Longrightarrow> extends_world w (w\<lparr>w_db := d\<rparr>)"
  using wf_after [of "w_db w" c] prefix_after [of "w_db w" c] by (auto simp: extends_world_def after_def)

lemma query_extends:
  assumes "query c w = (r, w')"
  shows "extends_world w w'"
proof -
  obtain e w1 where t: "turn w = (e, w1)" by force
  note T = turn_extends [OF t]
  have "w' = w1 \<or> (\<exists>c1 r d. exec c1 (w_db w1) = Inr (r, d) \<and> w' = w1\<lparr>w_db := d\<rparr>)"
    using assms t by (auto simp: query_def split: fault.splits sum.splits prod.splits)
  with T exec_world extends_trans show ?thesis by metis
qed

end
