(* ===== verification/Client.thy ===== *)
theory Client
  imports World
begin

text \<open>
  Layer 0, client/client.ts: one method per procedure, results as typed rows, errors through
  mapPgError. A method is a query of the world (World.thy) with the parameters the source sends; the
  driver turns the rows of the procedure into cells, and the row mappers into typed values.
\<close>

section \<open>The driver\<close>

definition int8 :: "nat \<Rightarrow> cell" where
  "int8 n = CStr (show_int (int n))"

definition null_json :: "json option \<Rightarrow> json" where
  "null_json v = (case v of None \<Rightarrow> JNull | Some j \<Rightarrow> j)"

definition driver_event :: "event_out \<Rightarrow> raw_event_row" where
  "driver_event r =
     \<lparr>rw_event_id = o_event_id r, rw_event_number = int8 (o_event_number r),
      rw_stream_uuid = o_stream_uuid r, rw_stream_version = int8 (o_stream_version r),
      rw_event_type = o_event_type r, rw_causation_id = o_causation r,
      rw_correlation_id = o_correlation r, rw_data = o_data r, rw_metadata = null_json (o_metadata r),
      rw_created_at = CDate (o_created r)\<rparr>"

section \<open>run\<close>

text \<open>\<open>isQueryable\<close> guards the constructor: the connection is an object with a \<open>query\<close> function.\<close>

datatype connection = Pool | Session | NotQueryable cell

definition isQueryable :: "connection \<Rightarrow> bool" where
  "isQueryable con = (case con of NotQueryable _ \<Rightarrow> False | _ \<Rightarrow> True)"

definition new_Client :: "connection \<Rightarrow> thrown + connection" where
  "new_Client con =
     (if \<not> isQueryable con then Inl (type_error ''Client requires a pg.Pool, pg.Client, or Queryable'')
      else Inr con)"

definition run :: "pg_error + call \<Rightarrow> err_ctx \<Rightarrow> reply io" where
  "run c ctx w = (case query c w of (Inl e, w1) \<Rightarrow> (Inl (mapPgError e ctx), w1) | r \<Rightarrow> r)"

definition stream_ctx :: "string \<Rightarrow> err_ctx" where
  "stream_ctx u = no_ctx\<lparr>ctx_streamUuid := Some u\<rparr>"

definition sub_ctx :: "string \<Rightarrow> string \<Rightarrow> err_ctx" where
  "sub_ctx u n = no_ctx\<lparr>ctx_streamUuid := Some u, ctx_subscriptionName := Some n\<rparr>"

definition item_ctx :: "string \<Rightarrow> string \<Rightarrow> string \<Rightarrow> int \<Rightarrow> err_ctx" where
  "item_ctx u n p e = (sub_ctx u n)\<lparr>ctx_partitionKey := Some p, ctx_eventNumber := Some e\<rparr>"

section \<open>Events\<close>

text \<open>Filling the event ids, in order, each missing one from a fresh UUID.\<close>

fun fill_events :: "new_event list \<Rightarrow> world \<Rightarrow> json list \<times> world" where
  "fill_events [] w = ([], w)"
| "fill_events (e # es) w =
     (let (i, w1) = (case ne_event_id e of Some i \<Rightarrow> (i, w) | None \<Rightarrow> randomUUID w);
          (js, w2) = fill_events es w1
      in (JObj (packEvent (e\<lparr>ne_event_id := Some i\<rparr>)) # js, w2))"

definition mapAppended :: "string \<Rightarrow> append_row \<Rightarrow> thrown + appended_event" where
  "mapAppended u r =
     bind_sum (toBigInt (int8 (a_stream_version r))) (\<lambda>sv.
     bind_sum (toBigInt (int8 (a_event_number r))) (\<lambda>en.
     bind_sum (toDate (CDate (a_created r))) (\<lambda>ts.
       Inr \<lparr>ae_event_id = a_event_id r, ae_stream_uuid = u, ae_stream_version = sv,
            ae_event_number = en, ae_created_at = ts\<rparr>)))"

definition appendToStream ::
  "string \<Rightarrow> expected_version \<Rightarrow> new_event list \<Rightarrow> appended_event list io" where
  "appendToStream u ex evs w =
     (if evs = [] then
        (Inl (Err InvalidParameterValue ''appendToStream: events must be a non-empty array''
                (Some ''22023'') None None NoFields None), w)
      else
        (let (ty, ver) = expectedVersionParams ex;
             (filled, w1) = fill_events evs w;
             c = (case ver of
                    None \<Rightarrow> Inr (CAppend (Some u) (Some ty) None (Some (JArr filled)))
                  | Some t \<Rightarrow> bind_sum (bigint_in t) (\<lambda>v.
                      Inr (CAppend (Some u) (Some ty) (Some v) (Some (JArr filled)))))
         in bind_io (run c (stream_ctx u))
              (\<lambda>r. lift_io (case r of RAppend rows \<Rightarrow> map_sum_list (mapAppended u) rows | _ \<Rightarrow> Inr [])) w1))"

definition mapEvents :: "reply \<Rightarrow> thrown + recorded_event list" where
  "mapEvents r =
     (case r of REvents rows \<Rightarrow> map_sum_list (\<lambda>x. mapRecordedEvent (driver_event x)) rows | _ \<Rightarrow> Inr [])"

definition readStream :: "string \<Rightarrow> int \<Rightarrow> rat \<Rightarrow> recorded_event list io" where
  "readStream u from qty =
     bind_io (run (bind_sum (bigint_param from) (\<lambda>f. bind_sum (int_param qty) (\<lambda>q.
                Inr (CReadStream (Some u) (Some f) (Some q))))) (stream_ctx u))
       (\<lambda>r. lift_io (mapEvents r))"

definition readAll :: "int \<Rightarrow> rat \<Rightarrow> recorded_event list io" where
  "readAll from qty =
     bind_io (run (bind_sum (bigint_param from) (\<lambda>f. bind_sum (int_param qty) (\<lambda>q.
                Inr (CReadAll (Some f) (Some q))))) no_ctx)
       (\<lambda>r. lift_io (mapEvents r))"

section \<open>Snapshots\<close>

definition unit_reply :: "reply \<Rightarrow> unit io" where
  "unit_reply r = return_io ()"

definition recordSnapshot :: "snapshot_input \<Rightarrow> unit io" where
  "recordSnapshot s =
     bind_io (run (bind_sum (bigint_param (si_source_version s)) (\<lambda>v.
                Inr (CRecordSnapshot (Some (si_source_uuid s)) (Some (si_source_type s)) (Some v)
                  (Some (si_data s)) (si_metadata s))))
              (no_ctx\<lparr>ctx_sourceUuid := Some (si_source_uuid s)\<rparr>)) unit_reply"

definition mapSnapshot :: "snapshot_row \<Rightarrow> thrown + snapshot" where
  "mapSnapshot r =
     bind_sum (toBigInt (int8 (n_source_version r))) (\<lambda>v.
     bind_sum (toDate (CDate (n_created r))) (\<lambda>ts.
       Inr \<lparr>sn_source_uuid = n_source_uuid r, sn_source_type = n_source_type r, sn_source_version = v,
            sn_data = n_data r, sn_metadata = null_json (n_metadata r), sn_created_at = ts\<rparr>))"

definition readSnapshot :: "string \<Rightarrow> snapshot io" where
  "readSnapshot u =
     bind_io (run (Inr (CReadSnapshot (Some u))) (no_ctx\<lparr>ctx_sourceUuid := Some u\<rparr>))
       (\<lambda>r. lift_io (case r of
          RSnaps (row # _) \<Rightarrow> mapSnapshot row
        | _ \<Rightarrow> Inl (Err SnapshotNotFound (''snapshot '' @ u @ '' not found'') (Some ''IS010'') None None
                     (SourceField (Some u)) None)))"

definition deleteSnapshot :: "string \<Rightarrow> unit io" where
  "deleteSnapshot u =
     bind_io (run (Inr (CDeleteSnapshot (Some u))) (no_ctx\<lparr>ctx_sourceUuid := Some u\<rparr>)) unit_reply"

section \<open>Subscriptions\<close>

definition start_from_option :: "start_from option \<Rightarrow> (string \<times> json) list" where
  "start_from_option sf =
     (case sf of
        None \<Rightarrow> []
      | Some FromOrigin \<Rightarrow> [(''start_from'', JStr ''origin'')]
      | Some FromCurrent \<Rightarrow> [(''start_from'', JStr ''current'')]
      | Some (FromBig i) \<Rightarrow> [(''start_from'', JStr (show_int i))]
      | Some (FromNum r) \<Rightarrow> [(''start_from'', JStr (show_num r))])"

text \<open>Reading property \<open>result\<close> of a missing row is a TypeError.\<close>

definition no_row :: "string \<Rightarrow> thrown + 'a" where
  "no_row f = Inl (type_error (''Cannot read properties of undefined (reading '' @ f @ '')''))"

definition mapClaim :: "claim_row list \<Rightarrow> thrown + claim_result" where
  "mapClaim rows =
     (case rows of
        [] \<Rightarrow> no_row ''result''
      | r # _ \<Rightarrow>
          (let ex = (case q_expires r of None \<Rightarrow> CNull | Some t \<Rightarrow> CDate t)
           in if q_claimed r then
                bind_sum (toBigInt (int8 (q_last_seen r))) (\<lambda>ls.
                bind_sum (toDate ex) (\<lambda>ts. Inr (Claimed ls (the (q_claimed_by r)) ts)))
              else
                bind_sum (toBigInt (int8 (q_last_seen r))) (\<lambda>ls.
                (if ex = CNull then Inr (AlreadyClaimed ls (q_claimed_by r) None)
                 else bind_sum (toDate ex) (\<lambda>ts. Inr (AlreadyClaimed ls (q_claimed_by r) (Some ts)))))))"

definition claimSubscription ::
  "string \<Rightarrow> string \<Rightarrow> string \<Rightarrow> rat \<Rightarrow> start_from option \<Rightarrow> claim_result io" where
  "claimSubscription u n wk lease sf =
     bind_io (run (bind_sum (int_param lease) (\<lambda>secs.
                Inr (CClaimSub False (Some u) (Some n) (Some wk) (Some secs)
                  (Some (JObj (start_from_option sf)))))) (sub_ctx u n))
       (\<lambda>r. lift_io (case r of RClaim rows \<Rightarrow> mapClaim rows | _ \<Rightarrow> no_row ''result''))"

definition releaseSubscription :: "string \<Rightarrow> string \<Rightarrow> string \<Rightarrow> unit io" where
  "releaseSubscription u n wk =
     bind_io (run (Inr (CReleaseSub (Some u) (Some n) (Some wk))) (sub_ctx u n)) unit_reply"

definition deleteSubscription :: "string \<Rightarrow> string \<Rightarrow> unit io" where
  "deleteSubscription u n = bind_io (run (Inr (CDeleteSub (Some u) (Some n))) (sub_ctx u n)) unit_reply"

section \<open>Work queue\<close>

definition decision_json :: "route_decision \<Rightarrow> json" where
  "decision_json d =
     JObj [(''partition_key'', JStr (rd_partition_key d)), (''event_number'', JNum (Number (rd_event_number d)))]"

definition mapRoute :: "route_row list \<Rightarrow> thrown + route_batch_result" where
  "mapRoute rows =
     (case rows of
        [] \<Rightarrow> no_row ''inserted_count''
      | r # _ \<Rightarrow>
          bind_sum (toBigInt (int8 (rr_inserted r))) (\<lambda>c.
          bind_sum (toBigInt (int8 (rr_last_seen r))) (\<lambda>ls.
            Inr \<lparr>rb_inserted_count = c, rb_new_last_seen = ls\<rparr>)))"

definition routeBatch ::
  "string \<Rightarrow> string \<Rightarrow> string \<Rightarrow> int \<Rightarrow> route_decision list \<Rightarrow> route_batch_result io" where
  "routeBatch u n wk cur decs =
     bind_io (run (bind_sum (bigint_param cur) (\<lambda>c.
                Inr (CRouteBatch (Some u) (Some n) (Some wk) (Some c)
                  (Some (JArr (map decision_json decs)))))) (sub_ctx u n))
       (\<lambda>r. lift_io (case r of RRoute rows \<Rightarrow> mapRoute rows | _ \<Rightarrow> no_row ''inserted_count''))"

definition mapWork :: "work_row list \<Rightarrow> thrown + claimed_work_item option" where
  "mapWork rows =
     (case rows of
        [] \<Rightarrow> Inr None
      | r # _ \<Rightarrow>
          bind_sum (toBigInt (CStr (show_int (w_event r)))) (\<lambda>en.
          bind_sum (toDate (CDate (w_lease r))) (\<lambda>ts.
            Inr (Some \<lparr>cw_partition_key = w_partition r, cw_event_number = en,
                       cw_claimed_by = w_claimed_by r, cw_lease_expires_at = ts,
                       cw_was_takeover = w_takeover r, cw_prior_claimed_by = w_prior r\<rparr>))))"

definition claimWorkItem :: "string \<Rightarrow> string \<Rightarrow> string \<Rightarrow> rat \<Rightarrow> claimed_work_item option io" where
  "claimWorkItem u n wk lease =
     bind_io (run (bind_sum (int_param lease) (\<lambda>secs.
                Inr (CClaimItem [] (Some u) (Some n) (Some wk) (Some secs)))) (sub_ctx u n))
       (\<lambda>r. lift_io (case r of RWork rows \<Rightarrow> mapWork rows | _ \<Rightarrow> Inr None))"

definition extendWorkItemClaim ::
  "string \<Rightarrow> string \<Rightarrow> string \<Rightarrow> string \<Rightarrow> int \<Rightarrow> rat \<Rightarrow> date io" where
  "extendWorkItemClaim u n wk p e lease =
     bind_io (run (bind_sum (bigint_param e) (\<lambda>en. bind_sum (int_param lease) (\<lambda>secs.
                Inr (CExtendItem (Some u) (Some n) (Some wk) (Some p) (Some en) (Some secs)))))
              (item_ctx u n p e))
       (\<lambda>r. lift_io (case r of RLease (t # _) \<Rightarrow> toDate (CDate t) | _ \<Rightarrow> no_row ''lease_expires_at''))"

definition completeWorkItemProjection ::
  "string \<Rightarrow> string \<Rightarrow> string \<Rightarrow> string \<Rightarrow> int \<Rightarrow> unit io" where
  "completeWorkItemProjection u n wk p e =
     bind_io (run (bind_sum (bigint_param e) (\<lambda>en.
                Inr (CCompleteProjection (Some u) (Some n) (Some wk) (Some p) (Some en))))
              (item_ctx u n p e)) unit_reply"

definition completeWorkItemPm ::
  "string \<Rightarrow> string \<Rightarrow> string \<Rightarrow> string \<Rightarrow> int \<Rightarrow> snapshot_input \<Rightarrow> unit io" where
  "completeWorkItemPm u n wk p e s =
     bind_io (run (bind_sum (bigint_param e) (\<lambda>en. bind_sum (bigint_param (si_source_version s)) (\<lambda>v.
                Inr (CCompletePm (Some u) (Some n) (Some wk) (Some p) (Some en)
                  (Some (si_source_uuid s)) (Some (si_source_type s)) (Some v)
                  (Some (si_data s)) (si_metadata s)))))
              ((item_ctx u n p e)\<lparr>ctx_sourceUuid := Some (si_source_uuid s)\<rparr>)) unit_reply"

definition mapDone :: "pm_done_row list \<Rightarrow> thrown + complete_pm_instance_result" where
  "mapDone rows =
     (case rows of
        [] \<Rightarrow> no_row ''work_items_deleted''
      | r # _ \<Rightarrow> bind_sum (toBigInt (int8 (pd_items r))) (\<lambda>c.
          Inr \<lparr>cp_work_items_deleted = c, cp_snapshot_deleted = pd_snapshot r\<rparr>))"

definition completePmInstance ::
  "string \<Rightarrow> string \<Rightarrow> string \<Rightarrow> string \<Rightarrow> complete_pm_instance_result io" where
  "completePmInstance u n p snu =
     bind_io (run (Inr (CCompleteInstance (Some u) (Some n) (Some p) (Some snu)))
              ((sub_ctx u n)\<lparr>ctx_partitionKey := Some p, ctx_sourceUuid := Some snu\<rparr>))
       (\<lambda>r. lift_io (case r of RDone rows \<Rightarrow> mapDone rows | _ \<Rightarrow> no_row ''work_items_deleted''))"

definition failWorkItem ::
  "string \<Rightarrow> string \<Rightarrow> string \<Rightarrow> string \<Rightarrow> int \<Rightarrow> string option \<Rightarrow> unit io" where
  "failWorkItem u n wk p e err =
     bind_io (run (bind_sum (bigint_param e) (\<lambda>en.
                Inr (CFailItem (Some u) (Some n) (Some wk) (Some p) (Some en) err)))
              (item_ctx u n p e)) unit_reply"

definition isSubscriptionCaughtUp :: "string \<Rightarrow> string \<Rightarrow> int \<Rightarrow> bool io" where
  "isSubscriptionCaughtUp u n target =
     bind_io (run (bind_sum (bigint_param target) (\<lambda>t. Inr (CCaughtUp (Some u) (Some n) (Some t))))
              (sub_ctx u n))
       (\<lambda>r. lift_io (case r of RBools (b # _) \<Rightarrow> Inr b | _ \<Rightarrow> no_row ''caught_up''))"

definition listPmRebuildEvents :: "string \<Rightarrow> string \<Rightarrow> string \<Rightarrow> int \<Rightarrow> recorded_event list io" where
  "listPmRebuildEvents u n p bound =
     bind_io (run (bind_sum (bigint_param bound) (\<lambda>b.
                Inr (CRebuildEvents (Some u) (Some n) (Some p) (Some b))))
              ((sub_ctx u n)\<lparr>ctx_partitionKey := Some p\<rparr>))
       (\<lambda>r. lift_io (mapEvents r))"

end
