(* ===== verification/Client_Laws.thy ===== *)
theory Client_Laws
  imports Client
begin

text \<open>
  What the client promises its callers, over the log of the store: rows read are slices of the log
  as it is when the call returns, a successful append is the log extended by exactly the events
  given, and a rejection of a catalogue class says what the database said. The contracts are the
  locales \<open>event_client\<close> and \<open>queue_client\<close>, both interpreted on the client of Client.thy.
\<close>

section \<open>Reads over the log\<close>

lemma filter_from_versions:
  assumes "map f xs = [1..<Suc (length xs)]" and "0 \<le> from"
  shows "filter (\<lambda>x. from \<le> int (f x)) xs = drop (nat from - 1) xs"
proof (cases "from = 0")
  case False
  define k where "k = nat from - 1"
  have "from \<le> int v \<longleftrightarrow> Suc k \<le> v" for v using False assms(2) by (auto simp: k_def)
  then show ?thesis using filter_sorted_prefix_drop [of f xs k] assms(1) by (simp add: k_def)
qed simp

lemma stream_log_versions:
  assumes wf: "wf_events d" and u: "u \<noteq> all_uuid"
  shows "map o_stream_version (stream_log u (store_log d)) = [1..<Suc (length (stream_log u (store_log d)))]"
proof (cases "find_stream u d")
  case None
  then show ?thesis using find_stream_log [OF wf u] by simp
next
  case (Some s)
  note S = find_stream_Some [OF wf Some u]
  show ?thesis using stream_versions [OF wf S(1,3)] S(2,4) by simp
qed

lemma read_stream_Inr:
  assumes wf: "wf_events d" and r: "read_stream (Some u) (Some from) (Some q) opts d = Inr (rows, d')"
  shows "d' = d" "0 < q" "0 \<le> from" "u \<noteq> all_uuid" "stream_log u (store_log d) \<noteq> []"
    "rows = take (nat q) (drop (nat from - 1) (stream_log u (store_log d)))"
proof -
  from r have c: "d' = d" "0 < q" "0 \<le> from" "u \<noteq> all_uuid" "find_stream u d \<noteq> None"
    by (simp_all add: read_stream_def sum_iffs null_or_neg_def split: option.splits)
  then obtain s where s: "find_stream u d = Some s" by blast
  with r have rows: "rows = take (nat q) (stream_query u (s_id s) from d)"
    by (auto simp: read_stream_def sum_iffs)
  note S = find_stream_Some [OF wf s c(4)]
  show "d' = d" "0 < q" "0 \<le> from" "u \<noteq> all_uuid" by (fact c)+
  show "stream_log u (store_log d) \<noteq> []" using find_stream_log [OF wf c(4)] s by auto
  have "stream_query u (s_id s) from d
      = filter (\<lambda>r. from \<le> int (o_stream_version r)) (stream_log u (store_log d))"
    using stream_query_log [OF wf S(1,3)] S(2) by simp
  also have "\<dots> = drop (nat from - 1) (stream_log u (store_log d))"
    by (rule filter_from_versions [OF stream_log_versions [OF wf c(4)] c(3)])
  finally show "rows = take (nat q) (drop (nat from - 1) (stream_log u (store_log d)))"
    by (simp add: rows)
qed

lemma read_stream_Inl:
  assumes wf: "wf_events d" and r: "read_stream (Some u) (Some from) (Some q) opts d = Inl p"
    and c: "pg_code p = Some ''IS003''"
  shows "u \<noteq> all_uuid \<and> stream_log u (store_log d) = []"
  using r c find_stream_log [OF wf]
  by (auto simp: read_stream_def sum_iffs split: option.splits)

lemma read_all_Inr:
  assumes wf: "wf_events d" and r: "read_all (Some from) (Some q) opts d = Inr (rows, d')"
  shows "d' = d" "0 < q" "0 \<le> from" "rows = take (nat q) (drop (nat from - 1) (store_log d))"
proof -
  from r have c: "d' = d" "0 < q" "0 \<le> from" "rows = take (nat q) (all_query from d)"
    by (auto simp: read_all_def sum_iffs null_or_neg_def)
  then show "d' = d" "0 < q" "0 \<le> from" by simp_all
  have "map o_event_number (store_log d) = [1..<Suc (length (store_log d))]"
    using store_log_numbers [OF wf] length_store_log [OF wf] by simp
  from filter_from_versions [OF this c(3)] c(4) all_query_log [OF wf]
  show "rows = take (nat q) (drop (nat from - 1) (store_log d))" by simp
qed

section \<open>Row round trips\<close>

definition recorded :: "event_out \<Rightarrow> recorded_event" where
  "recorded r =
     \<lparr>re_event_id = o_event_id r, re_event_number = int (o_event_number r),
      re_stream_uuid = o_stream_uuid r, re_stream_version = int (o_stream_version r),
      re_causation_id = o_causation r, re_correlation_id = o_correlation r,
      re_metadata = null_json (o_metadata r), re_created_at = Some (o_created r),
      re_type = o_event_type r, re_data = o_data r\<rparr>"

lemma toBigInt_int8 [simp]: "toBigInt (int8 n) = Inr (int n)"
  by (simp add: int8_def)

lemma mapRecordedEvent_driver [simp]: "mapRecordedEvent (driver_event r) = Inr (recorded r)"
  by (simp add: mapRecordedEvent_def driver_event_def recorded_def int8_def)

lemma mapEvents_rows [simp]: "mapEvents (REvents rows) = Inr (map recorded rows)"
  by (simp add: mapEvents_def map_sum_list_total)

definition appended :: "string \<Rightarrow> append_row \<Rightarrow> appended_event" where
  "appended u r =
     \<lparr>ae_event_id = a_event_id r, ae_stream_uuid = u, ae_stream_version = int (a_stream_version r),
      ae_event_number = int (a_event_number r), ae_created_at = Some (a_created r)\<rparr>"

lemma mapAppended_rows [simp]: "map_sum_list (mapAppended u) rows = Inr (map (appended u) rows)"
  by (rule map_sum_list_total) (simp add: mapAppended_def appended_def)

definition snapshot_of :: "snapshot_row \<Rightarrow> snapshot" where
  "snapshot_of r =
     \<lparr>sn_source_uuid = n_source_uuid r, sn_source_type = n_source_type r,
      sn_source_version = int (n_source_version r), sn_data = n_data r,
      sn_metadata = null_json (n_metadata r), sn_created_at = Some (n_created r)\<rparr>"

lemma mapSnapshot_row [simp]: "mapSnapshot r = Inr (snapshot_of r)"
  by (simp add: mapSnapshot_def snapshot_of_def)

lemma bigint_in_show: "bigint_in (show_int i) = Inr v \<longleftrightarrow> v = i \<and> - (2 ^ 63) \<le> i \<and> i < 2 ^ 63"
proof -
  have ne: "show_int i \<noteq> []" using show_int_not_space [of i "[]"] by simp
  have t: "trim (show_int i) = show_int i"
    using show_int_not_space [of i "[]"] last_show_int digit_not_space by (intro trim_id) auto
  have "is_digit (hd (show_nat n))" for n by (meson hd_in_set show_nat_digits show_nat_not_Nil)
  moreover have "\<not> is_digit (CHR ''+'')" by (simp add: is_digit_def char_digit_def)
  ultimately have "hd (show_nat n) \<noteq> CHR ''+''" for n by metis
  then have "hd (show_int i) \<noteq> CHR ''+''" by (simp add: show_int_def)
  then show ?thesis by (auto simp: bigint_in_def t Let_def)
qed

section \<open>The error catalogue\<close>

definition catalogue :: "(string \<times> err_class) list" where
  "catalogue =
     [(''IS001'', WrongExpectedVersion), (''IS002'', StreamExists), (''IS003'', StreamNotFound),
      (''IS004'', DuplicateEvent), (''IS005'', ReservedStreamUuid), (''IS006'', AppendOnlyViolation),
      (''IS010'', SnapshotNotFound), (''IS020'', SubscriptionNotFound),
      (''IS021'', SubscriptionAlreadyClaimed), (''IS022'', SubscriptionLeaseLost),
      (''IS030'', WorkItemLeaseLost), (''22023'', InvalidParameterValue)]"

definition infra :: "pg_error \<Rightarrow> bool" where
  "infra p \<longleftrightarrow> (case pg_code p of None \<Rightarrow> True | Some c \<Rightarrow> map_of catalogue c = None)"

lemma mapPgError_infra: "infra p \<Longrightarrow> mapPgError (PgErr p) ctx = PgErr p"
  by (auto simp: infra_def mapPgError_def catalogue_def Let_def split: option.splits if_splits)

lemma mapPgError_class:
  "pg_code p = Some c \<Longrightarrow> map_of catalogue c = Some k \<Longrightarrow> class_of (mapPgError (PgErr p) ctx) = Some k"
  by (auto simp: mapPgError_def catalogue_def Let_def split: if_splits prod.splits)

lemma mapPgError_class_iff:
  "class_of (mapPgError (PgErr p) ctx)
     = (case pg_code p of None \<Rightarrow> Some C_Error
        | Some c \<Rightarrow> (case map_of catalogue c of None \<Rightarrow> Some C_Error | Some k \<Rightarrow> Some k))"
proof (cases "infra p")
  case True
  then show ?thesis by (auto simp: mapPgError_infra infra_def split: option.splits)
next
  case False
  then show ?thesis by (auto simp: infra_def mapPgError_class split: option.splits)
qed

text \<open>Connection failures carry no code of the catalogue.\<close>

definition env_ok :: "(nat \<Rightarrow> env_step) \<Rightarrow> bool" where
  "env_ok env \<longleftrightarrow>
     (\<forall>n. case ev_fault (env n) of NoFault \<Rightarrow> True | FailBefore p \<Rightarrow> infra p | FailAfter p \<Rightarrow> infra p)"

section \<open>A query through \<open>run\<close>\<close>

lemma turn_fields:
  assumes "turn w = (e, w1)"
  shows "e = w_env w (w_pos w)" "w_env w1 = w_env w" "w_pos w1 = Suc (w_pos w)" "w_log w1 = w_log w"
    "w_db w1 = interfere (w_env w (w_pos w)) (w_db w)"
  using assms by (auto simp: turn_def Let_def)

text \<open>A query that resolves: its parameters converted, its procedure ran on the current database.\<close>

lemma run_Inr:
  assumes "run c ctx w = (Inr r, w')"
  obtains c1 d where "c = Inr c1" "exec (with_locks (w_env w (w_pos w)) c1) d = Inr (r, w_db w')"
    "d = interfere (w_env w (w_pos w)) (w_db w)" "extends_world w w'" "w_log w' = w_log w"
proof -
  obtain e w1 where t: "turn w = (e, w1)" by force
  from assms have q: "query c w = (Inr r, w')" by (auto simp: run_def split: prod.splits sum.splits)
  with t turn_fields [OF t] obtain c1 d where "c = Inr c1" "exec (with_locks e c1) (w_db w1) = Inr (r, d)"
    "w' = w1\<lparr>w_db := d\<rparr>"
    by (auto simp: query_def split: fault.splits sum.splits prod.splits)
  with turn_fields [OF t] query_extends [OF q] that [of c1 "w_db w1"] show thesis by simp
qed

text \<open>
  A query that rejects: an error outside the catalogue (connection, parameters), after which the
  procedure may or may not have committed; or the procedure's own error, translated.
\<close>

lemma run_Inl:
  assumes "run c ctx w = (Inl t, w')" and ok: "env_ok (w_env w)"
    and par: "\<And>p. c = Inl p \<Longrightarrow> infra p"
  shows "(\<exists>p. t = PgErr p \<and> infra p
            \<and> (w_db w' = interfere (w_env w (w_pos w)) (w_db w)
               \<or> (\<exists>c1 r. c = Inr c1 \<and> exec (with_locks (w_env w (w_pos w)) c1)
                     (interfere (w_env w (w_pos w)) (w_db w)) = Inr (r, w_db w'))))
      \<or> (\<exists>p c1. t = mapPgError (PgErr p) ctx \<and> c = Inr c1
            \<and> exec (with_locks (w_env w (w_pos w)) c1) (interfere (w_env w (w_pos w)) (w_db w)) = Inl p
            \<and> w_db w' = interfere (w_env w (w_pos w)) (w_db w))"
proof -
  obtain e w1 where tu: "turn w = (e, w1)" by force
  note T = turn_fields [OF tu]
  from assms(1) obtain t0 where q: "query c w = (Inl t0, w')" and t: "t = mapPgError t0 ctx"
    by (auto simp: run_def split: prod.splits sum.splits)
  have inf: "infra p" if "ev_fault e = FailBefore p \<or> ev_fault e = FailAfter p" for p
    using ok that T(1) by (auto simp: env_ok_def dest: spec [of _ "w_pos w"])
  show ?thesis
  proof (cases "ev_fault e")
    case (FailBefore p)
    with q tu have "t0 = PgErr p" "w' = w1" by (auto simp: query_def)
    with T t inf FailBefore show ?thesis by (auto simp: mapPgError_infra)
  next
    case NoFault
    show ?thesis
    proof (cases c)
      case (Inl p)
      with q tu NoFault have "t0 = PgErr p" "w' = w1" by (auto simp: query_def)
      with T t par [OF Inl] show ?thesis by (auto simp: mapPgError_infra)
    next
      case (Inr c1)
      with q tu NoFault obtain p where "exec (with_locks e c1) (w_db w1) = Inl p" "t0 = PgErr p" "w' = w1"
        by (auto simp: query_def split: sum.splits prod.splits)
      with T t Inr show ?thesis by auto
    qed
  next
    case (FailAfter p)
    show ?thesis
    proof (cases c)
      case (Inl p')
      with q tu FailAfter have "t0 = PgErr p'" "w' = w1" by (auto simp: query_def)
      with T t par [OF Inl] show ?thesis by (auto simp: mapPgError_infra)
    next
      case (Inr c1)
      show ?thesis
      proof (cases "exec (with_locks e c1) (w_db w1)")
        case (Inl p')
        with q tu FailAfter Inr have "t0 = PgErr p'" "w' = w1" by (auto simp: query_def)
        with T t Inr Inl show ?thesis by auto
      next
        case (Inr rd)
        obtain r d where rd: "rd = (r, d)" by force
        with q tu FailAfter Inr \<open>c = Inr c1\<close> have "t0 = PgErr p" "w' = w1\<lparr>w_db := d\<rparr>"
          by (auto simp: query_def)
        with T t inf FailAfter Inr rd \<open>c = Inr c1\<close> show ?thesis by (auto simp: mapPgError_infra)
      qed
    qed
  qed
qed

lemma run_extends: "run c ctx w = (r, w') \<Longrightarrow> extends_world w w' \<and> w_log w' = w_log w"
proof -
  assume r: "run c ctx w = (r, w')"
  obtain q w1 where q: "query c w = (q, w1)" by force
  with r have "w' = w1" by (auto simp: run_def split: sum.splits)
  moreover have "w_log w1 = w_log w"
    using q by (auto simp: query_def turn_def Let_def split: fault.splits sum.splits prod.splits)
  ultimately show ?thesis using query_extends [OF q] by simp
qed

lemma bind_run_extends:
  "bind_io (run c ctx) (\<lambda>r. lift_io (f r)) w = (x, w') \<Longrightarrow> extends_world w w' \<and> w_log w' = w_log w"
  using run_extends by (auto simp: bind_io_def lift_io_def split: prod.splits sum.splits)

lemma conversion_infra: "pg_code p = Some ''22P02'' \<or> pg_code p = Some ''22003'' \<Longrightarrow> infra p"
  by (auto simp: infra_def catalogue_def)

lemma bigint_in_error: "bigint_in s = Inl p \<Longrightarrow> infra p"
  unfolding bigint_in_def Let_def
  by (rule conversion_infra) (simp split: option.splits if_splits; auto)

lemma bigint_param_infra: "bigint_param i = Inl p \<Longrightarrow> infra p"
  unfolding bigint_param_def by (rule bigint_in_error)

lemma int_param_infra: "int_param r = Inl p \<Longrightarrow> infra p"
  unfolding int_param_def by (rule conversion_infra) (auto split: if_splits)

lemma show_num_int [simp]: "show_num (of_int i) = show_int i"
  by (simp add: show_num_def)

lemma int_param_of_int: "- (2 ^ 31) \<le> i \<Longrightarrow> i < 2 ^ 31 \<Longrightarrow> int_param (of_int i) = Inr i"
  unfolding int_param_def by (simp del: of_int_power)

section \<open>Quiet stretches\<close>

text \<open>Between \<open>w\<close> and \<open>w'\<close> only other clients touched the database.\<close>

definition quiet :: "world \<Rightarrow> world \<Rightarrow> bool" where
  "quiet w w' \<longleftrightarrow>
     w_env w' = w_env w \<and> w_pos w \<le> w_pos w' \<and> w_log w' = w_log w
     \<and> w_db w' = fold interfere (map (w_env w) [w_pos w..<w_pos w']) (w_db w)"

definition world_ok :: "world \<Rightarrow> bool" where
  "world_ok w \<longleftrightarrow> wf_db (w_db w) \<and> env_ok (w_env w)"

definition log_of :: "world \<Rightarrow> event_out list" where
  "log_of w = store_log (w_db w)"

definition snap_of :: "string \<Rightarrow> world \<Rightarrow> snapshot option" where
  "snap_of u w = map_option snapshot_of (find_snapshot u (w_db w))"

lemma quiet_refl: "quiet w w"
  by (simp add: quiet_def)

lemma quiet_trans: "quiet w w1 \<Longrightarrow> quiet w1 w2 \<Longrightarrow> quiet w w2"
proof -
  assume a: "quiet w w1" "quiet w1 w2"
  then have "[w_pos w..<w_pos w2] = [w_pos w..<w_pos w1] @ [w_pos w1..<w_pos w2]"
    unfolding quiet_def by (metis le_iff_add upt_add_eq_append)
  with a show ?thesis by (auto simp: quiet_def)
qed

lemma fold_interfere_wf:
  "wf_db d \<Longrightarrow> wf_db (fold interfere es d) \<and> prefix (store_log d) (store_log (fold interfere es d))"
proof (induction es arbitrary: d)
  case (Cons e es)
  from interfere_wf [OF Cons.prems, of e] Cons.IH [of "interfere e d"] show ?case
    by (auto intro: prefix_order.trans)
qed simp

lemma quiet_ok: "quiet w w' \<Longrightarrow> world_ok w \<Longrightarrow> world_ok w' \<and> prefix (log_of w) (log_of w')"
  using fold_interfere_wf by (auto simp: quiet_def world_ok_def log_of_def)

lemma quiet_turn:
  assumes "w_env w' = w_env w" "w_pos w' = Suc (w_pos w)" "w_log w' = w_log w"
    "w_db w' = interfere (w_env w (w_pos w)) (w_db w)"
  shows "quiet w w'"
  using assms by (simp add: quiet_def)

lemma run_pos: "run c ctx w = (r, w') \<Longrightarrow> w_pos w' = Suc (w_pos w) \<and> w_env w' = w_env w \<and> w_log w' = w_log w"
  by (auto simp: run_def query_def turn_def Let_def split: prod.splits sum.splits fault.splits)

text \<open>A call that does not change the database.\<close>

definition reading :: "pg_error + call \<Rightarrow> bool" where
  "reading c \<longleftrightarrow> (\<forall>c1 e d r d'. c = Inr c1 \<longrightarrow> exec (with_locks e c1) d = Inr (r, d') \<longrightarrow> d' = d)"

lemma run_reading_quiet:
  assumes r: "run c ctx w = (r, w')" and c: "reading c"
  shows "quiet w w'"
proof -
  have "w_db w' = interfere (w_env w (w_pos w)) (w_db w)"
    using r c unfolding reading_def
    by (auto simp: run_def query_def turn_def Let_def split: prod.splits sum.splits fault.splits)
  with run_pos [OF r] show ?thesis by (auto intro: quiet_turn)
qed

lemma bind_run_quiet:
  assumes "bind_io (run c ctx) (\<lambda>r. lift_io (f r)) w = (x, w')" "reading c"
  shows "quiet w w'"
  using assms run_reading_quiet by (auto simp: bind_io_def lift_io_def split: prod.splits sum.splits)

lemma reading_calls:
  "reading (Inr (CReadStream su f q))" "reading (Inr (CReadAll f q))" "reading (Inr (CReadSnapshot u0))"
  "reading (Inr (CCaughtUp su n t))" "reading (Inr (CRebuildEvents su n p e))" "reading (Inl p0)"
  by (auto simp: reading_def tag_Inr dest: read_steps)

lemma reading_bind: "(\<And>x. reading (f x)) \<Longrightarrow> reading (bind_sum m f)"
  by (cases m) (auto simp: reading_calls)

section \<open>Error classes of a rejection\<close>

lemma leaf_classes:
  "c \<le> StreamNotFound \<longleftrightarrow> c = StreamNotFound" "c \<le> SnapshotNotFound \<longleftrightarrow> c = SnapshotNotFound"
  "c \<le> WrongExpectedVersion \<longleftrightarrow> c = WrongExpectedVersion"
  "c \<le> SubscriptionNotFound \<longleftrightarrow> c = SubscriptionNotFound"
  "c \<le> SubscriptionLeaseLost \<longleftrightarrow> c = SubscriptionLeaseLost"
  "c \<le> WorkItemLeaseLost \<longleftrightarrow> c = WorkItemLeaseLost"
  by (cases c; simp add: subclass_iff)+

lemma catalogue_inj: "map_of catalogue c = Some k \<Longrightarrow> map_of catalogue c' = Some k \<Longrightarrow> c = c'"
  by (auto simp: catalogue_def split: if_splits)

lemma instance_pg:
  assumes "k \<in> {StreamNotFound, SnapshotNotFound, WrongExpectedVersion, SubscriptionNotFound,
                SubscriptionLeaseLost, WorkItemLeaseLost}"
    and "instance_of (mapPgError (PgErr p) ctx) k"
  shows "\<exists>c. pg_code p = Some c \<and> map_of catalogue c = Some k"
proof -
  have "class_of (mapPgError (PgErr p) ctx) = Some k"
    using assms leaf_classes by (auto simp: instance_of_def split: option.splits)
  moreover have "k \<noteq> C_Error" using assms(1) by auto
  ultimately show ?thesis by (auto simp: mapPgError_class_iff split: option.splits)
qed

lemma instance_raw: "instance_of (PgErr p) k \<longleftrightarrow> k = C_Error"
  by (cases k) (simp_all add: instance_of_def subclass_iff)

end
