(* ===== verification/Event_Client.thy ===== *)
theory Event_Client
  imports Client_Laws
begin

text \<open>
  The event half of the client as an interface: \<open>event_client\<close> lists what the aggregate runner
  relies on, stated over the log of the store, and is interpreted on the methods of Client.thy.
\<close>

section \<open>The client object\<close>

record client =
  cl_appendToStream :: "string \<Rightarrow> expected_version \<Rightarrow> new_event list \<Rightarrow> appended_event list io"
  cl_readStream :: "string \<Rightarrow> int \<Rightarrow> rat \<Rightarrow> recorded_event list io"
  cl_readAll :: "int \<Rightarrow> rat \<Rightarrow> recorded_event list io"
  cl_recordSnapshot :: "snapshot_input \<Rightarrow> unit io"
  cl_readSnapshot :: "string \<Rightarrow> snapshot io"
  cl_claimSubscription :: "string \<Rightarrow> string \<Rightarrow> string \<Rightarrow> rat \<Rightarrow> start_from option \<Rightarrow> claim_result io"
  cl_releaseSubscription :: "string \<Rightarrow> string \<Rightarrow> string \<Rightarrow> unit io"
  cl_routeBatch :: "string \<Rightarrow> string \<Rightarrow> string \<Rightarrow> int \<Rightarrow> route_decision list \<Rightarrow> route_batch_result io"
  cl_claimWorkItem :: "string \<Rightarrow> string \<Rightarrow> string \<Rightarrow> rat \<Rightarrow> claimed_work_item option io"
  cl_extendWorkItemClaim :: "string \<Rightarrow> string \<Rightarrow> string \<Rightarrow> string \<Rightarrow> int \<Rightarrow> rat \<Rightarrow> date io"
  cl_completeWorkItemProjection :: "string \<Rightarrow> string \<Rightarrow> string \<Rightarrow> string \<Rightarrow> int \<Rightarrow> unit io"
  cl_completeWorkItemPm :: "string \<Rightarrow> string \<Rightarrow> string \<Rightarrow> string \<Rightarrow> int \<Rightarrow> snapshot_input \<Rightarrow> unit io"
  cl_completePmInstance :: "string \<Rightarrow> string \<Rightarrow> string \<Rightarrow> string \<Rightarrow> complete_pm_instance_result io"
  cl_isSubscriptionCaughtUp :: "string \<Rightarrow> string \<Rightarrow> int \<Rightarrow> bool io"
  cl_listPmRebuildEvents :: "string \<Rightarrow> string \<Rightarrow> string \<Rightarrow> int \<Rightarrow> recorded_event list io"

definition pg_client :: client where
  "pg_client =
     \<lparr>cl_appendToStream = appendToStream, cl_readStream = readStream, cl_readAll = readAll,
      cl_recordSnapshot = recordSnapshot, cl_readSnapshot = readSnapshot,
      cl_claimSubscription = claimSubscription, cl_releaseSubscription = releaseSubscription,
      cl_routeBatch = routeBatch, cl_claimWorkItem = claimWorkItem,
      cl_extendWorkItemClaim = extendWorkItemClaim,
      cl_completeWorkItemProjection = completeWorkItemProjection,
      cl_completeWorkItemPm = completeWorkItemPm, cl_completePmInstance = completePmInstance,
      cl_isSubscriptionCaughtUp = isSubscriptionCaughtUp,
      cl_listPmRebuildEvents = listPmRebuildEvents\<rparr>"

section \<open>Reads\<close>

lemma readStream_quiet: "readStream u from qty w = (r, w') \<Longrightarrow> quiet w w'"
  unfolding readStream_def by (rule bind_run_quiet) (auto intro!: reading_bind reading_calls)

lemma readStream_ok:
  assumes ok: "world_ok w" and r: "readStream u from qty w = (Inr rows, w')"
  shows "\<exists>q. int_param qty = Inr q \<and> 0 < q \<and> 0 \<le> from \<and> u \<noteq> all_uuid
     \<and> stream_log u (log_of w') \<noteq> []
     \<and> rows = map recorded (take (nat q) (drop (nat from - 1) (stream_log u (log_of w'))))"
proof -
  note Q = quiet_ok [OF readStream_quiet [OF r] ok]
  from r obtain rep where run: "run (bind_sum (bigint_param from) (\<lambda>f. bind_sum (int_param qty) (\<lambda>q.
      Inr (CReadStream (Some u) (Some f) (Some q))))) (stream_ctx u) w = (Inr rep, w')"
    and m: "mapEvents rep = Inr rows"
    by (auto simp: readStream_def bind_io_Inr lift_io_eq)
  show ?thesis
  proof (rule run_Inr [OF run])
    fix c1 d
    assume c: "bind_sum (bigint_param from) (\<lambda>f. bind_sum (int_param qty) (\<lambda>q.
        Inr (CReadStream (Some u) (Some f) (Some q)))) = Inr c1"
      and ex: "exec (with_locks (w_env w (w_pos w)) c1) d = Inr (rep, w_db w')"
      and d: "d = interfere (w_env w (w_pos w)) (w_db w)"
    from c obtain q where q: "int_param qty = Inr q" and c1: "c1 = CReadStream (Some u) (Some from) (Some q)"
      by (auto simp: bind_sum_Inr bigint_param_def bigint_in_show)
    from ex c1 obtain rws where rs: "read_stream (Some u) (Some from) (Some q) (Some (JObj [])) d = Inr (rws, w_db w')"
      and rep: "rep = REvents rws" by (auto simp: tag_Inr)
    have wf: "wf_events d" using ok interfere_wf d by (auto simp: world_ok_def wf_db_def)
    note R = read_stream_Inr [OF wf rs]
    from m rep have "rows = map recorded rws" by simp
    with R q show ?thesis by (auto simp: log_of_def)
  qed
qed

lemma mapEvents_total: "mapEvents rep \<noteq> Inl t" "Inl t \<noteq> mapEvents rep"
  by (cases rep; simp add: mapEvents_def map_sum_list_total)+

lemma readStream_missing:
  assumes ok: "world_ok w" and r: "readStream u from qty w = (Inl t, w')"
    and t: "instance_of t StreamNotFound"
  shows "u \<noteq> all_uuid \<and> stream_log u (log_of w') = []"
proof -
  let ?c = "bind_sum (bigint_param from) (\<lambda>f. bind_sum (int_param qty) (\<lambda>q.
      Inr (CReadStream (Some u) (Some f) (Some q))))"
  from r have run: "run ?c (stream_ctx u) w = (Inl t, w')"
    by (auto simp: readStream_def bind_io_Inl lift_io_eq mapEvents_total)
  have par: "infra p" if "?c = Inl p" for p
    using that bigint_param_infra int_param_infra by (auto simp: bind_sum_Inl)
  have env: "env_ok (w_env w)" using ok by (simp add: world_ok_def)
  from run_Inl [OF run env par] t obtain p c1 where t': "t = mapPgError (PgErr p) (stream_ctx u)"
    and c: "?c = Inr c1" and ex: "exec (with_locks (w_env w (w_pos w)) c1) (interfere (w_env w (w_pos w)) (w_db w)) = Inl p"
    and db: "w_db w' = interfere (w_env w (w_pos w)) (w_db w)"
    by (auto simp: instance_raw)
  from c obtain f q where c1: "c1 = CReadStream (Some u) (Some f) (Some q)" by (auto simp: bind_sum_Inr)
  have "wf_events (w_db w')" using db ok interfere_wf by (auto simp: world_ok_def wf_db_def)
  moreover have "pg_code p = Some ''IS003''"
    using instance_pg [of StreamNotFound p "stream_ctx u"] t t' by (auto simp: catalogue_def split: if_splits)
  ultimately show ?thesis
    using ex c1 db read_stream_Inl by (auto simp: tag_Inl log_of_def)
qed

lemma readSnapshot_quiet: "readSnapshot u w = (r, w') \<Longrightarrow> quiet w w'"
  unfolding readSnapshot_def by (rule bind_run_quiet) (auto intro!: reading_calls)

lemma readSnapshot_ok: "readSnapshot u w = (Inr s, w') \<Longrightarrow> snap_of u w' = Some s"
  unfolding readSnapshot_def bind_io_Inr
proof (elim exE conjE)
  fix rep w1
  assume run: "run (Inr (CReadSnapshot (Some u))) (no_ctx\<lparr>ctx_sourceUuid := Some u\<rparr>) w = (Inr rep, w1)"
    and l: "lift_io (case rep of RSnaps (row # _) \<Rightarrow> mapSnapshot row
        | _ \<Rightarrow> Inl (Err SnapshotNotFound (''snapshot '' @ u @ '' not found'') (Some ''IS010'') None None
                     (SourceField (Some u)) None)) w1 = (Inr s, w')"
  show ?thesis
  proof (rule run_Inr [OF run])
    fix c1 d
    assume "Inr (CReadSnapshot (Some u)) = (Inr c1 :: pg_error + call)"
      and "exec (with_locks (w_env w (w_pos w)) c1) d = Inr (rep, w_db w1)"
    then obtain r where "rep = RSnaps [r]" "find_snapshot u (w_db w1) = Some r"
      by (auto simp: tag_Inr read_snapshot_def sum_iffs split: option.splits)
    with l show ?thesis by (auto simp: lift_io_eq snap_of_def)
  qed
qed

lemma readSnapshot_missing:
  assumes ok: "world_ok w" and r: "readSnapshot u w = (Inl t, w')" and t: "instance_of t SnapshotNotFound"
  shows "snap_of u w' = None"
proof -
  let ?c = "Inr (CReadSnapshot (Some u)) :: pg_error + call" and ?x = "no_ctx\<lparr>ctx_sourceUuid := Some u\<rparr>"
  have env: "env_ok (w_env w)" using ok by (simp add: world_ok_def)
  have res: "read_snapshot (Some u) (Some (JObj [])) d = Inr (rows, d') \<Longrightarrow> \<exists>row. rows = [row]" for d rows d'
    by (auto simp: read_snapshot_def sum_iffs split: option.splits)
  have no: "rep = RSnaps rows \<Longrightarrow> \<exists>row. rows = [row]"
    if "run ?c ?x w = (Inr rep, w1)" for rep rows w1
    by (rule run_Inr [OF that]) (auto simp: tag_Inr dest!: res)
  have kind: "\<exists>rows. rep = RSnaps rows" if "run ?c ?x w = (Inr rep, w1)" for rep w1
    by (rule run_Inr [OF that]) (auto simp: tag_Inr)
  have run: "run ?c ?x w = (Inl t, w')"
  proof -
    have False if "run ?c ?x w = (Inr rep, w')"
      "(case rep of RSnaps (row # _) \<Rightarrow> mapSnapshot row
        | _ \<Rightarrow> Inl (Err SnapshotNotFound (''snapshot '' @ u @ '' not found'') (Some ''IS010'') None None
                     (SourceField (Some u)) None)) = Inl t" for rep
    proof -
      from that(1) kind no have "\<exists>row. rep = RSnaps [row]" by blast
      with that(2) show False by auto
    qed
    with r show ?thesis by (auto simp: readSnapshot_def bind_io_Inl lift_io_eq)
  qed
  from run_Inl [OF run env] t obtain p where t': "t = mapPgError (PgErr p) ?x"
    and ex: "exec (CReadSnapshot (Some u)) (interfere (w_env w (w_pos w)) (w_db w)) = Inl p"
    and db: "w_db w' = interfere (w_env w (w_pos w)) (w_db w)"
    by (auto simp: instance_raw)
  have "pg_code p = Some ''IS010''"
    using instance_pg [of SnapshotNotFound p ?x] t t' by (auto simp: catalogue_def split: if_splits)
  with ex db show ?thesis
    by (auto simp: tag_Inl read_snapshot_def sum_iffs snap_of_def split: option.splits)
qed

section \<open>Appending\<close>

text \<open>The row a new event becomes.\<close>

definition uuid_of_opt :: "string option \<Rightarrow> string option" where
  "uuid_of_opt v = (case v of None \<Rightarrow> None | Some s \<Rightarrow> if s = [] then None else uuid_in s)"

definition written :: "new_event \<Rightarrow> event_row \<Rightarrow> bool" where
  "written e r \<longleftrightarrow>
     e_type r = ne_type e
     \<and> e_data r = (case ne_data e of None \<Rightarrow> JNull | Some v \<Rightarrow> v)
     \<and> e_metadata r = ne_metadata e
     \<and> (\<forall>i. ne_event_id e = Some i \<longrightarrow> uuid_in i = Some (e_id r))
     \<and> e_causation r = uuid_of_opt (ne_causation_id e)
     \<and> e_correlation r = uuid_of_opt (ne_correlation_id e)"

lemma packEvent_get:
  "json_get ''event_id'' (JObj (packEvent e)) = map_option JStr (ne_event_id e)"
  "json_get ''event_type'' (JObj (packEvent e)) = Some (JStr (ne_type e))"
  "json_get ''data'' (JObj (packEvent e)) = Some (case ne_data e of None \<Rightarrow> JNull | Some v \<Rightarrow> v)"
  "json_get ''metadata'' (JObj (packEvent e)) = ne_metadata e"
  "json_get ''causation_id'' (JObj (packEvent e)) = map_option JStr (ne_causation_id e)"
  "json_get ''correlation_id'' (JObj (packEvent e)) = map_option JStr (ne_correlation_id e)"
  by (auto simp: packEvent_def opt_member_def split: option.splits)

lemma uuid_member_pack:
  "json_get k evt = map_option JStr v \<Longrightarrow> uuid_member k evt = Inr x \<Longrightarrow> x = uuid_of_opt v"
  by (auto simp: uuid_member_def uuid_of_opt_def Let_def split: option.splits if_splits)

lemma new_event_row_written:
  assumes "new_event_row t (JObj (packEvent e)) = Inr r" and "ne_event_id e \<noteq> None"
  shows "written e r \<and> e_created r = t"
proof -
  from assms(1) obtain eid ca co ty where
    u: "uuid_member ''event_id'' (JObj (packEvent e)) = Inr (Some eid)"
      "uuid_member ''causation_id'' (JObj (packEvent e)) = Inr ca"
      "uuid_member ''correlation_id'' (JObj (packEvent e)) = Inr co"
    and r: "r = \<lparr>e_id = eid, e_type = ne_type e, e_causation = ca, e_correlation = co,
                 e_data = (case ne_data e of None \<Rightarrow> JNull | Some v \<Rightarrow> v),
                 e_metadata = ne_metadata e, e_created = t\<rparr>"
    by (auto simp: new_event_row_def sum_iffs packEvent_get simp del: json_get.simps split: option.splits)
  note P = uuid_member_pack [OF packEvent_get(1) u(1)] uuid_member_pack [OF packEvent_get(5) u(2)]
    uuid_member_pack [OF packEvent_get(6) u(3)]
  from P(1) assms(2) have "\<forall>i. ne_event_id e = Some i \<longrightarrow> uuid_in i = Some eid"
    by (auto simp: uuid_of_opt_def split: if_splits)
  with P r show ?thesis by (simp add: written_def)
qed

lemma fill_events_list:
  "fill_events es w = (js, w') \<Longrightarrow>
     list_all2 (\<lambda>e j. \<exists>i. (ne_event_id e = Some i \<or> ne_event_id e = None)
        \<and> j = JObj (packEvent (e\<lparr>ne_event_id := Some i\<rparr>))) es js
     \<and> quiet w w' \<and> w_db w' = w_db w \<and> w_pos w' = w_pos w"
proof (induction es arbitrary: w w' js)
  case (Cons e es)
  obtain i w1 where f: "(case ne_event_id e of Some i \<Rightarrow> (i, w) | None \<Rightarrow> randomUUID w) = (i, w1)" by force
  obtain ks w2 where g: "fill_events es w1 = (ks, w2)" by force
  from f have w1: "w_db w1 = w_db w" "w_pos w1 = w_pos w" "w_env w1 = w_env w" "w_log w1 = w_log w"
    and i: "ne_event_id e = Some i \<or> ne_event_id e = None"
    by (auto simp: randomUUID_def split: option.splits)
  from Cons.prems f g have "js = JObj (packEvent (e\<lparr>ne_event_id := Some i\<rparr>)) # ks" "w' = w2"
    by auto
  with Cons.IH [OF g] w1 i show ?case by (auto simp: quiet_def)
qed (auto simp: quiet_refl)

lemma rows_written:
  assumes "fill_events es w = (js, w')" "map_sum_list (new_event_row t) js = Inr rows"
  shows "list_all2 written es rows \<and> (\<forall>r \<in> set rows. e_created r = t)"
proof -
  have l: "list_all2 (\<lambda>e j. \<exists>i. (ne_event_id e = Some i \<or> ne_event_id e = None)
        \<and> j = JObj (packEvent (e\<lparr>ne_event_id := Some i\<rparr>))) es js"
    using fill_events_list [OF assms(1)] by blast
  have r: "list_all2 (\<lambda>j r. new_event_row t j = Inr r) js rows" using assms(2) by (simp add: map_sum_list_Inr)
  have one: "written e r \<and> e_created r = t"
    if "\<exists>i. (ne_event_id e = Some i \<or> ne_event_id e = None) \<and> j = JObj (packEvent (e\<lparr>ne_event_id := Some i\<rparr>))"
      "new_event_row t j = Inr r" for e j r
  proof -
    from that obtain i where i: "ne_event_id e = Some i \<or> ne_event_id e = None"
      and j: "new_event_row t (JObj (packEvent (e\<lparr>ne_event_id := Some i\<rparr>))) = Inr r" by auto
    from new_event_row_written [OF j] i show ?thesis by (auto simp: written_def)
  qed
  have "list_all2 (\<lambda>e r. written e r \<and> e_created r = t) es rows"
    by (rule list_all2_trans [OF _ l r]) (rule one)
  then show ?thesis by (auto simp: list_all2_conv_all_nth in_set_conv_nth)
qed

text \<open>When an expected version holds of a stream of \<open>n\<close> events.\<close>

fun version_holds :: "expected_version \<Rightarrow> nat \<Rightarrow> bool" where
  "version_holds AnyVersion n = True"
| "version_holds NoStream n = (n = 0)"
| "version_holds StreamExistsV n = (0 < n)"
| "version_holds (Exact v) n = (int n = v)"

lemma version_error_holds:
  "version_error u (fst (expectedVersionParams ex)) (case ex of Exact v \<Rightarrow> v | _ \<Rightarrow> 0) n = None
     \<longleftrightarrow> version_holds ex n"
  by (cases ex) (auto simp: version_error_def)

text \<open>The query an append makes, after the events are filled.\<close>

definition append_call :: "string \<Rightarrow> expected_version \<Rightarrow> json list \<Rightarrow> pg_error + call" where
  "append_call u ex js =
     (case snd (expectedVersionParams ex) of
        None \<Rightarrow> Inr (CAppend (Some u) (Some (fst (expectedVersionParams ex))) None (Some (JArr js)))
      | Some t \<Rightarrow> bind_sum (bigint_in t) (\<lambda>v.
          Inr (CAppend (Some u) (Some (fst (expectedVersionParams ex))) (Some v) (Some (JArr js)))))"

lemma appendToStream_query:
  assumes "evs \<noteq> []" "fill_events evs w = (js, w1)"
  shows "appendToStream u ex evs w = bind_io (run (append_call u ex js) (stream_ctx u))
     (\<lambda>r. lift_io (case r of RAppend rows \<Rightarrow> map_sum_list (mapAppended u) rows | _ \<Rightarrow> Inr [])) w1"
  using assms by (cases ex) (simp_all add: appendToStream_def append_call_def Let_def)

lemma append_call_Inr:
  "append_call u ex js = Inr c \<Longrightarrow>
     \<exists>ver. c = CAppend (Some u) (Some (fst (expectedVersionParams ex))) ver (Some (JArr js))
       \<and> (case ver of None \<Rightarrow> 0 | Some v \<Rightarrow> v) = (case ex of Exact v \<Rightarrow> v | _ \<Rightarrow> 0)"
  by (cases ex) (auto simp: append_call_def bind_sum_Inr bigint_in_show)

lemma append_check_rows:
  "append_check (Some u) vt ver (Some (JArr js)) = Inr es \<Longrightarrow> es = js \<and> u \<noteq> all_uuid"
  by (auto simp: append_check_def sum_iffs split: list.splits)

lemma appendToStream_ok:
  assumes ok: "world_ok w" and a: "appendToStream u ex evs w = (Inr rows, w')"
  shows "\<exists>w0 lg erows. quiet w w0 \<and> lg = log_of w0 \<and> version_holds ex (length (stream_log u lg)) \<and> u \<noteq> all_uuid
     \<and> evs \<noteq> [] \<and> list_all2 written evs erows
     \<and> log_of w' = lg @ appended_log u (length (stream_log u lg)) (length lg) erows
     \<and> rows = map (appended u) (append_rows (length (stream_log u lg)) (length lg) erows)
     \<and> world_ok w' \<and> w_log w' = w_log w \<and> w_env w' = w_env w"
proof -
  from a have ne: "evs \<noteq> []" by (auto simp: appendToStream_def)
  obtain js w1 where f: "fill_events evs w = (js, w1)" by force
  note F = fill_events_list [OF f]
  from a have "bind_io (run (append_call u ex js) (stream_ctx u))
     (\<lambda>r. lift_io (case r of RAppend rows \<Rightarrow> map_sum_list (mapAppended u) rows | _ \<Rightarrow> Inr [])) w1 = (Inr rows, w')"
    by (simp add: appendToStream_query [OF ne f])
  then obtain rep where run: "run (append_call u ex js) (stream_ctx u) w1 = (Inr rep, w')"
    and rep: "(case rep of RAppend rows \<Rightarrow> map_sum_list (mapAppended u) rows | _ \<Rightarrow> Inr []) = Inr rows"
    by (auto simp: bind_io_Inr lift_io_eq)
  have ok1: "world_ok w1" "log_of w1 = log_of w" using F ok by (auto simp: world_ok_def log_of_def quiet_def)
  show ?thesis
  proof (rule run_Inr [OF run])
    fix c1 d
    assume c: "append_call u ex js = Inr c1" and e: "exec (with_locks (w_env w1 (w_pos w1)) c1) d = Inr (rep, w_db w')"
      and d: "d = interfere (w_env w1 (w_pos w1)) (w_db w1)" and x: "extends_world w1 w'" "w_log w' = w_log w1"
    obtain ver where c1: "c1 = CAppend (Some u) (Some (fst (expectedVersionParams ex))) ver (Some (JArr js))"
      and ver: "(case ver of None \<Rightarrow> 0 | Some v \<Rightarrow> v) = (case ex of Exact v \<Rightarrow> v | _ \<Rightarrow> 0)"
      using append_call_Inr [OF c] by blast
    let ?vt = "fst (expectedVersionParams ex)"
    from e c1 obtain arows where ap: "append_to_stream (Some u) (Some ?vt) ver (Some (JArr js)) (Some (JObj [])) d = Inr (arows, w_db w')"
      and r: "rep = RAppend arows" by (auto simp: tag_Inr)
    have wfd: "wf_db d" and pre: "prefix (log_of w1) (store_log d)"
      using d ok1 interfere_wf [of "w_db w1" "w_env w1 (w_pos w1)"] by (auto simp: world_ok_def log_of_def)
    from ap obtain es where chk: "append_check (Some u) (Some ?vt) ver (Some (JArr js)) = Inr es"
      by (auto simp: append_to_stream_def bind_sum_Inr)
    then have es: "es = js" and u: "u \<noteq> all_uuid" using append_check_rows by blast+
    let ?n = "length (stream_log u (store_log d))"
    from append_to_stream_log [OF wfd [unfolded wf_db_def, THEN conjunct1] chk, of "Some (JObj [])"] ap ver
    have v: "version_error u ?vt (case ex of Exact v \<Rightarrow> v | _ \<Rightarrow> 0) ?n = None"
      by (auto split: option.splits)
    from append_to_stream_log [OF wfd [unfolded wf_db_def, THEN conjunct1] chk, of "Some (JObj [])"] ap ver v es
    obtain erows where er: "map_sum_list (new_event_row (now d)) js = Inr erows"
      and lg: "store_log (w_db w') = store_log d @ appended_log u ?n (length (store_log d)) erows"
      and ar: "arows = append_rows ?n (length (store_log d)) erows"
      by (auto split: sum.splits if_splits)
    have wr: "list_all2 written evs erows" using rows_written [OF f er] by blast
    let ?w0 = "w'\<lparr>w_db := d\<rparr>"
    have lg0: "log_of ?w0 = store_log d" by (simp add: log_of_def)
    have vh: "version_holds ex ?n" using v version_error_holds by simp
    have rw: "rows = map (appended u) (append_rows ?n (length (store_log d)) erows)"
      using rep r ar by simp
    have wok: "world_ok w'" using x ok1 by (auto simp: world_ok_def extends_world_def)
    have q0: "quiet w ?w0"
    proof (rule quiet_turn)
      show "w_db ?w0 = interfere (w_env w (w_pos w)) (w_db w)"
        using d F by (simp add: quiet_def)
    qed (use run_pos [OF run] F in \<open>simp_all add: quiet_def\<close>)
    have same: "w_log w' = w_log w" "w_env w' = w_env w"
      using x F by (simp_all add: extends_world_def quiet_def)
    have lg': "log_of w' = store_log d @ appended_log u ?n (length (store_log d)) erows"
      using lg by (simp add: log_of_def)
    show ?thesis
      by (intro exI [of _ ?w0] exI [of _ "store_log d"] exI [of _ erows] conjI)
         (fact q0 lg0 [symmetric] vh u ne wr lg' rw wok same)+
  qed
qed

lemma append_reply:
  "(case rep of RAppend rows \<Rightarrow> map_sum_list (mapAppended u) rows | _ \<Rightarrow> Inr []) \<noteq> Inl t"
  by (cases rep) simp_all

lemma append_reply_sym:
  "Inl t \<noteq> (case rep of RAppend rows \<Rightarrow> map_sum_list (mapAppended u) rows | _ \<Rightarrow> Inr [])"
  using append_reply by metis

lemma appendToStream_err:
  assumes ok: "world_ok w" and a: "appendToStream u ex evs w = (Inl t, w')"
  shows "world_ok w' \<and> prefix (log_of w) (log_of w') \<and> w_log w' = w_log w
     \<and> (instance_of t WrongExpectedVersion \<longrightarrow> quiet w w')"
proof (cases "evs = []")
  case True
  with a ok show ?thesis by (auto simp: appendToStream_def quiet_refl)
next
  case ne: False
  obtain js w1 where f: "fill_events evs w = (js, w1)" by force
  note F = fill_events_list [OF f]
  let ?c = "append_call u ex js"
  have ok1: "world_ok w1" "log_of w1 = log_of w" and q1: "quiet w w1"
    using F ok by (auto simp: world_ok_def log_of_def quiet_def)
  from a have b: "bind_io (run ?c (stream_ctx u))
     (\<lambda>r. lift_io (case r of RAppend rows \<Rightarrow> map_sum_list (mapAppended u) rows | _ \<Rightarrow> Inr [])) w1 = (Inl t, w')"
    by (simp add: appendToStream_query [OF ne f])
  then have run: "run ?c (stream_ctx u) w1 = (Inl t, w')"
    by (auto simp: bind_io_Inl lift_io_eq append_reply append_reply_sym)
  from run_extends [OF run] have x: "extends_world w1 w'" "w_log w' = w_log w1" by blast+
  have par: "infra p" if "?c = Inl p" for p
    using that by (cases ex) (auto simp: append_call_def bind_sum_Inl dest: bigint_in_error)
  have env: "env_ok (w_env w1)" using ok1 by (simp add: world_ok_def)
  have "quiet w1 w'" if "instance_of t WrongExpectedVersion"
  proof -
    from run_Inl [OF run env par] that have "w_db w' = interfere (w_env w1 (w_pos w1)) (w_db w1)"
      by (auto simp: instance_raw)
    with run_pos [OF run] show ?thesis by (auto intro: quiet_turn)
  qed
  with x ok1 q1 F show ?thesis
    by (auto simp: world_ok_def extends_world_def log_of_def quiet_def intro: quiet_trans [unfolded quiet_def])
qed

lemma recordSnapshot_frame:
  assumes ok: "world_ok w" and r: "recordSnapshot s w = (x, w')"
  shows "world_ok w' \<and> prefix (log_of w) (log_of w') \<and> w_log w' = w_log w"
proof -
  from r have "extends_world w w' \<and> w_log w' = w_log w"
    using run_extends by (auto simp: recordSnapshot_def bind_io_def unit_reply_def return_io_def
        split: prod.splits sum.splits)
  with ok show ?thesis by (auto simp: world_ok_def extends_world_def log_of_def)
qed

section \<open>Frames\<close>

text \<open>What a query leaves behind, whatever its outcome.\<close>

lemma run_db:
  assumes r: "run c ctx w = (x, w')"
  shows "\<exists>w0. quiet w w0 \<and> w_env w' = w_env w \<and> w_log w' = w_log w
     \<and> (w_db w' = w_db w0 \<or> (\<exists>c1 e y. c = Inr c1 \<and> exec (with_locks e c1) (w_db w0) = Inr (y, w_db w')))"
proof -
  let ?w0 = "w'\<lparr>w_db := interfere (w_env w (w_pos w)) (w_db w)\<rparr>"
  have "quiet w ?w0" using run_pos [OF r] by (auto intro: quiet_turn)
  moreover have "w_db w' = w_db ?w0 \<or> (\<exists>c1 e y. c = Inr c1 \<and> exec (with_locks e c1) (w_db ?w0) = Inr (y, w_db w'))"
    using r by (auto simp: run_def query_def turn_def Let_def split: prod.splits sum.splits fault.splits)
  ultimately show ?thesis using run_pos [OF r] by blast
qed

lemma appendToStream_frame:
  assumes ok: "world_ok w" and a: "appendToStream u ex evs w = (x, w')"
  shows "\<exists>w0. quiet w w0 \<and> w_env w' = w_env w \<and> prefix (log_of w0) (log_of w') \<and> (\<forall>v. snap_of v w' = snap_of v w0)"
proof (cases "evs = []")
  case True
  with a show ?thesis by (intro exI [of _ w]) (auto simp: appendToStream_def quiet_refl)
next
  case ne: False
  obtain js w1 where f: "fill_events evs w = (js, w1)" by force
  note F = fill_events_list [OF f]
  from a obtain y where run: "run (append_call u ex js) (stream_ctx u) w1 = (y, w')"
    unfolding appendToStream_query [OF ne f]
    by (auto simp: bind_io_def lift_io_def split: prod.splits sum.splits)
  from run_db [OF run] obtain w0 where q: "quiet w1 w0" and env: "w_env w' = w_env w1"
    and c: "w_db w' = w_db w0 \<or> (\<exists>c1 e y. append_call u ex js = Inr c1 \<and> exec (with_locks e c1) (w_db w0) = Inr (y, w_db w'))"
    by blast
  have wf0: "wf_events (w_db w0)"
    using quiet_ok [OF quiet_trans [OF conjunct1 [OF conjunct2 [OF F]] q] ok] by (simp add: world_ok_def wf_db_def)
  from c have "prefix (store_log (w_db w0)) (store_log (w_db w')) \<and> snaps (w_db w') = snaps (w_db w0)"
  proof (elim disjE exE conjE)
    fix c1 e y
    assume "append_call u ex js = Inr c1" and x: "exec (with_locks e c1) (w_db w0) = Inr (y, w_db w')"
    then obtain ver where c1: "c1 = CAppend (Some u) (Some (fst (expectedVersionParams ex))) ver (Some (JArr js))"
      using append_call_Inr by blast
    with x show ?thesis using append_step [OF _ wf0] by (auto simp: tag_Inr)
  qed simp
  with q F env show ?thesis
    by (intro exI [of _ w0]) (auto simp: log_of_def snap_of_def find_snapshot_def quiet_def intro: quiet_trans [unfolded quiet_def])
qed

lemma find_upsert:
  "find_snapshot v (upsert_snapshot u ty n data md d) =
     (if v = u then Some \<lparr>n_source_uuid = u, n_source_type = ty, n_source_version = n, n_data = data,
        n_metadata = md, n_created = now d\<rparr> else find_snapshot v d)"
proof (cases "u \<in> n_source_uuid ` set (snaps d)")
  case True
  let ?row = "\<lparr>n_source_uuid = u, n_source_type = ty, n_source_version = n, n_data = data,
        n_metadata = md, n_created = now d\<rparr>"
  have "find (\<lambda>r. n_source_uuid r = v) (map (\<lambda>r. if n_source_uuid r = u then ?row else r) xs)
      = (if v = u then if u \<in> n_source_uuid ` set xs then Some ?row else None
         else find (\<lambda>r. n_source_uuid r = v) xs)" for xs
    by (induction xs) auto
  with True show ?thesis by (simp add: upsert_snapshot_def find_snapshot_def Let_def del: image_iff)
next
  case False
  have "u \<notin> n_source_uuid ` set xs \<Longrightarrow> n_source_uuid row = u \<Longrightarrow> find (\<lambda>r. n_source_uuid r = v) (xs @ [row])
      = (if v = u then Some row else find (\<lambda>r. n_source_uuid r = v) xs)" for row xs
    by (induction xs) auto
  from this [OF False] False show ?thesis by (simp add: upsert_snapshot_def find_snapshot_def Let_def del: image_iff)
qed

lemma recordSnapshot_effect:
  assumes r: "recordSnapshot si w = (x, w')"
  shows "\<exists>w0. quiet w w0 \<and> w_env w' = w_env w \<and> log_of w' = log_of w0
     \<and> (\<forall>v. snap_of v w' = snap_of v w0
          \<or> v = si_source_uuid si \<and> 0 \<le> si_source_version si
             \<and> (\<exists>s. snap_of v w' = Some s \<and> sn_source_version s = si_source_version si
                   \<and> sn_data s = si_data si \<and> sn_metadata s = null_json (si_metadata si)))"
proof -
  from r obtain y where "run (bind_sum (bigint_param (si_source_version si)) (\<lambda>v.
                Inr (CRecordSnapshot (Some (si_source_uuid si)) (Some (si_source_type si)) (Some v)
                  (Some (si_data si)) (si_metadata si))))
              (no_ctx\<lparr>ctx_sourceUuid := Some (si_source_uuid si)\<rparr>) w = (y, w')" (is "run ?c _ _ = _")
    by (auto simp: recordSnapshot_def bind_io_def unit_reply_def return_io_def split: prod.splits sum.splits)
  from run_db [OF this] obtain w0 where q: "quiet w w0" "w_env w' = w_env w"
    and c: "w_db w' = w_db w0 \<or> (\<exists>c1 e y. ?c = Inr c1 \<and> exec (with_locks e c1) (w_db w0) = Inr (y, w_db w'))"
    by blast
  from c have "w_db w' = w_db w0 \<or> 0 \<le> si_source_version si \<and> w_db w' = upsert_snapshot (si_source_uuid si) (si_source_type si)
       (nat (si_source_version si)) (si_data si) (si_metadata si) (w_db w0)"
    by (auto simp: bind_sum_Inr bigint_param_def bigint_in_show tag_Inr record_snapshot_def sum_iffs null_or_neg_def)
  moreover have "store_log (upsert_snapshot u ty n data md d) = store_log d" for u ty n data md d
    by (auto simp: upsert_snapshot_def Let_def store_log_def glinks_def)
  ultimately show ?thesis using q
    by (intro exI [of _ w0]) (auto simp: log_of_def snap_of_def find_upsert snapshot_of_def split: if_splits)
qed
section \<open>The interface\<close>

locale event_client =
  fixes cl :: client
  assumes read_stream_quiet: "cl_readStream cl u from qty w = (r, w') \<Longrightarrow> quiet w w'"
    and read_stream_rows: "world_ok w \<Longrightarrow> cl_readStream cl u from qty w = (Inr rows, w') \<Longrightarrow>
      \<exists>q. int_param qty = Inr q \<and> 0 < q \<and> 0 \<le> from \<and> u \<noteq> all_uuid \<and> stream_log u (log_of w') \<noteq> []
        \<and> rows = map recorded (take (nat q) (drop (nat from - 1) (stream_log u (log_of w'))))"
    and read_stream_missing: "world_ok w \<Longrightarrow> cl_readStream cl u from qty w = (Inl t, w') \<Longrightarrow>
      instance_of t StreamNotFound \<Longrightarrow> u \<noteq> all_uuid \<and> stream_log u (log_of w') = []"
    and read_snapshot_quiet: "cl_readSnapshot cl u w = (rs, w') \<Longrightarrow> quiet w w'"
    and read_snapshot_row: "cl_readSnapshot cl u w = (Inr s, w') \<Longrightarrow> snap_of u w' = Some s"
    and append_ok: "world_ok w \<Longrightarrow> cl_appendToStream cl u ex evs w = (Inr arows, w') \<Longrightarrow>
      \<exists>w0 lg erows. quiet w w0 \<and> lg = log_of w0 \<and> version_holds ex (length (stream_log u lg)) \<and> u \<noteq> all_uuid
        \<and> evs \<noteq> [] \<and> list_all2 written evs erows
        \<and> log_of w' = lg @ appended_log u (length (stream_log u lg)) (length lg) erows
        \<and> arows = map (appended u) (append_rows (length (stream_log u lg)) (length lg) erows)
        \<and> world_ok w' \<and> w_log w' = w_log w \<and> w_env w' = w_env w"
    and append_err: "world_ok w \<Longrightarrow> cl_appendToStream cl u ex evs w = (Inl t, w') \<Longrightarrow>
      world_ok w' \<and> prefix (log_of w) (log_of w') \<and> w_log w' = w_log w
        \<and> (instance_of t WrongExpectedVersion \<longrightarrow> quiet w w')"
    and record_frame: "world_ok w \<Longrightarrow> cl_recordSnapshot cl si w = (x, w') \<Longrightarrow>
      world_ok w' \<and> prefix (log_of w) (log_of w') \<and> w_log w' = w_log w"
    and append_frame: "world_ok w \<Longrightarrow> cl_appendToStream cl u ex evs w = (y, w') \<Longrightarrow>
      \<exists>w0. quiet w w0 \<and> w_env w' = w_env w \<and> prefix (log_of w0) (log_of w')
        \<and> (\<forall>v. snap_of v w' = snap_of v w0)"
    and record_effect: "cl_recordSnapshot cl si w = (x, w') \<Longrightarrow>
      \<exists>w0. quiet w w0 \<and> w_env w' = w_env w \<and> log_of w' = log_of w0
        \<and> (\<forall>v. snap_of v w' = snap_of v w0
             \<or> v = si_source_uuid si \<and> 0 \<le> si_source_version si
                \<and> (\<exists>s. snap_of v w' = Some s \<and> sn_source_version s = si_source_version si
                      \<and> sn_data s = si_data si \<and> sn_metadata s = null_json (si_metadata si)))"

interpretation pgc: event_client pg_client
  by (unfold_locales; unfold pg_client_def client.select_convs)
     ((rule readStream_quiet; assumption) | (rule readStream_ok; assumption)
      | (rule readStream_missing; assumption) | (rule readSnapshot_quiet; assumption)
      | (rule readSnapshot_ok; assumption) | (rule appendToStream_ok; assumption)
      | (rule appendToStream_err; assumption) | (rule recordSnapshot_frame; assumption)
      | (rule appendToStream_frame; assumption) | (rule recordSnapshot_effect; assumption))+

end
