(* ===== verification/Queue_Laws.thy ===== *)
theory Queue_Laws
  imports Procs
begin

text \<open>
  Laws of the subscription tables over whole runs: which calls need a lease, which can move a lease,
  and the order in which a partition's items are handed out.
\<close>

lemma wf_steps: "db_step\<^sup>*\<^sup>* d d' \<Longrightarrow> wf_db d \<Longrightarrow> wf_db d'"
  by (induction rule: rtranclp_induct) (auto simp: db_step_iff wf_after wf_pass)

section \<open>Fencing\<close>

text \<open>The caller holds the subscription, or the item.\<close>

definition holds_sub :: "string \<Rightarrow> string \<Rightarrow> string \<Rightarrow> db \<Rightarrow> bool" where
  "holds_sub u n w d =
     (case find_stream u d of
        None \<Rightarrow> False
      | Some s \<Rightarrow> (case find_sub (s_id s) n d of None \<Rightarrow> False | Some b \<Rightarrow> b_claimed_by b = Some w))"

definition holds_item :: "string \<Rightarrow> string \<Rightarrow> string \<Rightarrow> string \<Rightarrow> int \<Rightarrow> db \<Rightarrow> bool" where
  "holds_item u n w p e d =
     (case find_stream u d of
        None \<Rightarrow> False
      | Some s \<Rightarrow> (case find_item (s_id s) n p e d of None \<Rightarrow> False | Some i \<Rightarrow> i_claimed_by i = Some w))"

fun needs_lease :: "call \<Rightarrow> db \<Rightarrow> bool" where
  "needs_lease (CReleaseSub su n w) d = holds_sub (the su) (the n) (the w) d"
| "needs_lease (CRouteBatch su n w cur decs) d = holds_sub (the su) (the n) (the w) d"
| "needs_lease (CExtendItem su n w p e secs) d = holds_item (the su) (the n) (the w) (the p) (the e) d"
| "needs_lease (CCompleteProjection su n w p e) d = holds_item (the su) (the n) (the w) (the p) (the e) d"
| "needs_lease (CCompletePm su n w p e snu snt snv sd smd) d = holds_item (the su) (the n) (the w) (the p) (the e) d"
| "needs_lease (CFailItem su n w p e err) d = holds_item (the su) (the n) (the w) (the p) (the e) d"
| "needs_lease _ d = True"

lemma with_lease_holds: "with_lease proc u n w d f = Inr x \<Longrightarrow> holds_sub u n w d"
  by (auto simp: with_lease_def with_stream_def holds_sub_def split: option.splits if_splits)

lemma with_claimed_item_holds: "with_claimed_item proc u n w p e d f = Inr x \<Longrightarrow> holds_item u n w p e d"
  by (auto simp: with_claimed_item_Inr holds_item_def)

lemma fenced: "exec c d = Inr (r, d') \<Longrightarrow> needs_lease c d"
proof (cases c)
  case (CReleaseSub su n w)
  moreover assume "exec c d = Inr (r, d')"
  ultimately show ?thesis
    by (auto simp: tag_Inr release_subscription_def check_defs sum_iffs intro: with_lease_holds)
next
  case (CRouteBatch su n w cur decs)
  moreover assume "exec c d = Inr (r, d')"
  ultimately show ?thesis
    by (auto simp: tag_Inr route_batch_def check_defs sum_iffs split: option.splits json.splits
        intro: with_lease_holds)
next
  case (CExtendItem su n w p e secs)
  moreover assume "exec c d = Inr (r, d')"
  ultimately obtain y where x: "extend_work_item_claim su n w p e secs (Some (JObj [])) d = Inr (y, d')"
    by (auto simp: tag_Inr)
  show ?thesis
    by (rule extend_work_item_Inr [OF x]) (auto simp: CExtendItem holds_item_def)
next
  case (CCompleteProjection su n w p e)
  moreover assume "exec c d = Inr (r, d')"
  ultimately show ?thesis
    by (auto simp: tag_Inr complete_work_item_projection_def check_defs sum_iffs
        intro: with_claimed_item_holds)
next
  case (CCompletePm su n w p e snu snt snv sd smd)
  moreover assume "exec c d = Inr (r, d')"
  ultimately show ?thesis
    by (auto simp: tag_Inr complete_work_item_pm_def check_defs sum_iffs intro: with_claimed_item_holds)
next
  case (CFailItem su n w p e err)
  moreover assume "exec c d = Inr (r, d')"
  ultimately show ?thesis
    by (auto simp: tag_Inr fail_work_item_def check_defs sum_iffs intro: with_claimed_item_holds)
qed simp_all

section \<open>Who can move a lease\<close>

definition lease_of :: "nat \<Rightarrow> string \<Rightarrow> db \<Rightarrow> (string \<times> int) option" where
  "lease_of k n d =
     (case find_sub k n d of
        None \<Rightarrow> None
      | Some b \<Rightarrow> (case (b_claimed_by b, b_expires b) of (Some h, Some ex) \<Rightarrow> Some (h, ex) | _ \<Rightarrow> None))"

text \<open>The calls by which a worker gives up or deletes the subscription \<open>n\<close> of stream \<open>k\<close>.\<close>

definition gives_up :: "nat \<Rightarrow> string \<Rightarrow> string \<Rightarrow> call \<Rightarrow> db \<Rightarrow> bool" where
  "gives_up k n w c d =
     (case c of
        CReleaseSub su n' w' \<Rightarrow> w' = Some w \<and> n' = Some n
          \<and> map_option s_id (find_stream (the su) d) = Some k
      | CDeleteSub su n' \<Rightarrow> n' = Some n \<and> map_option s_id (find_stream (the su) d) = Some k
      | CClaimSub locked su n' w' secs opts \<Rightarrow> w' = Some w \<and> n' = Some n
          \<and> map_option s_id (find_stream (the su) d) = Some k
      | _ \<Rightarrow> False)"

lemma find_update_sub:
  assumes "\<And>b. b_stream (f b) = b_stream b \<and> b_name (f b) = b_name b"
  shows "find_sub k n (update_sub k' n' f d) =
     (if k' = k \<and> n' = n then map_option f (find_sub k n d) else find_sub k n d)"
proof -
  have "find (\<lambda>b. b_stream b = k \<and> b_name b = n) (map (\<lambda>b. if b_stream b = k' \<and> b_name b = n' then f b else b) xs)
    = (if k' = k \<and> n' = n then map_option f (find (\<lambda>b. b_stream b = k \<and> b_name b = n) xs)
       else find (\<lambda>b. b_stream b = k \<and> b_name b = n) xs)" for xs
    using assms by (induction xs) auto
  then show ?thesis by (simp add: find_sub_def update_sub_def)
qed

fun moves_lease :: "call \<Rightarrow> bool" where
  "moves_lease (CClaimSub _ _ _ _ _ _) = True"
| "moves_lease (CReleaseSub _ _ _) = True"
| "moves_lease (CDeleteSub _ _) = True"
| "moves_lease (CRouteBatch _ _ _ _ _) = True"
| "moves_lease _ = False"

lemma claim_work_item_subs: "claim_work_item locked su n w secs opts d = Inr (r, d') \<Longrightarrow> subs d' = subs d \<and> now d' = now d"
  by (erule claim_work_item_Inr) (auto split: list.splits)

lemma extend_work_item_subs: "extend_work_item_claim su n w p e secs opts d = Inr (r, d') \<Longrightarrow> subs d' = subs d \<and> now d' = now d"
  by (erule extend_work_item_Inr) simp

lemma queue_subs:
  "record_snapshot u ty v data md opts d = Inr (r1, d') \<Longrightarrow> subs d' = subs d \<and> now d' = now d"
  "delete_snapshot u opts d = Inr (r2, d') \<Longrightarrow> subs d' = subs d \<and> now d' = now d"
  "complete_work_item_projection su n w p e opts d = Inr (r3, d') \<Longrightarrow> subs d' = subs d \<and> now d' = now d"
  "complete_work_item_pm su n w p e snu snt snv sd smd opts d = Inr (r4, d') \<Longrightarrow> subs d' = subs d \<and> now d' = now d"
  "complete_pm_instance su n p snu opts d = Inr (r5, d') \<Longrightarrow> subs d' = subs d \<and> now d' = now d"
  "fail_work_item su n w p e err opts d = Inr (r6, d') \<Longrightarrow> subs d' = subs d \<and> now d' = now d"
  by (auto simp: record_snapshot_def delete_snapshot_def complete_work_item_projection_def
      complete_work_item_pm_def complete_pm_instance_def fail_work_item_def check_defs sum_iffs
      with_claimed_item_Inr lookup_defs Let_def split: option.splits if_splits)

lemma exec_subs:
  assumes "exec c d = Inr (r, d')" "\<not> moves_lease c" "wf_db d"
  shows "subs d' = subs d \<and> now d' = now d"
  using assms
  by (cases c) (auto simp: tag_Inr wf_db_def dest: claim_work_item_subs extend_work_item_subs queue_subs
      append_step(5,7) read_steps)

lemma lease_of_update:
  assumes "\<And>b. b_stream (f b) = b_stream b \<and> b_name (f b) = b_name b"
    "\<And>b. b_claimed_by (f b) = b_claimed_by b \<and> b_expires (f b) = b_expires b"
  shows "lease_of k n (update_sub k' n' f d) = lease_of k n d"
  using assms by (auto simp: lease_of_def find_update_sub split: option.splits)

lemma claim_keeps_lease:
  assumes c: "claim_subscription locked su name w' secs opts d = Inr (r, d')"
    and l: "lease_of k n d = Some (w, ex)" and t: "now d < ex"
    and g: "\<not> (w' = Some w \<and> name = Some n \<and> map_option s_id (find_stream (the su) d) = Some k)"
  shows "lease_of k n d' = Some (w, ex)"
proof -
  from c obtain u m wk sc where a: "su = Some u" "name = Some m" "w' = Some wk" "secs = Some sc"
    by (auto simp: claim_subscription_def check_defs sum_iffs null_or_empty_def split: option.splits)
  from c a obtain s where s: "find_stream u d = Some s"
    by (auto simp: claim_subscription_def check_defs sum_iffs Let_def split: option.splits)
  show ?thesis
  proof (cases "find_sub (s_id s) m d")
    case None
    with c a s obtain ls where d': "subs d' = subs d @ [\<lparr>b_stream = s_id s, b_name = m, b_last_seen = ls,
        b_claimed_by = Some wk, b_expires = Some (now d + 1000 * sc), b_created = now d\<rparr>]"
      by (auto simp: claim_subscription_def check_defs sum_iffs Let_def)
    from l obtain b where "find_sub k n d = Some b" by (auto simp: lease_of_def split: option.splits)
    then have "find_sub k n d' = Some b"
      by (auto simp: find_sub_def d' find_Some_iff nth_append intro: less_SucI)
    with \<open>find_sub k n d = Some b\<close> l show ?thesis by (simp add: lease_of_def)
  next
    case (Some b)
    have "d' = d \<or> d' = update_sub (s_id s) m (\<lambda>r. r\<lparr>b_claimed_by := Some wk, b_expires := Some (now d + 1000 * sc)\<rparr>) d
       \<and> \<not> held_by_other b wk (now d)"
      using c a s Some by (auto simp: claim_subscription_def check_defs sum_iffs Let_def split: if_splits)
    then show ?thesis
    proof (elim disjE conjE)
      assume u: "d' = update_sub (s_id s) m (\<lambda>r. r\<lparr>b_claimed_by := Some wk, b_expires := Some (now d + 1000 * sc)\<rparr>) d"
        and h: "\<not> held_by_other b wk (now d)"
      have "\<not> (s_id s = k \<and> m = n)"
      proof
        assume kn: "s_id s = k \<and> m = n"
        with Some l have "b_claimed_by b = Some w" "b_expires b = Some ex"
          by (auto simp: lease_of_def split: option.splits)
        with h t have "wk = w" by (auto simp: held_by_other_def)
        with g a s kn show False by simp
      qed
      with l show ?thesis by (auto simp: u lease_of_def find_update_sub split: option.splits)
    qed (use l in simp)
  qed
qed

lemma lease_kept:
  assumes e: "exec c d = Inr (r, d')" and wf: "wf_db d" and l: "lease_of k n d = Some (w, ex)"
    and t: "now d < ex" and g: "\<not> gives_up k n w c d"
  shows "lease_of k n d' = Some (w, ex)"
proof (cases "moves_lease c")
  case False
  from conjunct1 [OF exec_subs [OF e False wf]] l show ?thesis by (simp add: lease_of_def find_sub_def)
next
  case True
  show ?thesis
  proof (cases c)
    case (CClaimSub locked su n' w' secs opts)
    with e g claim_keeps_lease [OF _ l t] show ?thesis by (auto simp: tag_Inr gives_up_def)
  next
    case (CReleaseSub su n' w')
    with e obtain s b where s: "find_stream (the su) d = Some s" "find_sub (s_id s) (the n') d = Some b"
      and h: "b_claimed_by b = Some (the w')" and nn: "n' \<noteq> None" "w' \<noteq> None"
      and d': "d' = update_sub (s_id s) (the n') (\<lambda>r. r\<lparr>b_claimed_by := None, b_expires := None\<rparr>) d"
      by (auto simp: tag_Inr release_subscription_def check_defs lookup_defs sum_iffs null_or_empty_def
          split: option.splits if_splits)
    have "\<not> (s_id s = k \<and> the n' = n)"
      using s h nn l g CReleaseSub by (auto simp: lease_of_def gives_up_def split: option.splits)
    with l show ?thesis by (auto simp: d' lease_of_def find_update_sub split: option.splits)
  next
    case (CDeleteSub su n')
    with e obtain s where s: "find_stream (the su) d = Some s" and nn: "n' \<noteq> None"
      and d': "subs d' = filter (\<lambda>b. \<not> (b_stream b = s_id s \<and> b_name b = the n')) (subs d)"
      by (auto simp: tag_Inr delete_subscription_def check_defs lookup_defs sum_iffs null_or_empty_def
          split: option.splits)
    have ne: "\<not> (s_id s = k \<and> the n' = n)" using s nn g CDeleteSub by (auto simp: gives_up_def)
    have [simp]: "find (\<lambda>b. b_stream b = k \<and> b_name b = n) (filter (\<lambda>b. b_stream b = s_id s \<longrightarrow> b_name b \<noteq> the n') xs)
      = find (\<lambda>b. b_stream b = k \<and> b_name b = n) xs" for xs
      using ne by (induction xs) auto
    with l show ?thesis unfolding lease_of_def find_sub_def d' by simp
  next
    case (CRouteBatch su n' w' cur decs)
    with e obtain k' ls where d': "subs d' = subs (update_sub k' (the n') (\<lambda>r. r\<lparr>b_last_seen := ls\<rparr>) d)"
      by (auto simp: tag_Inr route_batch_def check_defs lookup_defs sum_iffs Let_def
          split: option.splits json.splits if_splits)
    have "lease_of k n d' = lease_of k n (update_sub k' (the n') (\<lambda>r. r\<lparr>b_last_seen := ls\<rparr>) d)"
      by (simp add: lease_of_def find_sub_def d')
    with l lease_of_update [of "\<lambda>r. r\<lparr>b_last_seen := ls\<rparr>" k n] show ?thesis by simp
  qed (use True in simp_all)
qed

text \<open>Runs in which the holder does not give the lease up and its time has not come.\<close>

inductive leased_run :: "nat \<Rightarrow> string \<Rightarrow> string \<Rightarrow> int \<Rightarrow> db \<Rightarrow> db \<Rightarrow> bool"
  for k n w ex where
  run_refl: "leased_run k n w ex d d"
| run_call: "leased_run k n w ex d d1 \<Longrightarrow> \<not> gives_up k n w c d1 \<Longrightarrow> leased_run k n w ex d (after c d1)"
| run_pass: "leased_run k n w ex d d1 \<Longrightarrow> now d1 + int ms < ex \<Longrightarrow> leased_run k n w ex d (pass ms d1)"

lemma exec_now:
  assumes e: "exec c d = Inr (r, d')" and wf: "wf_db d"
  shows "now d' = now d"
proof (cases "moves_lease c")
  case False
  from exec_subs [OF e False wf] show ?thesis by simp
next
  case True
  with e show ?thesis
    by (cases c) (auto simp: tag_Inr claim_subscription_def release_subscription_def delete_subscription_def
        route_batch_def check_defs lookup_defs sum_iffs Let_def split: option.splits json.splits if_splits)
qed

lemma leased_run_keeps:
  "leased_run k n w ex d d' \<Longrightarrow> wf_db d \<Longrightarrow> lease_of k n d = Some (w, ex) \<Longrightarrow> now d < ex
     \<Longrightarrow> wf_db d' \<and> lease_of k n d' = Some (w, ex) \<and> now d' < ex"
proof (induction rule: leased_run.induct)
  case (run_call d d1 c)
  then show ?case
    using lease_kept [of c d1 _ _ k n w ex] exec_now [of c d1] wf_after [of d1 c]
    by (auto simp: after_def split: sum.splits)
next
  case (run_pass d d1 ms)
  then show ?case using wf_pass [of d1 ms] by (auto simp: pass_def lease_of_def find_sub_def)
qed simp

text \<open>While a lease is live, another worker's claim is refused and changes nothing.\<close>

lemma claim_refused:
  assumes c: "claim_subscription locked (Some u) (Some n) (Some w') secs opts d = Inr (rows, d')"
    and s: "find_stream u d = Some s" and l: "lease_of (s_id s) n d = Some (w, ex)"
    and t: "now d < ex" and ne: "w' \<noteq> w"
  shows "d' = d \<and> (\<exists>b. rows = [refused b] \<and> q_claimed_by (refused b) = Some w)"
proof -
  from l obtain b where b: "find_sub (s_id s) n d = Some b" "b_claimed_by b = Some w" "b_expires b = Some ex"
    by (auto simp: lease_of_def split: option.splits)
  then have "held_by_other b w' (now d)" using t ne by (simp add: held_by_other_def)
  with c s b show ?thesis
    by (auto simp: claim_subscription_def check_defs sum_iffs Let_def refused_def)
qed

section \<open>The order within a partition\<close>

text \<open>The item handed out is open, and every earlier item of its partition is done with.\<close>

lemma claimed_in_order:
  assumes "claim_work_item locked su name w secs opts d = Inr (row # rows, d')"
  shows "\<exists>s i. find_stream (the su) d = Some s \<and> i \<in> set (items d) \<and> item_of (s_id s) (the name) i
     \<and> i_partition i = w_partition row \<and> i_event i = w_event row \<and> takeable (now d) i
     \<and> (\<forall>j \<in> set (items d). item_of (s_id s) (the name) j \<longrightarrow> i_partition j = w_partition row
          \<longrightarrow> i_event j < w_event row \<longrightarrow> i_state j = Done)"
proof (rule claim_work_item_Inr [OF assms])
  fix s u n wk sc
  assume a: "su = Some u" "name = Some n" "find_stream u d = Some s"
    and r: "case claim_candidates (s_id s) n locked d of [] \<Rightarrow> row # rows = [] \<and> d' = d
      | i # _ \<Rightarrow> row # rows = [claimed_row wk (now d + 1000 * sc) i]
          \<and> d' = update_item (s_id s) n (i_partition i) (i_event i) (claim_update wk (now d + 1000 * sc)) d"
  from r obtain i rest where c: "claim_candidates (s_id s) n locked d = i # rest"
    and row: "row = claimed_row wk (now d + 1000 * sc) i"
    by (cases "claim_candidates (s_id s) n locked d") auto
  note C = claim_candidates_Cons [OF c]
  have p: "w_partition row = i_partition i" "w_event row = i_event i" by (simp_all add: row claimed_row_def Let_def)
  have "i_state j = Done" if "j \<in> set (items d)" "item_of (s_id s) n j" "i_partition j = i_partition i"
    "i_event j < i_event i" for j
  proof -
    have "\<not> open_item j" using that C(2,4) by (auto simp: blocked_def item_of_def)
    then show ?thesis by (cases "i_state j") (auto simp: open_item_def)
  qed
  with a C p show ?thesis by (intro exI [of _ s] exI [of _ i]) simp
qed

section \<open>Routing\<close>

text \<open>Delivering a batch twice is delivering it once.\<close>

lemma insert_items_has: "i \<in> set is \<Longrightarrow> \<exists>j \<in> set (insert_items is old). same_item i j"
proof (induction "is" old rule: insert_items.induct)
  case (2 k "is" old)
  show ?case
  proof (cases "i = k")
    case True
    obtain more where "insert_items (k # is) old = (if \<exists>j \<in> set old. same_item k j then old else old @ [k]) @ more"
      using insert_items_grow by fastforce
    with True show ?thesis by (auto simp: same_item_iff split: if_splits)
  next
    case False
    with "2.prems" "2.IH" show ?thesis by simp
  qed
qed simp

lemma insert_items_present: "\<forall>i \<in> set is. \<exists>j \<in> set old. same_item i j \<Longrightarrow> insert_items is old = old"
  by (induction "is" old rule: insert_items.induct) auto

lemma insert_items_again: "insert_items is (insert_items is old) = insert_items is old"
  using insert_items_has by (intro insert_items_present) blast

lemma route_batch_again:
  assumes r: "route_batch (Some u) (Some n) (Some w) (Some c) (Some (JArr vs)) opts d = Inr (rows, d')"
  shows "\<exists>ls. route_batch (Some u) (Some n) (Some w) (Some c) (Some (JArr vs)) opts d'
     = Inr ([\<lparr>rr_inserted = 0, rr_last_seen = ls\<rparr>], d')"
proof -
  from r obtain s b its where s: "find_stream u d = Some s" and b: "find_sub (s_id s) n d = Some b"
    and h: "b_claimed_by b = Some w" and its: "map_sum_list (decision_row (s_id s) n) vs = Inr its"
    and ok: "n \<noteq> []" "w \<noteq> []" "0 \<le> c" "\<not> (\<exists>v \<in> set vs. bad_decision v)"
    and d': "d' = (update_sub (s_id s) n (\<lambda>r. r\<lparr>b_last_seen := max (b_last_seen b) (nat c)\<rparr>) d)
        \<lparr>items := insert_items its (items d)\<rparr>"
    by (auto simp: route_batch_def check_defs lookup_defs sum_iffs Let_def null_or_empty_def null_or_neg_def
        split: option.splits if_splits)
  let ?b = "b\<lparr>b_last_seen := max (b_last_seen b) (nat c)\<rparr>"
  have "find_stream u d' = Some s" using s by (simp add: d' find_stream_def)
  moreover have "find_sub (s_id s) n d' = Some ?b"
    using b find_update_sub [of "\<lambda>r. r\<lparr>b_last_seen := max (b_last_seen b) (nat c)\<rparr>" "s_id s" n "s_id s" n d]
    by (simp add: d' find_sub_def)
  moreover have "update_sub (s_id s) n (\<lambda>r. r\<lparr>b_last_seen := max (b_last_seen ?b) (nat c)\<rparr>) d' = d'"
    by (auto simp: d' update_sub_def)
  ultimately show ?thesis
    using h its ok
    by (simp add: route_batch_def check_defs lookup_defs guard_sum_def null_or_empty_def null_or_neg_def
        Let_def insert_items_again d')
qed

text \<open>An open item of the next state was open before, or was routed by the call.\<close>

definition routed :: "call \<Rightarrow> item_row \<Rightarrow> bool" where
  "routed c i \<longleftrightarrow>
     (case c of
        CRouteBatch su n w cur (Some (JArr vs)) \<Rightarrow>
          \<exists>v \<in> set vs. decision_row (i_stream i) (i_sub i) v = Inr i
      | _ \<Rightarrow> False)"

definition was_open :: "db \<Rightarrow> item_row \<Rightarrow> bool" where
  "was_open d i \<longleftrightarrow> (\<exists>j \<in> set (items d). full_key j = full_key i \<and> open_item j)"

lemma update_was_open:
  assumes "i \<in> set (items (update_item k n p e f d))" "open_item i" "\<And>r. full_key (f r) = full_key r"
    "\<And>j. j \<in> set (items d) \<Longrightarrow> item_key k n p e j \<Longrightarrow> open_item j"
  shows "was_open d i"
proof -
  from assms(1) obtain j where j: "j \<in> set (items d)" "i = (if item_key k n p e j then f j else j)"
    by (auto simp: update_item_def)
  with assms(2-4) show ?thesis by (auto simp: was_open_def split: if_splits)
qed

lemma claimed_open:
  assumes wf: "wf_queue d" and i: "find_item k n p e d = Some i" "i_claimed_by i \<noteq> None"
    and j: "j \<in> set (items d)" "item_key k n p e j"
  shows "open_item j"
proof -
  from find_item_Some [OF i(1)] have "i \<in> set (items d)" "item_key k n p e i" by auto
  with unique_item [OF wf j(1) _ j(2)] have "j = i" by blast
  with i wf j show ?thesis by (auto simp: wf_queue_def row_ok_def open_item_def)
qed

lemma exec_items:
  assumes e: "exec c d = Inr (r, d')" and wf: "wf_db d" and i: "i \<in> set (items d')" "open_item i"
  shows "was_open d i \<or> routed c i"
proof -
  have wfq: "wf_queue d" using wf by (simp add: wf_db_def)
  have same: ?thesis if "set (items d') \<subseteq> set (items d)" using that i by (auto simp: was_open_def)
  show ?thesis
  proof (cases c)
    case (CRouteBatch su n w cur decs)
    with e obtain k vs its where vs: "decs = Some (JArr vs)" and its: "map_sum_list (decision_row k (the n)) vs = Inr its"
      and d': "items d' = insert_items its (items d)"
      by (auto simp: tag_Inr route_batch_def check_defs lookup_defs sum_iffs Let_def
          split: option.splits json.splits if_splits)
    obtain more where more: "insert_items its (items d) = items d @ more" "set more \<subseteq> set its"
      using insert_items_grow by blast
    show ?thesis
    proof (cases "i \<in> set (items d)")
      case True
      with i show ?thesis by (auto simp: was_open_def)
    next
      case False
      with i more d' have "i \<in> set its" by auto
      then obtain m where "m < length its" "i = its ! m" by (auto simp: in_set_conv_nth)
      with its have "vs ! m \<in> set vs" "decision_row k (the n) (vs ! m) = Inr i"
        by (simp_all add: map_sum_list_Inr list_all2_conv_all_nth)
      then obtain v where v: "v \<in> set vs" "decision_row k (the n) v = Inr i" by blast
      with decision_row_ok [OF v(2)] CRouteBatch vs show ?thesis by (auto simp: routed_def)
    qed
  next
    case (CClaimItem locked su n w secs)
    with e obtain rows where x: "claim_work_item (\<lambda>i. i \<in> set locked) su n w secs (Some (JObj [])) d = Inr (rows, d')"
      by (auto simp: tag_Inr)
    show ?thesis
    proof (rule claim_work_item_Inr [OF x])
      fix s u m wk sc
      assume c: "case claim_candidates (s_id s) m (\<lambda>i. i \<in> set locked) d of [] \<Rightarrow> rows = [] \<and> d' = d
      | i # _ \<Rightarrow> rows = [claimed_row wk (now d + 1000 * sc) i]
          \<and> d' = update_item (s_id s) m (i_partition i) (i_event i) (claim_update wk (now d + 1000 * sc)) d"
      show ?thesis
      proof (cases "claim_candidates (s_id s) m (\<lambda>i. i \<in> set locked) d")
        case Nil
        with c show ?thesis by (intro same) simp
      next
        case (Cons t rest)
        note C = claim_candidates_Cons [OF Cons]
        have "open_item j" if j: "j \<in> set (items d)" "item_key (s_id s) m (i_partition t) (i_event t) j" for j
        proof -
          have "item_key (s_id s) m (i_partition t) (i_event t) t" using C(2) by (simp add: item_key_def)
          with unique_item [OF wfq j(1) C(1) j(2)] C(3) show ?thesis by (auto simp: takeable_def open_item_def)
        qed
        with i Cons c show ?thesis by (auto intro!: update_was_open simp: full_key_def claim_update_def)
      qed
    qed
  next
    case (CExtendItem su n w p ev secs)
    with e obtain y where x: "extend_work_item_claim su n w p ev secs (Some (JObj [])) d = Inr (y, d')"
      by (auto simp: tag_Inr)
    show ?thesis
    proof (rule extend_work_item_Inr [OF x])
      fix s t
      let ?f = "\<lambda>r. r\<lparr>i_lease := Some (now d + 1000 * the secs)\<rparr>"
      assume t: "find_item (s_id s) (the n) (the p) (the ev) d = Some t" "i_claimed_by t = w" "w \<noteq> None"
        and d': "d' = update_item (s_id s) (the n) (the p) (the ev) ?f d"
      have "was_open d i"
        by (rule update_was_open [where f = ?f, OF i(1) [unfolded d'] i(2)])
           (use t in \<open>auto simp: full_key_def intro: claimed_open [OF wfq]\<close>)
      then show ?thesis ..
    qed
  next
    case (CCompletePm su n w p ev snu snt snv sd smd)
    let ?f = "\<lambda>r. r\<lparr>i_state := Done, i_claimed_by := None, i_lease := None\<rparr>"
    from CCompletePm e obtain proc where "with_claimed_item proc (the su) (the n) (the w) (the p) (the ev) d
        (\<lambda>k i. Inr ((), upsert_snapshot (the snu) (the snt) (nat (the snv)) (the sd) smd
          (update_item k (the n) (the p) (the ev) ?f d))) = Inr ((), d')"
      by (auto simp: tag_Inr complete_work_item_pm_def check_defs sum_iffs)
    then show ?thesis
    proof (rule with_claimed_itemE)
      fix s t
      assume t: "find_item (s_id s) (the n) (the p) (the ev) d = Some t" "i_claimed_by t = Some (the w)"
        and "Inr ((), upsert_snapshot (the snu) (the snt) (nat (the snv)) (the sd) smd
          (update_item (s_id s) (the n) (the p) (the ev) ?f d)) = Inr ((), d')"
      then have d': "items d' = items (update_item (s_id s) (the n) (the p) (the ev) ?f d)" by auto
      have "was_open d i"
        by (rule update_was_open [where f = ?f, OF i(1) [unfolded d'] i(2)])
           (use t in \<open>auto simp: full_key_def intro: claimed_open [OF wfq]\<close>)
      then show ?thesis ..
    qed
  next
    case (CFailItem su n w p ev err)
    let ?f = "\<lambda>r. r\<lparr>i_state := Failed, i_failed_at := Some (now d), i_error := err,
                 i_claimed_by := None, i_lease := None\<rparr>"
    from CFailItem e obtain proc where "with_claimed_item proc (the su) (the n) (the w) (the p) (the ev) d
        (\<lambda>k i. Inr ((), update_item k (the n) (the p) (the ev) ?f d)) = Inr ((), d')"
      by (auto simp: tag_Inr fail_work_item_def check_defs sum_iffs)
    then show ?thesis
    proof (rule with_claimed_itemE)
      fix s t
      assume t: "find_item (s_id s) (the n) (the p) (the ev) d = Some t" "i_claimed_by t = Some (the w)"
        and "Inr ((), update_item (s_id s) (the n) (the p) (the ev) ?f d) = Inr ((), d')"
      then have d': "d' = update_item (s_id s) (the n) (the p) (the ev) ?f d" by auto
      have "was_open d i"
        by (rule update_was_open [where f = ?f, OF i(1) [unfolded d'] i(2)])
           (use t in \<open>auto simp: full_key_def intro: claimed_open [OF wfq]\<close>)
      then show ?thesis ..
    qed
  next
    case CAppend
    with e wf show ?thesis by (intro same) (auto simp: tag_Inr wf_db_def dest: append_step(6))
  qed (use e i in \<open>auto simp: was_open_def tag_Inr claim_subscription_def release_subscription_def
      delete_subscription_def complete_work_item_projection_def complete_pm_instance_def
      record_snapshot_def delete_snapshot_def check_defs lookup_defs sum_iffs Let_def
      dest!: read_steps split: option.splits if_splits\<close>)
qed

section \<open>Caught up\<close>

definition caught_up :: "nat \<Rightarrow> string \<Rightarrow> int \<Rightarrow> db \<Rightarrow> bool" where
  "caught_up k n t d \<longleftrightarrow>
     (\<exists>b. find_sub k n d = Some b \<and> t \<le> int (b_last_seen b))
     \<and> \<not> (\<exists>i \<in> set (items d). item_of k n i \<and> i_event i \<le> t \<and> open_item i)"

lemma is_caught_up_reply:
  "find_stream u d = Some s \<Longrightarrow> find_sub (s_id s) n d \<noteq> None \<Longrightarrow> n \<noteq> [] \<Longrightarrow> 0 \<le> t \<Longrightarrow>
     is_subscription_caught_up (Some u) (Some n) (Some t) opts d = Inr ([caught_up (s_id s) n t d], d)"
  by (auto simp: is_subscription_caught_up_def check_defs with_stream_def guard_sum_def null_or_empty_def
      null_or_neg_def caught_up_def split: option.splits)

lemma claim_subscription_subs:
  assumes "claim_subscription locked su name w' secs opts d = Inr (r, d')"
  obtains "subs d' = subs d" | x where "subs d' = subs d @ [x]"
  | k' m wk ex where "d' = update_sub k' m (\<lambda>r. r\<lparr>b_claimed_by := Some wk, b_expires := Some ex\<rparr>) d"
proof -
  from assms obtain s where s: "find_stream (the su) d = Some s"
    by (auto simp: claim_subscription_def check_defs sum_iffs Let_def split: option.splits)
  show thesis
  proof (cases "find_sub (s_id s) (the name) d")
    case None
    with assms s that(2) show thesis by (auto simp: claim_subscription_def check_defs sum_iffs Let_def)
  next
    case (Some b)
    with assms s that(1,3) show thesis
      by (auto simp: claim_subscription_def check_defs sum_iffs Let_def split: if_splits)
  qed
qed

lemma find_filter_other:
  "\<not> (k' = k \<and> n' = n) \<Longrightarrow> find (\<lambda>b. b_stream b = k \<and> b_name b = n)
     (filter (\<lambda>b. \<not> (b_stream b = k' \<and> b_name b = n')) xs) = find (\<lambda>b. b_stream b = k \<and> b_name b = n) xs"
  by (induction xs) auto

text \<open>The calls that route behind the target, or delete the subscription.\<close>

definition reopens :: "nat \<Rightarrow> string \<Rightarrow> int \<Rightarrow> call \<Rightarrow> db \<Rightarrow> bool" where
  "reopens k n t c d \<longleftrightarrow>
     (\<exists>i. routed c i \<and> item_of k n i \<and> i_event i \<le> t)
     \<or> (case c of CDeleteSub su n' \<Rightarrow> n' = Some n \<and> map_option s_id (find_stream (the su) d) = Some k
        | _ \<Rightarrow> False)"

lemma cursor_kept:
  assumes e: "exec c d = Inr (r, d')" and wf: "wf_db d" and b: "find_sub k n d = Some b"
    and g: "\<not> (case c of CDeleteSub su n' \<Rightarrow> n' = Some n \<and> map_option s_id (find_stream (the su) d) = Some k
        | _ \<Rightarrow> False)"
  shows "\<exists>b'. find_sub k n d' = Some b' \<and> b_last_seen b \<le> b_last_seen b'"
proof (cases "moves_lease c")
  case False
  from conjunct1 [OF exec_subs [OF e False wf]] b show ?thesis by (simp add: find_sub_def)
next
  case True
  show ?thesis
  proof (cases c)
    case (CClaimSub locked su n' w' secs opts)
    with e have "claim_subscription locked su n' w' secs opts d = Inr (r', d')"
      if "r = RClaim r'" for r' using that by (auto simp: tag_Inr)
    moreover obtain r' where "r = RClaim r'" using e CClaimSub by (auto simp: tag_Inr)
    ultimately have "claim_subscription locked su n' w' secs opts d = Inr (r', d')" by blast
    then show ?thesis
    proof (cases rule: claim_subscription_subs)
      case (2 x)
      with b have "find_sub k n d' = Some b"
        by (auto simp: find_sub_def find_Some_iff nth_append intro: less_SucI)
      then show ?thesis by simp
    next
      case (3 k' m wk ex)
      with b show ?thesis by (simp add: find_update_sub)
    qed (use b in \<open>simp add: find_sub_def\<close>)
  next
    case (CReleaseSub su n' w')
    with e obtain k' where "d' = update_sub k' (the n') (\<lambda>r. r\<lparr>b_claimed_by := None, b_expires := None\<rparr>) d"
      by (auto simp: tag_Inr release_subscription_def check_defs lookup_defs sum_iffs split: option.splits if_splits)
    with b show ?thesis by (simp add: find_update_sub)
  next
    case (CDeleteSub su n')
    with e obtain s where s: "find_stream (the su) d = Some s" and nn: "n' \<noteq> None"
      and d': "subs d' = filter (\<lambda>b. \<not> (b_stream b = s_id s \<and> b_name b = the n')) (subs d)"
      by (auto simp: tag_Inr delete_subscription_def check_defs lookup_defs sum_iffs null_or_empty_def
          split: option.splits)
    have "\<not> (s_id s = k \<and> the n' = n)" using s nn g CDeleteSub by auto
    with b show ?thesis by (simp add: find_sub_def d' find_filter_other del: de_Morgan_conj)
  next
    case (CRouteBatch su n' w' cur decs)
    with e obtain k' b0 where b0: "find_sub k' (the n') d = Some b0"
      and d': "subs d' = subs (update_sub k' (the n') (\<lambda>r. r\<lparr>b_last_seen := max (b_last_seen b0) (nat (the cur))\<rparr>) d)"
      by (auto simp: tag_Inr route_batch_def check_defs lookup_defs sum_iffs Let_def
          split: option.splits json.splits if_splits)
    have "find_sub k n d' = find_sub k n (update_sub k' (the n') (\<lambda>r. r\<lparr>b_last_seen := max (b_last_seen b0) (nat (the cur))\<rparr>) d)"
      by (simp add: find_sub_def d')
    with b b0 show ?thesis by (auto simp: find_update_sub)
  qed (use True in simp_all)
qed

lemma caught_up_kept:
  assumes e: "exec c d = Inr (r, d')" and wf: "wf_db d" and u: "caught_up k n t d" and g: "\<not> reopens k n t c d"
  shows "caught_up k n t d'"
proof -
  from u obtain b where b: "find_sub k n d = Some b" "t \<le> int (b_last_seen b)"
    and i: "\<not> (\<exists>i \<in> set (items d). item_of k n i \<and> i_event i \<le> t \<and> open_item i)"
    by (auto simp: caught_up_def)
  from cursor_kept [OF e wf b(1)] g obtain b' where "find_sub k n d' = Some b'" "b_last_seen b \<le> b_last_seen b'"
    by (auto simp: reopens_def)
  moreover have False if j: "j \<in> set (items d')" "item_of k n j" "i_event j \<le> t" "open_item j" for j
    using exec_items [OF e wf j(1,4)] i g j
    by (auto simp: was_open_def reopens_def full_key_def item_of_def)
  ultimately show ?thesis using b by (force simp: caught_up_def)
qed

inductive quiet_run :: "nat \<Rightarrow> string \<Rightarrow> int \<Rightarrow> db \<Rightarrow> db \<Rightarrow> bool"
  for k n t where
  still: "quiet_run k n t d d"
| still_call: "quiet_run k n t d d1 \<Longrightarrow> \<not> reopens k n t c d1 \<Longrightarrow> quiet_run k n t d (after c d1)"
| still_pass: "quiet_run k n t d d1 \<Longrightarrow> quiet_run k n t d (pass ms d1)"

lemma caught_up_run:
  "quiet_run k n t d d' \<Longrightarrow> wf_db d \<Longrightarrow> caught_up k n t d \<Longrightarrow> wf_db d' \<and> caught_up k n t d'"
proof (induction rule: quiet_run.induct)
  case (still_call d d1 c)
  then show ?case using caught_up_kept [of c d1] wf_after [of d1 c] by (auto simp: after_def split: sum.splits)
next
  case (still_pass d d1 ms)
  then show ?case using wf_pass [of d1 ms] by (simp add: pass_def caught_up_def find_sub_def)
qed simp

end
