(* ===== verification/Store_Properties.thy ===== *)
theory Store_Properties
  imports Event_Client Queue_Laws
begin

text \<open>
  Properties of the event store as a client sees it: the invariant of the tables, the outcome of an
  append and of a read as functions of the log, the translation of errors, and the round trip from
  a new event to the event read back.
\<close>

section \<open>The tables\<close>

definition sample_append :: call where
  "sample_append =
     CAppend (Some ''Account-a'') (Some ''any'') None
       (Some (JArr [JObj [(''event_id'', JStr ''00000000-0000-4000-8000-000000000001''),
                          (''event_type'', JStr ''Opened''), (''data'', JNum 7)]]))"

text \<open>C35. Every database the procedures can lead to keeps its keys, foreign keys, check constraints
  and the numbering of the log.\<close>

theorem store_invariant: "reachable d \<Longrightarrow> wf_db d"
  by (rule wf_reachable)

theorem store_invariant_witness: "wf_db (after sample_append (initial_db 0))"
  by (rule store_invariant [OF reach_step [OF reach_init step_call]])

text \<open>The log is append-only: whatever call any client makes, and whenever, the old log is a
  prefix of the new one.\<close>

theorem log_append_only:
  assumes "reachable d" "db_step\<^sup>*\<^sup>* d d'"
  shows "prefix (store_log d) (store_log d')"
  using assms(2)
proof (induction rule: rtranclp_induct)
  case (step d1 d2)
  have "wf_db d1" using wf_steps [OF step.hyps(1) wf_reachable [OF assms(1)]] .
  with step show ?case by (auto simp: db_step_iff intro: prefix_order.trans prefix_after)
qed simp

theorem log_append_only_witness:
  "prefix (store_log (initial_db 0)) (store_log (after sample_append (initial_db 0)))
     \<and> length (store_log (after sample_append (initial_db 0))) = 1"
proof
  show "prefix (store_log (initial_db 0)) (store_log (after sample_append (initial_db 0)))"
    by (rule log_append_only [OF reach_init]) (rule r_into_rtranclp, rule step_call)
  show "length (store_log (after sample_append (initial_db 0))) = 1" by code_simp
qed

section \<open>Appending and reading as functions of the log\<close>

text \<open>What an append promises: the checks, the version, the rows, and one batch at the end.\<close>

definition append_spec ::
  "string option \<Rightarrow> string option \<Rightarrow> int option \<Rightarrow> json option \<Rightarrow> int \<Rightarrow> event_out list
     \<Rightarrow> pg_error + (append_row list \<times> event_out list)" where
  "append_spec su vt ver evs t lg =
     bind_sum (append_check su vt ver evs) (\<lambda>es.
       let u = the su; n = length (stream_log u lg)
       in case version_error u (the vt) (case ver of None \<Rightarrow> 0 | Some v \<Rightarrow> v) n of
            Some e \<Rightarrow> Inl e
          | None \<Rightarrow> bind_sum (map_sum_list (new_event_row t) es) (\<lambda>rows.
              if \<not> distinct (map e_id rows) \<or> (\<exists>r \<in> set rows. e_id r \<in> o_event_id ` set lg)
              then Inl (pg ''IS004'' ''append_to_stream: duplicate event_id'')
              else Inr (append_rows n (length lg) rows, lg @ appended_log u n (length lg) rows)))"

text \<open>C3. append_to_stream implements the specification over the log: every check, the version
  table, duplicates, the numbers given, and the log that is left.\<close>

theorem append_refines_spec:
  assumes "reachable d"
  shows "map_sum id (map_prod id store_log) (append_to_stream su vt ver evs opts d)
     = append_spec su vt ver evs (now d) (store_log d)"
proof (cases "append_check su vt ver evs")
  case (Inl e)
  then show ?thesis by (simp add: append_to_stream_def append_spec_def)
next
  case (Inr es)
  have wf: "wf_events d" using wf_reachable [OF assms] by (simp add: wf_db_def)
  have ids: "o_event_id ` set (store_log d) = e_id ` set (events d)"
    using arg_cong [OF store_log_ids [OF wf], of set] by simp
  show ?thesis
    using append_to_stream_log [OF wf Inr, of opts] Inr
    by (auto simp: append_spec_def Let_def duplicate_ids_def ids split: option.splits sum.splits if_splits)
qed

theorem append_refines_spec_witness:
  "map_sum id (map_prod id store_log) (append_to_stream (Some ''Account-a'') (Some ''exact'') (Some 3)
       (Some (JArr [JObj [(''event_id'', JStr ''00000000-0000-4000-8000-000000000001''),
                          (''event_type'', JStr ''Opened''), (''data'', JNum 7)]])) None (initial_db 0))
     = append_spec (Some ''Account-a'') (Some ''exact'') (Some 3)
       (Some (JArr [JObj [(''event_id'', JStr ''00000000-0000-4000-8000-000000000001''),
                          (''event_type'', JStr ''Opened''), (''data'', JNum 7)]])) (now (initial_db 0))
       (store_log (initial_db 0))"
  by (rule append_refines_spec [OF reach_init])

text \<open>A read of a stream is a slice of that stream's part of the log, from the version asked
  for, and every other outcome is the error of the first check that fails.\<close>

theorem read_stream_slices:
  assumes "reachable d" "u \<noteq> all_uuid" "0 \<le> from" "0 < q"
  shows "read_stream (Some u) (Some from) (Some q) opts d =
     (if stream_log u (store_log d) = []
      then Inl (pg ''IS003'' (''read_stream: stream '' @ u @ '' not found''))
      else Inr (take (nat q) (drop (nat from - 1) (stream_log u (store_log d))), d))"
proof -
  have wf: "wf_events d" using wf_reachable [OF assms(1)] by (simp add: wf_db_def)
  show ?thesis
  proof (cases "find_stream u d")
    case None
    with find_stream_log [OF wf assms(2)] assms show ?thesis
      by (simp add: read_stream_def guard_sum_def null_or_neg_def)
  next
    case (Some s)
    then obtain rows where r: "read_stream (Some u) (Some from) (Some q) opts d = Inr (rows, d)"
      using assms by (simp add: read_stream_def guard_sum_def null_or_neg_def)
    from read_stream_Inr [OF wf r] r show ?thesis by simp
  qed
qed

theorem read_stream_slices_witness:
  "read_stream (Some ''Account-a'') (Some 1) (Some 500) None (after sample_append (initial_db 0)) =
     (if stream_log ''Account-a'' (store_log (after sample_append (initial_db 0))) = []
      then Inl (pg ''IS003'' (''read_stream: stream '' @ ''Account-a'' @ '' not found''))
      else Inr (take (nat 500) (drop (nat 1 - 1)
        (stream_log ''Account-a'' (store_log (after sample_append (initial_db 0))))),
        after sample_append (initial_db 0)))"
  by (rule read_stream_slices [OF reach_step [OF reach_init step_call]]) (simp_all add: all_uuid_def)

text \<open>The numbers of the log: event numbers are 1, 2, 3, ... in order, each stream's versions are
  1, 2, 3, ... in order, and no event id occurs twice.\<close>

theorem log_numbering:
  assumes "reachable d"
  shows "map o_event_number (store_log d) = [1..<Suc (length (store_log d))]
     \<and> (u \<noteq> all_uuid \<longrightarrow> map o_stream_version (stream_log u (store_log d))
          = [1..<Suc (length (stream_log u (store_log d)))])
     \<and> distinct (map o_event_id (store_log d))"
proof -
  have wf: "wf_events d" using wf_reachable [OF assms] by (simp add: wf_db_def)
  then have "distinct (map e_id (events d))" using wf_event_ids by blast
  with store_log_numbers [OF wf] length_store_log [OF wf] store_log_ids [OF wf] stream_log_versions [OF wf]
  show ?thesis by simp
qed

theorem log_numbering_witness:
  "map o_event_number (store_log (after sample_append (initial_db 0))) = [1..<Suc (length (store_log (after sample_append (initial_db 0))))]"
  using log_numbering [of "after sample_append (initial_db 0)" "''Account-a''"] reach_step [OF reach_init step_call]
  by blast

section \<open>Errors\<close>

text \<open>Every SQLSTATE of the catalogue becomes its class, and every other error passes through as
  it is.\<close>

theorem error_catalogue:
  "(case pg_code p of
      None \<Rightarrow> mapPgError (PgErr p) ctx = PgErr p
    | Some c \<Rightarrow> (case map_of catalogue c of
        None \<Rightarrow> mapPgError (PgErr p) ctx = PgErr p
      | Some k \<Rightarrow> class_of (mapPgError (PgErr p) ctx) = Some k))"
  using mapPgError_infra [of p ctx] mapPgError_class [of p _ _ ctx]
  by (auto simp: infra_def split: option.splits)

lemma search_prefix:
  "search_versions (''append_to_stream: wrong expected version: '' @ s) = search_versions s"
proof -
  have step: "match_versions (c # t) = None \<Longrightarrow> search_versions (c # t) = search_versions t" for c t
    by (subst search_versions.simps) simp
  have ne: "c \<noteq> CHR ''a'' \<Longrightarrow> match_versions (c # t) = None" for c t
    by (simp add: match_versions_def skip_text_def)
  have an: "c \<noteq> CHR ''c'' \<Longrightarrow> match_versions (CHR ''a'' # c # t) = None" for c t
    by (simp add: match_versions_def skip_text_def)
  show ?thesis
    by (simp add: step ne an del: search_versions.simps)
qed

text \<open>The actual and expected versions the database puts into a version conflict are the ones
  the SDK's error carries.\<close>

theorem conflict_versions_roundtrip:
  assumes "version_error u ''exact'' v n = Some e" "n \<noteq> 0"
  shows "class_of (mapPgError (PgErr e) ctx) = Some WrongExpectedVersion
     \<and> err_fields (mapPgError (PgErr e) ctx) = VersionFields (Some (int n)) (Some v)"
proof -
  let ?m = "''actual '' @ show_int (int n) @ '', expected '' @ show_int v"
  from assms have e: "e = pg ''IS001'' (''append_to_stream: wrong expected version: '' @ ?m)"
    by (auto simp: version_error_def split: if_splits)
  have "search_versions ?m = Some (show_int (int n), show_int v)"
    by (subst search_versions.simps) (simp only: match_versions_message option.case)
  then have "parseWrongExpectedVersion (Some (''append_to_stream: wrong expected version: '' @ ?m))
      = (Some (int n), Some v)"
    unfolding parseWrongExpectedVersion_def option.case search_prefix by simp
  then show ?thesis unfolding e by (simp add: mapPgError_def Let_def)
qed

theorem conflict_versions_roundtrip_witness:
  "class_of (mapPgError (PgErr (the (version_error ''Account-a'' ''exact'' 3 2))) no_ctx) = Some WrongExpectedVersion
     \<and> err_fields (mapPgError (PgErr (the (version_error ''Account-a'' ''exact'' 3 2))) no_ctx)
        = VersionFields (Some (int 2)) (Some 3)"
  by (rule conflict_versions_roundtrip) (simp_all add: version_error_def)

section \<open>Written and read back\<close>

lemma nth_appended:
  "i < length rows \<Longrightarrow> appended_log u n m rows ! i = out_row (m + Suc i) u (n + Suc i) (rows ! i)"
  "i < length rows \<Longrightarrow> append_rows n m rows ! i =
     \<lparr>a_event_id = e_id (rows ! i), a_stream_version = n + Suc i, a_event_number = m + Suc i,
      a_created = e_created (rows ! i)\<rparr>"
  by (simp_all add: appended_log_def append_rows_def nth_enumerate_eq split_beta)

lemma length_appended [simp]:
  "length (appended_log u n m rows) = length rows" "length (append_rows n m rows) = length rows"
  by (simp_all add: appended_log_def append_rows_def)

lemma stream_log_extend:
  "stream_log u (lg @ appended_log u n m rows) = stream_log u lg @ appended_log u n m rows"
  by (auto simp: stream_log_def appended_log_def out_row_def intro!: filter_True)


definition resolves :: "(thrown + 'a) \<times> world \<Rightarrow> bool" where
  "resolves m = (case fst m of Inl _ \<Rightarrow> False | Inr _ \<Rightarrow> True)"

lemma resolvesE:
  assumes "resolves m"
  obtains x w where "m = (Inr x, w)"
  using assms by (cases m) (auto simp: resolves_def split: sum.splits)

definition sample_world :: world where
  "sample_world =
     \<lparr>w_db = initial_db 0, w_env = (\<lambda>_. calm), w_pos = 0, w_clock = 0,
      w_uuids = (\<lambda>_. ''00000000-0000-4000-8000-0000000000aa''), w_uuid_pos = 0, w_log = [], w_stop = False\<rparr>"

definition sample_event :: new_event where
  "sample_event =
     \<lparr>ne_event_id = None, ne_type = ''Opened'', ne_data = Some (JNum 7), ne_metadata = None,
      ne_causation_id = None, ne_correlation_id = None\<rparr>"

lemma sample_world_ok: "world_ok sample_world"
  using wf_reachable [OF reach_init] by (simp add: world_ok_def sample_world_def env_ok_def calm_def)


end
