(* ===== verification/Queue_Properties.thy ===== *)
theory Queue_Properties
  imports Store_Properties
begin

text \<open>
  Properties of the subscription tables: leases exclude other workers, every write of a routing
  worker or a processing worker is fenced by its lease, a partition's items are handed out in order,
  routing a batch twice is routing it once, and being caught up lasts.
\<close>

section \<open>A database with a leased subscription\<close>

definition worker_a :: "string option" where
  "worker_a = Some ''worker-a''"

definition sample_claim :: call where
  "sample_claim = CClaimSub False (Some all_uuid) (Some ''balances'') worker_a (Some 30) (Some (JObj []))"

definition sample_route :: call where
  "sample_route = CRouteBatch (Some all_uuid) (Some ''balances'') worker_a (Some 1)
     (Some (JArr [JObj [(''partition_key'', JStr ''a''), (''event_number'', JNum 1)]]))"

definition leased_db :: db where
  "leased_db = after sample_claim (after sample_append (initial_db 0))"

definition routed_db :: db where
  "routed_db = after sample_route leased_db"

lemma leased_reachable: "reachable leased_db" "reachable routed_db"
  unfolding leased_db_def routed_db_def by (intro reach_step [OF _ step_call] reach_init)+

section \<open>Leases\<close>

text \<open>C4. While a worker's lease on a subscription is live and it does not give it up, every claim by
  another worker is refused and changes nothing, whatever the other clients have called since.\<close>

theorem lease_excludes:
  assumes "reachable d" "lease_of (s_id s) n d = Some (w, ex)" "now d < ex"
    and "leased_run (s_id s) n w ex d d'" "find_stream u d' = Some s" "w' \<noteq> w"
    and "claim_subscription locked (Some u) (Some n) (Some w') secs opts d' = Inr (rows, d2)"
  shows "d2 = d' \<and> (\<exists>b. rows = [refused b] \<and> q_claimed_by (refused b) = Some w)"
  using leased_run_keeps [OF assms(4) wf_reachable [OF assms(1)] assms(2,3)]
    claim_refused [OF assms(7,5) _ _ assms(6)] by blast

theorem lease_excludes_witness:
  "\<exists>s rows d2. find_stream all_uuid leased_db = Some s
     \<and> claim_subscription False (Some all_uuid) (Some ''balances'') (Some ''worker-b'') (Some 30) None leased_db = Inr (rows, d2)
     \<and> d2 = leased_db \<and> (\<exists>b. rows = [refused b] \<and> q_claimed_by (refused b) = Some ''worker-a'')"
proof -
  have "(case find_stream all_uuid leased_db of None \<Rightarrow> False
     | Some s \<Rightarrow> lease_of (s_id s) ''balances'' leased_db = Some (''worker-a'', 30000)) \<and> now leased_db = 0"
    by code_simp
  then obtain s where s: "find_stream all_uuid leased_db = Some s"
    "lease_of (s_id s) ''balances'' leased_db = Some (''worker-a'', 30000)" "now leased_db = 0"
    by (auto split: option.splits)
  have "(case claim_subscription False (Some all_uuid) (Some ''balances'') (Some ''worker-b'') (Some 30) None leased_db of
      Inl _ \<Rightarrow> False | Inr _ \<Rightarrow> True)" by code_simp
  then obtain rows d2 where c: "claim_subscription False (Some all_uuid) (Some ''balances'') (Some ''worker-b'')
      (Some 30) None leased_db = Inr (rows, d2)" by (auto split: sum.splits)
  from lease_excludes [OF leased_reachable(1) s(2) _ run_refl s(1) _ c] s c show ?thesis by auto
qed

text \<open>C28. Fencing: releasing, routing, extending, completing and failing succeed only for the worker
  that holds the lease when the call takes effect.\<close>

theorem writes_are_fenced:
  assumes "exec c d = Inr (r, d')"
  shows "needs_lease c d"
  using assms by (rule fenced)

theorem writes_are_fenced_witness:
  "\<exists>r d'. exec sample_route leased_db = Inr (r, d')
     \<and> holds_sub all_uuid ''balances'' ''worker-a'' leased_db"
proof -
  have "(case exec sample_route leased_db of Inl _ \<Rightarrow> False | Inr _ \<Rightarrow> True)" by code_simp
  then obtain r d' where e: "exec sample_route leased_db = Inr (r, d')" by (auto split: sum.splits)
  from writes_are_fenced [OF e] e show ?thesis by (auto simp: sample_route_def worker_a_def)
qed

section \<open>Work items\<close>

text \<open>The work item a claim hands out may be taken, and every earlier item of its partition is
  done with: a partition is processed in the order of the log.\<close>

theorem partition_order:
  assumes "claim_work_item locked (Some u) (Some n) w secs opts d = Inr (row # rows, d')"
  shows "rows = [] \<and> (\<exists>s i. find_stream u d = Some s \<and> i \<in> set (items d) \<and> item_of (s_id s) n i
     \<and> i_partition i = w_partition row \<and> i_event i = w_event row \<and> takeable (now d) i
     \<and> (\<forall>j \<in> set (items d). item_of (s_id s) n j \<longrightarrow> i_partition j = w_partition row
          \<longrightarrow> i_event j < w_event row \<longrightarrow> i_state j = Done))"
proof -
  have "rows = []"
    by (rule claim_work_item_Inr [OF assms]) (auto split: list.splits)
  with claimed_in_order [OF assms] show ?thesis by simp
qed

theorem partition_order_witness:
  "\<exists>row rows d'. claim_work_item (\<lambda>_. False) (Some all_uuid) (Some ''balances'') worker_a (Some 30) None routed_db
       = Inr (row # rows, d')
     \<and> rows = [] \<and> (\<exists>i \<in> set (items routed_db). i_event i = w_event row)"
proof -
  have "(case claim_work_item (\<lambda>_. False) (Some all_uuid) (Some ''balances'') worker_a (Some 30) None routed_db of
      Inl _ \<Rightarrow> False | Inr (rows, _) \<Rightarrow> rows \<noteq> [])" by code_simp
  then obtain row rows d' where c: "claim_work_item (\<lambda>_. False) (Some all_uuid) (Some ''balances'') worker_a
      (Some 30) None routed_db = Inr (row # rows, d')"
    by (auto split: sum.splits simp: neq_Nil_conv)
  from partition_order [OF c] c show ?thesis by blast
qed

text \<open>Routing is idempotent: a batch that was committed (its reply lost, say) and is sent again
  inserts nothing and leaves the database as it is.\<close>

theorem routing_idempotent:
  assumes "route_batch (Some u) (Some n) (Some w) (Some c) (Some (JArr vs)) opts d = Inr (rows, d')"
  shows "\<exists>ls. route_batch (Some u) (Some n) (Some w) (Some c) (Some (JArr vs)) opts d'
     = Inr ([\<lparr>rr_inserted = 0, rr_last_seen = ls\<rparr>], d')"
  using assms by (rule route_batch_again)

theorem routing_idempotent_witness:
  "\<exists>rows d' ls. route_batch (Some all_uuid) (Some ''balances'') (Some ''worker-a'') (Some 1)
       (Some (JArr [JObj [(''partition_key'', JStr ''a''), (''event_number'', JNum 1)]])) None leased_db = Inr (rows, d')
     \<and> map rr_inserted rows = [1]
     \<and> route_batch (Some all_uuid) (Some ''balances'') (Some ''worker-a'') (Some 1)
       (Some (JArr [JObj [(''partition_key'', JStr ''a''), (''event_number'', JNum 1)]])) None d'
       = Inr ([\<lparr>rr_inserted = 0, rr_last_seen = ls\<rparr>], d')"
proof -
  have "(case route_batch (Some all_uuid) (Some ''balances'') (Some ''worker-a'') (Some 1)
       (Some (JArr [JObj [(''partition_key'', JStr ''a''), (''event_number'', JNum 1)]])) None leased_db of
      Inl _ \<Rightarrow> False | Inr (rows, _) \<Rightarrow> map rr_inserted rows = [1])" by code_simp
  then obtain rows d' where c: "route_batch (Some all_uuid) (Some ''balances'') (Some ''worker-a'') (Some 1)
       (Some (JArr [JObj [(''partition_key'', JStr ''a''), (''event_number'', JNum 1)]])) None leased_db = Inr (rows, d')"
    and i: "map rr_inserted rows = [1]"
    by (auto split: sum.splits)
  from routing_idempotent [OF c] obtain ls where l: "route_batch (Some all_uuid) (Some ''balances'')
       (Some ''worker-a'') (Some 1)
       (Some (JArr [JObj [(''partition_key'', JStr ''a''), (''event_number'', JNum 1)]])) None d'
       = Inr ([\<lparr>rr_inserted = 0, rr_last_seen = ls\<rparr>], d')" by (elim exE)
  show ?thesis by (intro exI conjI) (rule c i l)+
qed

section \<open>Caught up\<close>

text \<open>C36. What is_subscription_caught_up answers, and that the answer lasts: once a subscription is
  caught up with an event number it stays so, unless someone routes at or behind that number again
  or deletes the subscription.\<close>

theorem caught_up_lasts:
  assumes "reachable d" "find_stream u d = Some s" "n \<noteq> []" "0 \<le> t"
    and "is_subscription_caught_up (Some u) (Some n) (Some t) opts d = Inr ([True], d)"
    and "quiet_run (s_id s) n t d d'" "find_stream u d' = Some s'" "s_id s' = s_id s"
  shows "is_subscription_caught_up (Some u) (Some n) (Some t) opts d' = Inr ([True], d')"
proof -
  have "find_sub (s_id s) n d \<noteq> None"
    using assms by (auto simp: is_subscription_caught_up_def check_defs with_stream_def sum_iffs split: option.splits)
  with is_caught_up_reply [OF assms(2) this assms(3,4)] assms(5) have "caught_up (s_id s) n t d" by simp
  from caught_up_run [OF assms(6) wf_reachable [OF assms(1)] this] have c: "caught_up (s_id s') n t d'"
    by (simp add: assms(8))
  then have "find_sub (s_id s') n d' \<noteq> None" by (auto simp: caught_up_def)
  from is_caught_up_reply [OF assms(7) this assms(3,4)] c show ?thesis by simp
qed

theorem caught_up_lasts_witness:
  "is_subscription_caught_up (Some all_uuid) (Some ''balances'') (Some 0) None
     (after sample_append leased_db) = Inr ([True], after sample_append leased_db)"
proof -
  have "(case (find_stream all_uuid leased_db, find_stream all_uuid (after sample_append leased_db)) of
      (Some s, Some s') \<Rightarrow> s_id s' = s_id s | _ \<Rightarrow> False)" by code_simp
  then obtain s s' where s: "find_stream all_uuid leased_db = Some s"
    "find_stream all_uuid (after sample_append leased_db) = Some s'" "s_id s' = s_id s"
    by (auto split: option.splits)
  have "is_subscription_caught_up (Some all_uuid) (Some ''balances'') (Some 0) None leased_db = Inr ([True], leased_db)"
    by code_simp
  moreover have "quiet_run (s_id s) ''balances'' 0 leased_db (after sample_append leased_db)"
    by (rule still_call [OF still]) (simp add: reopens_def routed_def sample_append_def)
  ultimately show ?thesis
    using caught_up_lasts [OF leased_reachable(1) s(1)] s by simp
qed

end
