(* ===== verification/Logger.thy ===== *)
theory Logger
  imports World
begin

text \<open>
  logger/logger.ts: the application's sink (every level optional) and the logger the SDK hands out,
  whose messages may be thunks. A thunk is a function of the world, so that building a message is
  observable; a sink is what writing a line does to the world.
\<close>

type_synonym sink = "string \<Rightarrow> world \<Rightarrow> world"

datatype log_message = Text string | Thunk "world \<Rightarrow> string \<times> world"

record logger_impl =
  li_info :: "sink option"
  li_warn :: "sink option"
  li_error :: "sink option"
  li_trace :: "sink option"

record logger =
  info :: "log_message \<Rightarrow> world \<Rightarrow> world"
  warn :: "log_message \<Rightarrow> world \<Rightarrow> world"
  error :: "log_message \<Rightarrow> world \<Rightarrow> world"
  trace :: "log_message \<Rightarrow> world \<Rightarrow> world"
  impl :: "logger_impl option"
  log_prefix :: "string option"

definition NOOP :: "log_message \<Rightarrow> world \<Rightarrow> world" where
  "NOOP m w = w"

fun level_of :: "logger_impl \<Rightarrow> log_level \<Rightarrow> sink option" where
  "level_of i Info = li_info i"
| "level_of i Warn = li_warn i"
| "level_of i ErrorL = li_error i"
| "level_of i Trace = li_trace i"

fun message_text :: "log_message \<Rightarrow> world \<Rightarrow> string \<times> world" where
  "message_text (Text s) w = (s, w)"
| "message_text (Thunk f) w = f w"

definition bind_level :: "logger_impl option \<Rightarrow> log_level \<Rightarrow> string option \<Rightarrow> log_message \<Rightarrow> world \<Rightarrow> world" where
  "bind_level imp level pre =
     (case imp of
        None \<Rightarrow> NOOP
      | Some i \<Rightarrow>
          (case level_of i level of
             None \<Rightarrow> NOOP
           | Some fn \<Rightarrow>
               (case pre of
                  None \<Rightarrow> (\<lambda>m w. let (s, w1) = message_text m w in fn s w1)
                | Some p \<Rightarrow> (\<lambda>m w. let (s, w1) = message_text m w in fn (p @ '' '' @ s) w1))))"

definition new_Logger :: "logger_impl option \<Rightarrow> string option \<Rightarrow> logger" where
  "new_Logger imp pre =
     \<lparr>info = bind_level imp Info pre, warn = bind_level imp Warn pre, error = bind_level imp ErrorL pre,
      trace = bind_level imp Trace pre, impl = imp, log_prefix = pre\<rparr>"

definition fromImpl :: "logger_impl option \<Rightarrow> string option \<Rightarrow> logger" where
  "fromImpl imp pre = new_Logger imp pre"

definition noop :: logger where
  "noop = new_Logger None None"

text \<open>An empty prefix is falsy: it is replaced, not extended.\<close>

definition child :: "logger \<Rightarrow> string \<Rightarrow> logger" where
  "child lg extra =
     (let next = (case log_prefix lg of
                    Some p \<Rightarrow> if p \<noteq> [] then p @ '' '' @ extra else extra
                  | None \<Rightarrow> extra)
      in new_Logger (impl lg) (Some next))"

definition console :: "log_level \<Rightarrow> sink" where
  "console level s w = w\<lparr>w_log := w_log w @ [(level, s)]\<rparr>"

definition DEFAULT_LOGGER_IMPL :: logger_impl where
  "DEFAULT_LOGGER_IMPL =
     \<lparr>li_info = Some (console Info), li_warn = Some (console Warn), li_error = Some (console ErrorL),
      li_trace = None\<rparr>"

definition NOOP_LOGGER_IMPL :: logger_impl where
  "NOOP_LOGGER_IMPL = \<lparr>li_info = None, li_warn = None, li_error = None, li_trace = None\<rparr>"

definition default_logger :: logger where
  "default_logger = fromImpl (Some DEFAULT_LOGGER_IMPL) None"

text \<open>The method of a level.\<close>

fun log_at :: "logger \<Rightarrow> log_level \<Rightarrow> log_message \<Rightarrow> world \<Rightarrow> world" where
  "log_at lg Info = info lg"
| "log_at lg Warn = warn lg"
| "log_at lg ErrorL = error lg"
| "log_at lg Trace = trace lg"

text \<open>Where a level is wired, and what it writes there.\<close>

definition wired :: "logger \<Rightarrow> log_level \<Rightarrow> sink option" where
  "wired lg level = (case impl lg of None \<Rightarrow> None | Some i \<Rightarrow> level_of i level)"

text \<open>A logger built by the constructor (the class's invariant: its constructor is private).\<close>

definition built :: "logger \<Rightarrow> bool" where
  "built lg \<longleftrightarrow> lg = new_Logger (impl lg) (log_prefix lg)"

lemma built_new [simp]: "built (new_Logger imp pre)"
  by (simp add: built_def new_Logger_def)

lemma built_ops [simp]: "built (fromImpl imp pre)" "built noop" "built (child lg x)" "built default_logger"
  by (simp_all add: fromImpl_def noop_def child_def default_logger_def Let_def)

lemma log_at_built:
  assumes "built lg"
  shows "log_at lg level m w =
     (case wired lg level of
        None \<Rightarrow> w
      | Some fn \<Rightarrow> (case message_text m w of (s, w1) \<Rightarrow>
          fn (case log_prefix lg of None \<Rightarrow> s | Some p \<Rightarrow> p @ '' '' @ s) w1))"
proof -
  have "log_at (new_Logger imp pre) level m w = bind_level imp level pre m w" for imp pre
    by (cases level) (simp_all add: new_Logger_def)
  then have "log_at lg level m w = bind_level (impl lg) level (log_prefix lg) m w"
    using assms unfolding built_def by metis
  then show ?thesis
    by (auto simp: bind_level_def wired_def NOOP_def split: option.splits prod.splits)
qed

lemma wired_child [simp]: "wired (child lg x) level = wired lg level"
  by (simp add: wired_def child_def new_Logger_def Let_def)

end
