(* ===== verification/Aggregate.thy ===== *)
theory Aggregate
  imports Event_Client Logger
begin

text \<open>
  The aggregate runner: aggregate/run-command.ts (load, execute, append, retry), snapshot-policy.ts,
  snapshot-version.ts and snapshots.ts (best-effort snapshots). User code (\<open>execute\<close>, \<open>apply\<close>, the
  snapshot policy) is pure and may throw. Aggregate state is a JSON value, because it goes through a
  snapshot. Paging through a stream does not end if others keep filling pages, so loading is a
  partial function: \<open>None\<close> is not returning.
\<close>

section \<open>Definitions of the application\<close>

record domain_event =
  de_type :: string
  de_data :: "json option"
  de_metadata :: "json option"

type_synonym snapshot_policy = "json \<Rightarrow> int \<Rightarrow> nat \<Rightarrow> thrown + bool"

datatype exec_result = ExecVoid | ExecOne new_event | ExecMany "new_event list"

record 'c aggregate_def =
  ag_type :: string
  ag_streamName :: "(string \<Rightarrow> string) option"
  ag_initialState :: json
  ag_execute :: "json \<Rightarrow> 'c \<Rightarrow> thrown + exec_result"
  ag_apply :: "json \<Rightarrow> domain_event \<Rightarrow> thrown + json"
  ag_snapshotPolicy :: "snapshot_policy option"
  ag_snapshotModuleVersion :: "string option"

definition prefixType :: "string \<Rightarrow> string \<Rightarrow> string" where
  "prefixType ty i = ty @ ''-'' @ i"

definition stream_name :: "'c aggregate_def \<Rightarrow> string \<Rightarrow> string" where
  "stream_name def i = (case ag_streamName def of Some f \<Rightarrow> f i | None \<Rightarrow> prefixType (ag_type def) i)"

record run_options =
  ro_retryBudget :: "js_num option"
  ro_expectedVersion :: "expected_version option"
  ro_commandId :: "string option"
  ro_causationId :: "string option"
  ro_correlationId :: "string option"
  ro_ctx :: "logger option"

definition no_options :: run_options where
  "no_options = \<lparr>ro_retryBudget = None, ro_expectedVersion = None, ro_commandId = None,
     ro_causationId = None, ro_correlationId = None, ro_ctx = None\<rparr>"

definition LOAD_PAGE_SIZE :: nat where
  "LOAD_PAGE_SIZE = 500"

definition DEFAULT_RETRY_BUDGET :: js_num where
  "DEFAULT_RETRY_BUDGET = Fin 5"

definition SNAPSHOT_MODULE_VERSION_KEY :: string where
  "SNAPSHOT_MODULE_VERSION_KEY = ''$instructed.snapshot_module_version''"

definition everyN :: "js_num \<Rightarrow> thrown + snapshot_policy" where
  "everyN n =
     (if \<not> isFinite n \<or> num_le n 0 then
        Inl (range_error (''everyN: n must be a positive integer, got '' @ show_jsnum n))
      else Inr (\<lambda>s v k. Inr (num_value n \<le> of_nat k)))"

section \<open>Loading\<close>

definition recordedToDomain :: "recorded_event \<Rightarrow> domain_event" where
  "recordedToDomain r = \<lparr>de_type = re_type r, de_data = Some (re_data r), de_metadata = Some (re_metadata r)\<rparr>"

definition newToDomain :: "new_event \<Rightarrow> domain_event" where
  "newToDomain e = \<lparr>de_type = ne_type e, de_data = ne_data e, de_metadata = ne_metadata e\<rparr>"

definition normaliseEvents :: "exec_result \<Rightarrow> new_event list" where
  "normaliseEvents v = (case v of ExecVoid \<Rightarrow> [] | ExecOne e \<Rightarrow> [e] | ExecMany es \<Rightarrow> es)"

fun apply_all :: "(json \<Rightarrow> domain_event \<Rightarrow> thrown + json) \<Rightarrow> json \<Rightarrow> domain_event list \<Rightarrow> thrown + json" where
  "apply_all f s [] = Inr s"
| "apply_all f s (e # es) = bind_sum (f s e) (\<lambda>s1. apply_all f s1 es)"

record loaded =
  ld_state :: json
  ld_version :: int
  ld_since :: nat

text \<open>The tag in a snapshot's metadata: a string under the reserved key, of an object.\<close>

definition snapshot_tag :: "json \<Rightarrow> string option" where
  "snapshot_tag md = json_str (json_get SNAPSHOT_MODULE_VERSION_KEY md)"

text \<open>\<open>want === undefined ? tag === undefined : tag === want\<close>\<close>

definition tag_matches :: "string option \<Rightarrow> string option \<Rightarrow> bool" where
  "tag_matches want tg = (tg = want)"

text \<open>Folding one page: state, version and counter move together.\<close>

fun fold_page :: "'c aggregate_def \<Rightarrow> loaded \<Rightarrow> recorded_event list \<Rightarrow> thrown + loaded" where
  "fold_page def l [] = Inr l"
| "fold_page def l (r # rs) =
     bind_sum (ag_apply def (ld_state l) (recordedToDomain r)) (\<lambda>s.
       fold_page def \<lparr>ld_state = s, ld_version = re_stream_version r, ld_since = Suc (ld_since l)\<rparr> rs)"

partial_function (option) load_pages ::
  "client \<Rightarrow> 'c aggregate_def \<Rightarrow> string \<Rightarrow> loaded \<Rightarrow> world \<Rightarrow> ((thrown + loaded) \<times> world) option" where
  "load_pages cl def u l w =
     (case cl_readStream cl u (ld_version l + 1) (of_nat LOAD_PAGE_SIZE) w of
        (Inl e, w1) \<Rightarrow>
          (if instance_of e StreamNotFound \<and> ld_version l = 0 then Some (Inr l, w1) else Some (Inl e, w1))
      | (Inr page, w1) \<Rightarrow>
          (if page = [] then Some (Inr l, w1)
           else case fold_page def l page of
             Inl e \<Rightarrow> Some (Inl e, w1)
           | Inr l1 \<Rightarrow>
               (if length page < LOAD_PAGE_SIZE then Some (Inr l1, w1)
                else load_pages cl def u l1 w1)))"

declare load_pages.simps [code]

definition loadAggregate ::
  "client \<Rightarrow> 'c aggregate_def \<Rightarrow> string \<Rightarrow> world \<Rightarrow> ((thrown + loaded) \<times> world) option" where
  "loadAggregate cl def u w =
     (let l0 = \<lparr>ld_state = ag_initialState def, ld_version = 0, ld_since = 0\<rparr>
      in case cl_readSnapshot cl u w of
           (Inl e, w1) \<Rightarrow>
             (if instance_of e SnapshotNotFound then load_pages cl def u l0 w1 else Some (Inl e, w1))
         | (Inr s, w1) \<Rightarrow>
             (if tag_matches (ag_snapshotModuleVersion def) (snapshot_tag (sn_metadata s))
              then load_pages cl def u (l0\<lparr>ld_state := sn_data s, ld_version := sn_source_version s\<rparr>) w1
              else load_pages cl def u l0 w1))"

section \<open>executeCommand\<close>

record executed =
  ex_appended :: "appended_event list"
  ex_loaded :: loaded
  ex_filled :: "new_event list"
  ex_noOp :: bool

text \<open>Causation and correlation defaults; what the caller set stays.\<close>

definition fill_ids :: "string \<Rightarrow> string option \<Rightarrow> new_event \<Rightarrow> new_event" where
  "fill_ids ca co e =
     e\<lparr>ne_causation_id := (case ne_causation_id e of Some c \<Rightarrow> Some c | None \<Rightarrow> Some ca),
       ne_correlation_id := (case ne_correlation_id e of Some c \<Rightarrow> Some c | None \<Rightarrow> co)\<rparr>"

text \<open>The body of the loop's \<open>try\<close>.\<close>

definition attempt_once ::
  "client \<Rightarrow> 'c aggregate_def \<Rightarrow> string \<Rightarrow> 'c \<Rightarrow> expected_version option \<Rightarrow> string \<Rightarrow> string option
     \<Rightarrow> world \<Rightarrow> ((thrown + executed) \<times> world) option" where
  "attempt_once cl def u c explicit ca co w =
     (case loadAggregate cl def u w of
        None \<Rightarrow> None
      | Some (Inl e, w1) \<Rightarrow> Some (Inl e, w1)
      | Some (Inr l, w1) \<Rightarrow>
          (case ag_execute def (ld_state l) c of
             Inl e \<Rightarrow> Some (Inl e, w1)
           | Inr res \<Rightarrow>
               (let evs = normaliseEvents res
                in if evs = [] then
                     Some (Inr \<lparr>ex_appended = [], ex_loaded = l, ex_filled = [], ex_noOp = True\<rparr>, w1)
                   else
                     (let filled = map (fill_ids ca co) evs;
                          ex = (case explicit of Some v \<Rightarrow> v | None \<Rightarrow> Exact (ld_version l))
                      in case cl_appendToStream cl u ex filled w1 of
                           (Inl e, w2) \<Rightarrow> Some (Inl e, w2)
                         | (Inr rows, w2) \<Rightarrow>
                             Some (Inr \<lparr>ex_appended = rows, ex_loaded = l, ex_filled = filled, ex_noOp = False\<rparr>, w2)))))"

definition exhausted :: "nat \<Rightarrow> thrown option \<Rightarrow> thrown" where
  "exhausted n err =
     Err RetryBudgetExhausted
       (''runCommand: retry budget exhausted after '' @ show_nat n @ '' attempt(s)'')
       None None None (RetryFields n err) err"

text \<open>
  \<open>while (attempt <= retryBudget)\<close> with \<open>budget = retryBudget\<close>: \<open>left\<close> attempts remain, \<open>attempt\<close>
  were made; \<open>left + attempt = budget + 1\<close>.
\<close>

fun attempt_loop ::
  "client \<Rightarrow> 'c aggregate_def \<Rightarrow> string \<Rightarrow> 'c \<Rightarrow> expected_version option \<Rightarrow> string \<Rightarrow> string option
     \<Rightarrow> nat \<Rightarrow> nat \<Rightarrow> thrown option \<Rightarrow> world \<Rightarrow> ((thrown + executed) \<times> world) option" where
  "attempt_loop cl def u c explicit ca co 0 attempt err w = Some (Inl (exhausted attempt err), w)"
| "attempt_loop cl def u c explicit ca co (Suc left) attempt err w =
     (case attempt_once cl def u c explicit ca co w of
        None \<Rightarrow> None
      | Some (Inr r, w1) \<Rightarrow> Some (Inr r, w1)
      | Some (Inl e, w1) \<Rightarrow>
          (if instance_of e WrongExpectedVersion \<and> explicit = None
           then attempt_loop cl def u c explicit ca co left (Suc attempt) (Some e) w1
           else Some (Inl e, w1)))"

definition retry_budget :: "run_options \<Rightarrow> thrown + nat" where
  "retry_budget opts =
     (let b = (case ro_retryBudget opts of Some b \<Rightarrow> b | None \<Rightarrow> DEFAULT_RETRY_BUDGET)
      in if \<not> isInteger b \<or> num_less b 0 then
           Inl (range_error (''runCommand: retryBudget must be a non-negative integer, got '' @ show_jsnum b))
         else Inr (nat \<lfloor>num_value b\<rfloor>))"

definition executeCommand ::
  "client \<Rightarrow> 'c aggregate_def \<Rightarrow> string \<Rightarrow> 'c \<Rightarrow> run_options \<Rightarrow> world \<Rightarrow> ((thrown + executed) \<times> world) option" where
  "executeCommand cl def u c opts w =
     (case retry_budget opts of
        Inl e \<Rightarrow> Some (Inl e, w)
      | Inr budget \<Rightarrow>
          (let (commandId, w1) = (case ro_commandId opts of Some i \<Rightarrow> (i, w) | None \<Rightarrow> randomUUID w);
               ca = (case ro_causationId opts of Some i \<Rightarrow> i | None \<Rightarrow> commandId)
           in attempt_loop cl def u c (ro_expectedVersion opts) ca (ro_correlationId opts)
                (Suc budget) 0 None w1))"

definition runCommand ::
  "client \<Rightarrow> 'c aggregate_def \<Rightarrow> string \<Rightarrow> 'c \<Rightarrow> run_options \<Rightarrow> world
     \<Rightarrow> ((thrown + appended_event list) \<times> world) option" where
  "runCommand cl def u c opts w =
     (case executeCommand cl def u c opts w of
        None \<Rightarrow> None
      | Some (Inl e, w1) \<Rightarrow> Some (Inl e, w1)
      | Some (Inr r, w1) \<Rightarrow> Some (Inr (ex_appended r), w1))"

record ran_command =
  rc_appended :: "appended_event list"
  rc_state :: json
  rc_version :: int
  rc_since :: nat

definition runCommandAndApply ::
  "client \<Rightarrow> 'c aggregate_def \<Rightarrow> string \<Rightarrow> 'c \<Rightarrow> run_options \<Rightarrow> world
     \<Rightarrow> ((thrown + ran_command) \<times> world) option" where
  "runCommandAndApply cl def u c opts w =
     (case executeCommand cl def u c opts w of
        None \<Rightarrow> None
      | Some (Inl e, w1) \<Rightarrow> Some (Inl e, w1)
      | Some (Inr r, w1) \<Rightarrow>
          (if ex_noOp r then
             Some (Inr \<lparr>rc_appended = ex_appended r, rc_state = ld_state (ex_loaded r),
                        rc_version = ld_version (ex_loaded r), rc_since = ld_since (ex_loaded r)\<rparr>, w1)
           else
             (case apply_all (ag_apply def) (ld_state (ex_loaded r)) (map newToDomain (ex_filled r)) of
                Inl e \<Rightarrow> Some (Inl e, w1)
              | Inr s \<Rightarrow>
                  (case ex_appended r of
                     [] \<Rightarrow> Some (no_row ''stream_version'', w1)
                   | rows \<Rightarrow>
                       Some (Inr \<lparr>rc_appended = rows, rc_state = s,
                                  rc_version = ae_stream_version (last rows),
                                  rc_since = ld_since (ex_loaded r) + length rows\<rparr>, w1)))))"

section \<open>runCommandWithSnapshots\<close>

text \<open>\<open>err instanceof Error ? err.message : String(err)\<close>\<close>

definition describeError :: "thrown \<Rightarrow> string" where
  "describeError e =
     (if instance_of e C_Error then (case message_of e of Some m \<Rightarrow> m | None \<Rightarrow> [])
      else (case e of NotError j \<Rightarrow> js_string j | _ \<Rightarrow> []))"

definition snapshot_metadata :: "'c aggregate_def \<Rightarrow> json option" where
  "snapshot_metadata def =
     (case ag_snapshotModuleVersion def of
        None \<Rightarrow> None
      | Some v \<Rightarrow> Some (JObj [(SNAPSHOT_MODULE_VERSION_KEY, JStr v)]))"

definition runCommandWithSnapshots ::
  "client \<Rightarrow> 'c aggregate_def \<Rightarrow> string \<Rightarrow> 'c \<Rightarrow> run_options \<Rightarrow> world
     \<Rightarrow> ((thrown + appended_event list) \<times> world) option" where
  "runCommandWithSnapshots cl def u c opts w =
     (case runCommandAndApply cl def u c opts w of
        None \<Rightarrow> None
      | Some (Inl e, w1) \<Rightarrow> Some (Inl e, w1)
      | Some (Inr r, w1) \<Rightarrow>
          (if rc_appended r = [] then Some (Inr (rc_appended r), w1)
           else case ag_snapshotPolicy def of
             None \<Rightarrow> Some (Inr (rc_appended r), w1)
           | Some pol \<Rightarrow>
               (case pol (rc_state r) (rc_version r) (rc_since r) of
                  Inl e \<Rightarrow> Some (Inl e, w1)
                | Inr False \<Rightarrow> Some (Inr (rc_appended r), w1)
                | Inr True \<Rightarrow>
                    (case cl_recordSnapshot cl
                            \<lparr>si_source_uuid = u, si_source_type = ag_type def, si_source_version = rc_version r,
                             si_data = rc_state r, si_metadata = snapshot_metadata def\<rparr> w1 of
                       (Inr _, w2) \<Rightarrow> Some (Inr (rc_appended r), w2)
                     | (Inl e, w2) \<Rightarrow>
                         (let lg = (case ro_ctx opts of Some l \<Rightarrow> l | None \<Rightarrow> default_logger)
                          in Some (Inr (rc_appended r),
                               warn lg (Thunk (\<lambda>w. (''snapshot write failed for '' @ u @ '': '' @ describeError e, w))) w2))))))"

end
