(* ===== verification/Aggregate_Laws.thy ===== *)
theory Aggregate_Laws
  imports Aggregate
begin

text \<open>
  What the aggregate runner promises, over any client that keeps \<open>event_client\<close>: a load is the
  replay of the whole stream at the instant it ends, a command that commits was decided on the
  replay of exactly the log it was appended to, and a recorded snapshot is again such a replay.
\<close>

section \<open>Replay\<close>

definition replay_from ::
  "'c aggregate_def \<Rightarrow> json \<Rightarrow> event_out list \<Rightarrow> thrown + json" where
  "replay_from def s lg = apply_all (ag_apply def) s (map (\<lambda>r. recordedToDomain (recorded r)) lg)"

definition replay :: "'c aggregate_def \<Rightarrow> string \<Rightarrow> event_out list \<Rightarrow> thrown + json" where
  "replay def u lg = replay_from def (ag_initialState def) (stream_log u lg)"

text \<open>
  A snapshot of this module version is the replay of the events up to its version; \<open>snap_safe\<close>
  asks that it stays so under the other clients, \<open>honest\<close> that the other clients keep it so.
\<close>

definition snap_valid :: "'c aggregate_def \<Rightarrow> string \<Rightarrow> db \<Rightarrow> bool" where
  "snap_valid def u d =
     (case map_option snapshot_of (find_snapshot u d) of
        None \<Rightarrow> True
      | Some s \<Rightarrow> tag_matches (ag_snapshotModuleVersion def) (snapshot_tag (sn_metadata s)) \<longrightarrow>
          0 \<le> sn_source_version s \<and> nat (sn_source_version s) \<le> length (stream_log u (store_log d))
          \<and> replay_from def (ag_initialState def)
               (take (nat (sn_source_version s)) (stream_log u (store_log d))) = Inr (sn_data s))"

definition snap_safe :: "'c aggregate_def \<Rightarrow> string \<Rightarrow> world \<Rightarrow> bool" where
  "snap_safe def u w \<longleftrightarrow> (\<forall>w1. quiet w w1 \<longrightarrow> snap_valid def u (w_db w1))"

definition honest :: "'c aggregate_def \<Rightarrow> string \<Rightarrow> (nat \<Rightarrow> env_step) \<Rightarrow> bool" where
  "honest def u env \<longleftrightarrow>
     (\<forall>n d. wf_db d \<longrightarrow> snap_valid def u d \<longrightarrow> snap_valid def u (interfere (env n) d))"

lemma snap_valid_of:
  "snap_valid def u (w_db w) =
     (case snap_of u w of
        None \<Rightarrow> True
      | Some s \<Rightarrow> tag_matches (ag_snapshotModuleVersion def) (snapshot_tag (sn_metadata s)) \<longrightarrow>
          0 \<le> sn_source_version s \<and> nat (sn_source_version s) \<le> length (stream_log u (log_of w))
          \<and> replay_from def (ag_initialState def)
               (take (nat (sn_source_version s)) (stream_log u (log_of w))) = Inr (sn_data s))"
  unfolding snap_valid_def snap_of_def log_of_def by (rule refl)

lemma honest_safe:
  assumes h: "honest def u (w_env w)" and ok: "world_ok w" and v: "snap_valid def u (w_db w)"
  shows "snap_safe def u w"
proof -
  have "wf_db d \<Longrightarrow> snap_valid def u d \<Longrightarrow> snap_valid def u (fold interfere (map (w_env w) ns) d)" for ns d
  proof (induction ns arbitrary: d)
    case (Cons n ns)
    have "snap_valid def u (interfere (w_env w n) d)" using h Cons.prems by (simp add: honest_def)
    with Cons.IH interfere_wf [OF Cons.prems(1)] show ?case by simp
  qed simp
  with ok v show ?thesis by (auto simp: snap_safe_def quiet_def world_ok_def)
qed

text \<open>\<open>l\<close> is a point of the replay of the stream \<open>xs\<close>.\<close>

definition at_point :: "'c aggregate_def \<Rightarrow> event_out list \<Rightarrow> loaded \<Rightarrow> bool" where
  "at_point def xs l \<longleftrightarrow> 0 \<le> ld_version l \<and> nat (ld_version l) \<le> length xs
     \<and> replay_from def (ag_initialState def) (take (nat (ld_version l)) xs) = Inr (ld_state l)"

lemma bind_sum_assoc: "bind_sum (bind_sum m f) g = bind_sum m (\<lambda>x. bind_sum (f x) g)"
  by (cases m) auto

lemma apply_all_append: "apply_all f s (xs @ ys) = bind_sum (apply_all f s xs) (\<lambda>s1. apply_all f s1 ys)"
  by (induction xs arbitrary: s) (auto simp: bind_sum_assoc)

lemma replay_from_append:
  "replay_from def s (xs @ ys) = bind_sum (replay_from def s xs) (\<lambda>s1. replay_from def s1 ys)"
  by (simp add: replay_from_def apply_all_append)

lemma replay_from_nil [simp]: "replay_from def s [] = Inr s"
  by (simp add: replay_from_def)

lemma snap_safe_quiet: "snap_safe def u w \<Longrightarrow> quiet w w1 \<Longrightarrow> snap_safe def u w1"
  using quiet_trans by (auto simp: snap_safe_def)

lemma stream_log_prefix: "prefix lg lg' \<Longrightarrow> prefix (stream_log u lg) (stream_log u lg')"
  by (auto simp: prefix_def stream_log_def)

lemma at_point_prefix: "at_point def xs l \<Longrightarrow> prefix xs ys \<Longrightarrow> at_point def ys l"
  by (auto simp: at_point_def prefix_def)

lemma at_point_quiet:
  "at_point def (stream_log u (log_of w)) l \<Longrightarrow> quiet w w' \<Longrightarrow> world_ok w
     \<Longrightarrow> at_point def (stream_log u (log_of w')) l"
  using at_point_prefix stream_log_prefix quiet_ok by blast

lemma page_param: "int_param (of_nat LOAD_PAGE_SIZE) = Inr (int LOAD_PAGE_SIZE)"
  using int_param_of_int [of "int LOAD_PAGE_SIZE"] by (simp add: LOAD_PAGE_SIZE_def)

section \<open>One page\<close>

lemma fold_page_Inr:
  "fold_page def l (map recorded rs) = Inr l' \<Longrightarrow>
     replay_from def (ld_state l) rs = Inr (ld_state l') \<and> ld_since l' = ld_since l + length rs
     \<and> ld_version l' = (if rs = [] then ld_version l else int (o_stream_version (last rs)))"
proof (induction rs arbitrary: l)
  case (Cons r rs)
  from Cons.prems obtain s where s: "ag_apply def (ld_state l) (recordedToDomain (recorded r)) = Inr s"
    and f: "fold_page def \<lparr>ld_state = s, ld_version = re_stream_version (recorded r),
        ld_since = Suc (ld_since l)\<rparr> (map recorded rs) = Inr l'"
    by (auto simp: bind_sum_Inr)
  from Cons.IH [OF f] s show ?case by (auto simp: replay_from_def bind_sum.simps recorded_def)
qed (simp add: replay_from_def)

lemma version_at:
  assumes "world_ok w" "u \<noteq> all_uuid" "k < length (stream_log u (log_of w))"
  shows "o_stream_version (stream_log u (log_of w) ! k) = Suc k"
proof -
  have "map o_stream_version (stream_log u (log_of w)) = [1..<Suc (length (stream_log u (log_of w)))]"
    using assms stream_log_versions by (auto simp: world_ok_def wf_db_def log_of_def)
  then have "map o_stream_version (stream_log u (log_of w)) ! k = [1..<Suc (length (stream_log u (log_of w)))] ! k"
    by simp
  with assms(3) show ?thesis by (simp del: upt_Suc)
qed

text \<open>Folding the page after a point of the replay leads to a later point.\<close>

lemma fold_page_point:
  assumes ok: "world_ok w" and u: "u \<noteq> all_uuid" and p: "at_point def (stream_log u (log_of w)) l"
    and rows: "page = take q (drop (nat (ld_version l)) (stream_log u (log_of w)))"
    and ne: "page \<noteq> []" and f: "fold_page def l (map recorded page) = Inr l'"
  shows "at_point def (stream_log u (log_of w)) l' \<and> ld_version l' = ld_version l + int (length page)
     \<and> ld_since l' = ld_since l + length page"
proof -
  let ?xs = "stream_log u (log_of w)" and ?v = "nat (ld_version l)"
  note F = fold_page_Inr [OF f]
  have v: "0 \<le> ld_version l" "?v \<le> length ?xs" using p by (simp_all add: at_point_def)
  have len: "length page = min q (length ?xs - ?v)" using rows by simp
  have k0: "0 < length page" using ne by simp
  with len v have k: "?v + length page - 1 < length ?xs" "0 < length page" by linarith+
  have nth: "page ! i = ?xs ! (?v + i)" if "i < length page" for i
    using that rows v(2) by simp
  have "last page = page ! (length page - 1)" using ne by (rule last_conv_nth)
  also have "\<dots> = ?xs ! (?v + (length page - 1))" using k0 by (intro nth) simp
  finally have "last page = ?xs ! (?v + length page - 1)" using k0 by (simp add: Suc_leI)
  then have ver: "ld_version l' = ld_version l + int (length page)"
    using F ne v version_at [OF ok u k(1)] k(2) by simp
  have "take (?v + length page) ?xs = take ?v ?xs @ page"
    using rows len by (auto simp: take_add min_def)
  moreover from ver v have nver: "nat (ld_version l') = ?v + length page" by (simp add: nat_add_distrib)
  ultimately have "replay_from def (ag_initialState def) (take (nat (ld_version l')) ?xs) = Inr (ld_state l')"
    using p conjunct1 [OF F] by (simp add: at_point_def replay_from_append)
  moreover have "?v + length page \<le> length ?xs" using len v by simp
  ultimately show ?thesis using ver nver v conjunct1 [OF conjunct2 [OF F]] by (simp add: at_point_def)
qed

section \<open>Loading\<close>

text \<open>What a load promises.\<close>

definition full_load :: "'c aggregate_def \<Rightarrow> string \<Rightarrow> world \<Rightarrow> world \<Rightarrow> loaded \<Rightarrow> bool" where
  "full_load def u w w' l \<longleftrightarrow> quiet w w' \<and> ld_version l = int (length (stream_log u (log_of w')))
     \<and> replay def u (log_of w') = Inr (ld_state l)"

lemma full_load_at:
  "quiet w w' \<Longrightarrow> at_point def (stream_log u (log_of w')) l
     \<Longrightarrow> length (stream_log u (log_of w')) \<le> nat (ld_version l) \<Longrightarrow> full_load def u w w' l"
  by (auto simp: full_load_def at_point_def replay_def)

context event_client begin

lemma load_pages_full:
  fixes def :: "'c aggregate_def"
  assumes "load_pages cl def u l w = Some (Inr l', w')" and "world_ok w"
    and "at_point def (stream_log u (log_of w)) l"
  shows "full_load def u w w' l' \<and> ld_since l' + nat (ld_version l) = ld_since l + nat (ld_version l')"
proof -
  let ?P = "\<lambda>c (def :: 'c aggregate_def) u l w (y :: (thrown + loaded) \<times> world). c = cl \<longrightarrow> world_ok w \<longrightarrow> at_point def (stream_log u (log_of w)) l \<longrightarrow>
     (\<forall>l' w'. y = (Inr l', w') \<longrightarrow> full_load def u w w' l'
        \<and> ld_since l' + nat (ld_version l) = ld_since l + nat (ld_version l'))"
  have "?P cl def u l w (Inr l', w')"
  proof (rule load_pages.raw_induct [where P = ?P, OF _ assms(1)])
    fix lp c u l w y and def :: "'c aggregate_def"
    assume IH: "\<And>c def u l w y. lp c def u l w = Some y \<Longrightarrow> ?P c def u l w y"
      and B: "(case cl_readStream c u (ld_version l + 1) (of_nat LOAD_PAGE_SIZE) w of
        (Inl e, w1) \<Rightarrow>
          (if instance_of e StreamNotFound \<and> ld_version l = 0 then Some (Inr l, w1) else Some (Inl e, w1))
      | (Inr page, w1) \<Rightarrow>
          (if page = [] then Some (Inr l, w1)
           else case fold_page def l page of
             Inl e \<Rightarrow> Some (Inl e, w1)
           | Inr l1 \<Rightarrow>
               (if length page < LOAD_PAGE_SIZE then Some (Inr l1, w1)
                else lp c def u l1 w1))) = Some y"
    show "?P c def u l w y"
    proof (intro impI allI)
      fix l' w'
      assume c: "c = cl" and ok: "world_ok w" and p: "at_point def (stream_log u (log_of w)) l"
        and y: "y = (Inr l', w')"
      let ?xs = "\<lambda>w. stream_log u (log_of w)"
      obtain r w1 where rd: "cl_readStream cl u (ld_version l + 1) (of_nat LOAD_PAGE_SIZE) w = (r, w1)" by force
      note q = read_stream_quiet [OF rd]
      have p1: "at_point def (?xs w1) l" using at_point_quiet [OF p q ok] .
      have ok1: "world_ok w1" using quiet_ok [OF q ok] by blast
      show "full_load def u w w' l' \<and> ld_since l' + nat (ld_version l) = ld_since l + nat (ld_version l')"
      proof (cases r)
        case (Inl e)
        with B rd c y have "instance_of e StreamNotFound" "ld_version l = 0" "l' = l" "w' = w1"
          by (auto split: if_splits)
        with read_stream_missing [OF ok rd [unfolded Inl]] p1 q show ?thesis
          by (auto intro!: full_load_at)
      next
        case (Inr page)
        from read_stream_rows [OF ok rd [unfolded Inr]] p1 obtain rows
          where u: "u \<noteq> all_uuid" and page: "page = map recorded rows"
            and rows: "rows = take LOAD_PAGE_SIZE (drop (nat (ld_version l)) (?xs w1))"
          by (auto simp: page_param at_point_def nat_add_distrib)
        show ?thesis
        proof (cases "rows = []")
          case True
          with B rd c y Inr page have "l' = l" "w' = w1" by auto
          with True rows p1 q show ?thesis by (auto intro!: full_load_at simp: LOAD_PAGE_SIZE_def)
        next
          case ne: False
          with B rd c y Inr page obtain l1 where f: "fold_page def l (map recorded rows) = Inr l1"
            and k: "if length rows < LOAD_PAGE_SIZE then l' = l1 \<and> w' = w1 else lp cl def u l1 w1 = Some y"
            by (auto split: sum.splits if_splits)
          note F = fold_page_point [OF ok1 u p1 rows ne f]
          have v: "0 \<le> ld_version l" using p by (simp add: at_point_def)
          show ?thesis
          proof (cases "length rows < LOAD_PAGE_SIZE")
            case True
            then have "length (?xs w1) \<le> nat (ld_version l1)" using rows F v by (auto simp: nat_add_distrib)
            with True k F q v show ?thesis by (auto intro!: full_load_at simp: nat_add_distrib)
          next
            case False
            with k IH [of cl def u l1 w1 y] ok1 F y have "full_load def u w1 w' l'
              \<and> ld_since l' + nat (ld_version l1) = ld_since l1 + nat (ld_version l')" by auto
            with F v q quiet_trans show ?thesis by (auto simp: full_load_def nat_add_distrib)
          qed
        qed
      qed
    qed
  qed
  with assms show ?thesis by blast
qed

lemma load_pages_quiet:
  fixes def :: "'c aggregate_def"
  assumes "load_pages cl def u l w = Some (r, w')"
  shows "quiet w w'"
proof -
  let ?P = "\<lambda>c (def :: 'c aggregate_def) u l w (y :: (thrown + loaded) \<times> world). c = cl \<longrightarrow> quiet w (snd y)"
  have "?P cl def u l w (r, w')"
  proof (rule load_pages.raw_induct [where P = ?P, OF _ assms(1)])
    fix lp c u l w y and def :: "'c aggregate_def"
    assume IH: "\<And>c def u l w y. lp c def u l w = Some y \<Longrightarrow> ?P c def u l w y"
      and B: "(case cl_readStream c u (ld_version l + 1) (of_nat LOAD_PAGE_SIZE) w of
        (Inl e, w1) \<Rightarrow>
          (if instance_of e StreamNotFound \<and> ld_version l = 0 then Some (Inr l, w1) else Some (Inl e, w1))
      | (Inr page, w1) \<Rightarrow>
          (if page = [] then Some (Inr l, w1)
           else case fold_page def l page of
             Inl e \<Rightarrow> Some (Inl e, w1)
           | Inr l1 \<Rightarrow>
               (if length page < LOAD_PAGE_SIZE then Some (Inr l1, w1)
                else lp c def u l1 w1))) = Some y"
    show "?P c def u l w y"
    proof
      assume c: "c = cl"
      obtain rr w1 where rd: "cl_readStream cl u (ld_version l + 1) (of_nat LOAD_PAGE_SIZE) w = (rr, w1)" by force
      have "snd y = w1 \<or> (\<exists>l1. lp cl def u l1 w1 = Some y)"
        using B rd c by (auto split: sum.splits if_splits)
      with read_stream_quiet [OF rd] IH quiet_trans show "quiet w (snd y)" by blast
    qed
  qed
  then show ?thesis by simp
qed

lemma load_full:
  assumes l: "loadAggregate cl def u w = Some (Inr l, w')" and ok: "world_ok w" and sv: "snap_safe def u w"
  shows "full_load def u w w' l \<and> ld_since l \<le> nat (ld_version l)"
proof -
  obtain r w1 where rd: "cl_readSnapshot cl u w = (r, w1)" by force
  note q = read_snapshot_quiet [OF rd]
  have ok1: "world_ok w1" using quiet_ok [OF q ok] by blast
  define l0 where "l0 = \<lparr>ld_state = ag_initialState def, ld_version = 0, ld_since = 0\<rparr>"
  have zero: "at_point def (stream_log u (log_of w1)) l0" by (simp add: at_point_def l0_def)
  obtain s where s: "load_pages cl def u s w1 = Some (Inr l, w')" "ld_since s = 0"
    "at_point def (stream_log u (log_of w1)) s"
  proof (cases r)
    case (Inl e)
    with l rd zero that [of l0] show ?thesis by (auto simp: loadAggregate_def Let_def l0_def split: if_splits)
  next
    case (Inr sn)
    show ?thesis
    proof (cases "tag_matches (ag_snapshotModuleVersion def) (snapshot_tag (sn_metadata sn))")
      case True
      have "snap_valid def u (w_db w1)" using sv q by (simp add: snap_safe_def)
      with True read_snapshot_row [OF rd [unfolded Inr]] l rd Inr
        that [of "l0\<lparr>ld_state := sn_data sn, ld_version := sn_source_version sn\<rparr>"]
      show ?thesis by (simp add: snap_valid_of loadAggregate_def Let_def l0_def at_point_def)
    next
      case False
      with l rd Inr zero that [of l0] show ?thesis by (simp add: loadAggregate_def Let_def l0_def)
    qed
  qed
  from load_pages_full [OF s(1) ok1 s(3)] s(2) q quiet_trans show ?thesis
    by (auto simp: full_load_def)
qed

lemma load_quiet:
  assumes l: "loadAggregate cl def u w = Some (r, w')"
  shows "quiet w w'"
proof -
  have pages: "quiet w0 w'" if "load_pages cl def u l0 w0 = Some (r, w')" for l0 w0
    using load_pages_quiet [OF that] .
  obtain rs w1 where rd: "cl_readSnapshot cl u w = (rs, w1)" by force
  from read_snapshot_quiet [OF rd] l rd pages quiet_trans show ?thesis
    by (auto simp: loadAggregate_def Let_def split: sum.splits if_splits)
qed

end

section \<open>Deciding and appending\<close>

text \<open>The events \<open>evs\<close> became the tail of the log, in one piece.\<close>

definition appended_at ::
  "string \<Rightarrow> world \<Rightarrow> world \<Rightarrow> new_event list \<Rightarrow> appended_event list \<Rightarrow> bool" where
  "appended_at u w0 w' evs rows \<longleftrightarrow>
     (let n = length (stream_log u (log_of w0)); m = length (log_of w0)
      in \<exists>erows. list_all2 written evs erows
           \<and> log_of w' = log_of w0 @ appended_log u n m erows
           \<and> rows = map (appended u) (append_rows n m erows))"

definition expecting :: "expected_version option \<Rightarrow> loaded \<Rightarrow> expected_version" where
  "expecting explicit l = (case explicit of Some v \<Rightarrow> v | None \<Rightarrow> Exact (ld_version l))"

text \<open>One successful attempt: a full load, a decision on it, and the append of what was decided.\<close>

definition decided ::
  "'c aggregate_def \<Rightarrow> string \<Rightarrow> 'c \<Rightarrow> expected_version option \<Rightarrow> (new_event \<Rightarrow> new_event)
     \<Rightarrow> world \<Rightarrow> world \<Rightarrow> executed \<Rightarrow> bool" where
  "decided def u c explicit fl w w' r \<longleftrightarrow>
     (\<exists>w1 res. full_load def u w w1 (ex_loaded r) \<and> ag_execute def (ld_state (ex_loaded r)) c = Inr res
        \<and> ex_filled r = map fl (normaliseEvents res) \<and> ex_noOp r = (normaliseEvents res = [])
        \<and> (if ex_noOp r then w' = w1 \<and> ex_appended r = []
           else u \<noteq> all_uuid \<and> (\<exists>w0. quiet w1 w0
                  \<and> version_holds (expecting explicit (ex_loaded r)) (length (stream_log u (log_of w0)))
                  \<and> appended_at u w0 w' (ex_filled r) (ex_appended r))))"

text \<open>Attempts that ended in a version conflict, one after the other.\<close>

inductive conflicts ::
  "client \<Rightarrow> 'c aggregate_def \<Rightarrow> string \<Rightarrow> 'c \<Rightarrow> string \<Rightarrow> string option
     \<Rightarrow> nat \<Rightarrow> world \<Rightarrow> thrown option \<Rightarrow> world \<Rightarrow> thrown option \<Rightarrow> bool"
  for cl def u c ca co where
  none: "conflicts cl def u c ca co 0 w err w err"
| more: "attempt_once cl def u c None ca co w = Some (Inl e, w1) \<Longrightarrow> instance_of e WrongExpectedVersion
    \<Longrightarrow> conflicts cl def u c ca co n w1 (Some e) w2 err2
    \<Longrightarrow> conflicts cl def u c ca co (Suc n) w err w2 err2"

inductive_simps conflicts_zero: "conflicts cl def u c ca co 0 w err w' err'"
inductive_simps conflicts_Suc: "conflicts cl def u c ca co (Suc n) w err w' err'"

definition retryable :: "thrown + executed \<Rightarrow> bool" where
  "retryable x = (case x of Inl e \<Rightarrow> instance_of e WrongExpectedVersion | Inr _ \<Rightarrow> False)"

lemma attempt_loop_conflicts:
  "attempt_loop cl def u c None ca co left k err w = Some (x, w') \<longleftrightarrow>
     (\<exists>j < left. \<exists>w1 err1. conflicts cl def u c ca co j w err w1 err1
        \<and> attempt_once cl def u c None ca co w1 = Some (x, w') \<and> \<not> retryable x)
     \<or> (\<exists>err1. conflicts cl def u c ca co left w err w' err1 \<and> x = Inl (exhausted (k + left) err1))"
proof (induction left arbitrary: k err w)
  case 0
  show ?case by (auto simp: conflicts_zero)
next
  case (Suc left)
  show ?case
  proof (cases "\<exists>e w1. attempt_once cl def u c None ca co w = Some (Inl e, w1) \<and> instance_of e WrongExpectedVersion")
    case True
    then obtain e w1 where a: "attempt_once cl def u c None ca co w = Some (Inl e, w1)"
      and e: "instance_of e WrongExpectedVersion" by blast
    have z: "\<not> (attempt_once cl def u c None ca co w = Some (x, w') \<and> \<not> retryable x)"
      using a e by (auto simp: retryable_def)
    have s: "conflicts cl def u c ca co (Suc j) w err w2 = conflicts cl def u c ca co j w1 (Some e) w2"
      for j w2 using a e by (auto simp: conflicts_Suc fun_eq_iff)
    have split: "(\<exists>j < Suc left. P j) \<longleftrightarrow> P 0 \<or> (\<exists>j < left. P (Suc j))" for P :: "nat \<Rightarrow> bool"
      by (auto simp: less_Suc_eq_0_disj)
    from a e Suc.IH [of "Suc k" "Some e" w1] z show ?thesis
      by (simp add: split s) (auto simp: conflicts_zero)
  next
    case False
    then have l: "attempt_loop cl def u c None ca co (Suc left) k err w = attempt_once cl def u c None ca co w"
      by (auto split: option.splits sum.splits)
    have n: "conflicts cl def u c ca co (Suc j) w err w2 err2 = False" for j w2 err2
      using False by (auto simp: conflicts_Suc)
    have split: "(\<exists>j < Suc left. P j) \<longleftrightarrow> P 0 \<or> (\<exists>j < left. P (Suc j))" for P :: "nat \<Rightarrow> bool"
      by (auto simp: less_Suc_eq_0_disj)
    have "\<not> retryable x" if "attempt_once cl def u c None ca co w = Some (x, w')"
      using False that by (auto simp: retryable_def split: sum.splits)
    then show ?thesis unfolding l by (auto simp: split n conflicts_zero)
  qed
qed

text \<open>The identifier of the command and the causation its events get.\<close>

definition started :: "run_options \<Rightarrow> world \<Rightarrow> string \<times> world" where
  "started opts w = (case ro_commandId opts of Some i \<Rightarrow> (i, w) | None \<Rightarrow> randomUUID w)"

definition causation :: "run_options \<Rightarrow> world \<Rightarrow> string" where
  "causation opts w = (case ro_causationId opts of Some i \<Rightarrow> i | None \<Rightarrow> fst (started opts w))"

lemma executeCommand_loop:
  "retry_budget opts = Inr b \<Longrightarrow> executeCommand cl def u c opts w =
     attempt_loop cl def u c (ro_expectedVersion opts) (causation opts w) (ro_correlationId opts)
       (Suc b) 0 None (snd (started opts w))"
  unfolding executeCommand_def Let_def started_def [symmetric] causation_def
  by (cases "started opts w") (simp del: attempt_loop.simps cong del: option.case_cong_weak)

lemma started_quiet: "quiet w (snd (started opts w))"
  by (auto simp: started_def randomUUID_def quiet_def split: option.split)

lemma normalise_nil: "map f (normaliseEvents res) = [] \<longleftrightarrow> normaliseEvents res = []"
  by simp

context event_client begin

lemma attempt_ok:
  assumes a: "attempt_once cl def u c explicit ca co w = Some (Inr r, w')"
    and ok: "world_ok w" and sv: "snap_safe def u w"
  shows "decided def u c explicit (fill_ids ca co) w w' r"
proof -
  from a obtain l w1 res where ld: "loadAggregate cl def u w = Some (Inr l, w1)"
    and ex: "ag_execute def (ld_state l) c = Inr res"
    by (auto simp: attempt_once_def split: option.splits sum.splits)
  note L = conjunct1 [OF load_full [OF ld ok sv]]
  show ?thesis
  proof (cases "normaliseEvents res = []")
    case True
    with a ld ex L show ?thesis by (auto simp: attempt_once_def decided_def Let_def)
  next
    case False
    let ?fl = "map (fill_ids ca co) (normaliseEvents res)"
    from a ld ex False obtain rows where ap: "cl_appendToStream cl u (expecting explicit l) ?fl w1 = (Inr rows, w')"
      and r: "r = \<lparr>ex_appended = rows, ex_loaded = l, ex_filled = ?fl, ex_noOp = False\<rparr>"
      by (auto simp: attempt_once_def Let_def expecting_def split: sum.splits prod.splits)
    have ok1: "world_ok w1" using L quiet_ok ok by (auto simp: full_load_def)
    from append_ok [OF ok1 ap] obtain w0 where q: "quiet w1 w0" and u: "u \<noteq> all_uuid"
      and v: "version_holds (expecting explicit l) (length (stream_log u (log_of w0)))"
      and at: "appended_at u w0 w' ?fl rows"
      unfolding appended_at_def Let_def by blast
    show ?thesis unfolding decided_def
    proof (intro exI conjI)
      show "full_load def u w w1 (ex_loaded r)" using L r by simp
      show "ag_execute def (ld_state (ex_loaded r)) c = Inr res" using ex r by simp
    qed (use r False q u v at in auto)
  qed
qed

lemma attempt_err:
  assumes a: "attempt_once cl def u c explicit ca co w = Some (Inl e, w')" and ok: "world_ok w"
  shows "world_ok w' \<and> prefix (log_of w) (log_of w')
     \<and> (instance_of e WrongExpectedVersion \<longrightarrow> quiet w w')"
proof -
  from a obtain x w1 where ld: "loadAggregate cl def u w = Some (x, w1)"
    by (auto simp: attempt_once_def split: option.splits)
  note q = load_quiet [OF ld] and qk = quiet_ok [OF load_quiet [OF ld] ok]
  from a ld have "w' = w1 \<or> (\<exists>ex evs. cl_appendToStream cl u ex evs w1 = (Inl e, w'))"
    by (auto simp: attempt_once_def Let_def split: sum.splits prod.splits if_splits)
  then show ?thesis
  proof (elim disjE exE)
    assume "w' = w1" with q qk show ?thesis by simp
  next
    fix ex evs assume ap: "cl_appendToStream cl u ex evs w1 = (Inl e, w')"
    from append_err [OF conjunct1 [OF qk] ap] qk q quiet_trans show ?thesis
      by (auto intro: prefix_order.trans)
  qed
qed

lemma conflicts_quiet:
  "conflicts cl' def u c ca co n w err w' err' \<Longrightarrow> cl' = cl \<Longrightarrow> world_ok w \<Longrightarrow> quiet w w'"
proof (induction rule: conflicts.induct)
  case (more w e w1 n w2 err2 err)
  from attempt_err [OF more.hyps(1) [unfolded more.prems(1)] more.prems(2)] more.hyps(2) more.IH more.prems
    quiet_trans show ?case by blast
qed (rule quiet_refl)

lemma decided_later:
  "decided def u c explicit fl w1 w' r \<Longrightarrow> quiet w w1 \<Longrightarrow> decided def u c explicit fl w w' r"
  unfolding decided_def full_load_def using quiet_trans by blast

lemma attempt_loop_explicit:
  "attempt_loop cl' def u c (Some v) ca co (Suc left) k err w = attempt_once cl' def u c (Some v) ca co w"
  by (auto split: option.splits sum.splits)

lemma execute_decided:
  assumes e: "executeCommand cl def u c opts w = Some (Inr r, w')"
    and ok: "world_ok w" and sv: "snap_safe def u w"
  shows "decided def u c (ro_expectedVersion opts)
           (fill_ids (causation opts w) (ro_correlationId opts)) w w' r"
proof -
  let ?w = "snd (started opts w)" and ?ca = "causation opts w" and ?co = "ro_correlationId opts"
  note q = started_quiet [of w opts]
  have ok1: "world_ok ?w" and sv1: "snap_safe def u ?w"
    using quiet_ok [OF q ok] snap_safe_quiet [OF sv q] by blast+
  obtain b where "retry_budget opts = Inr b" using e by (auto simp: executeCommand_def split: sum.splits)
  from e [unfolded executeCommand_loop [OF this]]
  have loop: "attempt_loop cl def u c (ro_expectedVersion opts) ?ca ?co (Suc b) 0 None ?w = Some (Inr r, w')" .
  show ?thesis
  proof (cases "ro_expectedVersion opts")
    case (Some v)
    with loop have "attempt_once cl def u c (Some v) ?ca ?co ?w = Some (Inr r, w')"
      by (simp add: attempt_loop_explicit del: attempt_loop.simps)
    from decided_later [OF attempt_ok [OF this ok1 sv1] q] Some show ?thesis by simp
  next
    case None
    with loop obtain j w1 err1 where c: "conflicts cl def u c ?ca ?co j ?w None w1 err1"
      and a: "attempt_once cl def u c None ?ca ?co w1 = Some (Inr r, w')"
      by (auto simp: attempt_loop_conflicts simp del: attempt_loop.simps)
    note q1 = conflicts_quiet [OF c refl ok1]
    from decided_later [OF attempt_ok [OF a] quiet_trans [OF q q1]] quiet_ok [OF q1 ok1]
      snap_safe_quiet [OF sv1 q1] None show ?thesis by simp
  qed
qed

end

text \<open>With the default version check, what was loaded is what was appended to.\<close>

lemma decided_default:
  assumes d: "decided def u c None fl w w' r" and ok: "world_ok w"
  shows "\<exists>w0 res. quiet w w0 \<and> ld_version (ex_loaded r) = int (length (stream_log u (log_of w0)))
     \<and> replay def u (log_of w0) = Inr (ld_state (ex_loaded r))
     \<and> ag_execute def (ld_state (ex_loaded r)) c = Inr res \<and> ex_noOp r = (normaliseEvents res = [])
     \<and> ex_filled r = map fl (normaliseEvents res)
     \<and> (if ex_noOp r then w' = w0 \<and> ex_appended r = []
        else u \<noteq> all_uuid \<and> appended_at u w0 w' (ex_filled r) (ex_appended r))"
proof -
  from d obtain w1 res where f: "full_load def u w w1 (ex_loaded r)"
    and x: "ag_execute def (ld_state (ex_loaded r)) c = Inr res"
      "ex_filled r = map fl (normaliseEvents res)" "ex_noOp r = (normaliseEvents res = [])"
    and r: "if ex_noOp r then w' = w1 \<and> ex_appended r = []
           else u \<noteq> all_uuid \<and> (\<exists>w0. quiet w1 w0
                  \<and> version_holds (expecting None (ex_loaded r)) (length (stream_log u (log_of w0)))
                  \<and> appended_at u w0 w' (ex_filled r) (ex_appended r))"
    unfolding decided_def by blast
  show ?thesis
  proof (cases "ex_noOp r")
    case True
    with f x r show ?thesis unfolding full_load_def by (intro exI [of _ w1] exI [of _ res]) simp
  next
    case False
    with r obtain w0 where w0: "quiet w1 w0" "u \<noteq> all_uuid" "appended_at u w0 w' (ex_filled r) (ex_appended r)"
      and v: "version_holds (expecting None (ex_loaded r)) (length (stream_log u (log_of w0)))" by auto
    have q: "quiet w w1" using f by (simp add: full_load_def)
    have "prefix (stream_log u (log_of w1)) (stream_log u (log_of w0))"
      using quiet_ok [OF w0(1)] quiet_ok [OF q ok] stream_log_prefix by blast
    moreover have "length (stream_log u (log_of w1)) = length (stream_log u (log_of w0))"
      using v f by (simp add: expecting_def full_load_def)
    ultimately have "stream_log u (log_of w1) = stream_log u (log_of w0)" by (auto simp: prefix_def)
    with f x w0 False quiet_trans [OF q w0(1)] show ?thesis
      unfolding full_load_def replay_def by (intro exI [of _ w0] exI [of _ res]) simp
  qed
qed

section \<open>The state after an append\<close>

text \<open>An \<open>apply\<close> that does not tell an absent member from \<open>null\<close>.\<close>

definition nulled :: "domain_event \<Rightarrow> domain_event" where
  "nulled e = e\<lparr>de_data := Some (case de_data e of None \<Rightarrow> JNull | Some v \<Rightarrow> v),
                de_metadata := Some (case de_metadata e of None \<Rightarrow> JNull | Some v \<Rightarrow> v)\<rparr>"

definition null_blind :: "'c aggregate_def \<Rightarrow> bool" where
  "null_blind def \<longleftrightarrow> (\<forall>s e. ag_apply def s (nulled e) = ag_apply def s e)"

lemma written_domain:
  "written e r \<Longrightarrow> recordedToDomain (recorded (out_row n u v r)) = nulled (newToDomain e)"
  by (auto simp: written_def recordedToDomain_def recorded_def out_row_def nulled_def newToDomain_def
      null_json_def split: option.split)

lemma appended_log_simps:
  "appended_log u n m (r # rs) = out_row (Suc m) u (Suc n) r # appended_log u (Suc n) (Suc m) rs"
proof -
  have "enumerate 1 rs = map (\<lambda>(i, e). (Suc i, e)) (enumerate 0 rs)"
    by (rule nth_equalityI) (simp_all add: nth_enumerate_eq)
  then show ?thesis by (simp add: appended_log_def split_beta comp_def)
qed

lemma stream_log_appended: "stream_log u (appended_log u n m rows) = appended_log u n m rows"
  by (auto simp: stream_log_def appended_log_def out_row_def intro!: filter_True)

lemma stream_log_append: "stream_log u (xs @ ys) = stream_log u xs @ stream_log u ys"
  by (simp add: stream_log_def)

lemma enumerate_nil: "enumerate n xs = [] \<longleftrightarrow> xs = []"
  by (cases xs) simp_all

lemma replay_written:
  assumes nb: "null_blind def"
  shows "list_all2 written evs rows \<Longrightarrow>
    replay_from def s (appended_log u n m rows) = apply_all (ag_apply def) s (map newToDomain evs)"
proof (induction evs arbitrary: rows s n m)
  case (Cons e evs)
  from Cons.prems obtain r rs where r: "rows = r # rs" "written e r" "list_all2 written evs rs"
    by (auto simp: list_all2_Cons1)
  from written_domain [OF r(2)] nb
  have "ag_apply def s (recordedToDomain (recorded (out_row (Suc m) u (Suc n) r))) = ag_apply def s (newToDomain e)"
    by (simp add: null_blind_def)
  with Cons.IH [OF r(3), unfolded replay_from_def] r(1) show ?case
    by (simp add: replay_from_def appended_log_simps)
qed (simp add: appended_log_def)

lemma replay_appended:
  assumes nb: "null_blind def" and at: "appended_at u w0 w' evs rows" and ne: "evs \<noteq> []"
    and s0: "replay def u (log_of w0) = Inr s0"
  shows "replay def u (log_of w') = apply_all (ag_apply def) s0 (map newToDomain evs) \<and> rows \<noteq> []
     \<and> length rows = length evs \<and> ae_stream_version (last rows) = int (length (stream_log u (log_of w')))"
proof -
  let ?n = "length (stream_log u (log_of w0))" and ?m = "length (log_of w0)"
  from at obtain erows where wr: "list_all2 written evs erows"
    and lg: "log_of w' = log_of w0 @ appended_log u ?n ?m erows"
    and rows: "rows = map (appended u) (append_rows ?n ?m erows)"
    by (auto simp: appended_at_def Let_def)
  have len: "length erows = length evs" using wr by (simp add: list_all2_lengthD)
  have sl: "stream_log u (log_of w') = stream_log u (log_of w0) @ appended_log u ?n ?m erows"
    by (simp add: lg stream_log_append stream_log_appended)
  have "replay def u (log_of w') = apply_all (ag_apply def) s0 (map newToDomain evs)"
    using s0 replay_written [OF nb wr] by (simp add: replay_def sl replay_from_append)
  moreover have "rows \<noteq> []" "length rows = length evs" using ne len by (auto simp: rows append_rows_def enumerate_nil)
  moreover have "ae_stream_version (last rows) = int (?n + length erows)"
    using ne len by (cases erows rule: rev_cases) (simp_all add: rows append_rows_def appended_def enumerate_append_eq)
  ultimately show ?thesis by (simp add: sl appended_log_def)
qed

text \<open>A good snapshot stays good when the log grows and the snapshot table keeps its row.\<close>

lemma snap_valid_grow:
  "snap_valid def u (w_db w0) \<Longrightarrow> prefix (log_of w0) (log_of w') \<Longrightarrow> snap_of u w' = snap_of u w0
     \<Longrightarrow> snap_valid def u (w_db w')"
  using stream_log_prefix [of "log_of w0" "log_of w'" u]
  by (auto simp: snap_valid_of prefix_def split: option.split)

lemma snapshot_tag_metadata: "snapshot_tag (null_json (snapshot_metadata def)) = ag_snapshotModuleVersion def"
  by (auto simp: snapshot_tag_def snapshot_metadata_def null_json_def split: option.split)

text \<open>How the two stages fit.\<close>

definition ran_from :: "'c aggregate_def \<Rightarrow> executed \<Rightarrow> ran_command \<Rightarrow> bool" where
  "ran_from def x rc \<longleftrightarrow> rc_appended rc = ex_appended x
     \<and> (if ex_noOp x then rc_state rc = ld_state (ex_loaded x) \<and> rc_version rc = ld_version (ex_loaded x)
              \<and> rc_since rc = ld_since (ex_loaded x)
        else apply_all (ag_apply def) (ld_state (ex_loaded x)) (map newToDomain (ex_filled x)) = Inr (rc_state rc)
              \<and> rc_version rc = ae_stream_version (last (ex_appended x))
              \<and> rc_since rc = ld_since (ex_loaded x) + length (ex_appended x))"

lemma runCommandAndApply_Inr:
  assumes r: "runCommandAndApply cl def u c opts w = Some (Inr rc, w')"
  shows "\<exists>x. executeCommand cl def u c opts w = Some (Inr x, w') \<and> ran_from def x rc"
proof -
  obtain y w1 where e: "executeCommand cl def u c opts w = Some (y, w1)"
    using r by (cases "executeCommand cl def u c opts w") (auto simp: runCommandAndApply_def)
  show ?thesis
  proof (cases y)
    case (Inl a)
    with r e show ?thesis by (simp add: runCommandAndApply_def)
  next
    case x: (Inr x)
    show ?thesis
    proof (cases "ex_noOp x")
      case True
      with r e x show ?thesis by (auto simp: runCommandAndApply_def ran_from_def)
    next
      case False
      obtain s where s: "apply_all (ag_apply def) (ld_state (ex_loaded x)) (map newToDomain (ex_filled x)) = Inr s"
        using r e x False
        by (cases "apply_all (ag_apply def) (ld_state (ex_loaded x)) (map newToDomain (ex_filled x))")
           (simp_all add: runCommandAndApply_def)
      with r e x False show ?thesis
        by (cases "ex_appended x") (auto simp: runCommandAndApply_def ran_from_def no_row_def)
    qed
  qed
qed

context event_client begin

lemma ran_replay:
  assumes r: "runCommandAndApply cl def u c opts w = Some (Inr rc, w')"
    and nb: "null_blind def" and dv: "ro_expectedVersion opts = None"
    and ok: "world_ok w" and sv: "snap_safe def u w"
  shows "replay def u (log_of w') = Inr (rc_state rc) \<and> rc_version rc = int (length (stream_log u (log_of w')))"
proof -
  obtain x where e: "executeCommand cl def u c opts w = Some (Inr x, w')" and k: "ran_from def x rc"
    using runCommandAndApply_Inr [OF r] by blast
  from decided_default [OF execute_decided [OF e ok sv, unfolded dv] ok]
  obtain w0 res where d: "ld_version (ex_loaded x) = int (length (stream_log u (log_of w0)))"
    "replay def u (log_of w0) = Inr (ld_state (ex_loaded x))" "ex_noOp x = (normaliseEvents res = [])"
    "ex_filled x = map (fill_ids (causation opts w) (ro_correlationId opts)) (normaliseEvents res)"
    "if ex_noOp x then w' = w0 \<and> ex_appended x = []
        else u \<noteq> all_uuid \<and> appended_at u w0 w' (ex_filled x) (ex_appended x)" by blast
  show ?thesis
  proof (cases "ex_noOp x")
    case True
    with d k show ?thesis by (simp add: ran_from_def)
  next
    case False
    with d have "appended_at u w0 w' (ex_filled x) (ex_appended x)" "ex_filled x \<noteq> []" by auto
    from replay_appended [OF nb this d(2)] k False show ?thesis by (simp add: ran_from_def)
  qed
qed

end

section \<open>Snapshots stay replays\<close>

text \<open>A logger whose sink only writes lines.\<close>

definition writes_log :: "logger \<Rightarrow> bool" where
  "writes_log lg \<longleftrightarrow> (\<forall>s w. \<exists>l. warn lg (Thunk (\<lambda>w. (s, w))) w = w\<lparr>w_log := l\<rparr>)"

definition ctx_logger :: "run_options \<Rightarrow> logger" where
  "ctx_logger opts = (case ro_ctx opts of Some l \<Rightarrow> l | None \<Rightarrow> default_logger)"

lemma writes_default [simp]: "writes_log default_logger"
  by (simp add: writes_log_def default_logger_def fromImpl_def new_Logger_def bind_level_def
      DEFAULT_LOGGER_IMPL_def console_def) blast

definition snapshots_ok :: "'c aggregate_def \<Rightarrow> string \<Rightarrow> world \<Rightarrow> bool" where
  "snapshots_ok def u w \<longleftrightarrow> world_ok w \<and> honest def u (w_env w) \<and> snap_valid def u (w_db w)"

lemma snapshots_ok_safe: "snapshots_ok def u w \<Longrightarrow> world_ok w \<and> snap_safe def u w"
  using honest_safe by (auto simp: snapshots_ok_def)

lemma snapshots_ok_quiet: "snapshots_ok def u w \<Longrightarrow> quiet w w' \<Longrightarrow> snapshots_ok def u w'"
  using snapshots_ok_safe [of def u w] quiet_ok by (auto simp: snapshots_ok_def snap_safe_def quiet_def)

lemma snapshots_ok_grow:
  assumes "snapshots_ok def u w0" "w_env w' = w_env w0" "world_ok w'" "prefix (log_of w0) (log_of w')"
    "snap_of u w' = snap_of u w0"
  shows "snapshots_ok def u w'"
  using assms snap_valid_grow by (auto simp: snapshots_ok_def)

context event_client begin

lemma append_snapshots_ok:
  assumes "cl_appendToStream cl u ex evs w = (x, w')" "snapshots_ok def u w"
  shows "snapshots_ok def u w'"
proof -
  have ok: "world_ok w" using assms(2) by (simp add: snapshots_ok_def)
  from append_frame [OF ok assms(1)] obtain w0 where q: "quiet w w0" and f: "w_env w' = w_env w"
    "prefix (log_of w0) (log_of w')" "snap_of u w' = snap_of u w0" by blast
  have "world_ok w'" using append_ok [OF ok] append_err [OF ok] assms(1) by (cases x) blast+
  with f q snapshots_ok_quiet [OF assms(2) q] show ?thesis
    by (auto intro: snapshots_ok_grow simp: quiet_def)
qed

lemma attempt_snapshots_ok:
  assumes a: "attempt_once cl def u c explicit ca co w = Some (x, w')" and s: "snapshots_ok def u w"
  shows "snapshots_ok def u w'"
proof -
  from a obtain y w1 where ld: "loadAggregate cl def u w = Some (y, w1)"
    by (auto simp: attempt_once_def split: option.splits)
  from a ld have "w' = w1 \<or> (\<exists>ex evs r. cl_appendToStream cl u ex evs w1 = (r, w'))"
    by (auto simp: attempt_once_def Let_def split: sum.splits prod.splits if_splits)
  with snapshots_ok_quiet [OF s load_quiet [OF ld]] append_snapshots_ok show ?thesis by blast
qed

lemma loop_snapshots_ok:
  "attempt_loop cl def u c explicit ca co left k err w = Some (x, w') \<Longrightarrow> snapshots_ok def u w
     \<Longrightarrow> snapshots_ok def u w'"
proof (induction left arbitrary: k err w)
  case (Suc left)
  obtain y w1 where a: "attempt_once cl def u c explicit ca co w = Some (y, w1)"
    using Suc.prems(1) by (cases "attempt_once cl def u c explicit ca co w") auto
  from attempt_snapshots_ok [OF a Suc.prems(2)] Suc.prems(1) a Suc.IH show ?case
    by (cases y) (auto split: if_splits)
qed simp

lemma execute_snapshots_ok:
  assumes e: "executeCommand cl def u c opts w = Some (x, w')" and s: "snapshots_ok def u w"
  shows "snapshots_ok def u w'"
proof (cases "retry_budget opts")
  case (Inl a)
  with e s show ?thesis by (simp add: executeCommand_def)
next
  case (Inr b)
  show ?thesis
    by (rule loop_snapshots_ok [OF e [unfolded executeCommand_loop [OF Inr]] snapshots_ok_quiet [OF s started_quiet]])
qed

lemma ran_snapshots_ok:
  assumes r: "runCommandAndApply cl def u c opts w = Some (x, w')" and s: "snapshots_ok def u w"
  shows "snapshots_ok def u w'"
proof -
  obtain y w1 where e: "executeCommand cl def u c opts w = Some (y, w1)"
    using r by (cases "executeCommand cl def u c opts w") (auto simp: runCommandAndApply_def)
  have "w' = w1" using r e
    by (cases y) (auto simp: runCommandAndApply_def split: if_splits sum.splits list.splits)
  with execute_snapshots_ok [OF e s] show ?thesis by simp
qed

lemma record_snapshots_ok:
  assumes r: "cl_recordSnapshot cl si w = (x, w')" and s: "snapshots_ok def u w"
    and si: "si_source_uuid si = u" "si_metadata si = snapshot_metadata def"
      "si_source_version si = int (length (stream_log u (log_of w)))"
      "replay def u (log_of w) = Inr (si_data si)"
  shows "snapshots_ok def u w'"
proof -
  have ok: "world_ok w" using s by (simp add: snapshots_ok_def)
  from record_effect [OF r] obtain w0 where q: "quiet w w0" "w_env w' = w_env w" "log_of w' = log_of w0"
    and v: "snap_of u w' = snap_of u w0 \<or>
      (\<exists>t. snap_of u w' = Some t \<and> sn_source_version t = si_source_version si
                   \<and> sn_data t = si_data si \<and> sn_metadata t = null_json (si_metadata si))" by blast
  note s0 = snapshots_ok_quiet [OF s q(1)]
  have w: "world_ok w'" "prefix (log_of w) (log_of w')"
    using record_frame [OF ok r] quiet_ok [OF q(1) ok] q by simp_all
  from v show ?thesis
  proof
    assume "snap_of u w' = snap_of u w0"
    with s0 q w show ?thesis by (auto intro: snapshots_ok_grow simp: quiet_def)
  next
    assume "\<exists>t. snap_of u w' = Some t \<and> sn_source_version t = si_source_version si
                   \<and> sn_data t = si_data si \<and> sn_metadata t = null_json (si_metadata si)"
    moreover have "prefix (stream_log u (log_of w)) (stream_log u (log_of w'))"
      using w stream_log_prefix by blast
    ultimately have "snap_valid def u (w_db w')"
      using si by (auto simp: snap_valid_of replay_def prefix_def)
    with s q w show ?thesis by (simp add: snapshots_ok_def)
  qed
qed

text \<open>The branches of \<open>runCommandWithSnapshots\<close>.\<close>

lemma with_snapshots_cases:
  assumes r: "runCommandWithSnapshots cl' def u c opts w = Some (x, w')"
  obtains e where "runCommandAndApply cl' def u c opts w = Some (Inl e, w')" "x = Inl e"
  | rc where "runCommandAndApply cl' def u c opts w = Some (Inr rc, w')"
      "x = Inr (rc_appended rc) \<or> (\<exists>e. x = Inl e)"
  | rc w1 y w2 where "runCommandAndApply cl' def u c opts w = Some (Inr rc, w1)"
      "cl_recordSnapshot cl' \<lparr>si_source_uuid = u, si_source_type = ag_type def, si_source_version = rc_version rc,
         si_data = rc_state rc, si_metadata = snapshot_metadata def\<rparr> w1 = (y, w2)"
      "x = Inr (rc_appended rc)" "rc_appended rc \<noteq> []"
      "w' = w2 \<or> (\<exists>s. w' = warn (ctx_logger opts) (Thunk (\<lambda>w. (s, w))) w2)"
proof -
  obtain y w1 where e: "runCommandAndApply cl' def u c opts w = Some (y, w1)"
    using r by (cases "runCommandAndApply cl' def u c opts w") (auto simp: runCommandWithSnapshots_def)
  show thesis
  proof (cases y)
    case (Inl a)
    with r e that(1) show thesis by (auto simp: runCommandWithSnapshots_def)
  next
    case (Inr rc)
    let ?si = "\<lparr>si_source_uuid = u, si_source_type = ag_type def, si_source_version = rc_version rc,
         si_data = rc_state rc, si_metadata = snapshot_metadata def\<rparr>"
    show thesis
    proof (cases "rc_appended rc = [] \<or> ag_snapshotPolicy def = None
        \<or> (\<exists>pol. ag_snapshotPolicy def = Some pol \<and> pol (rc_state rc) (rc_version rc) (rc_since rc) \<noteq> Inr True)")
      case True
      with r e Inr that(2) [of rc] show thesis
        by (auto simp: runCommandWithSnapshots_def split: if_splits sum.splits bool.splits)
    next
      case False
      then obtain pol where p: "ag_snapshotPolicy def = Some pol" "pol (rc_state rc) (rc_version rc) (rc_since rc) = Inr True"
        and ne: "rc_appended rc \<noteq> []" by auto
      obtain y2 w2 where rec: "cl_recordSnapshot cl' ?si w1 = (y2, w2)" by force
      from r e Inr p ne rec have "x = Inr (rc_appended rc) \<and>
         (w' = w2 \<or> (\<exists>s. w' = warn (ctx_logger opts) (Thunk (\<lambda>w. (s, w))) w2))"
        by (cases y2) (auto simp: runCommandWithSnapshots_def ctx_logger_def Let_def)
      with e Inr rec ne that(3) show thesis by blast
    qed
  qed
qed

lemma with_snapshots_ok:
  assumes r: "runCommandWithSnapshots cl def u c opts w = Some (x, w')"
    and nb: "null_blind def" and dv: "ro_expectedVersion opts = None" and lg: "writes_log (ctx_logger opts)"
    and s: "snapshots_ok def u w"
  shows "snapshots_ok def u w'"
  using r
proof (cases rule: with_snapshots_cases)
  case (3 rc w1 y w2)
  note s1 = ran_snapshots_ok [OF 3(1) s]
  from ran_replay [OF 3(1) nb dv] snapshots_ok_safe [OF s]
  have v: "replay def u (log_of w1) = Inr (rc_state rc)" "rc_version rc = int (length (stream_log u (log_of w1)))"
    by blast+
  have s2: "snapshots_ok def u w2" by (rule record_snapshots_ok [OF 3(2) s1]) (simp_all add: v)
  have warn: "snapshots_ok def u (warn (ctx_logger opts) (Thunk (\<lambda>w. (t, w))) w2)" for t
  proof -
    from lg obtain l where "warn (ctx_logger opts) (Thunk (\<lambda>w. (t, w))) w2 = w2\<lparr>w_log := l\<rparr>"
      by (auto simp: writes_log_def)
    with s2 show ?thesis by (simp add: snapshots_ok_def world_ok_def)
  qed
  from 3(5) s2 warn show ?thesis by blast
qed (use ran_snapshots_ok [OF _ s] in blast)+

end

section \<open>Returning\<close>

text \<open>Paging ends when the other clients leave the stream alone.\<close>

definition settled :: "string \<Rightarrow> world \<Rightarrow> bool" where
  "settled u w \<longleftrightarrow> (\<forall>w1. quiet w w1 \<longrightarrow> stream_log u (log_of w1) = stream_log u (log_of w))"

lemma settled_quiet: "settled u w \<Longrightarrow> quiet w w1 \<Longrightarrow> settled u w1"
  using quiet_trans by (auto simp: settled_def)

context event_client begin

lemma load_pages_returns:
  assumes "settled u w" "world_ok w"
  shows "load_pages cl def u l w \<noteq> None"
  using assms
proof (induction "length (stream_log u (log_of w)) - nat (ld_version l)" arbitrary: l w rule: less_induct)
  case less
  let ?xs = "stream_log u (log_of w)"
  obtain r w1 where rd: "cl_readStream cl u (ld_version l + 1) (of_nat LOAD_PAGE_SIZE) w = (r, w1)" by force
  note q = read_stream_quiet [OF rd]
  have ok1: "world_ok w1" using quiet_ok [OF q less.prems(2)] by blast
  have st: "settled u w1" by (rule settled_quiet [OF less.prems(1) q])
  have xs: "stream_log u (log_of w1) = ?xs" using less.prems(1) q unfolding settled_def by blast
  show ?case
  proof (cases r)
    case (Inl e)
    with rd show ?thesis by (subst load_pages.simps) simp
  next
    case (Inr page)
    show ?thesis
    proof (cases "\<exists>l1. page \<noteq> [] \<and> fold_page def l page = Inr l1 \<and> LOAD_PAGE_SIZE \<le> length page")
      case False
      with rd Inr show ?thesis by (subst load_pages.simps) (auto split: sum.split)
    next
      case True
      then obtain l1 where ne: "page \<noteq> []" and f: "fold_page def l page = Inr l1"
        and len: "\<not> length page < LOAD_PAGE_SIZE" by auto
      let ?v = "nat (ld_version l + 1) - 1"
      from read_stream_rows [OF less.prems(2) rd [unfolded Inr]] obtain rows where u: "u \<noteq> all_uuid"
        and page: "page = map recorded rows" and rows: "rows = take LOAD_PAGE_SIZE (drop ?v ?xs)"
        by (auto simp: page_param xs)
      have rne: "rows \<noteq> []" using ne page by simp
      let ?k = "?v + (length rows - 1)"
      have "length rows \<le> length ?xs - ?v" unfolding rows by simp
      moreover have "0 < length rows" using rne by simp
      ultimately have k: "?k < length ?xs" by linarith
      have nth: "rows ! i = ?xs ! (?v + i)" if "i < length rows" for i
        using that k unfolding rows by simp
      have "last rows = rows ! (length rows - 1)" using rne by (rule last_conv_nth)
      also have "\<dots> = ?xs ! ?k" using rne by (intro nth) simp
      finally have "o_stream_version (last rows) = Suc ?k" using version_at [OF less.prems(2) u k] by simp
      with fold_page_Inr [OF f [unfolded page]] rne have "ld_version l1 = int (Suc ?k)" by simp
      then have "nat (ld_version l1) = Suc ?k" by (simp only: nat_int)
      with k have "length ?xs - nat (ld_version l1) < length ?xs - nat (ld_version l)" by linarith
      from less.hyps [of w1 l1, unfolded xs, OF this st ok1] rd Inr ne f len show ?thesis
        by (subst load_pages.simps) simp
    qed
  qed
qed

lemma load_returns: "settled u w \<Longrightarrow> world_ok w \<Longrightarrow> loadAggregate cl def u w \<noteq> None"
proof -
  assume s: "settled u w" "world_ok w"
  obtain rs w1 where rd: "cl_readSnapshot cl u w = (rs, w1)" by force
  note q = read_snapshot_quiet [OF rd]
  have p: "load_pages cl def u l w1 = None \<longleftrightarrow> False" for l
    using load_pages_returns [OF settled_quiet [OF s(1) q] conjunct1 [OF quiet_ok [OF q s(2)]]] by blast
  show ?thesis using rd
    by (auto simp: loadAggregate_def Let_def p split: sum.split simp del: not_None_eq)
qed

lemma attempt_returns: "settled u w \<Longrightarrow> world_ok w \<Longrightarrow> attempt_once cl def u c explicit ca co w \<noteq> None"
  using load_returns [of u w def] by (auto simp: attempt_once_def Let_def split: sum.split prod.split)

lemma loop_returns:
  "settled u w \<Longrightarrow> world_ok w \<Longrightarrow> attempt_loop cl def u c explicit ca co left k err w \<noteq> None"
proof (induction left arbitrary: k err w)
  case (Suc left)
  obtain x w1 where a: "attempt_once cl def u c explicit ca co w = Some (x, w1)"
    using attempt_returns [OF Suc.prems, of def c explicit ca co] by auto
  show ?case
  proof (cases "\<exists>e. x = Inl e \<and> instance_of e WrongExpectedVersion \<and> explicit = None")
    case True
    then obtain e where e: "x = Inl e" "instance_of e WrongExpectedVersion" "explicit = None" by blast
    from attempt_err [OF a [unfolded e(1)] Suc.prems(2)] e have q: "quiet w w1" and ok: "world_ok w1" by blast+
    from Suc.IH [OF settled_quiet [OF Suc.prems(1) q] ok] a e show ?thesis by simp
  next
    case False
    with a show ?thesis by (auto split: sum.split)
  qed
qed simp

lemma execute_returns:
  assumes s: "settled u w" "world_ok w"
  shows "executeCommand cl def u c opts w \<noteq> None"
proof (cases "retry_budget opts")
  case (Inl a)
  then show ?thesis by (simp add: executeCommand_def)
next
  case (Inr b)
  from loop_returns [OF settled_quiet [OF s(1) started_quiet] conjunct1 [OF quiet_ok [OF started_quiet s(2)]]]
  show ?thesis unfolding executeCommand_loop [OF Inr] .
qed

end

end
