(* ===== verification/Aggregate_Properties.thy ===== *)
theory Aggregate_Properties
  imports Aggregate_Laws Store_Properties
begin

text \<open>
  Properties of the aggregate runner on the SDK's client: commands are linearised, retries follow
  the budget, snapshots stay replays, a command returns; and the two ways a snapshot goes wrong.
\<close>

section \<open>A sample aggregate\<close>

fun bump :: "json \<Rightarrow> domain_event \<Rightarrow> thrown + json" where
  "bump (JNum n) e = Inr (JNum (n + 1))"
| "bump j e = Inr j"

definition counter :: "unit aggregate_def" where
  "counter =
     \<lparr>ag_type = ''Counter'', ag_streamName = None, ag_initialState = JNum 0,
      ag_execute = (\<lambda>s c. Inr (ExecOne sample_event)), ag_apply = bump,
      ag_snapshotPolicy = Some (\<lambda>s v k. Inr True), ag_snapshotModuleVersion = Some ''1''\<rparr>"

lemma bump_blind: "null_blind counter"
proof -
  have "bump s (nulled e) = bump s e" for s e by (cases s) simp_all
  then show ?thesis by (simp add: null_blind_def counter_def)
qed

text \<open>Other clients that only append keep every snapshot a replay.\<close>

definition appends_only :: "(nat \<Rightarrow> env_step) \<Rightarrow> bool" where
  "appends_only env \<longleftrightarrow>
     (\<forall>n. \<forall>c \<in> set (ev_others (env n)). case c of CAppend _ _ _ _ \<Rightarrow> True | _ \<Rightarrow> False)"

lemma snap_valid_db:
  "snap_valid def u d \<Longrightarrow> prefix (store_log d) (store_log d') \<Longrightarrow> snaps d' = snaps d \<Longrightarrow> snap_valid def u d'"
  using snap_valid_grow [of "def" u "sample_world\<lparr>w_db := d\<rparr>" "sample_world\<lparr>w_db := d'\<rparr>"]
  by (simp add: log_of_def snap_of_def find_snapshot_def)

lemma appends_honest:
  assumes "appends_only env"
  shows "honest def u env"
proof -
  have one: "snap_valid def u (after c d)" if "wf_db d" "snap_valid def u d"
    "case c of CAppend _ _ _ _ \<Rightarrow> True | _ \<Rightarrow> False" for c d
  proof (cases "exec c d")
    case (Inr p)
    obtain r d' where p: "exec c d = Inr (r, d')" using Inr by (cases p) auto
    from that(3) p obtain su vt ver evs y where "append_to_stream su vt ver evs (Some (JObj [])) d = Inr (y, d')"
      by (cases c) (auto simp: tag_Inr)
    then have "snaps d' = snaps d" using append_step(4) that(1) by (auto simp: wf_db_def)
    with snap_valid_db [OF that(2) prefix_after [OF that(1), of c]] p show ?thesis by (simp add: after_def)
  qed (simp add: after_def that)
  have run: "wf_db d \<Longrightarrow> snap_valid def u d \<Longrightarrow> \<forall>c \<in> set cs. case c of CAppend _ _ _ _ \<Rightarrow> True | _ \<Rightarrow> False
      \<Longrightarrow> snap_valid def u (fold after cs d)" for cs d
    by (induction cs arbitrary: d) (auto simp: wf_after one)
  have pass: "snap_valid def u (pass ms d) = snap_valid def u d" for ms d
  proof -
    have "find_snapshot u (pass ms d) = find_snapshot u d" by (simp add: find_snapshot_def pass_def)
    then show ?thesis by (simp only: snap_valid_def store_log_pass)
  qed
  show ?thesis
    using assms run [OF wf_pass] by (auto simp: honest_def interfere_def pass appends_only_def)
qed

text \<open>A rival that appends to the same stream while our append is under way.\<close>

definition rival_append :: call where
  "rival_append =
     CAppend (Some ''Counter-a'') (Some ''any'') None
       (Some (JArr [JObj [(''event_id'', JStr ''00000000-0000-4000-8000-0000000000bb''),
                          (''event_type'', JStr ''Opened''), (''data'', JNum 7)]]))"

definition contended_world :: world where
  "contended_world =
     sample_world\<lparr>w_env := (\<lambda>n. if n = 2 then calm\<lparr>ev_others := [rival_append]\<rparr> else calm),
                  w_uuids := (\<lambda>n. if n = 0 then ''00000000-0000-4000-8000-0000000000aa''
                                  else if n = 1 then ''00000000-0000-4000-8000-0000000000ab''
                                  else ''00000000-0000-4000-8000-0000000000ac'')\<rparr>"

lemma contended_ok:
  "world_ok contended_world" "snapshots_ok counter u contended_world" "snap_safe counter u contended_world"
proof -
  show ok: "world_ok contended_world"
    using wf_reachable [OF reach_init]
    by (simp add: world_ok_def contended_world_def sample_world_def env_ok_def calm_def)
  have "appends_only (w_env contended_world)"
    by (simp add: appends_only_def contended_world_def calm_def rival_append_def)
  then have h: "honest counter u (w_env contended_world)" by (rule appends_honest)
  have v: "snap_valid counter u (w_db contended_world)"
    by (simp add: snap_valid_def contended_world_def sample_world_def initial_db_def find_snapshot_def)
  from ok h v show "snapshots_ok counter u contended_world" by (simp add: snapshots_ok_def)
  from honest_safe [OF h ok v] show "snap_safe counter u contended_world" .
qed

definition ran :: "((thrown + 'a) \<times> world) option \<Rightarrow> bool" where
  "ran m = (case m of None \<Rightarrow> False | Some (x, _) \<Rightarrow> (case x of Inl _ \<Rightarrow> False | Inr _ \<Rightarrow> True))"

lemma ranE:
  assumes "ran m"
  obtains x w where "m = Some (Inr x, w)"
  using assms by (auto simp: ran_def split: option.splits sum.splits)

lemma contended_run: "ran (executeCommand pg_client counter ''Counter-a'' () no_options contended_world)"
  by code_simp

lemma attempt_loop_explicit':
  "attempt_loop cl def u c (Some v) ca co (Suc left) k err w = attempt_once cl def u c (Some v) ca co w"
  by (auto split: option.splits sum.splits)

section \<open>Commands\<close>





text \<open>An expected version of the caller's own is the caller's assertion: there is one attempt,
  whatever the budget, and its outcome is the command's.\<close>

theorem explicit_version_one_attempt:
  assumes "retry_budget opts = Inr b" "ro_expectedVersion opts = Some v"
  shows "executeCommand cl def u c opts w =
     attempt_once cl def u c (Some v) (causation opts w) (ro_correlationId opts) (snd (started opts w))"
  unfolding executeCommand_loop [OF assms(1)] assms(2) by (rule attempt_loop_explicit')

theorem explicit_version_one_attempt_witness:
  "executeCommand pg_client counter ''Counter-a'' () (no_options\<lparr>ro_expectedVersion := Some NoStream\<rparr>) contended_world
     = attempt_once pg_client counter ''Counter-a'' () (Some NoStream)
         (causation (no_options\<lparr>ro_expectedVersion := Some NoStream\<rparr>) contended_world) None
         (snd (started (no_options\<lparr>ro_expectedVersion := Some NoStream\<rparr>) contended_world))"
proof -
  have b: "retry_budget (no_options\<lparr>ro_expectedVersion := Some NoStream\<rparr>) = Inr 5"
    by code_simp
  have v: "ro_expectedVersion (no_options\<lparr>ro_expectedVersion := Some NoStream\<rparr>) = Some NoStream"
    and n: "ro_correlationId (no_options\<lparr>ro_expectedVersion := Some NoStream\<rparr>) = None"
    by (simp_all add: no_options_def)
  show ?thesis by (rule explicit_version_one_attempt [OF b v, unfolded n])
qed

text \<open>Attempts that end in a version conflict write nothing: after any number of them the database
  is what the other clients alone made of it.\<close>

theorem conflicts_write_nothing:
  assumes "conflicts pg_client def u c ca co n w err w' err'" "world_ok w"
  shows "quiet w w'"
  using pgc.conflicts_quiet [OF assms(1) refl assms(2)] .

theorem conflicts_write_nothing_witness:
  "\<exists>n w' err. conflicts pg_client counter ''Counter-a'' () (causation no_options contended_world) None n
       (snd (started no_options contended_world)) None w' err
     \<and> 0 < n \<and> quiet (snd (started no_options contended_world)) w'"
proof -
  let ?w = "snd (started no_options contended_world)"
  have "(case attempt_once pg_client counter ''Counter-a'' () None (causation no_options contended_world) None ?w of
      Some (Inl e, _) \<Rightarrow> instance_of e WrongExpectedVersion | _ \<Rightarrow> False)"
    by code_simp
  then obtain e w1 where a: "attempt_once pg_client counter ''Counter-a'' () None
      (causation no_options contended_world) None ?w = Some (Inl e, w1)" "instance_of e WrongExpectedVersion"
    by (auto split: option.splits sum.splits)
  have c: "conflicts pg_client counter ''Counter-a'' () (causation no_options contended_world) None (Suc 0) ?w None w1 (Some e)"
    by (rule conflicts.more [OF a]) (rule conflicts.none)
  have ok: "world_ok ?w" using quiet_ok [OF started_quiet contended_ok(1)] by blast
  from conflicts_write_nothing [OF c ok] c show ?thesis by (intro exI [of _ "Suc 0"]) auto
qed

section \<open>Snapshots\<close>



text \<open>A snapshot is best effort: once the events are committed and the policy has answered, the
  command returns them, whatever becomes of the snapshot write.\<close>

theorem snapshot_never_fails_command:
  assumes "runCommandAndApply cl def u c opts w = Some (Inr rc, w1)"
    and "ag_snapshotPolicy def = Some pol" "pol (rc_state rc) (rc_version rc) (rc_since rc) = Inr b"
  shows "\<exists>w'. runCommandWithSnapshots cl def u c opts w = Some (Inr (rc_appended rc), w')"
  using assms by (auto simp: runCommandWithSnapshots_def Let_def split: sum.split prod.split bool.split)

theorem snapshot_never_fails_command_witness:
  "\<exists>rc w1 w'. runCommandAndApply pg_client counter ''Counter-a'' () no_options contended_world = Some (Inr rc, w1)
     \<and> runCommandWithSnapshots pg_client counter ''Counter-a'' () no_options contended_world
        = Some (Inr (rc_appended rc), w')"
proof -
  have "ran (runCommandAndApply pg_client counter ''Counter-a'' () no_options contended_world)" by code_simp
  then obtain rc w1 where r: "runCommandAndApply pg_client counter ''Counter-a'' () no_options contended_world
      = Some (Inr rc, w1)" by (elim ranE)
  from snapshot_never_fails_command [OF r, of "\<lambda>s v k. Inr True" True] r show ?thesis
    by (auto simp: counter_def)
qed

text \<open>C39. A command returns: if the other clients leave the stream alone, loading pages through it and
  the attempts come to an end, with a result or an error.\<close>

theorem command_returns:
  assumes "settled u w" "world_ok w"
  shows "\<exists>x w'. executeCommand pg_client def u c opts w = Some (x, w')"
  using pgc.execute_returns [OF assms, of "def" c opts] by auto

lemma sample_settled: "settled u sample_world"
proof -
  have i: "interfere calm d = d" for d by (simp add: interfere_def calm_def pass_def)
  have "fold interfere (replicate n calm) d = d" for n d by (induction n) (simp_all add: i)
  moreover have "map (\<lambda>_. calm) [a..<b] = replicate (b - a) calm" for a b by (simp add: map_replicate_const)
  ultimately show ?thesis by (auto simp: settled_def quiet_def sample_world_def log_of_def)
qed

theorem command_returns_witness:
  "\<exists>x w'. executeCommand pg_client counter ''Counter-a'' () no_options sample_world = Some (x, w')"
  by (rule command_returns [OF sample_settled sample_world_ok])


fun count_bare :: "json \<Rightarrow> domain_event \<Rightarrow> thrown + json" where
  "count_bare (JNum n) e = Inr (JNum (if de_metadata e = None then n + 1 else n))"
| "count_bare j e = Inr j"

text \<open>The fold after an append sees the events as the handler wrote them, a load sees them as the
  database returns them: an \<open>apply\<close> that tells an absent metadata from null gives a snapshot no
  replay gives.\<close>

theorem absent_metadata_snapshot_differs:
  "case runCommandWithSnapshots pg_client (counter\<lparr>ag_apply := count_bare\<rparr>) ''Counter-a'' ()
      no_options sample_world of
     Some (Inr rows, w') \<Rightarrow>
       replay (counter\<lparr>ag_apply := count_bare\<rparr>) ''Counter-a'' (log_of w') = Inr (JNum 0)
       \<and> map_option (\<lambda>s. (sn_source_version s, sn_data s)) (snap_of ''Counter-a'' w') = Some (1, JNum 1)
   | _ \<Rightarrow> False"
  by code_simp

end
