(* ===== verification/Queue_Client.thy ===== *)
theory Queue_Client
  imports Event_Client Queue_Laws
begin

text \<open>
  The queue half of the client as an interface: \<open>queue_client\<close> lists what the workers and the
  consistency wait rely on, stated over the tables of the database when the call takes effect, and
  is interpreted on the methods of Client.thy.
\<close>

section \<open>Event numbers as JavaScript numbers\<close>

lemma decision_row_exact:
  assumes "\<bar>rd_event_number x\<bar> \<le> 2 ^ 53"
  shows "decision_row k n (decision_json x) = Inr
     \<lparr>i_stream = k, i_sub = n, i_partition = rd_partition_key x, i_event = rd_event_number x,
      i_state = Pending, i_claimed_by = None, i_lease = None, i_failed_at = None, i_error = None\<rparr>"
proof -
  have "bigint_in (show_int (rd_event_number x)) = Inr (rd_event_number x)"
    using assms unfolding bigint_in_show by simp linarith
  with Number_exact [OF assms] show ?thesis by (simp add: decision_row_def decision_json_def)
qed

section \<open>One awaited call\<close>

text \<open>A method makes one query: one turn of the world, and nothing is logged.\<close>

definition one_call :: "'a io \<Rightarrow> bool" where
  "one_call m \<longleftrightarrow> (\<forall>w r w'. m w = (r, w') \<longrightarrow>
     extends_world w w' \<and> w_log w' = w_log w \<and> w_pos w' = Suc (w_pos w))"

lemma one_callD: "one_call m \<Longrightarrow> m w = (r, w') \<Longrightarrow>
    extends_world w w' \<and> w_log w' = w_log w \<and> w_pos w' = Suc (w_pos w)"
  by (simp add: one_call_def)

lemma one_call_run: "one_call (bind_io (run c ctx) (\<lambda>r. lift_io (f r)))"
  using run_extends run_pos by (fastforce simp: one_call_def bind_io_def lift_io_def split: prod.splits sum.splits)

lemma unit_reply_lift: "unit_reply = (\<lambda>r. lift_io (Inr ()))"
  by (simp add: unit_reply_def return_io_def lift_io_def fun_eq_iff)

lemmas queue_methods = claimSubscription_def releaseSubscription_def routeBatch_def claimWorkItem_def
  extendWorkItemClaim_def completeWorkItemProjection_def completeWorkItemPm_def completePmInstance_def
  isSubscriptionCaughtUp_def listPmRebuildEvents_def readAll_def unit_reply_lift

lemma extends_ok: "extends_world w w' \<Longrightarrow> world_ok w \<Longrightarrow> world_ok w' \<and> prefix (log_of w) (log_of w')"
  by (simp add: extends_world_def world_ok_def log_of_def)

text \<open>The world a query meets: the turn is over, the procedure has not run yet.\<close>

lemma run_effect:
  assumes "run c ctx w = (Inr r, w')"
  obtains c1 w0 where "c = Inr c1" "quiet w w0" "w_pos w0 = Suc (w_pos w)"
    "exec (with_locks (w_env w (w_pos w)) c1) (w_db w0) = Inr (r, w_db w')"
    "w_env w' = w_env w"
proof (rule run_Inr [OF assms])
  fix c1 d
  assume a: "c = Inr c1" "exec (with_locks (w_env w (w_pos w)) c1) d = Inr (r, w_db w')"
    "d = interfere (w_env w (w_pos w)) (w_db w)"
  let ?w0 = "w'\<lparr>w_db := d\<rparr>"
  have "quiet w ?w0" by (rule quiet_turn) (use run_pos [OF assms] a in simp_all)
  with a that [of c1 ?w0] run_pos [OF assms] show thesis by simp
qed

section \<open>What the methods do\<close>

text \<open>The work item a routing decision becomes.\<close>

definition new_item :: "nat \<Rightarrow> string \<Rightarrow> route_decision \<Rightarrow> item_row \<Rightarrow> bool" where
  "new_item k n x i \<longleftrightarrow> item_key k n (rd_partition_key x) (rd_event_number x) i"

lemma claim_sub_row:
  assumes "claimSubscription u n wk lease sf w = (Inr (Claimed ls ho ex), w')"
  shows "\<exists>s b. find_stream u (w_db w') = Some s \<and> find_sub (s_id s) n (w_db w') = Some b
     \<and> ls = int (b_last_seen b) \<and> b_claimed_by b = Some wk"
proof -
  from assms obtain r where run: "run (bind_sum (int_param lease) (\<lambda>secs.
        Inr (CClaimSub False (Some u) (Some n) (Some wk) (Some secs) (Some (JObj (start_from_option sf))))))
        (sub_ctx u n) w = (Inr r, w')"
    and m: "(case r of RClaim rows \<Rightarrow> mapClaim rows | _ \<Rightarrow> no_row ''result'') = Inr (Claimed ls ho ex)"
    by (auto simp: claimSubscription_def bind_io_Inr lift_io_eq)
  show ?thesis
  proof (rule run_effect [OF run])
    fix c1 w0
    assume "bind_sum (int_param lease) (\<lambda>secs. Inr (CClaimSub False (Some u) (Some n) (Some wk) (Some secs)
        (Some (JObj (start_from_option sf))))) = Inr c1"
      and x: "exec (with_locks (w_env w (w_pos w)) c1) (w_db w0) = Inr (r, w_db w')"
    then obtain secs where "c1 = CClaimSub False (Some u) (Some n) (Some wk) (Some secs) (Some (JObj (start_from_option sf)))"
      by (auto simp: bind_sum_Inr)
    with x obtain rows where c: "claim_subscription (ev_locked (w_env w (w_pos w))) (Some u) (Some n) (Some wk)
        (Some secs) (Some (JObj (start_from_option sf))) (w_db w0) = Inr (rows, w_db w')" and r: "r = RClaim rows"
      by (auto simp: tag_Inr)
    from m r obtain row rest where rows: "rows = row # rest" "q_claimed row" "ls = int (q_last_seen row)"
      by (cases rows) (auto simp: mapClaim_def no_row_def Let_def bind_sum_Inr split: if_splits option.splits)
    from c obtain s where s: "find_stream u (w_db w0) = Some s"
      by (auto simp: claim_subscription_def check_defs sum_iffs Let_def split: option.splits)
    show ?thesis
    proof (cases "find_sub (s_id s) n (w_db w0)")
      case None
      with c s rows have d': "(w_db w0)\<lparr>subs := subs (w_db w0) @
          [\<lparr>b_stream = s_id s, b_name = n, b_last_seen = q_last_seen row, b_claimed_by = Some wk,
            b_expires = Some (now (w_db w0) + 1000 * secs), b_created = now (w_db w0)\<rparr>]\<rparr> = w_db w'"
        by (auto simp: claim_subscription_def check_defs sum_iffs Let_def granted_def)
      note d'' = d' [symmetric]
      have "find P (xs @ [y]) = (case find P xs of None \<Rightarrow> if P y then Some y else None | z \<Rightarrow> z)"
        for P :: "sub_row \<Rightarrow> bool" and xs y by (induction xs) auto
      then show ?thesis using s None rows by (simp add: d'' find_sub_def find_stream_def)
    next
      case (Some b)
      with c s rows have d': "w_db w' = update_sub (s_id s) n
          (\<lambda>r. r\<lparr>b_claimed_by := Some wk, b_expires := Some (now (w_db w0) + 1000 * secs)\<rparr>) (w_db w0)"
        and "q_last_seen row = b_last_seen b"
        by (auto simp: claim_subscription_def check_defs sum_iffs Let_def granted_def refused_def split: if_splits)
      then show ?thesis using s Some rows by (simp add: find_update_sub find_stream_def)
    qed
  qed
qed

lemma readAll_quiet: "readAll from qty w = (r, w') \<Longrightarrow> quiet w w'"
  unfolding readAll_def by (rule bind_run_quiet) (auto intro!: reading_bind reading_calls)

lemma readAll_rows:
  assumes ok: "world_ok w" and r: "readAll from qty w = (Inr rows, w')"
  shows "\<exists>q. int_param qty = Inr q \<and> 0 < q \<and> 0 \<le> from
     \<and> rows = map recorded (take (nat q) (drop (nat from - 1) (log_of w')))"
proof -
  from r obtain rep where run: "run (bind_sum (bigint_param from) (\<lambda>f. bind_sum (int_param qty) (\<lambda>q.
      Inr (CReadAll (Some f) (Some q))))) no_ctx w = (Inr rep, w')"
    and m: "mapEvents rep = Inr rows"
    by (auto simp: readAll_def bind_io_Inr lift_io_eq)
  show ?thesis
  proof (rule run_effect [OF run])
    fix c1 w0
    assume c: "bind_sum (bigint_param from) (\<lambda>f. bind_sum (int_param qty) (\<lambda>q.
        Inr (CReadAll (Some f) (Some q)))) = Inr c1" and q0: "quiet w w0"
      and x: "exec (with_locks (w_env w (w_pos w)) c1) (w_db w0) = Inr (rep, w_db w')"
    from c obtain q where q: "int_param qty = Inr q" and c1: "c1 = CReadAll (Some from) (Some q)"
      by (auto simp: bind_sum_Inr bigint_param_def bigint_in_show)
    from x c1 obtain rws where rs: "read_all (Some from) (Some q) (Some (JObj [])) (w_db w0) = Inr (rws, w_db w')"
      and rep: "rep = REvents rws" by (auto simp: tag_Inr)
    have wf: "wf_events (w_db w0)" using quiet_ok [OF q0 ok] by (auto simp: world_ok_def wf_db_def)
    note R = read_all_Inr [OF wf rs]
    from m rep have "rows = map recorded rws" by simp
    with R q show ?thesis by (auto simp: log_of_def)
  qed
qed

lemma insert_items_mem:
  "i \<in> set (insert_items rows old) \<Longrightarrow> i \<in> set old \<or> i \<in> set rows"
  using insert_items_grow [of rows old] by auto

lemma route_effect:
  assumes "routeBatch u n wk cur decs w = (Inr rb, w')"
  shows "\<exists>w0 s b. quiet w w0 \<and> find_stream u (w_db w0) = Some s \<and> find_sub (s_id s) n (w_db w0) = Some b
     \<and> b_claimed_by b = Some wk \<and> find_stream u (w_db w') = Some s
     \<and> find_sub (s_id s) n (w_db w') = Some (b\<lparr>b_last_seen := max (b_last_seen b) (nat cur)\<rparr>)
     \<and> log_of w' = log_of w0
     \<and> (\<forall>x \<in> set decs. \<bar>rd_event_number x\<bar> \<le> 2 ^ 53 \<longrightarrow> (\<exists>i \<in> set (items (w_db w')). new_item (s_id s) n x i))"
proof -
  from assms obtain r where run: "run (bind_sum (bigint_param cur) (\<lambda>c.
        Inr (CRouteBatch (Some u) (Some n) (Some wk) (Some c) (Some (JArr (map decision_json decs))))))
        (sub_ctx u n) w = (Inr r, w')"
    by (auto simp: routeBatch_def bind_io_Inr lift_io_eq)
  show ?thesis
  proof (rule run_effect [OF run])
    fix c1 w0
    assume c: "bind_sum (bigint_param cur) (\<lambda>c. Inr (CRouteBatch (Some u) (Some n) (Some wk) (Some c)
        (Some (JArr (map decision_json decs))))) = Inr c1" and q0: "quiet w w0"
      and x: "exec (with_locks (w_env w (w_pos w)) c1) (w_db w0) = Inr (r, w_db w')"
    from c have c1: "c1 = CRouteBatch (Some u) (Some n) (Some wk) (Some cur) (Some (JArr (map decision_json decs)))"
      by (auto simp: bind_sum_Inr bigint_param_def bigint_in_show)
    from x c1 obtain s b its where s: "find_stream u (w_db w0) = Some s" and b: "find_sub (s_id s) n (w_db w0) = Some b"
      and h: "b_claimed_by b = Some wk" and its: "map_sum_list (decision_row (s_id s) n) (map decision_json decs) = Inr its"
      and d': "w_db w' = (update_sub (s_id s) n (\<lambda>r. r\<lparr>b_last_seen := max (b_last_seen b) (nat cur)\<rparr>) (w_db w0))
        \<lparr>items := insert_items its (items (w_db w0))\<rparr>"
      by (auto simp: tag_Inr route_batch_def check_defs lookup_defs sum_iffs Let_def null_or_empty_def null_or_neg_def
          split: option.splits if_splits)
    have "\<exists>i \<in> set (items (w_db w')). new_item (s_id s) n x i"
      if x: "x \<in> set decs" "\<bar>rd_event_number x\<bar> \<le> 2 ^ 53" for x
    proof -
      from x(1) obtain m where "m < length decs" "x = decs ! m" by (auto simp: in_set_conv_nth)
      with its decision_row_exact [OF x(2)] have "\<lparr>i_stream = s_id s, i_sub = n, i_partition = rd_partition_key x,
          i_event = rd_event_number x, i_state = Pending, i_claimed_by = None, i_lease = None,
          i_failed_at = None, i_error = None\<rparr> \<in> set its" (is "?i \<in> _")
        by (auto simp: map_sum_list_Inr list_all2_conv_all_nth in_set_conv_nth dest!: spec [of _ m])
      from insert_items_has [OF this, of "items (w_db w0)"] show ?thesis
        by (auto simp: d' same_item_iff full_key_def new_item_def item_key_def item_of_def)
    qed
    moreover have "log_of w' = log_of w0"
      by (simp add: log_of_def d' store_log_def glinks_def update_sub_def)
    moreover have "find_sub (s_id s) n (w_db w') = Some (b\<lparr>b_last_seen := max (b_last_seen b) (nat cur)\<rparr>)"
      using b find_update_sub [of "\<lambda>r. r\<lparr>b_last_seen := max (b_last_seen b) (nat cur)\<rparr>" "s_id s" n "s_id s" n "w_db w0"]
      by (simp add: d' find_sub_def)
    ultimately show ?thesis using q0 s b h by (auto simp: d' find_stream_def)
  qed
qed

lemma caught_up_quiet: "isSubscriptionCaughtUp u n target w = (r, w') \<Longrightarrow> quiet w w'"
  unfolding isSubscriptionCaughtUp_def by (rule bind_run_quiet) (auto intro!: reading_bind reading_calls)

lemma caught_up_true:
  assumes "isSubscriptionCaughtUp u n target w = (Inr True, w')"
  shows "\<exists>s. find_stream u (w_db w') = Some s \<and> caught_up (s_id s) n target (w_db w')"
proof -
  from assms obtain r where run: "run (bind_sum (bigint_param target) (\<lambda>t.
        Inr (CCaughtUp (Some u) (Some n) (Some t)))) (sub_ctx u n) w = (Inr r, w')"
    and m: "(case r of RBools (b # _) \<Rightarrow> Inr b | _ \<Rightarrow> no_row ''caught_up'') = Inr True"
    by (auto simp: isSubscriptionCaughtUp_def bind_io_Inr lift_io_eq)
  show ?thesis
  proof (rule run_effect [OF run])
    fix c1 w0
    assume c: "bind_sum (bigint_param target) (\<lambda>t. Inr (CCaughtUp (Some u) (Some n) (Some t))) = Inr c1"
      and x: "exec (with_locks (w_env w (w_pos w)) c1) (w_db w0) = Inr (r, w_db w')"
    from c have c1: "c1 = CCaughtUp (Some u) (Some n) (Some target)"
      by (auto simp: bind_sum_Inr bigint_param_def bigint_in_show)
    with x obtain bs where e: "is_subscription_caught_up (Some u) (Some n) (Some target) (Some (JObj [])) (w_db w0)
        = Inr (bs, w_db w')" and r: "r = RBools bs" by (auto simp: tag_Inr)
    then obtain s b where s: "find_stream u (w_db w0) = Some s" and b: "find_sub (s_id s) n (w_db w0) = Some b"
      and a: "n \<noteq> []" "0 \<le> target"
      by (auto simp: is_subscription_caught_up_def check_defs lookup_defs sum_iffs null_or_empty_def null_or_neg_def
          split: option.splits)
    from is_caught_up_reply [OF s _ a, of "Some (JObj [])"] b e m r show ?thesis
      using s by auto
  qed
qed

lemma run_error_class:
  assumes "run c ctx w = (Inl t, w')"
  shows "\<exists>p. t = mapPgError (PgErr p) ctx"
proof -
  from assms obtain t0 where "query c w = (Inl t0, w')" "t = mapPgError t0 ctx"
    by (auto simp: run_def split: prod.splits sum.splits)
  then show ?thesis by (auto simp: query_def Let_def split: prod.splits sum.splits fault.splits)
qed

lemma caught_up_error:
  assumes "isSubscriptionCaughtUp u n target w = (Inl e, w')"
  shows "\<not> instance_of e ConsistencyTimeout"
proof -
  have reply: "x = type_error (''Cannot read properties of undefined (reading '' @ ''caught_up'' @ '')'')"
    if "(case r of RBools (b # _) \<Rightarrow> Inr b | _ \<Rightarrow> no_row ''caught_up'') = Inl x" for r x
    using that by (cases r) (auto simp: no_row_def split: list.splits)
  from assms have "(\<exists>p. e = mapPgError (PgErr p) (sub_ctx u n))
      \<or> e = type_error (''Cannot read properties of undefined (reading '' @ ''caught_up'' @ '')'')"
    unfolding isSubscriptionCaughtUp_def bind_io_Inl lift_io_eq using run_error_class reply by metis
  then show ?thesis
  proof
    assume "\<exists>p. e = mapPgError (PgErr p) (sub_ctx u n)"
    then obtain p where e: "e = mapPgError (PgErr p) (sub_ctx u n)" ..
    have "k \<noteq> ConsistencyTimeout \<and> \<not> k \<le> ConsistencyTimeout" if "map_of catalogue c = Some k" for c k
      using that by (auto simp: catalogue_def subclass_iff split: if_splits)
    then show ?thesis
      unfolding e instance_of_def mapPgError_class_iff by (auto simp: subclass_iff split: option.splits)
  qed (simp add: instance_of_def subclass_iff)
qed

section \<open>The interface\<close>

locale queue_client =
  fixes cl :: client
  assumes claim_sub_call: "one_call (cl_claimSubscription cl u n wk lease sf)"
    and release_call: "one_call (cl_releaseSubscription cl u n wk)"
    and route_call: "one_call (cl_routeBatch cl u n wk cur decs)"
    and claim_item_call: "one_call (cl_claimWorkItem cl u n wk lease)"
    and extend_item_call: "one_call (cl_extendWorkItemClaim cl u n wk p e lease)"
    and complete_projection_call: "one_call (cl_completeWorkItemProjection cl u n wk p e)"
    and complete_pm_call: "one_call (cl_completeWorkItemPm cl u n wk p e si)"
    and complete_instance_call: "one_call (cl_completePmInstance cl u n p snu)"
    and caught_up_call: "one_call (cl_isSubscriptionCaughtUp cl u n target)"
    and rebuild_call: "one_call (cl_listPmRebuildEvents cl u n p e)"
    and read_all_call: "one_call (cl_readAll cl from qty)"
    and read_stream_call: "one_call (cl_readStream cl u from qty)"
    and claim_sub_row: "cl_claimSubscription cl u n wk lease sf w = (Inr (Claimed ls ho ex), w') \<Longrightarrow>
      \<exists>s b. find_stream u (w_db w') = Some s \<and> find_sub (s_id s) n (w_db w') = Some b
        \<and> ls = int (b_last_seen b) \<and> b_claimed_by b = Some wk"
    and read_all_quiet: "cl_readAll cl from qty w = (y, w') \<Longrightarrow> quiet w w'"
    and read_all_rows: "world_ok w \<Longrightarrow> cl_readAll cl from qty w = (Inr rows, w') \<Longrightarrow>
      \<exists>q. int_param qty = Inr q \<and> 0 < q \<and> 0 \<le> from
        \<and> rows = map recorded (take (nat q) (drop (nat from - 1) (log_of w')))"
    and route_effect: "cl_routeBatch cl u n wk cur decs w = (Inr rb, w') \<Longrightarrow>
      \<exists>w0 s b. quiet w w0 \<and> find_stream u (w_db w0) = Some s \<and> find_sub (s_id s) n (w_db w0) = Some b
        \<and> b_claimed_by b = Some wk \<and> find_stream u (w_db w') = Some s
        \<and> find_sub (s_id s) n (w_db w') = Some (b\<lparr>b_last_seen := max (b_last_seen b) (nat cur)\<rparr>)
        \<and> log_of w' = log_of w0
        \<and> (\<forall>x \<in> set decs. \<bar>rd_event_number x\<bar> \<le> 2 ^ 53 \<longrightarrow> (\<exists>i \<in> set (items (w_db w')). new_item (s_id s) n x i))"
    and caught_up_quiet: "cl_isSubscriptionCaughtUp cl u n target w = (t, w') \<Longrightarrow> quiet w w'"
    and caught_up_error: "cl_isSubscriptionCaughtUp cl u n target w = (Inl err, w') \<Longrightarrow> \<not> instance_of err ConsistencyTimeout"
    and caught_up_true: "cl_isSubscriptionCaughtUp cl u n target w = (Inr True, w') \<Longrightarrow>
      \<exists>s. find_stream u (w_db w') = Some s \<and> caught_up (s_id s) n target (w_db w')"

lemma one_call_methods:
  "one_call (claimSubscription u n wk lease sf)" "one_call (releaseSubscription u n wk)"
  "one_call (routeBatch u n wk cur decs)" "one_call (claimWorkItem u n wk lease)"
  "one_call (extendWorkItemClaim u n wk p e lease)" "one_call (completeWorkItemProjection u n wk p e)"
  "one_call (completeWorkItemPm u n wk p e si)" "one_call (completePmInstance u n p snu)"
  "one_call (isSubscriptionCaughtUp u n target)" "one_call (listPmRebuildEvents u n p e)"
  "one_call (readAll from qty)" "one_call (readStream u from qty)"
  unfolding queue_methods readStream_def by (rule one_call_run)+

interpretation pgq: queue_client pg_client
  by (unfold_locales; unfold pg_client_def client.select_convs)
     ((rule one_call_methods) | (rule claim_sub_row; assumption) | (rule readAll_quiet; assumption)
      | (rule readAll_rows; assumption) | (rule route_effect; assumption)
      | (rule caught_up_quiet; assumption) | (rule caught_up_error; assumption) | (rule caught_up_true; assumption))+

end
