(* ===== verification/Consistency.thy ===== *)
theory Consistency
  imports Queue_Client
begin

text \<open>
  consistency/consistency.ts: waiting until every named subscription has caught up with an append.
  The subscriptions still awaited are a JavaScript Map keyed by \<open>stream::name\<close>. The polling loop is a partial function
  (\<open>None\<close> is not returning); that it returns is a theorem.
\<close>

section \<open>Options and references\<close>

record wait_options =
  wo_pollInterval :: "rat option"
  wo_timeout :: "rat option"

record subscription_ref =
  sr_stream :: string
  sr_name :: string

definition DEFAULT_WAIT_POLL_INTERVAL_MS :: rat where
  "DEFAULT_WAIT_POLL_INTERVAL_MS = 25"

definition DEFAULT_WAIT_TIMEOUT_MS :: rat where
  "DEFAULT_WAIT_TIMEOUT_MS = 5000"

definition refKey :: "subscription_ref \<Rightarrow> string" where
  "refKey s = sr_stream s @ ''::'' @ sr_name s"

section \<open>waitForProjection\<close>

text \<open>The texts joined with \<open>, \<close> of \<open>[...].join(', ')\<close>.\<close>

fun join_comma :: "string list \<Rightarrow> string" where
  "join_comma [] = []"
| "join_comma [s] = s"
| "join_comma (s # ss) = s @ '', '' @ join_comma ss"

definition target_error :: "string list \<Rightarrow> subscription_ref \<Rightarrow> thrown" where
  "target_error names sub =
     Err ConsistencyTargetError
       (''waitForProjection: per-stream subscription target \"'' @ sr_stream sub @ ''::'' @ sr_name sub
        @ ''\" cannot wait on an append to ['' @ join_comma names
        @ '']. A per-stream subscription on stream X can only wait on appends to stream X. Use { stream: \"$all\", name } if the subscription is cross-stream.'')
       None None None (TargetFields (sr_stream sub) (sr_name sub) names) None"

text \<open>The first reference to a stream the append did not touch is rejected (CON-B).\<close>

fun check_targets :: "string list \<Rightarrow> subscription_ref list \<Rightarrow> thrown + unit" where
  "check_targets names [] = Inr ()"
| "check_targets names (sub # rest) =
     (if sr_stream sub = all_uuid then check_targets names rest
      else if sr_stream sub \<notin> set names then Inl (target_error names sub)
      else check_targets names rest)"

text \<open>\<open>rows.reduce((m, r) => r.event_number > m ? r.event_number : m, rows[0].event_number)\<close>\<close>

definition wait_target :: "appended_event list \<Rightarrow> int" where
  "wait_target rows =
     fold (\<lambda>r m. if ae_event_number r > m then ae_event_number r else m) rows (ae_event_number (hd rows))"

text \<open>A subscription that does not exist yet is not caught up; every other error surfaces.\<close>

definition poll_ref :: "client \<Rightarrow> int \<Rightarrow> subscription_ref \<Rightarrow> bool io" where
  "poll_ref cl target sub =
     catch_io (cl_isSubscriptionCaughtUp cl (sr_stream sub) (sr_name sub) target)
       (\<lambda>err. if instance_of err InstructedError \<and> code_of err = Some ''IS020'' then return_io False
              else throw_io err)"

text \<open>One round: the entries present at its start, in order; those caught up leave the map.\<close>

fun poll_round ::
  "client \<Rightarrow> int \<Rightarrow> (string \<times> subscription_ref) list \<Rightarrow> (string \<times> subscription_ref) list
     \<Rightarrow> (string \<times> subscription_ref) list io" where
  "poll_round cl target [] remaining = return_io remaining"
| "poll_round cl target ((k, sub) # es) remaining =
     bind_io (poll_ref cl target sub) (\<lambda>caughtUp.
       poll_round cl target es (if caughtUp then map_delete k remaining else remaining))"

definition timeout_error :: "rat \<Rightarrow> (string \<times> subscription_ref) list \<Rightarrow> thrown" where
  "timeout_error timeout remaining =
     Err ConsistencyTimeout
       (''waitForProjection: timed out after '' @ show_num timeout @ ''ms waiting for ''
        @ show_nat (length remaining) @ '' subscription(s)'')
       None None None (TimeoutFields timeout (map (refKey \<circ> snd) remaining)) None"

partial_function (option) wait_loop ::
  "client \<Rightarrow> int \<Rightarrow> rat \<Rightarrow> rat \<Rightarrow> rat \<Rightarrow> (string \<times> subscription_ref) list \<Rightarrow> world
     \<Rightarrow> ((thrown + unit) \<times> world) option" where
  "wait_loop cl target pollInterval timeout deadline remaining w =
     (if remaining = [] then Some (Inr (), w)
      else case poll_round cl target remaining remaining w of
             (Inl e, w1) \<Rightarrow> Some (Inl e, w1)
           | (Inr rem, w1) \<Rightarrow>
               (if rem = [] then Some (Inr (), w1)
                else let now = of_int (w_clock w1)
                     in if now \<ge> deadline then Some (Inl (timeout_error timeout rem), w1)
                        else wait_loop cl target pollInterval timeout deadline rem
                               (snd (timer (min pollInterval (deadline - now)) w1))))"

declare wait_loop.simps [code]

definition waitForProjection ::
  "client \<Rightarrow> appended_event list \<Rightarrow> subscription_ref list \<Rightarrow> wait_options \<Rightarrow> world
     \<Rightarrow> ((thrown + unit) \<times> world) option" where
  "waitForProjection cl rows subscriptions opts w =
     (if rows = [] then Some (Inr (), w)
      else if subscriptions = [] then Some (Inr (), w)
      else case check_targets (fold set_add (map ae_stream_uuid rows) []) subscriptions of
             Inl e \<Rightarrow> Some (Inl e, w)
           | Inr _ \<Rightarrow>
               (let pollInterval = (case wo_pollInterval opts of Some p \<Rightarrow> p | None \<Rightarrow> DEFAULT_WAIT_POLL_INTERVAL_MS);
                    timeout = (case wo_timeout opts of Some t \<Rightarrow> t | None \<Rightarrow> DEFAULT_WAIT_TIMEOUT_MS);
                    target = wait_target rows;
                    deadline = of_int (w_clock w) + timeout;
                    remaining = fold (\<lambda>s. map_set (refKey s) s) subscriptions []
                in wait_loop cl target pollInterval timeout deadline remaining w))"

section \<open>Laws of the wait\<close>

lemma wait_target_ge: "rows \<noteq> [] \<Longrightarrow> r \<in> set rows \<Longrightarrow> ae_event_number r \<le> wait_target rows"
proof -
  have "m \<le> fold (\<lambda>r m. if ae_event_number r > m then ae_event_number r else m) xs m
      \<and> (\<forall>r \<in> set xs. ae_event_number r \<le> fold (\<lambda>r m. if ae_event_number r > m then ae_event_number r else m) xs m)" for xs m
  proof (induction xs arbitrary: m)
    case (Cons x xs)
    from Cons.IH [of "ae_event_number x"] Cons.IH [of m] show ?case by auto
  qed simp
  then show "r \<in> set rows \<Longrightarrow> ae_event_number r \<le> wait_target rows" unfolding wait_target_def by blast
qed

lemma caught_up_below: "caught_up k n t d \<Longrightarrow> t' \<le> t \<Longrightarrow> caught_up k n t' d"
  by (fastforce simp: caught_up_def)

text \<open>A subscription was seen caught up at some moment between two worlds.\<close>

definition seen_caught_up :: "int \<Rightarrow> world \<Rightarrow> world \<Rightarrow> subscription_ref \<Rightarrow> bool" where
  "seen_caught_up t w w' s \<longleftrightarrow>
     (\<exists>w1 st. extends_world w w1 \<and> extends_world w1 w' \<and> find_stream (sr_stream s) (w_db w1) = Some st
        \<and> caught_up (s_id st) (sr_name s) t (w_db w1))"

lemma seen_extend: "seen_caught_up t w1 w2 s \<Longrightarrow> extends_world w w1 \<Longrightarrow> extends_world w2 w3 \<Longrightarrow> seen_caught_up t w w3 s"
  unfolding seen_caught_up_def using extends_trans by meson

text \<open>What the loop promises, by the kind of its outcome.\<close>

definition wait_post ::
  "int \<Rightarrow> rat \<Rightarrow> rat \<Rightarrow> (string \<times> subscription_ref) list \<Rightarrow> world \<Rightarrow> thrown + unit \<Rightarrow> world \<Rightarrow> bool" where
  "wait_post t timeout deadline remaining w r w' \<longleftrightarrow>
     extends_world w w'
     \<and> w_pos w' \<le> w_pos w + Suc (nat \<lceil>deadline - of_int (w_clock w)\<rceil>) * Suc (length remaining)
     \<and> (case r of
          Inr _ \<Rightarrow> \<forall>e \<in> set remaining. \<exists>s. (fst e, s) \<in> set remaining \<and> seen_caught_up t w w' s
        | Inl e \<Rightarrow> instance_of e ConsistencyTimeout \<longrightarrow> deadline \<le> of_int (w_clock w')
            \<and> (\<exists>rem. rem \<noteq> [] \<and> set rem \<subseteq> set remaining \<and> e = timeout_error timeout rem))"

context queue_client
begin

lemma poll_ref_step:
  assumes "poll_ref cl t s w = (r, w')"
  shows "extends_world w w' \<and> w_pos w' = Suc (w_pos w) \<and> (r = Inr True \<longrightarrow> seen_caught_up t w w' s)"
proof -
  obtain y where y: "cl_isSubscriptionCaughtUp cl (sr_stream s) (sr_name s) t w = (y, w')"
    and r: "r = Inr True \<longrightarrow> y = Inr True"
    using assms by (auto simp: poll_ref_def catch_io_def return_io_def throw_io_def split: prod.splits sum.splits if_splits)
  with one_callD [OF caught_up_call y] caught_up_true show ?thesis
    unfolding seen_caught_up_def by (metis extends_refl)
qed

lemma poll_round_error: "poll_round cl t es remaining w = (Inl e, w') \<Longrightarrow> \<not> instance_of e ConsistencyTimeout"
proof (induction es arbitrary: remaining w)
  case (Cons x es)
  then show ?case
    by (cases x) (auto simp: poll_ref_def catch_io_def return_io_def throw_io_def bind_io_def
        dest: caught_up_error split: prod.splits sum.splits if_splits)
qed (simp add: return_io_def)

lemma poll_round_step:
  "poll_round cl t es remaining w = (r, w') \<Longrightarrow>
     extends_world w w' \<and> w_pos w' \<le> w_pos w + length es
     \<and> (\<forall>rem. r = Inr rem \<longrightarrow> length rem \<le> length remaining \<and> set rem \<subseteq> set remaining
          \<and> (\<forall>e \<in> set remaining - set rem. \<exists>s. (fst e, s) \<in> set es \<and> seen_caught_up t w w' s))"
proof (induction es arbitrary: remaining w)
  case (Cons e es)
  obtain k s where e: "e = (k, s)" by force
  obtain b w1 where p: "poll_ref cl t s w = (b, w1)" by force
  note P = poll_ref_step [OF p]
  show ?case
  proof (cases b)
    case (Inl x)
    with Cons.prems e p P show ?thesis by (auto simp: bind_io_def)
  next
    case (Inr c)
    let ?rem = "if c then map_delete k remaining else remaining"
    from Cons.prems e p Inr have "poll_round cl t es ?rem w1 = (r, w')" by (simp add: bind_io_def)
    note I = Cons.IH [OF this]
    from P I have x: "extends_world w w'" "w_pos w' \<le> w_pos w + length (e # es)"
      using extends_trans by auto
    have "length rem \<le> length remaining \<and> set rem \<subseteq> set remaining
        \<and> (\<forall>e' \<in> set remaining - set rem. \<exists>s'. (fst e', s') \<in> set (e # es) \<and> seen_caught_up t w w' s')"
      if rem: "r = Inr rem" for rem
    proof (intro conjI ballI)
      have le: "length ?rem \<le> length remaining" by simp
      from I rem have l: "length rem \<le> length ?rem" and s: "set rem \<subseteq> set ?rem" by auto
      from l le show "length rem \<le> length remaining" by (rule le_trans)
      from s show "set rem \<subseteq> set remaining" by (auto split: if_splits)
      fix e' assume e': "e' \<in> set remaining - set rem"
      show "\<exists>s'. (fst e', s') \<in> set (e # es) \<and> seen_caught_up t w w' s'"
      proof (cases "e' \<in> set ?rem")
        case True
        with I rem e' obtain s' where "(fst e', s') \<in> set es" "seen_caught_up t w1 w' s'" by blast
        with P seen_extend [of t w1 w' s' w w'] show ?thesis by auto
      next
        case False
        with e' have "c" "fst e' = k" by (auto split: if_splits)
        with P Inr e I seen_extend [of t w w1 s w w'] show ?thesis by auto
      qed
    qed
    with x show ?thesis by blast
  qed
qed (auto simp: return_io_def)

text \<open>One more turn of the loop: what it ends in, or the state it goes on from, closer to the deadline.\<close>

lemma wait_loop_cases:
  obtains (finished) "wait_loop cl t poll timeout deadline [] w = Some (Inr (), w)" "remaining = []"
  | (failed) e w1 where "poll_round cl t remaining remaining w = (Inl e, w1)"
      "wait_loop cl t poll timeout deadline remaining w = Some (Inl e, w1)"
  | (caught) w1 where "poll_round cl t remaining remaining w = (Inr [], w1)"
      "wait_loop cl t poll timeout deadline remaining w = Some (Inr (), w1)"
  | (late) rem w1 where "poll_round cl t remaining remaining w = (Inr rem, w1)" "rem \<noteq> []"
      "deadline \<le> of_int (w_clock w1)"
      "wait_loop cl t poll timeout deadline remaining w = Some (Inl (timeout_error timeout rem), w1)"
  | (again) rem w1 w2 where "poll_round cl t remaining remaining w = (Inr rem, w1)" "rem \<noteq> []"
      "extends_world w1 w2" "w_pos w2 = Suc (w_pos w1)"
      "nat \<lceil>deadline - of_int (w_clock w2)\<rceil> < nat \<lceil>deadline - of_int (w_clock w)\<rceil>"
      "wait_loop cl t poll timeout deadline remaining w = wait_loop cl t poll timeout deadline rem w2"
proof -
  obtain r w1 where p: "poll_round cl t remaining remaining w = (r, w1)" by force
  have clock: "w_clock w \<le> w_clock w1" using poll_round_step [OF p] by (simp add: extends_world_def)
  have nil: "wait_loop cl t poll timeout deadline [] w = Some (Inr (), w)" by (simp add: wait_loop.simps)
  show thesis
  proof (cases "remaining = []")
    case True
    with nil that(1) show thesis by simp
  next
    case False
    note L = wait_loop.simps [of cl t poll timeout deadline remaining w]
    show thesis
    proof (cases r)
      case (Inl e)
      with p False L that(2) show thesis by simp
    next
      case (Inr rem)
      consider "rem = []" | "rem \<noteq> []" "deadline \<le> of_int (w_clock w1)" | "rem \<noteq> []" "of_int (w_clock w1) < deadline"
        by linarith
      then show thesis
      proof cases
        case 1
        with p False L Inr that(3) show thesis by simp
      next
        case 2
        with p False L Inr that(4) show thesis by (simp add: Let_def)
      next
        case 3
        let ?ms = "min poll (deadline - of_int (w_clock w1))"
        let ?w2 = "snd (timer ?ms w1)"
        have "extends_world w1 ?w2" using timer_extends [of ?ms w1 _ ?w2] by (metis prod.collapse)
        moreover have "w_pos ?w2 = Suc (w_pos w1)" by (simp add: timer_def elapse_def turn_def Let_def)
        moreover have "nat \<lceil>deadline - of_int (w_clock ?w2)\<rceil> < nat \<lceil>deadline - of_int (w_clock w)\<rceil>"
          using timer_tick [of w1 ?ms] clock 3(2) by linarith
        ultimately show thesis using p False L Inr 3 that(5) by (simp add: Let_def)
      qed
    qed
  qed
qed

lemma wait_loop_returns: "wait_loop cl t poll timeout deadline remaining w \<noteq> None"
proof (induction "nat \<lceil>deadline - of_int (w_clock w)\<rceil>" arbitrary: remaining w rule: less_induct)
  case less
  show ?case
  proof (cases rule: wait_loop_cases [where t = t and poll = poll and timeout = timeout and deadline = deadline
        and w = w and remaining = remaining])
    case (again rem w1 w2)
    with less.hyps [OF again(5)] show ?thesis by simp
  qed simp_all
qed

lemma wait_loop_post:
  "wait_loop cl t poll timeout deadline remaining w = Some (r, w') \<Longrightarrow> wait_post t timeout deadline remaining w r w'"
proof (induction "nat \<lceil>deadline - of_int (w_clock w)\<rceil>" arbitrary: remaining w rule: less_induct)
  case less
  let ?N = "nat \<lceil>deadline - of_int (w_clock w)\<rceil>" and ?n = "length remaining"
  show ?case
  proof (cases rule: wait_loop_cases [where t = t and poll = poll and timeout = timeout and deadline = deadline
        and w = w and remaining = remaining])
    case finished
    with less.prems have "r = Inr ()" "w' = w" by simp_all
    with finished show ?thesis by (simp add: wait_post_def)
  next
    case (failed e w1)
    have "\<not> instance_of e ConsistencyTimeout" using failed(1) poll_round_error by blast
    with failed poll_round_step [OF failed(1)] less.prems show ?thesis by (auto simp: wait_post_def)
  next
    case (caught w1)
    with poll_round_step [OF caught(1)] less.prems show ?thesis by (auto simp: wait_post_def)
  next
    case (late rem w1)
    with poll_round_step [OF late(1)] less.prems show ?thesis by (auto simp: wait_post_def)
  next
    case (again rem w1 w2)
    note P = poll_round_step [OF again(1)]
    let ?M = "nat \<lceil>deadline - of_int (w_clock w2)\<rceil>"
    from less.hyps [OF again(5), of rem] again(6) less.prems have I: "wait_post t timeout deadline rem w2 r w'" by simp
    from P have sub: "set rem \<subseteq> set remaining" and len: "length rem \<le> ?n" by blast+
    have I1: "extends_world w2 w'" using I by (simp add: wait_post_def)
    have x1: "extends_world w1 w'" by (rule extends_trans [OF again(3) I1])
    have x2: "extends_world w w2" by (rule extends_trans [OF _ again(3)]) (use P in simp)
    have x: "extends_world w w'" by (rule extends_trans [OF x2 I1])
    have "Suc ?M * Suc (length rem) \<le> ?N * Suc ?n" using again(5) len by (intro mult_le_mono) auto
    then have pos: "w_pos w' \<le> w_pos w + Suc ?N * Suc ?n"
      using I P again(4) unfolding wait_post_def by simp
    have "case r of
          Inr _ \<Rightarrow> \<forall>e \<in> set remaining. \<exists>s. (fst e, s) \<in> set remaining \<and> seen_caught_up t w w' s
        | Inl e \<Rightarrow> instance_of e ConsistencyTimeout \<longrightarrow> deadline \<le> of_int (w_clock w')
            \<and> (\<exists>rem. rem \<noteq> [] \<and> set rem \<subseteq> set remaining \<and> e = timeout_error timeout rem)"
    proof (cases r)
      case (Inl e)
      with I sub show ?thesis by (auto simp: wait_post_def)
    next
      case (Inr v)
      have "\<exists>s. (fst e, s) \<in> set remaining \<and> seen_caught_up t w w' s" if e: "e \<in> set remaining" for e
      proof (cases "e \<in> set rem")
        case True
        with I Inr obtain s where "(fst e, s) \<in> set rem" "seen_caught_up t w2 w' s" by (auto simp: wait_post_def)
        with sub seen_extend [OF _ x2 extends_refl, of t w' s] show ?thesis by auto
      next
        case False
        with P e obtain s where "(fst e, s) \<in> set remaining" "seen_caught_up t w w1 s" by blast
        with seen_extend [OF _ extends_refl x1, of t w s] show ?thesis by auto
      qed
      with Inr show ?thesis by simp
    qed
    with x pos show ?thesis by (simp add: wait_post_def)
  qed
qed

end

section \<open>The entries awaited\<close>

definition entries :: "subscription_ref list \<Rightarrow> (string \<times> subscription_ref) list" where
  "entries refs = fold (\<lambda>s. map_set (refKey s) s) refs []"

lemma entries_fold_sub:
  "set (fold (\<lambda>s. map_set (refKey s) s) refs es) \<subseteq> (\<lambda>s. (refKey s, s)) ` set refs \<union> set es"
proof (induction refs arbitrary: es)
  case (Cons s refs)
  have "set (map_set (refKey s) s es) \<subseteq> insert (refKey s, s) (set es)" by (rule map_set_sub)
  with Cons [of "map_set (refKey s) s es"] show ?case by (simp only: fold_simps list.set image_insert) blast
qed simp

lemma entries_fold_keys:
  "fst ` set (fold (\<lambda>s. map_set (refKey s) s) refs es) = refKey ` set refs \<union> fst ` set es"
  by (induction refs arbitrary: es) (simp_all add: map_set_keys)

lemma entries_fold_length:
  "length (fold (\<lambda>s. map_set (refKey s) s) refs es) \<le> length refs + length es"
proof (induction refs arbitrary: es)
  case (Cons s refs)
  from Cons [of "map_set (refKey s) s es"] length_map_set [of "refKey s" s es] show ?case by simp
qed simp

lemma entries_facts:
  "e \<in> set (entries refs) \<Longrightarrow> fst e = refKey (snd e) \<and> snd e \<in> set refs"
  "fst ` set (entries refs) = refKey ` set refs"
  "length (entries refs) \<le> length refs"
  using entries_fold_sub [of refs "[]"] entries_fold_keys [of refs "[]"] entries_fold_length [of refs "[]"]
  by (auto simp: entries_def)

text \<open>What the wait does, once its arguments pass.\<close>

lemma wait_is_loop:
  assumes "rows \<noteq> []" "refs \<noteq> []" "check_targets (fold set_add (map ae_stream_uuid rows) []) refs = Inr ()"
  shows "waitForProjection cl rows refs opts w =
     wait_loop cl (wait_target rows) (case wo_pollInterval opts of Some p \<Rightarrow> p | None \<Rightarrow> DEFAULT_WAIT_POLL_INTERVAL_MS)
       (case wo_timeout opts of Some t \<Rightarrow> t | None \<Rightarrow> DEFAULT_WAIT_TIMEOUT_MS)
       (of_int (w_clock w) + (case wo_timeout opts of Some t \<Rightarrow> t | None \<Rightarrow> DEFAULT_WAIT_TIMEOUT_MS))
       (entries refs) w"
  using assms by (simp add: waitForProjection_def Let_def entries_def)

lemma wait_cases:
  obtains (trivial) "rows = [] \<or> refs = []" "waitForProjection cl rows refs opts w = Some (Inr (), w)"
  | (rejected) e where "check_targets (fold set_add (map ae_stream_uuid rows) []) refs = Inl e"
      "waitForProjection cl rows refs opts w = Some (Inl e, w)"
  | (loop) "rows \<noteq> []" "refs \<noteq> []" "check_targets (fold set_add (map ae_stream_uuid rows) []) refs = Inr ()"
proof (cases "rows = [] \<or> refs = []")
  case True
  then show thesis by (intro trivial) (simp_all add: waitForProjection_def, blast)
next
  case False
  then show thesis
  proof (cases "check_targets (fold set_add (map ae_stream_uuid rows) []) refs")
    case (Inl e)
    with False show thesis by (intro rejected) (auto simp: waitForProjection_def)
  next
    case (Inr u)
    with False show thesis by (intro loop) auto
  qed
qed

lemma check_targets_find:
  "check_targets names refs =
     (case find (\<lambda>s. sr_stream s \<noteq> all_uuid \<and> sr_stream s \<notin> set names) refs of
        None \<Rightarrow> Inr () | Some s \<Rightarrow> Inl (target_error names s))"
  by (induction refs) auto

lemma check_targets_class: "check_targets names refs = Inl e \<Longrightarrow> \<not> instance_of e ConsistencyTimeout"
proof (induction refs)
  case (Cons s refs)
  have "\<not> instance_of (target_error names s) ConsistencyTimeout"
    by (simp add: target_error_def instance_of_def subclass_iff)
  with Cons show ?case by (auto split: if_splits)
qed simp

end
