(* ===== verification/Consistency_Properties.thy ===== *)
theory Consistency_Properties
  imports Consistency Queue_Properties
begin

text \<open>
  Properties of the consistency wait: it returns within a bounded number of calls, resolves only when
  every subscription was seen caught up, and never times out early.
\<close>

section \<open>A subscription that has caught up\<close>

definition caught_db :: db where
  "caught_db = after (CRouteBatch (Some all_uuid) (Some ''balances'') worker_a (Some 1) (Some (JArr []))) leased_db"

definition caught_world :: world where
  "caught_world = sample_world\<lparr>w_db := caught_db\<rparr>"

definition sample_row :: appended_event where
  "sample_row = \<lparr>ae_event_id = ''00000000-0000-4000-8000-000000000001'', ae_stream_uuid = ''Account-a'',
     ae_stream_version = 1, ae_event_number = 1, ae_created_at = Some 0\<rparr>"

definition balances_ref :: subscription_ref where
  "balances_ref = \<lparr>sr_stream = all_uuid, sr_name = ''balances''\<rparr>"

definition waited :: "((thrown + unit) \<times> world) option \<Rightarrow> bool" where
  "waited m = (case m of Some (Inr _, _) \<Rightarrow> True | _ \<Rightarrow> False)"

definition timed_out :: "((thrown + unit) \<times> world) option \<Rightarrow> bool" where
  "timed_out m = (case m of Some (Inl e, _) \<Rightarrow> instance_of e ConsistencyTimeout | _ \<Rightarrow> False)"

section \<open>The wait\<close>

text \<open>C37. The wait always returns, whatever the environment does: either the subscriptions caught up, or
  an error, and the number of database calls is bounded by the timeout in milliseconds times the number of subscriptions.\<close>

theorem wait_returns:
  "\<exists>r w'. waitForProjection pg_client rows refs opts w = Some (r, w')
     \<and> w_pos w' \<le> w_pos w + Suc (nat \<lceil>case wo_timeout opts of Some t \<Rightarrow> t | None \<Rightarrow> DEFAULT_WAIT_TIMEOUT_MS\<rceil>) * Suc (length refs)"
proof (cases rule: wait_cases [of rows refs pg_client opts w])
  case loop
  let ?T = "case wo_timeout opts of Some t \<Rightarrow> t | None \<Rightarrow> DEFAULT_WAIT_TIMEOUT_MS"
  obtain r w' where r: "waitForProjection pg_client rows refs opts w = Some (r, w')"
    unfolding wait_is_loop [OF loop] by (metis pgq.wait_loop_returns not_None_eq surj_pair)
  from pgq.wait_loop_post [OF r [unfolded wait_is_loop [OF loop]]]
  have "w_pos w' \<le> w_pos w + Suc (nat \<lceil>?T\<rceil>) * Suc (length (entries refs))" by (simp add: wait_post_def)
  also have "\<dots> \<le> w_pos w + Suc (nat \<lceil>?T\<rceil>) * Suc (length refs)"
    using entries_facts(3) [of refs] by (intro add_left_mono mult_left_mono) auto
  finally show ?thesis using r by blast
qed auto

text \<open>A resolved wait has seen every subscription caught up.\<close>

lemma wait_sees:
  assumes "waitForProjection pg_client rows refs opts w = Some (Inr (), w')"
    and "inj_on refKey (set refs)" "s \<in> set refs" "r \<in> set rows"
  shows "seen_caught_up (ae_event_number r) w w' s"
proof (cases rule: wait_cases [of rows refs pg_client opts w])
  case loop
  let ?t = "wait_target rows"
  from pgq.wait_loop_post [OF assms(1) [unfolded wait_is_loop [OF loop]]]
  have all: "\<forall>e \<in> set (entries refs). \<exists>s. (fst e, s) \<in> set (entries refs) \<and> seen_caught_up ?t w w' s"
    by (simp add: wait_post_def)
  have "refKey s \<in> fst ` set (entries refs)" using assms(3) by (simp add: entries_facts(2))
  then obtain e where e: "e \<in> set (entries refs)" "fst e = refKey s" by auto
  with all obtain s' where s': "(refKey s, s') \<in> set (entries refs)" "seen_caught_up ?t w w' s'" by metis
  from entries_facts(1) [OF s'(1)] have "refKey s' = refKey s" "s' \<in> set refs" by simp_all
  with assms(2,3) have "s' = s" by (auto dest: inj_onD)
  with s' wait_target_ge [OF loop(1) assms(4)] show ?thesis
    unfolding seen_caught_up_def using caught_up_below by blast
qed (use assms in auto)



text \<open>A ConsistencyTimeout is never early: the whole timeout has passed on the clock.\<close>

theorem timeout_not_early:
  assumes "waitForProjection pg_client rows refs opts w = Some (Inl e, w')" "instance_of e ConsistencyTimeout"
  shows "of_int (w_clock w) + (case wo_timeout opts of Some t \<Rightarrow> t | None \<Rightarrow> DEFAULT_WAIT_TIMEOUT_MS) \<le> of_int (w_clock w')
     \<and> (\<exists>missing. missing \<noteq> [] \<and> set missing \<subseteq> set (entries refs)
          \<and> e = timeout_error (case wo_timeout opts of Some t \<Rightarrow> t | None \<Rightarrow> DEFAULT_WAIT_TIMEOUT_MS) missing)"
proof (cases rule: wait_cases [of rows refs pg_client opts w])
  case loop
  from pgq.wait_loop_post [OF assms(1) [unfolded wait_is_loop [OF loop]]] assms(2) show ?thesis
    by (simp add: wait_post_def)
qed (use assms check_targets_class in auto)

theorem timeout_not_early_witness:
  "\<exists>e w'. waitForProjection pg_client [sample_row] [balances_ref] \<lparr>wo_pollInterval = None, wo_timeout = Some 3\<rparr> sample_world
      = Some (Inl e, w') \<and> instance_of e ConsistencyTimeout \<and> 3 \<le> w_clock w'"
proof -
  have "timed_out (waitForProjection pg_client [sample_row] [balances_ref]
      \<lparr>wo_pollInterval = None, wo_timeout = Some 3\<rparr> sample_world)"
    by code_simp
  then obtain e w' where w': "waitForProjection pg_client [sample_row] [balances_ref]
      \<lparr>wo_pollInterval = None, wo_timeout = Some 3\<rparr> sample_world = Some (Inl e, w')"
    and e: "instance_of e ConsistencyTimeout"
    by (auto simp: timed_out_def split: option.splits prod.splits sum.splits)
  have "w_clock sample_world = 0" by (simp add: sample_world_def)
  with timeout_not_early [OF w' e] have "(3 :: rat) \<le> of_int (w_clock w')" by simp
  then have "3 \<le> w_clock w'" by simp
  with w' e show ?thesis by blast
qed

end
