(* ===== verification/Error_Policies.thy ===== *)
theory Error_Policies
  imports Logger
begin

text \<open>
  The retry extension point: its contract (workers/processing/processing-worker.ts) and its standard
  library (workers/processing/error-policies.ts). A policy is user code that may await and throw: a
  function of the error, the context and the state its previous call on the same work item returned
  (\<open>None\<close> is \<open>undefined\<close>), run in a world. \<open>Math.random()\<close> is a parameter, its value a function of the
  world it is drawn in.
\<close>

section \<open>The contract\<close>

datatype error_policy_decision = RetryIn (delayMs: rat) | Stop

record error_policy_context =
  pc_workerId :: string
  pc_partitionKey :: string
  pc_eventNumber :: int
  pc_attempt :: int
  pc_logger :: logger

record 'p error_policy_result =
  pr_decision :: error_policy_decision
  pr_state :: "'p option"

type_synonym 'p error_policy = "thrown \<Rightarrow> error_policy_context \<Rightarrow> 'p option \<Rightarrow> 'p error_policy_result io"

text \<open>A stateless policy returns \<open>undefined\<close> for its state.\<close>

definition stateless :: "error_policy_decision \<Rightarrow> 'p error_policy_result" where
  "stateless dec = \<lparr>pr_decision = dec, pr_state = None\<rparr>"

text \<open>\<open>x * 2 ** n\<close>\<close>

definition times_pow2 :: "rat \<Rightarrow> int \<Rightarrow> rat" where
  "times_pow2 x n = (if 0 \<le> n then x * 2 ^ nat n else x / 2 ^ nat (- n))"

definition DEFAULT_ERROR_POLICY :: "'p error_policy" where
  "DEFAULT_ERROR_POLICY err ctx st =
     (let base = 100; cap = 30000; exp = min (pc_attempt ctx - 1) 20
      in return_io (stateless (RetryIn (min cap (times_pow2 base exp)))))"

section \<open>The standard library\<close>

record exponential_options =
  xo_baseMs :: js_num
  xo_capMs :: js_num
  xo_jitter :: "bool option"

record linear_options =
  lo_stepMs :: js_num
  lo_capMs :: js_num

definition bad_ms :: "js_num \<Rightarrow> bool" where
  "bad_ms n \<longleftrightarrow> \<not> isFinite n \<or> num_less n 0"

definition exponentialBackoff ::
  "(world \<Rightarrow> rat) \<Rightarrow> exponential_options \<Rightarrow> thrown + 'p error_policy" where
  "exponentialBackoff Math_random opts =
     (let jitter = (case xo_jitter opts of Some j \<Rightarrow> j | None \<Rightarrow> False)
      in if bad_ms (xo_baseMs opts) then
           Inl (range_error (''exponentialBackoff: baseMs must be a non-negative number, got '' @ show_jsnum (xo_baseMs opts)))
         else if bad_ms (xo_capMs opts) then
           Inl (range_error (''exponentialBackoff: capMs must be a non-negative number, got '' @ show_jsnum (xo_capMs opts)))
         else Inr (\<lambda>err ctx st w.
           let exp = min (pc_attempt ctx - 1) 30;
               raw = min (num_value (xo_capMs opts)) (times_pow2 (num_value (xo_baseMs opts)) exp);
               delay = (if jitter then Math_random w * raw else raw)
           in return_io (stateless (RetryIn delay)) w))"

definition linearBackoff :: "linear_options \<Rightarrow> thrown + 'p error_policy" where
  "linearBackoff opts =
     (if bad_ms (lo_stepMs opts) then
        Inl (range_error (''linearBackoff: stepMs must be a non-negative number, got '' @ show_jsnum (lo_stepMs opts)))
      else if bad_ms (lo_capMs opts) then
        Inl (range_error (''linearBackoff: capMs must be a non-negative number, got '' @ show_jsnum (lo_capMs opts)))
      else Inr (\<lambda>err ctx st.
        return_io (stateless (RetryIn (min (num_value (lo_capMs opts)) (num_value (lo_stepMs opts) * of_int (pc_attempt ctx)))))))"

text \<open>A \<open>stop\<close> carries the state that came in, \<open>undefined\<close> included.\<close>

definition retryUpTo :: "js_num \<Rightarrow> 'p error_policy \<Rightarrow> thrown + 'p error_policy" where
  "retryUpTo maxAttempts inner =
     (if \<not> isInteger maxAttempts \<or> num_less maxAttempts 1 then
        Inl (range_error (''retryUpTo: maxAttempts must be a positive integer, got '' @ show_jsnum maxAttempts))
      else Inr (\<lambda>err ctx st.
        if num_value maxAttempts < of_int (pc_attempt ctx) then return_io \<lparr>pr_decision = Stop, pr_state = st\<rparr>
        else inner err ctx st))"

section \<open>What the policies decide\<close>

definition decision_of :: "'p error_policy \<Rightarrow> thrown \<Rightarrow> error_policy_context \<Rightarrow> 'p option \<Rightarrow> world \<Rightarrow> error_policy_decision option" where
  "decision_of pol err ctx st w = (case pol err ctx st w of (Inl _, _) \<Rightarrow> None | (Inr r, _) \<Rightarrow> Some (pr_decision r))"

lemma times_pow2_mono: "0 \<le> x \<Longrightarrow> 0 \<le> m \<Longrightarrow> m \<le> n \<Longrightarrow> times_pow2 x m \<le> times_pow2 x n"
  unfolding times_pow2_def by (simp add: mult_left_mono)

lemma times_pow2_nonneg: "0 \<le> x \<Longrightarrow> 0 \<le> times_pow2 x n"
  by (simp add: times_pow2_def)

lemma bad_ms_iff: "bad_ms n \<longleftrightarrow> \<not> (\<exists>r. n = Fin r \<and> 0 \<le> r)"
  by (cases n) (auto simp: bad_ms_def)

end
