(* ===== verification/Processing.thy ===== *)
theory Processing
  imports Error_Policies Queue_Client
begin

text \<open>
  workers/processing/processing-worker.ts: the loop that claims work items, runs the handler under the
  error policy and completes the item, and beside it the heartbeat that renews the item's claim.
  JavaScript runs the two in turns, switching at every \<open>await\<close>: a configuration says for each of the
  two where it is suspended, and a step runs one of them from its \<open>await\<close> to its next one. The
  schedule of steps is arbitrary. \<open>stop()\<close> is a stop request of the environment (\<open>w_stop\<close>, the
  flag \<open>closing\<close>); the worker's signal has fired when it is closing or aborted. A handler is user
  code over the worker's own variables (\<open>'s\<close>) and the world, and may never return.
\<close>

section \<open>The public surface\<close>

record handler_context =
  hc_workerId :: string
  hc_partitionKey :: string
  hc_eventNumber :: int
  hc_attempt :: int
  hc_aborted :: bool
  hc_logger :: logger

type_synonym 's handler =
  "recorded_event \<Rightarrow> handler_context \<Rightarrow> 's \<Rightarrow> world \<Rightarrow> ((thrown + unit) \<times> 's \<times> world) option"

record ('p, 's) worker_definition =
  wd_name :: string
  wd_stream :: "string option"
  wd_handle :: "'s handler"
  wd_complete :: "'s handler"
  wd_errorPolicy :: "'p error_policy option"

text \<open>A callback may throw; what it did before stays done.\<close>

type_synonym on_error = "thrown \<Rightarrow> world \<Rightarrow> (thrown + unit) \<times> world"

record worker_options =
  op_workerId :: "string option"
  op_leaseSeconds :: "rat option"
  op_heartbeatInterval :: "rat option"
  op_pollInterval :: "rat option"
  op_onError :: "on_error option"
  op_logger :: "logger option"

definition DEFAULT_PROCESSING_LEASE_SECONDS :: rat where
  "DEFAULT_PROCESSING_LEASE_SECONDS = 30"

definition DEFAULT_PROCESSING_POLL_INTERVAL_MS :: rat where
  "DEFAULT_PROCESSING_POLL_INTERVAL_MS = 200"

definition HEARTBEAT_RETRY_DELAY_MS :: rat where
  "HEARTBEAT_RETRY_DELAY_MS = 100"

definition noopOnError :: on_error where
  "noopOnError err w = (Inr (), w)"

section \<open>Worker ids\<close>

text \<open>internal/worker-id.ts; the host name and the process id are the environment's.\<close>

record host =
  h_hostname :: "thrown + string"
  h_pid :: "nat option"

definition defaultWorkerId :: "host \<Rightarrow> world \<Rightarrow> string \<times> world" where
  "defaultWorkerId hst w =
     (let h = (case h_hostname hst of Inl _ \<Rightarrow> ''host'' | Inr s \<Rightarrow> if s = [] then ''host'' else s);
          pid = (case h_pid hst of Some p \<Rightarrow> p | None \<Rightarrow> 0);
          (u, w1) = randomUUID w;
          rand = take 8 (filter (\<lambda>c. c \<noteq> CHR ''-'') u)
      in (h @ '':'' @ show_nat pid @ '':'' @ rand, w1))"

section \<open>The worker\<close>

text \<open>What \<open>startProcessingWorker\<close> closes over.\<close>

record ('p, 's) worker =
  wk_client :: client
  wk_stream :: string
  wk_name :: string
  wk_workerId :: string
  wk_leaseSeconds :: rat
  wk_heartbeatInterval :: rat
  wk_pollInterval :: rat
  wk_logger :: logger
  wk_handle :: "'s handler"
  wk_complete :: "'s handler"
  wk_errorPolicy :: "'p error_policy"
  wk_onError :: on_error

text \<open>The item a claim hands out, as \<open>processOneItem\<close> takes it.\<close>

record claim =
  ci_partitionKey :: string
  ci_eventNumber :: int

text \<open>Where the loop is suspended: the call it awaits, with what it needs afterwards.\<close>

datatype 'p main_pc =
    Claiming
  | Idling
  | Reading claim
  | Handling recorded_event claim int "'p option"
  | Deciding recorded_event claim int "'p option" thrown
  | BackingOff recorded_event claim int "'p option" rat
  | Completing recorded_event claim
  | Joining
  | Exited

text \<open>Where the heartbeat of the current item is suspended.\<close>

datatype hb_pc = HbSleeping claim | HbExtending claim | HbPausing claim | HbRetrying claim | HbDone

record ('p, 's) config =
  cf_main :: "'p main_pc"
  cf_hb :: hb_pc
  cf_aborted :: bool
  cf_itemAborted :: bool
  cf_vars :: 's
  cf_world :: world

definition startProcessingWorker ::
  "host \<Rightarrow> client \<Rightarrow> ('p, 's) worker_definition \<Rightarrow> worker_options \<Rightarrow> 's \<Rightarrow> world \<Rightarrow> ('p, 's) worker \<times> ('p, 's) config" where
  "startProcessingWorker hst cl def opts vars w =
     (let (workerId, w1) = (case op_workerId opts of Some i \<Rightarrow> (i, w) | None \<Rightarrow> defaultWorkerId hst w);
          leaseSeconds = (case op_leaseSeconds opts of Some l \<Rightarrow> l | None \<Rightarrow> DEFAULT_PROCESSING_LEASE_SECONDS)
      in (\<lparr>wk_client = cl,
           wk_stream = (case wd_stream def of Some s \<Rightarrow> s | None \<Rightarrow> all_uuid),
           wk_name = wd_name def,
           wk_workerId = workerId,
           wk_leaseSeconds = leaseSeconds,
           wk_heartbeatInterval = (case op_heartbeatInterval opts of Some h \<Rightarrow> h | None \<Rightarrow> max 1000 (leaseSeconds * 1000 / 3)),
           wk_pollInterval = (case op_pollInterval opts of Some p \<Rightarrow> p | None \<Rightarrow> DEFAULT_PROCESSING_POLL_INTERVAL_MS),
           wk_logger = (case op_logger opts of Some l \<Rightarrow> l | None \<Rightarrow> noop),
           wk_handle = wd_handle def, wk_complete = wd_complete def,
           wk_errorPolicy = (case wd_errorPolicy def of Some p \<Rightarrow> p | None \<Rightarrow> DEFAULT_ERROR_POLICY),
           wk_onError = (case op_onError opts of Some f \<Rightarrow> f | None \<Rightarrow> noopOnError)\<rparr>,
          \<lparr>cf_main = Claiming, cf_hb = HbDone, cf_aborted = False,
           cf_itemAborted = False, cf_vars = vars, cf_world = w1\<lparr>w_stop := False\<rparr>\<rparr>))"

text \<open>\<open>err instanceof Error ? new Error(prefix: message, { cause: err }) : new Error(prefix: String(err))\<close>\<close>

definition asError :: "thrown \<Rightarrow> string \<Rightarrow> thrown" where
  "asError err pre =
     (if instance_of err C_Error then
        Err C_Error (pre @ '': '' @ (case message_of err of Some m \<Rightarrow> m | None \<Rightarrow> ''undefined'')) None None None NoFields (Some err)
      else js_error (pre @ '': '' @ (case err of NotError j \<Rightarrow> js_string j | _ \<Rightarrow> [])))"

text \<open>\<open>closing || aborted\<close>, which is also whether the worker's signal has fired.\<close>

definition halted :: "('p, 's) config \<Rightarrow> bool" where
  "halted c \<longleftrightarrow> w_stop (cf_world c) \<or> cf_aborted c"

definition safeOnError :: "('p, 's) worker \<Rightarrow> thrown \<Rightarrow> ('p, 's) config \<Rightarrow> ('p, 's) config" where
  "safeOnError k err c = c\<lparr>cf_world := snd (wk_onError k err (cf_world c))\<rparr>"

definition markAborted :: "('p, 's) worker \<Rightarrow> thrown \<Rightarrow> ('p, 's) config \<Rightarrow> ('p, 's) config" where
  "markAborted k err c = (if cf_aborted c then c else safeOnError k err (c\<lparr>cf_aborted := True\<rparr>))"

definition at_main :: "'p main_pc \<Rightarrow> ('p, 's) config \<Rightarrow> ('p, 's) config" where
  "at_main pc c = c\<lparr>cf_main := pc\<rparr>"

definition at_hb :: "hb_pc \<Rightarrow> ('p, 's) config \<Rightarrow> ('p, 's) config" where
  "at_hb pc c = c\<lparr>cf_hb := pc\<rparr>"

definition in_world :: "world \<Rightarrow> ('p, 's) config \<Rightarrow> ('p, 's) config" where
  "in_world w c = c\<lparr>cf_world := w\<rparr>"

section \<open>The heartbeat\<close>

text \<open>\<open>while (!closing && !aborted && !itemSignal.aborted)\<close>\<close>

definition heartbeat_round :: "claim \<Rightarrow> ('p, 's) config \<Rightarrow> ('p, 's) config" where
  "heartbeat_round ci c = at_hb (if halted c \<or> cf_itemAborted c then HbDone else HbSleeping ci) c"

text \<open>\<open>sleep(ms, itemSignal)\<close>: over when the item is.\<close>

definition item_sleep :: "rat \<Rightarrow> ('p, 's) config \<Rightarrow> ('p, 's) config" where
  "item_sleep ms c = (if cf_itemAborted c then c else in_world (snd (timer ms (cf_world c))) c)"

definition extend_claim :: "('p, 's) worker \<Rightarrow> claim \<Rightarrow> date io" where
  "extend_claim k ci =
     cl_extendWorkItemClaim (wk_client k) (wk_stream k) (wk_name k) (wk_workerId k)
       (ci_partitionKey ci) (ci_eventNumber ci) (wk_leaseSeconds k)"

fun heartbeat_step :: "('p, 's) worker \<Rightarrow> hb_pc \<Rightarrow> ('p, 's) config \<Rightarrow> ('p, 's) config option" where
  "heartbeat_step k HbDone c = None"
| "heartbeat_step k (HbSleeping ci) c =
     (let c1 = item_sleep (wk_heartbeatInterval k) c
      in Some (at_hb (if halted c1 \<or> cf_itemAborted c1 then HbDone else HbExtending ci) c1))"
| "heartbeat_step k (HbExtending ci) c =
     (case extend_claim k ci (cf_world c) of
        (Inr _, w1) \<Rightarrow> Some (heartbeat_round ci (in_world w1 c))
      | (Inl err, w1) \<Rightarrow>
          (if instance_of err WorkItemLeaseLost then Some (at_hb HbDone (markAborted k err (in_world w1 c)))
           else Some (at_hb (HbPausing ci) (in_world w1 c))))"
| "heartbeat_step k (HbPausing ci) c =
     (let c1 = item_sleep HEARTBEAT_RETRY_DELAY_MS c
      in Some (at_hb (if halted c1 \<or> cf_itemAborted c1 then HbDone else HbRetrying ci) c1))"
| "heartbeat_step k (HbRetrying ci) c =
     (case extend_claim k ci (cf_world c) of
        (Inr _, w1) \<Rightarrow> Some (heartbeat_round ci (in_world w1 c))
      | (Inl err2, w1) \<Rightarrow>
          (let c1 = in_world w1 c;
               c2 = (if instance_of err2 WorkItemLeaseLost then c1 else safeOnError k err2 c1)
           in Some (at_hb HbDone (markAborted k err2 c2))))"

section \<open>The handler under its policy\<close>

definition handler_ctx :: "('p, 's) worker \<Rightarrow> claim \<Rightarrow> int \<Rightarrow> ('p, 's) config \<Rightarrow> handler_context" where
  "handler_ctx k ci attempt c =
     \<lparr>hc_workerId = wk_workerId k, hc_partitionKey = ci_partitionKey ci, hc_eventNumber = ci_eventNumber ci,
      hc_attempt = attempt, hc_aborted = halted c, hc_logger = wk_logger k\<rparr>"

text \<open>The \<open>finally\<close> of \<open>processOneItem\<close>: the item's signal fires, the heartbeat is awaited.\<close>

definition leave_item :: "('p, 's) config \<Rightarrow> ('p, 's) config" where
  "leave_item c = at_main Joining (c\<lparr>cf_itemAborted := True\<rparr>)"

text \<open>The head of the loop of \<open>runHandlerWithPolicy\<close>: \<open>while (!closing && !aborted)\<close>.\<close>

definition handler_round ::
  "('p, 's) worker \<Rightarrow> recorded_event \<Rightarrow> claim \<Rightarrow> int \<Rightarrow> 'p option \<Rightarrow> ('p, 's) config \<Rightarrow> ('p, 's) config" where
  "handler_round k ev ci attempt ps c =
     (if halted c then leave_item c
      else at_main (Handling ev ci attempt ps)
             (in_world (trace (wk_logger k)
                (Thunk (\<lambda>w. (''attempt '' @ show_int attempt @ '' on event '' @ show_int (ci_eventNumber ci)
                   @ '' (partition '' @ ci_partitionKey ci @ '')'', w))) (cf_world c)) c))"

definition handled ::
  "('p, 's) worker \<Rightarrow> recorded_event \<Rightarrow> claim \<Rightarrow> int \<Rightarrow> 'p option \<Rightarrow> ('p, 's) config \<Rightarrow> ('p, 's) config option" where
  "handled k ev ci attempt ps c =
     (case wk_handle k ev (handler_ctx k ci attempt c) (cf_vars c) (cf_world c) of
        None \<Rightarrow> None
      | Some (Inr _, vars, w1) \<Rightarrow> Some (at_main (Completing ev ci) (c\<lparr>cf_vars := vars, cf_world := w1\<rparr>))
      | Some (Inl err, vars, w1) \<Rightarrow>
          Some (at_main (Deciding ev ci attempt ps err)
            (safeOnError k (asError err (''handler threw on event '' @ show_int (ci_eventNumber ci)))
               (c\<lparr>cf_vars := vars, cf_world := w1\<rparr>))))"

definition quoted_stop :: string where
  "quoted_stop = [CHR 0x27] @ ''stop'' @ [CHR 0x27]"

definition decided ::
  "('p, 's) worker \<Rightarrow> recorded_event \<Rightarrow> claim \<Rightarrow> int \<Rightarrow> 'p option \<Rightarrow> thrown \<Rightarrow> ('p, 's) config \<Rightarrow> ('p, 's) config" where
  "decided k ev ci attempt ps err c =
     (case wk_errorPolicy k err
             \<lparr>pc_workerId = wk_workerId k, pc_partitionKey = ci_partitionKey ci, pc_eventNumber = ci_eventNumber ci,
              pc_attempt = attempt, pc_logger = wk_logger k\<rparr> ps (cf_world c) of
        (Inl policyErr, w1) \<Rightarrow>
          leave_item (markAborted k (asError policyErr ''errorPolicy threw'')
            (safeOnError k (asError policyErr ''errorPolicy itself threw; stopping worker'') (in_world w1 c)))
      | (Inr result, w1) \<Rightarrow>
          (case pr_decision result of
             Stop \<Rightarrow> leave_item (markAborted k (asError err (''errorPolicy returned '' @ quoted_stop)) (in_world w1 c))
           | RetryIn ms \<Rightarrow> at_main (BackingOff ev ci attempt (pr_state result) ms) (in_world w1 c)))"

definition retried ::
  "('p, 's) worker \<Rightarrow> recorded_event \<Rightarrow> claim \<Rightarrow> int \<Rightarrow> 'p option \<Rightarrow> rat \<Rightarrow> ('p, 's) config \<Rightarrow> ('p, 's) config" where
  "retried k ev ci attempt ps ms c =
     handler_round k ev ci (attempt + 1) ps (in_world (snd (sleep (cf_aborted c) ms (cf_world c))) c)"

section \<open>One item\<close>

text \<open>The head of the worker's loop: \<open>while (!closing && !aborted)\<close>.\<close>

definition next_round :: "('p, 's) config \<Rightarrow> ('p, 's) config" where
  "next_round c = at_main (if halted c then Exited else Claiming) c"

definition payload_missing :: "claim \<Rightarrow> thrown" where
  "payload_missing ci =
     js_error (''processing worker: event '' @ show_int (ci_eventNumber ci) @ '' not found in $all (race with rebuild?)'')"

definition payload_read :: "('p, 's) worker \<Rightarrow> claim \<Rightarrow> ('p, 's) config \<Rightarrow> ('p, 's) config" where
  "payload_read k ci c =
     (case cl_readAll (wk_client k) (ci_eventNumber ci) 1 (cf_world c) of
        (Inl err, w1) \<Rightarrow> next_round (safeOnError k (asError err ''failed to read event payload'') (in_world w1 c))
      | (Inr rows, w1) \<Rightarrow>
          (case rows of
             ev # _ \<Rightarrow>
               (if re_event_number ev = ci_eventNumber ci
                then handler_round k ev ci 1 None
                       (heartbeat_round ci (c\<lparr>cf_world := w1, cf_itemAborted := False\<rparr>))
                else next_round (safeOnError k (payload_missing ci) (in_world w1 c)))
           | [] \<Rightarrow> next_round (safeOnError k (payload_missing ci) (in_world w1 c))))"

definition completed :: "('p, 's) worker \<Rightarrow> recorded_event \<Rightarrow> claim \<Rightarrow> ('p, 's) config \<Rightarrow> ('p, 's) config option" where
  "completed k ev ci c =
     (case wk_complete k ev (handler_ctx k ci 1 c) (cf_vars c) (cf_world c) of
        None \<Rightarrow> None
      | Some (Inr _, vars, w1) \<Rightarrow> Some (leave_item (c\<lparr>cf_vars := vars, cf_world := w1\<rparr>))
      | Some (Inl err, vars, w1) \<Rightarrow>
          (let c1 = c\<lparr>cf_vars := vars, cf_world := w1\<rparr>
           in if instance_of err WorkItemLeaseLost then Some (leave_item (markAborted k err c1))
              else Some (leave_item (markAborted k (asError err ''complete failed'')
                (safeOnError k (asError err ''complete threw'') c1)))))"

section \<open>The loop\<close>

definition takeover_notice :: "claimed_work_item \<Rightarrow> thrown" where
  "takeover_notice cw =
     js_error (''processing worker: took over work item '' @ cw_partition_key cw @ ''/'' @ show_int (cw_event_number cw)
       @ '' from '' @ (case cw_prior_claimed_by cw of Some p \<Rightarrow> p | None \<Rightarrow> ''null''))"

definition claimed_next :: "('p, 's) worker \<Rightarrow> ('p, 's) config \<Rightarrow> ('p, 's) config" where
  "claimed_next k c =
     (case cl_claimWorkItem (wk_client k) (wk_stream k) (wk_name k) (wk_workerId k) (wk_leaseSeconds k) (cf_world c) of
        (Inl err, w1) \<Rightarrow>
          (if instance_of err SubscriptionNotFound then at_main Idling (in_world w1 c)
           else at_main Idling (safeOnError k (asError err ''claim_work_item failed'') (in_world w1 c)))
      | (Inr None, w1) \<Rightarrow> at_main Idling (in_world w1 c)
      | (Inr (Some cw), w1) \<Rightarrow>
          at_main (Reading \<lparr>ci_partitionKey = cw_partition_key cw, ci_eventNumber = cw_event_number cw\<rparr>)
            (if cw_was_takeover cw then safeOnError k (takeover_notice cw) (in_world w1 c) else in_world w1 c))"

fun main_step :: "('p, 's) worker \<Rightarrow> 'p main_pc \<Rightarrow> ('p, 's) config \<Rightarrow> ('p, 's) config option" where
  "main_step k Claiming c = Some (claimed_next k c)"
| "main_step k Idling c =
     Some (next_round (in_world (snd (sleep (cf_aborted c) (wk_pollInterval k) (cf_world c))) c))"
| "main_step k (Reading ci) c = Some (payload_read k ci c)"
| "main_step k (Handling ev ci attempt ps) c = handled k ev ci attempt ps c"
| "main_step k (Deciding ev ci attempt ps err) c = Some (decided k ev ci attempt ps err c)"
| "main_step k (BackingOff ev ci attempt ps ms) c = Some (retried k ev ci attempt ps ms c)"
| "main_step k (Completing ev ci) c = completed k ev ci c"
| "main_step k Joining c = (if cf_hb c = HbDone then Some (next_round c) else None)"
| "main_step k Exited c = None"

text \<open>\<open>stop()\<close> of the worker's handle.\<close>

definition stop_worker :: "('p, 's) config \<Rightarrow> ('p, 's) config" where
  "stop_worker c = in_world ((cf_world c)\<lparr>w_stop := True\<rparr>) c"

text \<open>Either of the two runs on, or the application calls \<open>stop()\<close>.\<close>

datatype task = Main | Heartbeat | StopCall

fun run_task :: "('p, 's) worker \<Rightarrow> task \<Rightarrow> ('p, 's) config \<Rightarrow> ('p, 's) config option" where
  "run_task k Main c = main_step k (cf_main c) c"
| "run_task k Heartbeat c = heartbeat_step k (cf_hb c) c"
| "run_task k StopCall c = Some (stop_worker c)"

fun run_schedule :: "('p, 's) worker \<Rightarrow> task list \<Rightarrow> ('p, 's) config \<Rightarrow> ('p, 's) config option" where
  "run_schedule k [] c = Some c"
| "run_schedule k (t # ts) c = (case run_task k t c of None \<Rightarrow> None | Some c1 \<Rightarrow> run_schedule k ts c1)"

inductive worker_step :: "('p, 's) worker \<Rightarrow> ('p, 's) config \<Rightarrow> ('p, 's) config \<Rightarrow> bool" for k where
  step_task: "run_task k t c = Some c' \<Longrightarrow> worker_step k c c'"

inductive_simps worker_step_iff: "worker_step k c c'"

end
