(* ===== verification/Processing_Laws.thy ===== *)
theory Processing_Laws
  imports Processing
begin

text \<open>
  Laws of the processing worker over every schedule of its two tasks: where they can be, what they
  share, that the world moves forward, and that a halted worker drains.
\<close>

section \<open>User code\<close>

text \<open>User code may do anything to the world except turn it back.\<close>

definition well_behaved :: "('p, 's) worker \<Rightarrow> bool" where
  "well_behaved k \<longleftrightarrow>
     (\<forall>ev x s w r s' w'. wk_handle k ev x s w = Some (r, s', w') \<longrightarrow> extends_world w w')
     \<and> (\<forall>ev x s w r s' w'. wk_complete k ev x s w = Some (r, s', w') \<longrightarrow> extends_world w w')
     \<and> (\<forall>e x ps w. extends_world w (snd (wk_errorPolicy k e x ps w)))
     \<and> (\<forall>e w. extends_world w (snd (wk_onError k e w)))
     \<and> (\<forall>s w. extends_world w (trace (wk_logger k) (Thunk (\<lambda>w. (s, w))) w))"

text \<open>From one configuration to a later one.\<close>

definition onward :: "('p, 's) config \<Rightarrow> ('p, 's) config \<Rightarrow> bool" where
  "onward c c' \<longleftrightarrow> extends_world (cf_world c) (cf_world c') \<and> (cf_aborted c \<longrightarrow> cf_aborted c')"

lemma onward_refl [simp]: "onward c c"
  by (simp add: onward_def)

lemma onward_trans: "onward c c1 \<Longrightarrow> onward c1 c2 \<Longrightarrow> onward c c2"
  using extends_trans by (auto simp: onward_def)

lemma onward_halted: "onward c c' \<Longrightarrow> halted c \<Longrightarrow> halted c'"
  by (auto simp: onward_def halted_def extends_world_def)

lemmas moves = at_main_def at_hb_def in_world_def leave_item_def next_round_def

lemma moved [simp]:
  "cf_main (at_main pc c) = pc" "cf_hb (at_main pc c) = cf_hb c" "cf_world (at_main pc c) = cf_world c"
  "cf_aborted (at_main pc c) = cf_aborted c" "cf_itemAborted (at_main pc c) = cf_itemAborted c"
  "cf_main (at_hb hb c) = cf_main c" "cf_hb (at_hb hb c) = hb" "cf_world (at_hb hb c) = cf_world c"
  "cf_aborted (at_hb hb c) = cf_aborted c" "cf_itemAborted (at_hb hb c) = cf_itemAborted c"
  "cf_main (in_world w c) = cf_main c" "cf_hb (in_world w c) = cf_hb c" "cf_world (in_world w c) = w"
  "cf_aborted (in_world w c) = cf_aborted c" "cf_itemAborted (in_world w c) = cf_itemAborted c"
  "cf_vars (at_main pc c) = cf_vars c" "cf_vars (at_hb hb c) = cf_vars c" "cf_vars (in_world w c) = cf_vars c"
  by (simp_all add: moves)

lemma left [simp]:
  "cf_main (leave_item c) = Joining" "cf_hb (leave_item c) = cf_hb c" "cf_world (leave_item c) = cf_world c"
  "cf_aborted (leave_item c) = cf_aborted c" "cf_itemAborted (leave_item c)" "cf_vars (leave_item c) = cf_vars c"
  by (simp_all add: moves)

lemma rounds [simp]:
  "cf_main (next_round c) = (if halted c then Exited else Claiming)" "cf_hb (next_round c) = cf_hb c"
  "cf_world (next_round c) = cf_world c" "cf_aborted (next_round c) = cf_aborted c"
  "cf_itemAborted (next_round c) = cf_itemAborted c" "cf_vars (next_round c) = cf_vars c"
  by (simp_all add: next_round_def)

lemma halted_moved [simp]:
  "halted (at_main pc c) = halted c" "halted (at_hb hb c) = halted c" "halted (leave_item c) = halted c"
  "halted (next_round c) = halted c"
  by (simp_all add: halted_def)

lemma beat [simp]:
  "cf_main (heartbeat_round ci c) = cf_main c" "cf_world (heartbeat_round ci c) = cf_world c"
  "cf_aborted (heartbeat_round ci c) = cf_aborted c" "cf_itemAborted (heartbeat_round ci c) = cf_itemAborted c"
  "cf_hb (heartbeat_round ci c) = (if halted c \<or> cf_itemAborted c then HbDone else HbSleeping ci)"
  "cf_vars (heartbeat_round ci c) = cf_vars c"
  by (simp_all add: heartbeat_round_def)

lemma reported [simp]:
  "cf_main (safeOnError k e c) = cf_main c" "cf_hb (safeOnError k e c) = cf_hb c"
  "cf_aborted (safeOnError k e c) = cf_aborted c" "cf_itemAborted (safeOnError k e c) = cf_itemAborted c"
  "cf_main (markAborted k e c) = cf_main c" "cf_hb (markAborted k e c) = cf_hb c"
  "cf_aborted (markAborted k e c)" "cf_itemAborted (markAborted k e c) = cf_itemAborted c"
  "cf_vars (safeOnError k e c) = cf_vars c" "cf_vars (markAborted k e c) = cf_vars c"
  "halted (markAborted k e c)"
  by (simp_all add: safeOnError_def markAborted_def halted_def)

lemma slept [simp]:
  "cf_main (item_sleep ms c) = cf_main c" "cf_hb (item_sleep ms c) = cf_hb c"
  "cf_aborted (item_sleep ms c) = cf_aborted c" "cf_itemAborted (item_sleep ms c) = cf_itemAborted c"
  "cf_vars (item_sleep ms c) = cf_vars c"
  by (simp_all add: item_sleep_def)

lemma handler_round_fields [simp]:
  "cf_hb (handler_round k ev ci a ps c) = cf_hb c"
  "cf_main (handler_round k ev ci a ps c) = (if halted c then Joining else Handling ev ci a ps)"
  "cf_aborted (handler_round k ev ci a ps c) = cf_aborted c"
  "cf_itemAborted (handler_round k ev ci a ps c) = (cf_itemAborted c \<or> halted c)"
  by (simp_all add: handler_round_def)

section \<open>The world moves forward\<close>

lemma onward_moves [simp]:
  "onward c (at_main pc c') = onward c c'" "onward c (at_hb hb c') = onward c c'"
  "onward c (leave_item c') = onward c c'" "onward c (next_round c') = onward c c'"
  "onward c (heartbeat_round ci c') = onward c c'"
  by (simp_all add: onward_def)

lemma onward_world: "extends_world (cf_world c) w \<Longrightarrow> onward c (in_world w c)"
  by (simp add: onward_def)

lemma onward_vars: "extends_world (cf_world c) w \<Longrightarrow> onward c (c\<lparr>cf_vars := v, cf_world := w\<rparr>)"
  by (simp add: onward_def)

lemma onward_report: "well_behaved k \<Longrightarrow> onward c c' \<Longrightarrow> onward c (safeOnError k e c')"
  using extends_trans by (fastforce simp: onward_def safeOnError_def well_behaved_def)

lemma onward_abort: "well_behaved k \<Longrightarrow> onward c c' \<Longrightarrow> onward c (markAborted k e c')"
  using extends_trans by (fastforce simp: onward_def markAborted_def safeOnError_def well_behaved_def)

lemma onward_sleep: "onward c (item_sleep ms c)"
  using timer_extends [of ms "cf_world c"] by (auto simp: item_sleep_def onward_def intro: surjective_pairing)

lemma onward_round: "well_behaved k \<Longrightarrow> onward c c' \<Longrightarrow> onward c (handler_round k ev ci a ps c')"
  using extends_trans by (fastforce simp: onward_def handler_round_def well_behaved_def)

lemma sleep_onward [simp]: "extends_world w (snd (sleep b ms w))"
  by (metis sleep_extends surjective_pairing)

lemma call_extends: "one_call m \<Longrightarrow> m w = (r, w') \<Longrightarrow> extends_world w w'"
  by (blast dest: one_callD)

lemma heartbeat_onward:
  assumes k: "well_behaved k" and cl: "queue_client (wk_client k)"
    and s: "heartbeat_step k hb c = Some c'"
  shows "onward c c'"
proof -
  have x: "extends_world (cf_world c) w1" if "extend_claim k ci (cf_world c) = (r, w1)" for ci r w1
    using that queue_client.extend_item_call [OF cl] call_extends unfolding extend_claim_def by blast
  show ?thesis
    using s onward_sleep [of c]
    by (cases hb) (auto simp: Let_def intro!: onward_abort onward_report onward_world k dest!: x
        split: prod.splits sum.splits if_splits)
qed

lemma main_onward:
  assumes k: "well_behaved k" and cl: "queue_client (wk_client k)"
    and s: "main_step k pc c = Some c'"
  shows "onward c c'"
proof (cases pc)
  case Claiming
  with s show ?thesis
    using call_extends [OF queue_client.claim_item_call [OF cl]]
    by (auto simp: claimed_next_def intro!: onward_report onward_world k split: prod.splits sum.splits option.splits)
next
  case Idling
  with s show ?thesis by (auto intro!: onward_world)
next
  case (Reading ci)
  have r: "extends_world (cf_world c) w1" if "cl_readAll (wk_client k) e 1 (cf_world c) = (r, w1)" for e r w1
    using that by (rule call_extends [OF queue_client.read_all_call [OF cl]])
  have w: "onward c (c\<lparr>cf_world := w1, cf_itemAborted := b\<rparr>)" if "extends_world (cf_world c) w1" for w1 b
    using that by (simp add: onward_def)
  from Reading s show ?thesis
    by (auto simp: payload_read_def intro!: onward_report onward_round onward_world k w dest!: r
        split: prod.splits sum.splits list.splits if_splits)
next
  case (Handling ev ci a ps)
  with s k show ?thesis
    by (auto simp: handled_def well_behaved_def intro!: onward_report onward_vars k split: option.splits sum.splits)
next
  case (Deciding ev ci a ps err)
  have p: "extends_world (cf_world c) w1" if "wk_errorPolicy k err x ps (cf_world c) = (r, w1)" for x r w1
    using k that unfolding well_behaved_def by (metis snd_conv)
  from Deciding s show ?thesis
    by (auto simp: decided_def intro!: onward_abort onward_report onward_world k dest!: p
        split: prod.splits sum.splits error_policy_decision.splits)
next
  case (BackingOff ev ci a ps ms)
  with s show ?thesis by (auto simp: retried_def intro!: onward_round onward_world k)
next
  case (Completing ev ci)
  with s k show ?thesis
    by (auto simp: completed_def Let_def well_behaved_def intro!: onward_report onward_abort onward_vars k
        split: option.splits sum.splits if_splits)
qed (use s in \<open>auto split: if_splits\<close>)

lemma task_onward:
  assumes "well_behaved k" "queue_client (wk_client k)" "run_task k t c = Some c'"
  shows "onward c c'"
proof (cases t)
  case Main
  with assms show ?thesis by (simp add: main_onward)
next
  case Heartbeat
  with assms show ?thesis by (simp add: heartbeat_onward)
next
  case StopCall
  with assms show ?thesis by (auto simp: stop_worker_def onward_def extends_world_def)
qed

lemma steps_onward:
  "(worker_step k)\<^sup>*\<^sup>* c c' \<Longrightarrow> well_behaved k \<Longrightarrow> queue_client (wk_client k) \<Longrightarrow> onward c c'"
  by (induction rule: rtranclp_induct) (auto simp: worker_step_iff intro: onward_trans task_onward)

section \<open>Where the two can be\<close>

fun hb_claim :: "hb_pc \<Rightarrow> claim option" where
  "hb_claim HbDone = None"
| "hb_claim (HbSleeping ci) = Some ci"
| "hb_claim (HbExtending ci) = Some ci"
| "hb_claim (HbPausing ci) = Some ci"
| "hb_claim (HbRetrying ci) = Some ci"

text \<open>Work on an item: its event, not over yet, and the heartbeat, if it still runs, is for it.\<close>

definition on_item :: "recorded_event \<Rightarrow> claim \<Rightarrow> ('p, 's) config \<Rightarrow> bool" where
  "on_item ev ci c \<longleftrightarrow>
     re_event_number ev = ci_eventNumber ci \<and> \<not> cf_itemAborted c \<and> (cf_hb c = HbDone \<or> hb_claim (cf_hb c) = Some ci)"

fun placed :: "'p main_pc \<Rightarrow> ('p, 's) config \<Rightarrow> bool" where
  "placed Claiming c = (cf_hb c = HbDone)"
| "placed Idling c = (cf_hb c = HbDone)"
| "placed (Reading ci) c = (cf_hb c = HbDone)"
| "placed (Handling ev ci a ps) c = (on_item ev ci c \<and> 1 \<le> a)"
| "placed (Deciding ev ci a ps err) c = (on_item ev ci c \<and> 1 \<le> a)"
| "placed (BackingOff ev ci a ps ms) c = (on_item ev ci c \<and> 1 \<le> a)"
| "placed (Completing ev ci) c = on_item ev ci c"
| "placed Joining c = cf_itemAborted c"
| "placed Exited c = (cf_hb c = HbDone \<and> halted c)"

definition well_placed :: "('p, 's) config \<Rightarrow> bool" where
  "well_placed c \<longleftrightarrow> placed (cf_main c) c"

lemma well_placed_start: "startProcessingWorker hst cl def opts vars w = (k, c) \<Longrightarrow> well_placed c"
  by (auto simp: startProcessingWorker_def well_placed_def Let_def split: prod.splits)

lemma main_placed:
  assumes "well_placed c" "main_step k (cf_main c) c = Some c'"
  shows "well_placed c'"
  using assms
  by (cases "cf_main c")
     (auto simp: well_placed_def claimed_next_def payload_read_def handled_def decided_def retried_def completed_def
        on_item_def Let_def split: prod.splits sum.splits option.splits list.splits if_splits
        error_policy_decision.splits)

lemma heartbeat_placed:
  assumes "well_placed c" "heartbeat_step k (cf_hb c) c = Some c'"
  shows "well_placed c'"
proof -
  have m: "cf_main c' = cf_main c \<and> cf_itemAborted c' = cf_itemAborted c \<and> (cf_hb c' = HbDone \<or> hb_claim (cf_hb c') = hb_claim (cf_hb c))
      \<and> cf_hb c \<noteq> HbDone"
    using assms(2) by (cases "cf_hb c") (auto simp: Let_def split: prod.splits sum.splits if_splits)
  with assms(1) show ?thesis
    by (cases "cf_main c") (auto simp: well_placed_def on_item_def)
qed

lemma stop_placed: "well_placed c \<Longrightarrow> well_placed (stop_worker c)"
  by (cases "cf_main c") (auto simp: well_placed_def stop_worker_def on_item_def halted_def)

lemma steps_placed: "(worker_step k)\<^sup>*\<^sup>* c c' \<Longrightarrow> well_placed c \<Longrightarrow> well_placed c'"
proof (induction rule: rtranclp_induct)
  case (step c1 c2)
  then obtain t where "run_task k t c1 = Some c2" "well_placed c1" by (auto simp: worker_step_iff)
  then show ?case using main_placed heartbeat_placed stop_placed by (cases t) auto
qed simp

section \<open>Draining\<close>

fun main_rank :: "'p main_pc \<Rightarrow> nat" where
  "main_rank Claiming = 3"
| "main_rank Idling = 1"
| "main_rank (Reading ci) = 2"
| "main_rank (Handling ev ci a ps) = 4"
| "main_rank (Deciding ev ci a ps err) = 3"
| "main_rank (BackingOff ev ci a ps ms) = 2"
| "main_rank (Completing ev ci) = 2"
| "main_rank Joining = 1"
| "main_rank Exited = 0"

fun hb_rank :: "hb_pc \<Rightarrow> nat" where
  "hb_rank HbDone = 0"
| "hb_rank (HbExtending ci) = 2"
| "hb_rank _ = 1"

definition drain :: "('p, 's) config \<Rightarrow> nat" where
  "drain c = main_rank (cf_main c) + hb_rank (cf_hb c)"

lemma drain_bound: "drain c \<le> 6"
proof -
  have "main_rank (cf_main c) \<le> 4" by (cases "cf_main c") auto
  moreover have "hb_rank (cf_hb c) \<le> 2" by (cases "cf_hb c") auto
  ultimately show ?thesis by (simp add: drain_def)
qed

text \<open>Every step of a halted worker brings it closer to its end.\<close>

lemma halted_reported: "well_behaved k \<Longrightarrow> halted c \<Longrightarrow> halted (safeOnError k e c)"
  using onward_report [of k c c e] onward_halted by fastforce

lemma main_drain:
  assumes k: "well_behaved k" and cl: "queue_client (wk_client k)" and p: "well_placed c"
    and s: "main_step k (cf_main c) c = Some c'" and h: "halted c"
  shows "main_rank (cf_main c') < main_rank (cf_main c) \<and> cf_hb c' = cf_hb c"
proof -
  have in_w: "halted (in_world w1 c)" if "extends_world (cf_world c) w1" for w1
    using onward_halted [OF onward_world [OF that] h] .
  show ?thesis
  proof (cases "cf_main c")
    case (Reading ci)
    obtain r w1 where r: "cl_readAll (wk_client k) (ci_eventNumber ci) 1 (cf_world c) = (r, w1)" by force
    have "extends_world (cf_world c) w1" using r by (rule call_extends [OF queue_client.read_all_call [OF cl]])
    then have h1: "halted (in_world w1 c)" by (rule in_w)
    then have h2: "halted (c\<lparr>cf_world := w1, cf_itemAborted := b\<rparr>)" for b by (simp add: halted_def in_world_def)
    have h3: "halted (safeOnError k e (in_world w1 c))" for e by (rule halted_reported [OF k h1])
    from p Reading have hb: "cf_hb c = HbDone" by (simp add: well_placed_def)
    have "halted (heartbeat_round ci (c\<lparr>cf_world := w1, cf_itemAborted := False\<rparr>))"
      using h2 by (simp add: heartbeat_round_def)
    with Reading s r h2 h3 hb show ?thesis
      by (cases r) (auto simp: payload_read_def split: list.splits if_splits)
  next
    case (BackingOff ev ci a ps ms)
    have "halted (in_world (snd (sleep (cf_aborted c) ms (cf_world c))) c)" by (rule in_w) simp
    with BackingOff s show ?thesis by (auto simp: retried_def)
  next
    case Idling
    have "halted (in_world (snd (sleep (cf_aborted c) (wk_pollInterval k) (cf_world c))) c)" by (rule in_w) simp
    with Idling s show ?thesis by auto
  qed (use s h in \<open>auto simp: claimed_next_def handled_def decided_def completed_def Let_def
      split: prod.splits sum.splits option.splits if_splits error_policy_decision.splits\<close>)
qed

lemma heartbeat_drain:
  assumes k: "well_behaved k" and cl: "queue_client (wk_client k)"
    and s: "heartbeat_step k (cf_hb c) c = Some c'" and h: "halted c"
  shows "hb_rank (cf_hb c') < hb_rank (cf_hb c) \<and> cf_main c' = cf_main c"
proof -
  have x: "halted (in_world w1 c)" if "extend_claim k ci (cf_world c) = (r, w1)" for ci r w1
    using that queue_client.extend_item_call [OF cl] call_extends onward_halted [OF onward_world h]
    unfolding extend_claim_def by blast
  have sl: "halted (item_sleep ms c)" for ms using onward_halted [OF onward_sleep h] .
  show ?thesis
    using s by (cases "cf_hb c") (auto simp: Let_def sl split: prod.splits sum.splits if_splits dest: x)
qed

lemma drains:
  assumes k: "well_behaved k" and cl: "queue_client (wk_client k)"
  shows "run_schedule k ts c = Some c' \<Longrightarrow> StopCall \<notin> set ts \<Longrightarrow> halted c \<Longrightarrow> well_placed c \<Longrightarrow>
     halted c' \<and> well_placed c' \<and> length ts + drain c' \<le> drain c"
proof (induction ts arbitrary: c)
  case (Cons t ts)
  then obtain c1 where t: "run_task k t c = Some c1" and r: "run_schedule k ts c1 = Some c'"
    by (auto split: option.splits)
  have "halted c1" using onward_halted [OF task_onward [OF k cl t] Cons.prems(3)] .
  moreover have "well_placed c1 \<and> drain c1 < drain c"
  proof (cases t)
    case Main
    with t have s: "main_step k (cf_main c) c = Some c1" by simp
    from main_drain [OF k cl Cons.prems(4) s Cons.prems(3)] main_placed [OF Cons.prems(4) s]
    show ?thesis by (simp add: drain_def)
  next
    case Heartbeat
    with t have s: "heartbeat_step k (cf_hb c) c = Some c1" by simp
    from heartbeat_drain [OF k cl s Cons.prems(3)] heartbeat_placed [OF Cons.prems(4) s]
    show ?thesis by (simp add: drain_def)
  qed (use Cons.prems in simp)
  ultimately show ?case using Cons.IH [OF r] Cons.prems(2) by simp
qed simp

text \<open>User code the worker waits for, which does not return.\<close>

definition user_hangs :: "('p, 's) worker \<Rightarrow> ('p, 's) config \<Rightarrow> bool" where
  "user_hangs k c \<longleftrightarrow>
     (case cf_main c of
        Handling ev ci a ps \<Rightarrow> wk_handle k ev (handler_ctx k ci a c) (cf_vars c) (cf_world c) = None
      | Completing ev ci \<Rightarrow> wk_complete k ev (handler_ctx k ci 1 c) (cf_vars c) (cf_world c) = None
      | _ \<Rightarrow> False)"

lemma stuck:
  assumes "run_task k Main c = None" "run_task k Heartbeat c = None" "well_placed c"
  shows "cf_main c = Exited \<or> user_hangs k c"
  using assms
  by (cases "cf_main c"; cases "cf_hb c")
     (auto simp: user_hangs_def handled_def completed_def Let_def split: prod.splits sum.splits option.splits if_splits)

end
