(* ===== verification/Completion_Laws.thy ===== *)
theory Completion_Laws
  imports Processing_Laws
begin

text \<open>
  Where the loop of the processing worker comes from: an item at its completion was handled, in the same
  run. And what the two calls that acknowledge an item do: the locale \<open>completion_client\<close>, an
  extension of \<open>queue_client\<close> interpreted on the client of the model.
\<close>

section \<open>Traces\<close>

lemma schedule_steps: "run_schedule k ts c = Some c' \<Longrightarrow> (worker_step k)\<^sup>*\<^sup>* c c'"
proof (induction ts arbitrary: c)
  case (Cons t ts)
  then obtain c1 where "run_task k t c = Some c1" "run_schedule k ts c1 = Some c'" by (auto split: option.splits)
  with Cons.IH show ?case by (meson converse_rtranclp_into_rtranclp step_task)
qed simp

lemma schedule_append:
  "run_schedule k (ts @ us) c = (case run_schedule k ts c of None \<Rightarrow> None | Some c1 \<Rightarrow> run_schedule k us c1)"
  by (induction ts arbitrary: c) (auto split: option.splits)

lemma heartbeat_keeps:
  assumes "heartbeat_step k hb c = Some c'"
  shows "cf_main c' = cf_main c \<and> cf_vars c' = cf_vars c \<and> cf_itemAborted c' = cf_itemAborted c"
  using assms by (cases hb) (auto simp: Let_def split: prod.splits sum.splits if_splits)

lemma stop_keeps [simp]:
  "cf_main (stop_worker c) = cf_main c" "cf_vars (stop_worker c) = cf_vars c"
  "cf_aborted (stop_worker c) = cf_aborted c" "cf_hb (stop_worker c) = cf_hb c"
  by (simp_all add: stop_worker_def)

text \<open>Only steps of the loop move the loop and change the worker's variables.\<close>

lemma other_task:
  assumes "run_task k t c = Some c'" "t \<noteq> Main"
  shows "cf_main c' = cf_main c \<and> cf_vars c' = cf_vars c"
  using assms heartbeat_keeps by (cases t) auto

text \<open>Where the loop goes on after an await.\<close>

lemma claimed_next_main: "cf_main (claimed_next k c) \<in> insert Idling (range Reading)"
  by (auto simp: claimed_next_def split: prod.split sum.split option.split)

lemma payload_read_main:
  "cf_main (payload_read k ci c) \<in> {Exited, Claiming, Joining} \<or>
   (\<exists>ev. cf_main (payload_read k ci c) = Handling ev ci 1 None)"
  by (auto simp: payload_read_def split: prod.split sum.split list.split)

lemma decided_main:
  "cf_main (decided k ev ci a ps err c) = Joining \<or>
   (\<exists>ms ps1 w1. cf_main (decided k ev ci a ps err c) = BackingOff ev ci a ps1 ms
      \<and> wk_errorPolicy k err \<lparr>pc_workerId = wk_workerId k, pc_partitionKey = ci_partitionKey ci,
           pc_eventNumber = ci_eventNumber ci, pc_attempt = a, pc_logger = wk_logger k\<rparr> ps (cf_world c)
         = (Inr \<lparr>pr_decision = RetryIn ms, pr_state = ps1\<rparr>, w1))"
  by (auto simp: decided_def split: prod.split sum.split error_policy_decision.split)

lemma retried_main: "cf_main (retried k ev ci a ps ms c) \<in> {Joining, Handling ev ci (a + 1) ps}"
  by (simp add: retried_def)

lemma completed_main: "completed k ev ci c = Some c' \<Longrightarrow> cf_main c' = Joining"
  by (auto simp: completed_def Let_def split: option.splits sum.splits if_splits)

lemma next_main: "cf_main (next_round c) \<in> {Exited, Claiming}"
  by simp

lemma handled_main:
  "handled k ev ci a ps c = Some c' \<Longrightarrow>
   (\<exists>s' w'. wk_handle k ev (handler_ctx k ci a c) (cf_vars c) (cf_world c) = Some (Inr (), s', w')
      \<and> cf_main c' = Completing ev ci \<and> cf_vars c' = s' \<and> cf_world c' = w')
   \<or> (\<exists>err. cf_main c' = Deciding ev ci a ps err)"
  by (auto simp: handled_def split: option.splits sum.splits)

text \<open>Which step of the loop leads where.\<close>

lemma main_sources:
  assumes "main_step k pc c = Some c'"
  shows "cf_main c' = Completing ev ci \<Longrightarrow> \<exists>a ps. pc = Handling ev ci a ps
           \<and> wk_handle k ev (handler_ctx k ci a c) (cf_vars c) (cf_world c) = Some (Inr (), cf_vars c', cf_world c')"
    and "cf_main c' = Handling ev ci a ps \<Longrightarrow> (a = 1 \<and> pc = Reading ci) \<or> (\<exists>ms. pc = BackingOff ev ci (a - 1) ps ms)"
    and "cf_main c' = BackingOff ev ci a ps ms \<Longrightarrow> \<exists>ps0 err w1. pc = Deciding ev ci a ps0 err
           \<and> wk_errorPolicy k err \<lparr>pc_workerId = wk_workerId k, pc_partitionKey = ci_partitionKey ci,
                pc_eventNumber = ci_eventNumber ci, pc_attempt = a, pc_logger = wk_logger k\<rparr> ps0 (cf_world c)
              = (Inr \<lparr>pr_decision = RetryIn ms, pr_state = ps\<rparr>, w1)"
    and "cf_main c' = Deciding ev ci a ps err \<Longrightarrow> pc = Handling ev ci a ps"
proof (atomize (full), goal_cases)
  case 1
  show ?case
  proof (cases pc)
    case Claiming
    with assms claimed_next_main [of k c] show ?thesis by auto
  next
    case (Reading x)
    with assms payload_read_main [of k x c] show ?thesis by auto
  next
    case (Handling x1 x2 x3 x4)
    with assms handled_main [of k x1 x2 x3 x4 c c'] show ?thesis by auto
  next
    case (Deciding x1 x2 x3 x4 x5)
    with assms decided_main [of k x1 x2 x3 x4 x5 c] show ?thesis by auto
  next
    case (BackingOff x1 x2 x3 x4 x5)
    with assms retried_main [of k x1 x2 x3 x4 x5 c] show ?thesis by auto
  next
    case (Completing x1 x2)
    with assms completed_main [of k x1 x2 c c'] show ?thesis by auto
  qed (use assms in \<open>auto split: if_splits\<close>)
qed

text \<open>A run that reaches the completion of an item came through its handler, which returned normally.\<close>

lemma completing_handled:
  assumes "(worker_step k)\<^sup>*\<^sup>* c0 c" "cf_main c0 = Claiming" "cf_main c = Completing ev ci"
  shows "\<exists>c1 c2 a ps. (worker_step k)\<^sup>*\<^sup>* c0 c1 \<and> cf_main c1 = Handling ev ci a ps
     \<and> wk_handle k ev (handler_ctx k ci a c1) (cf_vars c1) (cf_world c1) = Some (Inr (), cf_vars c2, cf_world c2)
     \<and> (worker_step k)\<^sup>*\<^sup>* c2 c \<and> cf_vars c = cf_vars c2"
  using assms
proof (induction rule: rtranclp_induct)
  case base
  then show ?case by simp
next
  case (step c1 c2)
  from step.hyps(2) obtain t where t: "run_task k t c1 = Some c2" by (auto simp: worker_step_iff)
  show ?case
  proof (cases "t = Main")
    case True
    with t have "main_step k (cf_main c1) c1 = Some c2" by simp
    from main_sources(1) [OF this step.prems(2)] step.hyps(1) show ?thesis by blast
  next
    case False
    have e: "cf_main c2 = cf_main c1" "cf_vars c2 = cf_vars c1" using other_task [OF t False] by simp_all
    from step.IH [unfolded e(1) [symmetric], OF step.prems] obtain d1 d2 a ps where
      d: "(worker_step k)\<^sup>*\<^sup>* c0 d1" "cf_main d1 = Handling ev ci a ps"
      "wk_handle k ev (handler_ctx k ci a d1) (cf_vars d1) (cf_world d1) = Some (Inr (), cf_vars d2, cf_world d2)"
      "(worker_step k)\<^sup>*\<^sup>* d2 c1" "cf_vars c1 = cf_vars d2" by blast
    from rtranclp.rtrancl_into_rtrancl [OF d(4) step.hyps(2)] d e show ?thesis by metis
  qed
qed

lemma handled_before:
  fixes k :: "('p, 's) worker"
  assumes "(worker_step k)\<^sup>*\<^sup>* c0 c" "cf_main c0 = Claiming" "cf_main c = Completing ev ci"
  shows "\<exists>a s v w1 w2. wk_handle k ev (handler_ctx k ci a s) v w1 = Some (Inr (), cf_vars c, w2)"
proof -
  from completing_handled [OF assms] obtain a and c1 c2 :: "('p, 's) config" where
    "wk_handle k ev (handler_ctx k ci a c1) (cf_vars c1) (cf_world c1) = Some (Inr (), cf_vars c2, cf_world c2)"
    "cf_vars c = cf_vars c2" by blast
  then show ?thesis by (intro exI) simp
qed

lemma start_claiming: "startProcessingWorker hst cl def opts vars w = (k, c0) \<Longrightarrow> cf_main c0 = Claiming"
  by (auto simp: startProcessingWorker_def Let_def split: prod.splits)

section \<open>Acknowledging an item\<close>

lemma complete_projection_effect:
  assumes "completeWorkItemProjection u n wk p e w = (Inr x, w')"
  shows "\<exists>w0 s. quiet w w0 \<and> find_stream u (w_db w0) = Some s \<and> holds_item u n wk p e (w_db w0)
     \<and> w_db w' = (w_db w0)\<lparr>items := filter (\<lambda>j. \<not> item_key (s_id s) n p e j) (items (w_db w0))\<rparr>"
proof -
  from assms obtain r where run: "run (bind_sum (bigint_param e) (\<lambda>en.
      Inr (CCompleteProjection (Some u) (Some n) (Some wk) (Some p) (Some en)))) (item_ctx u n p e) w = (Inr r, w')"
    by (auto simp: completeWorkItemProjection_def bind_io_Inr unit_reply_lift lift_io_eq)
  show ?thesis
  proof (rule run_effect [OF run])
    fix c1 w0
    assume c: "bind_sum (bigint_param e) (\<lambda>en. Inr (CCompleteProjection (Some u) (Some n) (Some wk) (Some p) (Some en))) = Inr c1"
      and q: "quiet w w0" and x: "exec (with_locks (w_env w (w_pos w)) c1) (w_db w0) = Inr (r, w_db w')"
    from c have "c1 = CCompleteProjection (Some u) (Some n) (Some wk) (Some p) (Some e)"
      by (auto simp: bind_sum_Inr bigint_param_def bigint_in_show)
    with x fenced [OF x] q show ?thesis
      by (auto simp: tag_Inr complete_work_item_projection_def check_defs sum_iffs with_claimed_item_Inr)
  qed
qed

text \<open>The item is done and the snapshot holds what it was given, in one step.\<close>

lemma complete_pm_effect:
  assumes "completeWorkItemPm u n wk p e si w = (Inr x, w')"
  shows "\<exists>w0 s. quiet w w0 \<and> find_stream u (w_db w0) = Some s \<and> holds_item u n wk p e (w_db w0)
     \<and> (\<exists>i \<in> set (items (w_db w')). item_key (s_id s) n p e i \<and> i_state i = Done)
     \<and> (\<exists>t. snap_of (si_source_uuid si) w' = Some t \<and> sn_data t = si_data si
           \<and> sn_source_version t = si_source_version si \<and> sn_metadata t = null_json (si_metadata si))
     \<and> log_of w' = log_of w0"
proof -
  let ?done = "\<lambda>r. r\<lparr>i_state := Done, i_claimed_by := None, i_lease := None\<rparr>"
  from assms obtain r where run: "run (bind_sum (bigint_param e) (\<lambda>en. bind_sum (bigint_param (si_source_version si)) (\<lambda>v.
      Inr (CCompletePm (Some u) (Some n) (Some wk) (Some p) (Some en) (Some (si_source_uuid si)) (Some (si_source_type si))
        (Some v) (Some (si_data si)) (si_metadata si)))))
      ((item_ctx u n p e)\<lparr>ctx_sourceUuid := Some (si_source_uuid si)\<rparr>) w = (Inr r, w')"
    by (auto simp: completeWorkItemPm_def bind_io_Inr unit_reply_lift lift_io_eq)
  show ?thesis
  proof (rule run_effect [OF run])
    fix c1 w0
    assume c: "bind_sum (bigint_param e) (\<lambda>en. bind_sum (bigint_param (si_source_version si)) (\<lambda>v.
        Inr (CCompletePm (Some u) (Some n) (Some wk) (Some p) (Some en) (Some (si_source_uuid si)) (Some (si_source_type si))
          (Some v) (Some (si_data si)) (si_metadata si)))) = Inr c1"
      and q: "quiet w w0" and x: "exec (with_locks (w_env w (w_pos w)) c1) (w_db w0) = Inr (r, w_db w')"
    from c have c1: "c1 = CCompletePm (Some u) (Some n) (Some wk) (Some p) (Some e) (Some (si_source_uuid si))
        (Some (si_source_type si)) (Some (si_source_version si)) (Some (si_data si)) (si_metadata si)"
      by (auto simp: bind_sum_Inr bigint_param_def bigint_in_show)
    from x c1 obtain s i where s: "find_stream u (w_db w0) = Some s" and v: "0 \<le> si_source_version si"
      and i: "find_item (s_id s) n p e (w_db w0) = Some i"
      and d: "w_db w' = upsert_snapshot (si_source_uuid si) (si_source_type si) (nat (si_source_version si)) (si_data si)
        (si_metadata si) (update_item (s_id s) n p e ?done (w_db w0))"
      by (auto simp: tag_Inr complete_work_item_pm_def check_defs sum_iffs with_claimed_item_Inr null_or_neg_def)
    from fenced [OF x] c1 have h: "holds_item u n wk p e (w_db w0)" by simp
    from find_item_Some [OF i] have "?done i \<in> set (items (w_db w'))" "item_key (s_id s) n p e (?done i)"
      by (auto simp: d update_item_def item_key_def item_of_def)
    then have "\<exists>j \<in> set (items (w_db w')). item_key (s_id s) n p e j \<and> i_state j = Done" by force
    moreover have "log_of w' = log_of w0" by (simp add: log_of_def d store_log_def glinks_def)
    moreover have "\<exists>t. snap_of (si_source_uuid si) w' = Some t \<and> sn_data t = si_data si
        \<and> sn_source_version t = si_source_version si \<and> sn_metadata t = null_json (si_metadata si)"
      using v by (simp add: snap_of_def d find_upsert snapshot_of_def)
    ultimately show ?thesis using q s h by blast
  qed
qed

lemma complete_instance_effect:
  assumes "completePmInstance u n p snu w = (Inr x, w')"
  shows "\<exists>w0 s. quiet w w0 \<and> find_stream u (w_db w0) = Some s
     \<and> w_db w' = (w_db w0)\<lparr>items := filter (\<lambda>j. \<not> (item_of (s_id s) n j \<and> i_partition j = p)) (items (w_db w0)),
                      snaps := filter (\<lambda>r. n_source_uuid r \<noteq> snu) (snaps (w_db w0))\<rparr>"
proof -
  from assms obtain r where run: "run (Inr (CCompleteInstance (Some u) (Some n) (Some p) (Some snu)))
      ((sub_ctx u n)\<lparr>ctx_partitionKey := Some p, ctx_sourceUuid := Some snu\<rparr>) w = (Inr r, w')"
    by (auto simp: completePmInstance_def bind_io_Inr lift_io_eq)
  show ?thesis
  proof (rule run_effect [OF run])
    fix c1 w0
    assume "Inr (CCompleteInstance (Some u) (Some n) (Some p) (Some snu)) = Inr c1" "quiet w w0"
      and x: "exec (with_locks (w_env w (w_pos w)) c1) (w_db w0) = Inr (r, w_db w')"
    then have "c1 = CCompleteInstance (Some u) (Some n) (Some p) (Some snu)" by simp
    with x \<open>quiet w w0\<close> show ?thesis
      by (auto simp: tag_Inr complete_pm_instance_def check_defs lookup_defs sum_iffs Let_def split: option.splits)
  qed
qed

locale completion_client = queue_client +
  assumes complete_projection_deletes: "cl_completeWorkItemProjection cl u n wk p e w = (Inr y, w') \<Longrightarrow>
      \<exists>w0 s. quiet w w0 \<and> find_stream u (w_db w0) = Some s \<and> holds_item u n wk p e (w_db w0)
        \<and> w_db w' = (w_db w0)\<lparr>items := filter (\<lambda>j. \<not> item_key (s_id s) n p e j) (items (w_db w0))\<rparr>"
    and complete_pm_records: "cl_completeWorkItemPm cl u n wk p e si w = (Inr y, w') \<Longrightarrow>
      \<exists>w0 s. quiet w w0 \<and> find_stream u (w_db w0) = Some s \<and> holds_item u n wk p e (w_db w0)
        \<and> (\<exists>i \<in> set (items (w_db w')). item_key (s_id s) n p e i \<and> i_state i = Done)
        \<and> (\<exists>t. snap_of (si_source_uuid si) w' = Some t \<and> sn_data t = si_data si
              \<and> sn_source_version t = si_source_version si \<and> sn_metadata t = null_json (si_metadata si))
        \<and> log_of w' = log_of w0"
    and complete_instance_deletes: "cl_completePmInstance cl u n p snu w = (Inr z, w') \<Longrightarrow>
      \<exists>w0 s. quiet w w0 \<and> find_stream u (w_db w0) = Some s
        \<and> w_db w' = (w_db w0)\<lparr>items := filter (\<lambda>j. \<not> (item_of (s_id s) n j \<and> i_partition j = p)) (items (w_db w0)),
                         snaps := filter (\<lambda>r. n_source_uuid r \<noteq> snu) (snaps (w_db w0))\<rparr>"

interpretation pgd: completion_client pg_client
  by (unfold_locales; unfold pg_client_def client.select_convs)
     ((rule complete_projection_effect; assumption) | (rule complete_pm_effect; assumption)
      | (rule complete_instance_effect; assumption))+

end
