(* ===== verification/Projection.thy ===== *)
theory Projection
  imports Processing_Laws
begin

text \<open>
  workers/projection/projection-worker.ts: a processing worker whose terminal step deletes the work
  item. The handler is the application's; the worker's own variables (\<open>'s\<close>) are the handler's closure.
\<close>

record ('p, 's) projection_definition =
  pj_name :: string
  pj_stream :: "string option"
  pj_handler :: "'s handler"
  pj_errorPolicy :: "'p error_policy option"

text \<open>The \<open>complete\<close> callback: one procedure call.\<close>

definition complete_projection :: "client \<Rightarrow> string \<Rightarrow> string \<Rightarrow> 's handler" where
  "complete_projection cl stream name event ctx vars w =
     (case cl_completeWorkItemProjection cl stream name (hc_workerId ctx) (hc_partitionKey ctx) (hc_eventNumber ctx) w of
        (r, w1) \<Rightarrow> Some (r, vars, w1))"

definition startProjectionWorker ::
  "host \<Rightarrow> client \<Rightarrow> ('p, 's) projection_definition \<Rightarrow> worker_options \<Rightarrow> 's \<Rightarrow> world \<Rightarrow> ('p, 's) worker \<times> ('p, 's) config" where
  "startProjectionWorker hst cl def opts vars w =
     (let stream = (case pj_stream def of Some s \<Rightarrow> s | None \<Rightarrow> all_uuid)
      in startProcessingWorker hst cl
           \<lparr>wd_name = pj_name def, wd_stream = Some stream, wd_handle = pj_handler def,
            wd_complete = complete_projection cl stream (pj_name def), wd_errorPolicy = pj_errorPolicy def\<rparr>
           opts vars w)"

end
