(* ===== verification/Worker_Properties.thy ===== *)
theory Worker_Properties
  imports Completion_Laws Projection Queue_Properties
begin

text \<open>
  Properties of the processing worker for every schedule of its loop, its heartbeat and \<open>stop()\<close>, and
  of the retry policies.
\<close>

section \<open>A worker at work\<close>

definition counting :: "nat handler" where
  "counting event ctx n w = Some (Inr (), n + 1, w)"

definition failing :: "nat handler" where
  "failing event ctx n w = Some (Inl (js_error ''boom''), n + 1, w)"

definition counter_definition :: "nat handler \<Rightarrow> unit error_policy option \<Rightarrow> (unit, nat) worker_definition" where
  "counter_definition h pol = \<lparr>wd_name = ''balances'', wd_stream = None, wd_handle = h,
     wd_complete = complete_projection pg_client all_uuid ''balances'', wd_errorPolicy = pol\<rparr>"

definition counter_options :: worker_options where
  "counter_options = \<lparr>op_workerId = Some ''worker-a'', op_leaseSeconds = None, op_heartbeatInterval = None,
     op_pollInterval = None, op_onError = None, op_logger = None\<rparr>"

definition this_host :: host where
  "this_host = \<lparr>h_hostname = Inr ''h'', h_pid = None\<rparr>"

definition counter_start :: "nat handler \<Rightarrow> unit error_policy option \<Rightarrow> (unit, nat) worker \<times> (unit, nat) config" where
  "counter_start h pol = startProcessingWorker this_host pg_client (counter_definition h pol) counter_options 0
     (sample_world\<lparr>w_db := routed_db\<rparr>)"

definition counter_run :: "nat handler \<Rightarrow> unit error_policy option \<Rightarrow> task list \<Rightarrow> (unit, nat) config option" where
  "counter_run h pol ts = (case counter_start h pol of (k, c) \<Rightarrow> run_schedule k ts c)"

text \<open>The run ends in a configuration with a property.\<close>

definition runs_to :: "nat handler \<Rightarrow> unit error_policy option \<Rightarrow> task list \<Rightarrow> ((unit, nat) config \<Rightarrow> bool) \<Rightarrow> bool" where
  "runs_to h pol ts P = (case counter_run h pol ts of Some c \<Rightarrow> P c | None \<Rightarrow> False)"

lemma runs_toE:
  assumes "runs_to h pol ts P"
  obtains k c0 c where "startProcessingWorker this_host pg_client (counter_definition h pol) counter_options 0
      (sample_world\<lparr>w_db := routed_db\<rparr>) = (k, c0)" "run_schedule k ts c0 = Some c" "P c"
  using assms by (auto simp: runs_to_def counter_run_def counter_start_def split: prod.splits option.splits)

lemma runs_to_append:
  assumes "runs_to h pol ts P" "runs_to h pol (ts @ us) Q"
  obtains k c0 c c' where "startProcessingWorker this_host pg_client (counter_definition h pol) counter_options 0
      (sample_world\<lparr>w_db := routed_db\<rparr>) = (k, c0)" "run_schedule k ts c0 = Some c" "P c"
    "run_schedule k us c = Some c'" "Q c'"
proof -
  from assms(1) obtain k c0 c where s: "startProcessingWorker this_host pg_client (counter_definition h pol) counter_options 0
      (sample_world\<lparr>w_db := routed_db\<rparr>) = (k, c0)" "run_schedule k ts c0 = Some c" "P c"
    by (rule runs_toE)
  from assms(2) s(1) obtain c' where "run_schedule k (ts @ us) c0 = Some c'" "Q c'" by (elim runs_toE) auto
  with that s show thesis by (simp add: schedule_append)
qed

definition completing :: "(unit, nat) config \<Rightarrow> bool" where
  "completing c = (case cf_main c of Completing ev ci \<Rightarrow> ci_eventNumber ci = 1 | _ \<Rightarrow> False)"

definition last_failure :: "(unit, nat) config \<Rightarrow> bool" where
  "last_failure c = (case cf_main c of Deciding ev ci a ps err \<Rightarrow> a = 3 | _ \<Rightarrow> False)"

lemma counter_well_behaved:
  assumes "startProcessingWorker this_host pg_client (counter_definition counting None) counter_options 0 w = (k, c0)"
  shows "well_behaved k \<and> wk_client k = pg_client"
proof -
  have "extends_world w w'" if "complete_projection pg_client all_uuid ''balances'' ev x n w = Some (r, n', w')" for ev x n w r n' w'
    using that call_extends [OF pgq.complete_projection_call] by (auto simp: complete_projection_def split: prod.splits)
  moreover have "trace noop m v = v" for m v
    by (simp add: noop_def new_Logger_def bind_level_def NOOP_def)
  ultimately show ?thesis using assms
    by (auto simp: startProcessingWorker_def counter_definition_def counter_options_def well_behaved_def counting_def
        DEFAULT_ERROR_POLICY_def return_io_def noopOnError_def)
qed

section \<open>The types of a run\<close>

text \<open>C33. Whatever the schedule, the worker is in one of its states: outside an item no heartbeat runs, an
  item in hand is the one its heartbeat renews and the event read for it, attempts count from one, and
  the loop has ended only when it was told to.\<close>

theorem worker_states:
  assumes "startProcessingWorker hst cl def opts vars w = (k, c0)" "(worker_step k)\<^sup>*\<^sup>* c0 c"
  shows "well_placed c"
  using steps_placed [OF assms(2) well_placed_start [OF assms(1)]] .

theorem worker_states_witness:
  "\<exists>k c0 c. (worker_step k)\<^sup>*\<^sup>* c0 c \<and> completing c \<and> well_placed (c :: (unit, nat) config)"
proof -
  have "runs_to counting None [Main, Main, Main] completing" by code_simp
  then show ?thesis
  proof (rule runs_toE)
    fix k c0 c
    assume r: "startProcessingWorker this_host pg_client (counter_definition counting None) counter_options 0
        (sample_world\<lparr>w_db := routed_db\<rparr>) = (k, c0)" "run_schedule k [Main, Main, Main] c0 = Some c" "completing c"
    from worker_states [OF r(1) schedule_steps [OF r(2)]] schedule_steps [OF r(2)] r(3) show ?thesis by blast
  qed
qed

section \<open>Stopping\<close>

text \<open>A stopped or aborted worker ends: each of the two runs on at most six times in all, and when neither
  can any more, the loop has exited or it waits for the application's own code, which does not return.\<close>

theorem halted_worker_ends:
  assumes "well_behaved k" "wk_client k = pg_client" "halted c" "well_placed c"
    and "run_schedule k ts c = Some c'" "StopCall \<notin> set ts"
  shows "length ts \<le> 6 \<and> halted c'
     \<and> (run_task k Main c' = None \<and> run_task k Heartbeat c' = None \<longrightarrow> cf_main c' = Exited \<or> user_hangs k c')"
proof -
  have cl: "queue_client (wk_client k)" by (simp add: assms(2) pgq.queue_client_axioms)
  from drains [OF assms(1) cl assms(5,6,3,4)] have d: "halted c'" "well_placed c'" "length ts + drain c' \<le> drain c"
    by simp_all
  have "length ts \<le> 6" using d(3) drain_bound [of c] by linarith
  then show ?thesis using d stuck by blast
qed

theorem halted_worker_ends_witness:
  "\<exists>(k :: (unit, nat) worker) c c'. halted c \<and> run_schedule k [Main, Main, Heartbeat, Main] c = Some c' \<and> halted c'
     \<and> cf_main c' = Exited"
proof -
  let ?before = "[Main, Main, StopCall]" and ?after = "[Main, Main, Heartbeat, Main]"
  have "runs_to counting None (?before @ ?after) (\<lambda>c. cf_main c = Exited)" by code_simp
  then show ?thesis
  proof (rule runs_toE)
    fix k c0 c'
    assume r: "startProcessingWorker this_host pg_client (counter_definition counting None) counter_options 0
        (sample_world\<lparr>w_db := routed_db\<rparr>) = (k, c0)" "run_schedule k (?before @ ?after) c0 = Some c'" "cf_main c' = Exited"
    from r(2) obtain c where c: "run_schedule k ?before c0 = Some c" "run_schedule k ?after c = Some c'"
      by (auto split: option.splits simp del: main_step.simps)
    then have h: "halted c" by (auto split: option.splits simp: stop_worker_def halted_def simp del: main_step.simps)
    have p: "well_placed c" using steps_placed [OF schedule_steps [OF c(1)] well_placed_start [OF r(1)]] .
    from halted_worker_ends [OF _ _ h p c(2)] counter_well_behaved [OF r(1)] h c(2) r(3) show ?thesis by auto
  qed
qed

section \<open>Completion\<close>

text \<open>An item is completed only after its handler has returned normally for exactly its event, in the same
  run; between the two the loop takes no step.\<close>

theorem complete_after_handle:
  assumes "startProcessingWorker hst cl def opts vars w = (k, c0)" "(worker_step k)\<^sup>*\<^sup>* c0 c"
    and "cf_main c = Completing ev ci"
  shows "re_event_number ev = ci_eventNumber ci
     \<and> (\<exists>c1 c2 a ps. (worker_step k)\<^sup>*\<^sup>* c0 c1 \<and> cf_main c1 = Handling ev ci a ps
          \<and> wk_handle k ev (handler_ctx k ci a c1) (cf_vars c1) (cf_world c1) = Some (Inr (), cf_vars c2, cf_world c2)
          \<and> (worker_step k)\<^sup>*\<^sup>* c2 c \<and> cf_vars c = cf_vars c2)"
proof (intro conjI)
  show "re_event_number ev = ci_eventNumber ci"
    using steps_placed [OF assms(2) well_placed_start [OF assms(1)]] assms(3) by (simp add: well_placed_def on_item_def)
qed (rule completing_handled [OF assms(2) start_claiming [OF assms(1)] assms(3)])

theorem complete_after_handle_witness:
  "\<exists>(k :: (unit, nat) worker) c0 c1 (c2 :: (unit, nat) config) ev ci a ps. (worker_step k)\<^sup>*\<^sup>* c0 c1 \<and> cf_main c1 = Handling ev ci a ps
     \<and> wk_handle k ev (handler_ctx k ci a c1) (cf_vars c1) (cf_world c1) = Some (Inr (), cf_vars c2, cf_world c2)
     \<and> re_event_number ev = 1"
proof -
  have "runs_to counting None [Main, Main, Main] completing" by code_simp
  then show ?thesis
  proof (rule runs_toE)
    fix k c0 c
    assume r: "startProcessingWorker this_host pg_client (counter_definition counting None) counter_options 0
        (sample_world\<lparr>w_db := routed_db\<rparr>) = (k, c0)" "run_schedule k [Main, Main, Main] c0 = Some c" "completing c"
    from r(3) obtain ev ci where m: "cf_main c = Completing ev ci" "ci_eventNumber ci = 1"
      by (auto simp: completing_def split: main_pc.splits)
    from complete_after_handle [OF r(1) schedule_steps [OF r(2)] m(1)] m(2) obtain c1 a ps and c2 :: "(unit, nat) config" where
      "(worker_step k)\<^sup>*\<^sup>* c0 c1" "cf_main c1 = Handling ev ci a ps"
      "wk_handle k ev (handler_ctx k ci a c1) (cf_vars c1) (cf_world c1) = Some (Inr (), cf_vars c2, cf_world c2)"
      "re_event_number ev = 1" by auto
    then show ?thesis by blast
  qed
qed

section \<open>Retries\<close>

text \<open>The default policy is the exponential backoff its comment names, although the two cut the exponent
  at different attempts.\<close>

theorem default_policy_is_exponential:
  "exponentialBackoff rnd \<lparr>xo_baseMs = Fin 100, xo_capMs = Fin 30000, xo_jitter = None\<rparr> = Inr DEFAULT_ERROR_POLICY"
proof -
  have "min 30000 (times_pow2 100 (min n 30)) = min 30000 (times_pow2 100 (min n 20))" for n :: int
  proof (cases "n \<le> 20")
    case False
    then have "times_pow2 100 20 \<le> times_pow2 100 (min n 30)" by (intro times_pow2_mono) auto
    moreover have "(30000 :: rat) \<le> times_pow2 100 20" by (simp add: times_pow2_def)
    ultimately show ?thesis using False by (simp add: min_def)
  qed simp
  then show ?thesis
    by (simp add: exponentialBackoff_def bad_ms_def DEFAULT_ERROR_POLICY_def Let_def fun_eq_iff stateless_def)
qed

text \<open>Bounds of the exponential backoff: it never stops, no delay is negative, over the cap or over
  \<open>base * 2 ^ (attempt - 1)\<close>, and up to the attempt where the exponent is cut the delay without jitter is exactly the
  smaller of the two.\<close>

theorem backoff_bounds:
  assumes "exponentialBackoff rnd opts = Inr pol" "xo_baseMs opts = Fin base" "xo_capMs opts = Fin cap"
    and "\<forall>w. 0 \<le> rnd w \<and> rnd w < 1" "1 \<le> pc_attempt ctx"
  shows "\<exists>delay. decision_of pol err ctx st w = Some (RetryIn delay) \<and> 0 \<le> delay \<and> delay \<le> cap
     \<and> delay \<le> base * 2 ^ nat (pc_attempt ctx - 1)
     \<and> (xo_jitter opts \<noteq> Some True \<longrightarrow> pc_attempt ctx \<le> 31 \<longrightarrow> delay = min cap (base * 2 ^ nat (pc_attempt ctx - 1)))"
proof -
  let ?n = "pc_attempt ctx - 1"
  define raw where "raw = min cap (times_pow2 base (min ?n 30))"
  define delay where "delay = (if xo_jitter opts = Some True then rnd w * raw else raw)"
  from assms(1-3) have b: "0 \<le> base" "0 \<le> cap"
    by (auto simp: exponentialBackoff_def Let_def bad_ms_def split: if_splits)
  have le: "times_pow2 base (min ?n 30) \<le> base * 2 ^ nat ?n"
    using times_pow2_mono [OF b(1), of "min ?n 30" ?n] assms(5) by (simp add: times_pow2_def)
  have raw: "0 \<le> raw" "raw \<le> cap" "raw \<le> base * 2 ^ nat ?n"
    using b times_pow2_nonneg [OF b(1)] le by (simp_all add: raw_def min.coboundedI2)
  have "rnd w * raw \<le> raw" using assms(4) raw(1) by (simp add: mult_left_le_one_le less_imp_le)
  then have "0 \<le> delay" "delay \<le> raw" using assms(4) raw(1) by (simp_all add: delay_def)
  moreover from assms(1-3) have "decision_of pol err ctx st w = Some (RetryIn delay)"
    by (auto simp: exponentialBackoff_def Let_def decision_of_def return_io_def stateless_def delay_def raw_def
        split: if_splits option.splits)
  moreover have "delay = min cap (base * 2 ^ nat ?n)" if "xo_jitter opts \<noteq> Some True" "pc_attempt ctx \<le> 31"
    using that assms(5) by (simp add: delay_def raw_def times_pow2_def min_def)
  ultimately show ?thesis using raw by (intro exI [of _ delay]) auto
qed

theorem backoff_bounds_witness:
  "\<exists>pol delay. exponentialBackoff (\<lambda>_. 1 / 2) \<lparr>xo_baseMs = Fin 100, xo_capMs = Fin 1000, xo_jitter = Some True\<rparr> = Inr pol
     \<and> decision_of pol (js_error []) \<lparr>pc_workerId = [], pc_partitionKey = [], pc_eventNumber = 1, pc_attempt = 3, pc_logger = noop\<rparr>
         (None :: unit option) sample_world = Some (RetryIn delay) \<and> 0 \<le> delay \<and> delay \<le> 400"
proof -
  let ?opts = "\<lparr>xo_baseMs = Fin 100, xo_capMs = Fin 1000, xo_jitter = Some True\<rparr>"
  obtain pol :: "unit error_policy" where p: "exponentialBackoff (\<lambda>_. 1 / 2) ?opts = Inr pol"
    by (simp add: exponentialBackoff_def bad_ms_def)
  from backoff_bounds [OF p, of 100 1000 "\<lparr>pc_workerId = [], pc_partitionKey = [], pc_eventNumber = 1, pc_attempt = 3,
      pc_logger = noop\<rparr>" "js_error []" None sample_world] p show ?thesis by auto
qed



definition policy_wait :: "'p error_policy \<Rightarrow> thrown \<Rightarrow> error_policy_context \<Rightarrow> 'p option \<Rightarrow> world \<Rightarrow> nat option" where
  "policy_wait pol err ctx st w =
     (case decision_of pol err ctx st w of Some (RetryIn ms) \<Rightarrow> Some (timer_ms ms) | _ \<Rightarrow> None)"

text \<open>A cap above the 31 bits of a timer undoes the backoff: with a base of one second and a cap of \<open>2 ^ 32\<close>
  milliseconds, attempt 22 waits more than 24 days and every attempt from 23 on waits one millisecond.\<close>

theorem long_backoff_collapses:
  "\<exists>pol. exponentialBackoff rnd \<lparr>xo_baseMs = Fin 1000, xo_capMs = Fin (2 ^ 32), xo_jitter = None\<rparr> = Inr pol
     \<and> policy_wait pol err (ctx\<lparr>pc_attempt := 22\<rparr>) st w = Some 2097152000
     \<and> policy_wait pol err (ctx\<lparr>pc_attempt := 23 + int n\<rparr>) st w = Some 1"
proof -
  have "times_pow2 1000 22 \<le> times_pow2 1000 (min (22 + int n) 30)" by (intro times_pow2_mono) auto
  then have "(2 :: rat) ^ 31 - 1 < min (2 ^ 32) (times_pow2 1000 (min (22 + int n) 30))"
    by (simp add: times_pow2_def)
  then have "timer_ms (min (2 ^ 32) (times_pow2 1000 (min (22 + int n) 30))) = 1"
    unfolding timer_ms_def by (simp only: not_le [symmetric] simp_thms if_False)
  moreover have "timer_ms (min (2 ^ 32) (times_pow2 1000 21)) = 2097152000"
    by (simp add: timer_ms_def times_pow2_def)
  ultimately show ?thesis
    by (simp add: exponentialBackoff_def bad_ms_def policy_wait_def decision_of_def return_io_def stateless_def)
qed

section \<open>The heartbeat\<close>

text \<open>The derived heartbeat comes before the lease runs out exactly for leases of more than one second, and
  three times within a lease of at least three.\<close>

lemma heartbeat_in_time:
  assumes "startProcessingWorker hst cl def opts vars w = (k, c0)" "op_heartbeatInterval opts = None"
  shows "(wk_heartbeatInterval k < 1000 * wk_leaseSeconds k \<longleftrightarrow> 1 < wk_leaseSeconds k)
     \<and> (3 \<le> wk_leaseSeconds k \<longrightarrow> 3 * wk_heartbeatInterval k = 1000 * wk_leaseSeconds k)"
proof -
  let ?l = "wk_leaseSeconds k"
  have i: "wk_heartbeatInterval k = max 1000 (?l * 1000 / 3)"
    using assms by (auto simp: startProcessingWorker_def Let_def split: prod.splits)
  have "max 1000 (?l * 1000 / 3) < 1000 * ?l \<longleftrightarrow> 1000 < 1000 * ?l \<and> ?l * 1000 / 3 < 1000 * ?l" by simp
  also have "\<dots> \<longleftrightarrow> 1 < ?l" by auto
  finally show ?thesis unfolding i by (auto simp: max_def)
qed

end
