(* ===== verification/Json_Text.thy ===== *)
theory Json_Text
  imports Types
begin

text \<open>\<open>JSON.stringify\<close>, on one line and indented, and \<open>Date.prototype.toISOString\<close>.\<close>

section \<open>Text of a JSON value\<close>

definition hex_digit :: "nat \<Rightarrow> char" where
  "hex_digit d = (if d < 10 then char_of (48 + d) else char_of (87 + d))"

definition json_char :: "char \<Rightarrow> string" where
  "json_char c =
     (let n = of_char c :: nat; back = CHR 0x5C
      in if n = 34 \<or> n = 92 then [back, c]
         else if n = 8 then [back, CHR ''b''] else if n = 12 then [back, CHR ''f'']
         else if n = 10 then [back, CHR ''n''] else if n = 13 then [back, CHR ''r'']
         else if n = 9 then [back, CHR ''t'']
         else if n < 32 then [back, CHR ''u'', CHR ''0'', CHR ''0'', hex_digit (n div 16), hex_digit (n mod 16)]
         else [c])"

definition json_quote :: "string \<Rightarrow> string" where
  "json_quote s = [CHR 0x22] @ concat (map json_char s) @ [CHR 0x22]"

fun commas :: "string list \<Rightarrow> string" where
  "commas [] = []"
| "commas [s] = s"
| "commas (s # ss) = s @ '','' @ commas ss"

text \<open>\<open>JSON.stringify(v)\<close>\<close>

function json_stringify :: "json \<Rightarrow> string" where
  "json_stringify JNull = ''null''"
| "json_stringify (JBool b) = (if b then ''true'' else ''false'')"
| "json_stringify (JNum r) = show_num r"
| "json_stringify (JStr s) = json_quote s"
| "json_stringify (JArr vs) = ''['' @ commas (map json_stringify vs) @ '']''"
| "json_stringify (JObj kvs) =
     ''{'' @ commas (map (\<lambda>kv. json_quote (fst kv) @ '':'' @ json_stringify (snd kv)) kvs) @ ''}''"
  by pat_completeness auto
termination
proof (relation "measure size", goal_cases)
  case (3 kvs kv)
  have "size (snd kv) \<le> size_prod (\<lambda>_. 0) size kv" by (cases kv) simp
  also from 3 have "\<dots> \<le> size_list (size_prod (\<lambda>_. 0) size) kvs" by (simp add: size_list_estimation')
  finally show ?case using 3 by (simp add: less_Suc_eq_le)
qed (auto simp: less_Suc_eq_le size_list_estimation')

text \<open>\<open>JSON.stringify(v, _, 2)\<close>, from the current indentation.\<close>

fun lines_of :: "string \<Rightarrow> string list \<Rightarrow> string" where
  "lines_of ind [] = []"
| "lines_of ind [s] = [CHR 0x0A] @ ind @ s @ [CHR 0x0A]"
| "lines_of ind (s # ss) = [CHR 0x0A] @ ind @ s @ '','' @ lines_of ind ss"

definition closing :: "string \<Rightarrow> 'a list \<Rightarrow> string" where
  "closing ind xs = (if xs = [] then [] else ind)"

function json_indented :: "string \<Rightarrow> json \<Rightarrow> string" where
  "json_indented ind JNull = ''null''"
| "json_indented ind (JBool b) = (if b then ''true'' else ''false'')"
| "json_indented ind (JNum r) = show_num r"
| "json_indented ind (JStr s) = json_quote s"
| "json_indented ind (JArr vs) =
     ''['' @ lines_of (ind @ ''  '') (map (json_indented (ind @ ''  '')) vs) @ closing ind vs @ '']''"
| "json_indented ind (JObj kvs) =
     ''{'' @ lines_of (ind @ ''  '') (map (\<lambda>kv. json_quote (fst kv) @ '': '' @ json_indented (ind @ ''  '') (snd kv)) kvs)
     @ closing ind kvs @ ''}''"
  by pat_completeness auto
termination
proof (relation "measure (size \<circ> snd)", goal_cases)
  case (3 ind kvs kv)
  have "size (snd kv) \<le> size_prod (\<lambda>_. 0) size kv" by (cases kv) simp
  also from 3 have "\<dots> \<le> size_list (size_prod (\<lambda>_. 0) size) kvs" by (simp add: size_list_estimation')
  finally show ?case using 3 by (simp add: less_Suc_eq_le)
qed (auto simp: less_Suc_eq_le size_list_estimation')

section \<open>Dates\<close>

text \<open>The civil date of a day counted from 1970-01-01, in the calendar's 400-year cycle from March 1 of year 0.\<close>

definition civil :: "int \<Rightarrow> int \<times> int \<times> int" where
  "civil days =
     (let z = days + 719468; era = z div 146097; doe = z mod 146097;
          yoe = (doe - doe div 1460 + doe div 36524 - doe div 146096) div 365;
          doy = doe - (365 * yoe + yoe div 4 - yoe div 100);
          mp = (5 * doy + 2) div 153;
          m = (if mp < 10 then mp + 3 else mp - 9)
      in (yoe + 400 * era + (if m \<le> 2 then 1 else 0), m, doy - (153 * mp + 2) div 5 + 1))"

definition padded :: "nat \<Rightarrow> int \<Rightarrow> string" where
  "padded n i = (let s = show_int i in replicate (n - length s) (CHR ''0'') @ s)"

text \<open>Years outside 0 to 9999 have a sign and six digits.\<close>

definition year_text :: "int \<Rightarrow> string" where
  "year_text y = (if 0 \<le> y \<and> y \<le> 9999 then padded 4 y else (if y < 0 then ''-'' else ''+'') @ padded 6 \<bar>y\<bar>)"

definition toISOString :: "int \<Rightarrow> string" where
  "toISOString ms =
     (let (y, m, d) = civil (ms div 86400000); t = ms mod 86400000
      in year_text y @ ''-'' @ padded 2 m @ ''-'' @ padded 2 d @ ''T'' @ padded 2 (t div 3600000) @ '':''
         @ padded 2 (t div 60000 mod 60) @ '':'' @ padded 2 (t div 1000 mod 60) @ ''.'' @ padded 3 (t mod 1000) @ ''Z'')"

section \<open>Padding\<close>

definition padEnd :: "nat \<Rightarrow> string \<Rightarrow> string" where
  "padEnd n s = s @ replicate (n - length s) (CHR '' '')"

definition padStart :: "nat \<Rightarrow> string \<Rightarrow> string" where
  "padStart n s = replicate (n - length s) (CHR '' '') @ s"

end
