(* ===== verification/Routing.thy ===== *)
theory Routing
  imports Processing Json_Text
begin

text \<open>
  workers/routing/routing-worker.ts: the per-batch loop that claims a subscription, reads the events
  behind its cursor, asks the routing function about each, commits the decisions with the cursor and
  releases the subscription; and the routing functions of facade/partition-by.ts and
  facade/routing-helpers.ts. One pass of the loop is one function; the loop, which ends only when it
  is told to, is run for a given number of passes. A routing function is user code: it may await and
  throw, and what it returns is checked, so it is a JSON value (\<open>None\<close> for \<open>undefined\<close>).
\<close>

section \<open>Definitions and options\<close>

text \<open>\<open>RoutingDecision\<close>: \<open>'ignore'\<close> or an object with a \<open>partitionKey\<close>.\<close>

type_synonym routing_fn = "recorded_event \<Rightarrow> json option io"

definition ignore :: "json option" where
  "ignore = Some (JStr ''ignore'')"

definition to_partition :: "json \<Rightarrow> json option" where
  "to_partition key = Some (JObj [(''partitionKey'', key)])"

record routing_definition =
  rf_name :: string
  rf_stream :: "string option"
  rf_routeFn :: routing_fn
  rf_startFrom :: "start_from option"

record routing_options =
  rg_workerId :: "string option"
  rg_batchSize :: "rat option"
  rg_leaseSeconds :: "rat option"
  rg_pollInterval :: "rat option"
  rg_onError :: "(thrown \<Rightarrow> world \<Rightarrow> (thrown + unit) \<times> world) option"
  rg_logger :: "logger option"

definition DEFAULT_ROUTING_BATCH_SIZE :: rat where
  "DEFAULT_ROUTING_BATCH_SIZE = 100"

definition DEFAULT_ROUTING_LEASE_SECONDS :: rat where
  "DEFAULT_ROUTING_LEASE_SECONDS = 30"

definition DEFAULT_ROUTING_POLL_INTERVAL_MS :: rat where
  "DEFAULT_ROUTING_POLL_INTERVAL_MS = 200"

section \<open>The worker\<close>

record router =
  rt_client :: client
  rt_stream :: string
  rt_name :: string
  rt_workerId :: string
  rt_batchSize :: rat
  rt_leaseSeconds :: rat
  rt_pollInterval :: rat
  rt_onError :: "thrown \<Rightarrow> world \<Rightarrow> (thrown + unit) \<times> world"
  rt_logger :: logger
  rt_routeFn :: routing_fn
  rt_startFrom :: "start_from option"

record routing_state =
  rs_aborted :: bool
  rs_holdingLease :: bool
  rs_world :: world

definition routing_halted :: "routing_state \<Rightarrow> bool" where
  "routing_halted c \<longleftrightarrow> w_stop (rs_world c) \<or> rs_aborted c"

definition routing_report :: "router \<Rightarrow> thrown \<Rightarrow> routing_state \<Rightarrow> routing_state" where
  "routing_report k err c = c\<lparr>rs_world := snd (rt_onError k err (rs_world c))\<rparr>"

definition routing_abort :: "router \<Rightarrow> thrown \<Rightarrow> routing_state \<Rightarrow> routing_state" where
  "routing_abort k err c = (if rs_aborted c then c else routing_report k err (c\<lparr>rs_aborted := True\<rparr>))"

definition routing_trace :: "router \<Rightarrow> log_message \<Rightarrow> routing_state \<Rightarrow> routing_state" where
  "routing_trace k m c = c\<lparr>rs_world := trace (rt_logger k) m (rs_world c)\<rparr>"

definition routing_sleep :: "router \<Rightarrow> routing_state \<Rightarrow> routing_state" where
  "routing_sleep k c = c\<lparr>rs_world := snd (sleep (rs_aborted c) (rt_pollInterval k) (rs_world c))\<rparr>"

text \<open>A call of the client, in the worker's world.\<close>

definition routing_call :: "'a io \<Rightarrow> routing_state \<Rightarrow> (thrown + 'a) \<times> routing_state" where
  "routing_call m c = (case m (rs_world c) of (r, w) \<Rightarrow> (r, c\<lparr>rs_world := w\<rparr>))"

definition isLeaseLoss :: "thrown \<Rightarrow> bool" where
  "isLeaseLoss err \<longleftrightarrow> instance_of err SubscriptionLeaseLost \<or> instance_of err SubscriptionNotFound"

definition releaseQuietly :: "router \<Rightarrow> routing_state \<Rightarrow> routing_state" where
  "releaseQuietly k c =
     (if \<not> rs_holdingLease c then c
      else case routing_call (cl_releaseSubscription (rt_client k) (rt_stream k) (rt_name k) (rt_workerId k))
                  (c\<lparr>rs_holdingLease := False\<rparr>) of
             (Inr _, c1) \<Rightarrow> c1
           | (Inl err, c1) \<Rightarrow>
               (if \<not> isLeaseLoss err \<and> \<not> instance_of err SubscriptionNotFound then routing_report k err c1 else c1))"

definition routeFn_threw :: "thrown \<Rightarrow> thrown" where
  "routeFn_threw err =
     (if instance_of err C_Error then err
      else js_error (''routing worker: routeFn threw: '' @ (case err of NotError j \<Rightarrow> js_string j | _ \<Rightarrow> [])))"

definition bad_route :: "json option \<Rightarrow> thrown" where
  "bad_route v =
     js_error (''routing worker: routeFn must return '' @ json_quote ''ignore'' @ '' or { partitionKey: string }; got ''
       @ (case v of Some j \<Rightarrow> json_stringify j | None \<Rightarrow> ''undefined''))"

text \<open>The key of a decision that is an object with a text \<open>partitionKey\<close>.\<close>

definition route_key :: "json option \<Rightarrow> string option" where
  "route_key v =
     (case v of Some (JObj kvs) \<Rightarrow> json_str (json_get ''partitionKey'' (JObj kvs)) | _ \<Rightarrow> None)"

text \<open>
  \<open>routeOneBatch\<close>: the decisions and the cursor so far; \<open>None\<close> drops the batch.
\<close>

fun route_events ::
  "router \<Rightarrow> recorded_event list \<Rightarrow> route_decision list \<Rightarrow> int option \<Rightarrow> routing_state
     \<Rightarrow> (route_decision list \<times> int) option \<times> routing_state" where
  "route_events k [] decs cursorTo c =
     (case cursorTo of None \<Rightarrow> (None, c) | Some cur \<Rightarrow> (Some (decs, cur), c))"
| "route_events k (event # rest) decs cursorTo c =
     (if routing_halted c then (None, c)
      else case routing_call (rt_routeFn k event) c of
             (Inl err, c1) \<Rightarrow> (None, routing_abort k (routeFn_threw err) c1)
           | (Inr v, c1) \<Rightarrow>
               (if routing_halted c1 then (None, c1)
                else if v = ignore then route_events k rest decs (Some (re_event_number event)) c1
                else case route_key v of
                       None \<Rightarrow> (None, routing_abort k (bad_route v) c1)
                     | Some key \<Rightarrow>
                         route_events k rest (decs @ [\<lparr>rd_partition_key = key, rd_event_number = re_event_number event\<rparr>])
                           (Some (re_event_number event)) c1))"

definition routeOneBatch ::
  "router \<Rightarrow> recorded_event list \<Rightarrow> routing_state \<Rightarrow> (route_decision list \<times> int) option \<times> routing_state" where
  "routeOneBatch k batch c = route_events k batch [] None c"

text \<open>How a pass ends: the loop goes on, or is left for its \<open>finally\<close>.\<close>

datatype flow = Continue | Break

definition commit_batch :: "router \<Rightarrow> route_decision list \<Rightarrow> int \<Rightarrow> routing_state \<Rightarrow> flow \<times> routing_state" where
  "commit_batch k decs cur c =
     (let c1 = routing_trace k (Thunk (\<lambda>w. (''routing: committing '' @ show_nat (length decs)
                 @ '' decision(s); cursor -> '' @ show_int cur, w))) c
      in case routing_call (cl_routeBatch (rt_client k) (rt_stream k) (rt_name k) (rt_workerId k) cur decs) c1 of
           (Inr _, c2) \<Rightarrow> (Continue, releaseQuietly k c2)
         | (Inl err, c2) \<Rightarrow>
             (if isLeaseLoss err then (Continue, c2\<lparr>rs_holdingLease := False\<rparr>)
              else (Continue, routing_sleep k (releaseQuietly k (routing_report k err c2)))))"

definition read_batch :: "router \<Rightarrow> int \<Rightarrow> recorded_event list io" where
  "read_batch k lastSeen =
     (if rt_stream k = all_uuid then cl_readAll (rt_client k) (lastSeen + 1) (rt_batchSize k)
      else cl_readStream (rt_client k) (rt_stream k) (lastSeen + 1) (rt_batchSize k))"

definition route_claimed :: "router \<Rightarrow> int \<Rightarrow> routing_state \<Rightarrow> flow \<times> routing_state" where
  "route_claimed k lastSeen c =
     (if routing_halted c then (Break, releaseQuietly k c)
      else case routing_call (read_batch k lastSeen) c of
             (Inl err, c1) \<Rightarrow> (Continue, routing_sleep k (releaseQuietly k (routing_report k err c1)))
           | (Inr batch, c1) \<Rightarrow>
               (if batch = [] then
                  (Continue, routing_sleep k (releaseQuietly k
                     (routing_trace k (Text ''routing: empty batch; releasing and polling'') c1)))
                else
                  (let c2 = routing_trace k (Thunk (\<lambda>w. (''routing: read '' @ show_nat (length batch)
                              @ '' events from '' @ rt_stream k, w))) c1
                   in case routeOneBatch k batch c2 of
                        (None, c3) \<Rightarrow> (Break, releaseQuietly k c3)
                      | (Some (decs, cur), c3) \<Rightarrow> commit_batch k decs cur c3)))"

definition routing_pass :: "router \<Rightarrow> routing_state \<Rightarrow> flow \<times> routing_state" where
  "routing_pass k c =
     (case routing_call (cl_claimSubscription (rt_client k) (rt_stream k) (rt_name k) (rt_workerId k)
             (rt_leaseSeconds k) (rt_startFrom k)) c of
        (Inl err, c1) \<Rightarrow> (Break, routing_report k err c1)
      | (Inr (AlreadyClaimed _ _ _), c1) \<Rightarrow>
          (Continue, routing_sleep k (routing_trace k (Text ''routing: subscription already claimed; backing off'') c1))
      | (Inr (Claimed lastSeen _ _), c1) \<Rightarrow>
          route_claimed k lastSeen
            (routing_trace k (Thunk (\<lambda>w. (''routing: claimed; lastSeen='' @ show_int lastSeen, w)))
               (c1\<lparr>rs_holdingLease := True\<rparr>)))"

text \<open>The loop for at most \<open>n\<close> passes, and whether it has ended; its \<open>finally\<close> releases once more.\<close>

fun routing_loop :: "router \<Rightarrow> nat \<Rightarrow> routing_state \<Rightarrow> bool \<times> routing_state" where
  "routing_loop k 0 c = (if routing_halted c then (True, releaseQuietly k c) else (False, c))"
| "routing_loop k (Suc n) c =
     (if routing_halted c then (True, releaseQuietly k c)
      else case routing_pass k c of
             (Break, c1) \<Rightarrow> (True, releaseQuietly k c1)
           | (Continue, c1) \<Rightarrow> routing_loop k n c1)"

section \<open>Starting and stopping\<close>

definition startRoutingWorker ::
  "host \<Rightarrow> client \<Rightarrow> routing_definition \<Rightarrow> routing_options \<Rightarrow> world \<Rightarrow> router \<times> routing_state" where
  "startRoutingWorker hst cl def opts w =
     (let (workerId, w1) = (case rg_workerId opts of Some i \<Rightarrow> (i, w) | None \<Rightarrow> defaultWorkerId hst w)
      in (\<lparr>rt_client = cl,
           rt_stream = (case rf_stream def of Some s \<Rightarrow> s | None \<Rightarrow> all_uuid),
           rt_name = rf_name def,
           rt_workerId = workerId,
           rt_batchSize = (case rg_batchSize opts of Some b \<Rightarrow> b | None \<Rightarrow> DEFAULT_ROUTING_BATCH_SIZE),
           rt_leaseSeconds = (case rg_leaseSeconds opts of Some l \<Rightarrow> l | None \<Rightarrow> DEFAULT_ROUTING_LEASE_SECONDS),
           rt_pollInterval = (case rg_pollInterval opts of Some p \<Rightarrow> p | None \<Rightarrow> DEFAULT_ROUTING_POLL_INTERVAL_MS),
           rt_onError = (case rg_onError opts of Some f \<Rightarrow> f | None \<Rightarrow> noopOnError),
           rt_logger = (case rg_logger opts of Some l \<Rightarrow> l | None \<Rightarrow> noop),
           rt_routeFn = rf_routeFn def, rt_startFrom = rf_startFrom def\<rparr>,
          \<lparr>rs_aborted = False, rs_holdingLease = False, rs_world = w1\<lparr>w_stop := False\<rparr>\<rparr>))"

definition stop_routing :: "routing_state \<Rightarrow> routing_state" where
  "stop_routing c = c\<lparr>rs_world := (rs_world c)\<lparr>w_stop := True\<rparr>\<rparr>"

section \<open>The standard library of routing functions\<close>

text \<open>A key function may throw, or return something that is not a string.\<close>

datatype partition_by = Sequential | PerEvent | PerKey "recorded_event \<Rightarrow> thrown + json"

definition SEQUENTIAL_PARTITION_KEY :: string where
  "SEQUENTIAL_PARTITION_KEY = ''_default''"

fun routingFnForPartitionBy :: "partition_by \<Rightarrow> routing_fn" where
  "routingFnForPartitionBy Sequential = (\<lambda>event. return_io (to_partition (JStr SEQUENTIAL_PARTITION_KEY)))"
| "routingFnForPartitionBy PerEvent = (\<lambda>event. return_io (to_partition (JStr (show_int (re_event_number event)))))"
| "routingFnForPartitionBy (PerKey key) =
     (\<lambda>event. bind_io (lift_io (key event)) (\<lambda>v. return_io (to_partition v)))"

definition onlyTypes :: "string list \<Rightarrow> routing_fn \<Rightarrow> routing_fn" where
  "onlyTypes types inner = (\<lambda>event. if re_type event \<in> set types then inner event else return_io ignore)"

end
