(* ===== verification/Routing_Properties.thy ===== *)
theory Routing_Properties
  imports Routing Queue_Properties
begin

text \<open>
  Properties of the routing worker: a committed batch leaves no event undecided, what a router bound to
  one stream reads, and that the lease is given back.
\<close>

section \<open>Deciding a batch\<close>

text \<open>The routing function decided an event: for no partition, or for one.\<close>

definition decides :: "router \<Rightarrow> recorded_event \<Rightarrow> string option \<Rightarrow> bool" where
  "decides k ev key \<longleftrightarrow>
     (\<exists>w w' v. rt_routeFn k ev w = (Inr v, w')
        \<and> (if v = ignore then key = None else key \<noteq> None \<and> route_key v = key))"

definition decision_for :: "recorded_event \<Rightarrow> string option \<Rightarrow> route_decision list" where
  "decision_for ev key =
     (case key of None \<Rightarrow> [] | Some p \<Rightarrow> [\<lparr>rd_partition_key = p, rd_event_number = re_event_number ev\<rparr>])"

lemma route_events_decide:
  assumes "route_events k evs decs cursorTo c = (Some (decs', cur), c')"
  shows "\<exists>keys. list_all2 (decides k) evs keys
     \<and> decs' = decs @ concat (map2 decision_for evs keys)
     \<and> Some cur = (if evs = [] then cursorTo else Some (re_event_number (last evs)))"
  using assms
proof (induction evs arbitrary: decs cursorTo c)
  case Nil
  then show ?case by (auto split: option.splits)
next
  case (Cons ev evs)
  from Cons.prems obtain v c1 where v: "routing_call (rt_routeFn k ev) c = (Inr v, c1)"
    by (auto split: if_splits prod.splits sum.splits)
  then obtain w' where w': "rt_routeFn k ev (rs_world c) = (Inr v, w')"
    by (auto simp: routing_call_def split: prod.splits)
  have "\<exists>key. decides k ev key
      \<and> route_events k evs (decs @ decision_for ev key) (Some (re_event_number ev)) c1 = (Some (decs', cur), c')"
  proof (cases "v = ignore")
    case True
    with w' have "decides k ev None" by (auto simp: decides_def)
    with True v Cons.prems show ?thesis
      by (intro exI [of _ None]) (auto simp: decision_for_def split: if_splits)
  next
    case False
    with v Cons.prems obtain key where key: "route_key v = Some key"
      by (auto split: if_splits option.splits)
    with False w' have "decides k ev (Some key)" by (auto simp: decides_def)
    with False key v Cons.prems show ?thesis
      by (intro exI [of _ "Some key"]) (auto simp: decision_for_def split: if_splits)
  qed
  then obtain key where d: "decides k ev key"
    and r: "route_events k evs (decs @ decision_for ev key) (Some (re_event_number ev)) c1 = (Some (decs', cur), c')"
    by blast
  from Cons.IH [OF r] obtain keys where "list_all2 (decides k) evs keys"
    "decs' = (decs @ decision_for ev key) @ concat (map2 decision_for evs keys)"
    "Some cur = (if evs = [] then Some (re_event_number ev) else Some (re_event_number (last evs)))" by blast
  with d show ?case by (intro exI [of _ "key # keys"]) auto
qed

text \<open>Every event of the batch was decided, and a decision for a partition is among those committed.\<close>

lemma routed_batch:
  assumes "routeOneBatch k batch c = (Some (decs, cur), c')"
  shows "batch \<noteq> []" "cur = re_event_number (last batch)"
    and "ev \<in> set batch \<Longrightarrow> \<exists>key. decides k ev key \<and> set (decision_for ev key) \<subseteq> set decs"
proof -
  from route_events_decide [OF assms [unfolded routeOneBatch_def]] obtain keys where
    l: "list_all2 (decides k) batch keys" and d: "decs = concat (map2 decision_for batch keys)"
    and c: "Some cur = (if batch = [] then None else Some (re_event_number (last batch)))" by auto
  from c show "batch \<noteq> []" "cur = re_event_number (last batch)" by (auto split: if_splits)
  assume "ev \<in> set batch"
  then obtain i where i: "i < length batch" "batch ! i = ev" by (auto simp: in_set_conv_nth)
  with l have "decides k ev (keys ! i)" "i < length keys" by (auto simp: list_all2_conv_all_nth)
  moreover have "(ev, keys ! i) \<in> set (zip batch keys)"
    using i calculation(2) by (auto simp: set_zip)
  ultimately show "\<exists>key. decides k ev key \<and> set (decision_for ev key) \<subseteq> set decs"
    unfolding d by (intro exI [of _ "keys ! i"]) fastforce
qed

section \<open>Reading behind the cursor\<close>

lemma log_numbers:
  assumes "world_ok w" "e \<in> set (log_of w)"
  shows "\<exists>i < length (log_of w). e = log_of w ! i \<and> o_event_number e = Suc i"
proof -
  from assms(2) obtain i where i: "i < length (log_of w)" "e = log_of w ! i" by (auto simp: in_set_conv_nth)
  have wf: "wf_events (w_db w)" using assms(1) by (simp add: world_ok_def wf_db_def)
  from arg_cong [OF store_log_numbers [OF wf], of "\<lambda>l. l ! i"] i length_store_log [OF wf]
  have "o_event_number e = Suc i" by (simp add: log_of_def del: upt_Suc)
  with i show ?thesis by blast
qed

text \<open>The batch behind a cursor holds every event after the cursor up to the batch's last one.\<close>

lemma batch_covers:
  assumes "queue_client (rt_client k)" "rt_stream k = all_uuid" "world_ok w" "0 \<le> ls"
    and "read_batch k ls w = (Inr batch, w1)" "batch \<noteq> []"
    and "e \<in> set (log_of w1)" "ls < int (o_event_number e)" "int (o_event_number e) \<le> re_event_number (last batch)"
  shows "recorded e \<in> set batch \<and> ls < re_event_number (last batch)"
proof -
  let ?log = "log_of w1" and ?n = "nat ls"
  from assms(2,5) have rd: "cl_readAll (rt_client k) (ls + 1) (rt_batchSize k) w = (Inr batch, w1)"
    by (simp add: read_batch_def)
  from queue_client.read_all_rows [OF assms(1,3) rd] obtain q where
    b: "batch = map recorded (take q (drop (nat (ls + 1) - 1) ?log))" by auto
  have ok: "world_ok w1" using quiet_ok [OF queue_client.read_all_quiet [OF assms(1) rd] assms(3)] by simp
  have n: "nat (ls + 1) - 1 = ?n" by simp
  from log_numbers [OF ok assms(7)] obtain i where i: "i < length ?log" "e = ?log ! i" "o_event_number e = Suc i" by blast
  let ?m = "length batch - 1"
  have "length batch = min (length ?log - ?n) q" using b n by simp
  moreover have "0 < length batch" using assms(6) by simp
  ultimately have m: "?n + ?m < length ?log" "?m < length batch" "?m < q" by linarith+
  with assms(6) b n have last: "last batch = recorded (?log ! (?n + ?m))"
    by (simp add: last_conv_nth)
  from log_numbers [OF ok nth_mem [OF m(1)]] obtain j where j: "?log ! (?n + ?m) = ?log ! j" "j < length ?log"
    "o_event_number (?log ! (?n + ?m)) = Suc j" by blast
  have "o_event_number (?log ! x) = Suc x" if "x < length ?log" for x
    using arg_cong [OF store_log_numbers, of "w_db w1" "\<lambda>l. l ! x"] ok that length_store_log [of "w_db w1"]
    by (simp add: log_of_def world_ok_def wf_db_def del: upt_Suc)
  with last m have l: "re_event_number (last batch) = int (Suc (?n + ?m))" by (simp add: recorded_def)
  with assms(4,8,9) i have le: "?n \<le> i" "i \<le> ?n + ?m" by linarith+
  then have "i - ?n < length batch" using m by linarith
  then have "batch ! (i - ?n) = recorded e" using b n le i by simp
  with \<open>i - ?n < length batch\<close> have "recorded e \<in> set batch" by (metis nth_mem)
  with l assms(4) show ?thesis by simp
qed

section \<open>No silent skip\<close>


text \<open>A router at work: the subscription is claimed, one event waits behind its cursor.\<close>

definition sample_router :: "string \<Rightarrow> router" where
  "sample_router stream =
     \<lparr>rt_client = pg_client, rt_stream = stream, rt_name = ''balances'', rt_workerId = ''worker-a'', rt_batchSize = 100,
      rt_leaseSeconds = 30, rt_pollInterval = 200, rt_onError = noopOnError, rt_logger = noop,
      rt_routeFn = routingFnForPartitionBy PerEvent, rt_startFrom = None\<rparr>"

definition routing_at :: "db \<Rightarrow> routing_state" where
  "routing_at d = \<lparr>rs_aborted = False, rs_holdingLease = False, rs_world = sample_world\<lparr>w_db := d\<rparr>\<rparr>"

text \<open>The calls of one commit: what is read, decided and committed behind a cursor.\<close>

definition commits :: "router \<Rightarrow> int \<Rightarrow> routing_state \<Rightarrow> bool" where
  "commits k ls c =
     (case routing_call (read_batch k ls) c of
        (Inl _, _) \<Rightarrow> False
      | (Inr batch, c1) \<Rightarrow>
          (case routeOneBatch k batch c1 of
             (None, _) \<Rightarrow> False
           | (Some (decs, cur), c3) \<Rightarrow>
               (case routing_call (cl_routeBatch (rt_client k) (rt_stream k) (rt_name k) (rt_workerId k) cur decs) c3 of
                  (Inl _, _) \<Rightarrow> False
                | (Inr _, c5) \<Rightarrow> map o_event_number (log_of (rs_world c1)) = [1] \<and> cur = 1)))"

lemma commitsE:
  assumes "commits k ls c"
  obtains batch c1 decs cur c3 rb c5 where "routing_call (read_batch k ls) c = (Inr batch, c1)"
    "routeOneBatch k batch c1 = (Some (decs, cur), c3)"
    "routing_call (cl_routeBatch (rt_client k) (rt_stream k) (rt_name k) (rt_workerId k) cur decs) c3 = (Inr rb, c5)"
    "cur = 1"
proof -
  obtain r c1 where r: "routing_call (read_batch k ls) c = (r, c1)" by force
  with assms obtain batch where b: "r = Inr batch" by (cases r) (auto simp: commits_def)
  obtain dc c3 where d: "routeOneBatch k batch c1 = (dc, c3)" by force
  with assms r b obtain decs cur where dc: "dc = Some (decs, cur)" by (cases dc) (auto simp: commits_def)
  obtain x c5 where x: "routing_call (cl_routeBatch (rt_client k) (rt_stream k) (rt_name k) (rt_workerId k) cur decs) c3
      = (x, c5)" by force
  with assms r b d dc obtain rb where "x = Inr rb" "cur = 1" by (cases x) (auto simp: commits_def)
  with that r b d dc x show thesis by blast
qed

lemma leased_world_ok: "world_ok (sample_world\<lparr>w_db := leased_db\<rparr>)"
  using wf_reachable [OF leased_reachable(1)] sample_world_ok by (simp add: world_ok_def sample_world_def)


section \<open>Routers of one stream\<close>

text \<open>C29. A router bound to one stream reads by the versions of the stream from a cursor that counts events of
  the whole log: the events of its stream whose version is at most the cursor are never read again,
  also when they are behind the cursor in the log, and nothing is read once the cursor is past the
  length of the stream.\<close>

theorem stream_router_misses:
  assumes "rt_client k = pg_client" "rt_stream k \<noteq> all_uuid" "world_ok w" "0 \<le> ls"
    and "read_batch k ls w = (Inr batch, w1)"
  shows "(\<forall>e \<in> set (stream_log (rt_stream k) (log_of w1)). int (o_stream_version e) \<le> ls \<longrightarrow> recorded e \<notin> set batch)
     \<and> (int (length (stream_log (rt_stream k) (log_of w1))) \<le> ls \<longrightarrow> batch = [])"
proof -
  let ?l = "stream_log (rt_stream k) (log_of w1)"
  from assms(1,2,5) have rd: "cl_readStream pg_client (rt_stream k) (ls + 1) (rt_batchSize k) w = (Inr batch, w1)"
    by (simp add: read_batch_def)
  from pgc.read_stream_rows [OF assms(3) rd] obtain q where
    "batch = map recorded (take q (drop (nat (ls + 1) - 1) ?l))" by blast
  then have b: "batch = map recorded (take q (drop (nat ls) ?l))" using assms(4) by (simp add: nat_add_distrib)
  have wf: "wf_events (w_db w1)"
    using quiet_ok [OF pgc.read_stream_quiet [OF rd] assms(3)] by (simp add: world_ok_def wf_db_def)
  have v: "o_stream_version (?l ! i) = Suc i" if "i < length ?l" for i
    using arg_cong [OF stream_log_versions [OF wf assms(2)], of "\<lambda>l. l ! i"] that by (simp add: log_of_def del: upt_Suc)
  have "ls < re_stream_version r" if r: "r \<in> set batch" for r
  proof -
    from r b obtain e where e: "e \<in> set (drop (nat ls) ?l)" "r = recorded e" by (auto dest: in_set_takeD)
    then obtain i where "i < length (drop (nat ls) ?l)" "e = drop (nat ls) ?l ! i" unfolding in_set_conv_nth by metis
    then have i: "nat ls + i < length ?l" "e = ?l ! (nat ls + i)" by simp_all
    with v [OF i(1)] e(2) show ?thesis by (simp add: recorded_def)
  qed
  then have "recorded e \<notin> set batch" if "int (o_stream_version e) \<le> ls" for e
    using that by (force simp: recorded_def)
  moreover have "batch = []" if "int (length ?l) \<le> ls" using that b by simp
  ultimately show ?thesis by blast
qed

text \<open>Two events of a stream behind one event of another: routed up to number 3, the next event of the
  stream, number 4 with version 3, is not read in any further pass.\<close>

definition append_b :: "string \<Rightarrow> call" where
  "append_b i =
     CAppend (Some ''Account-b'') (Some ''any'') None
       (Some (JArr [JObj [(''event_id'', JStr i), (''event_type'', JStr ''Opened''), (''data'', JNum 7)]]))"

definition two_streams :: db where
  "two_streams = after (append_b ''00000000-0000-4000-8000-000000000003'')
     (after (append_b ''00000000-0000-4000-8000-000000000002'') (after sample_append (initial_db 0)))"

definition routed_b :: db where
  "routed_b = after (CRouteBatch (Some ''Account-b'') (Some ''balances'') worker_a (Some 3) (Some (JArr [])))
     (after (CClaimSub False (Some ''Account-b'') (Some ''balances'') worker_a (Some 30) (Some (JObj []))) two_streams)"

definition missed_db :: db where
  "missed_db = after (append_b ''00000000-0000-4000-8000-000000000004'') routed_b"

definition pass_then_append :: routing_state where
  "pass_then_append = (case routing_pass (sample_router ''Account-b'') (routing_at two_streams) of
     (_, c) \<Rightarrow> routing_at (after (append_b ''00000000-0000-4000-8000-000000000004'') (w_db (rs_world c))))"

definition cursor_of :: "string \<Rightarrow> db \<Rightarrow> nat option" where
  "cursor_of u d = (case find_stream u d of None \<Rightarrow> None
     | Some s \<Rightarrow> (case find_sub (s_id s) ''balances'' d of None \<Rightarrow> None | Some b \<Rightarrow> Some (b_last_seen b)))"

lemma next_pass_misses:
  "case routing_pass (sample_router ''Account-b'') pass_then_append of (_, c) \<Rightarrow>
     map i_event (items (w_db (rs_world c))) = [2, 3] \<and> map o_event_number (log_of (rs_world c)) = [1, 2, 3, 4]
     \<and> cursor_of ''Account-b'' (w_db (rs_world c)) = Some 3 \<and> \<not> rs_holdingLease c"
  by code_simp

theorem stream_router_misses_witness:
  "\<exists>w1. read_batch (sample_router ''Account-b'') 3 (sample_world\<lparr>w_db := missed_db\<rparr>) = (Inr [], w1)
     \<and> cursor_of ''Account-b'' missed_db = Some 3
     \<and> map o_event_number (stream_log ''Account-b'' (log_of w1)) = [2, 3, 4]"
proof -
  let ?k = "sample_router ''Account-b''" and ?w = "sample_world\<lparr>w_db := missed_db\<rparr>"
  have "reachable missed_db"
    unfolding missed_db_def routed_b_def two_streams_def by (intro reach_step [OF _ step_call] reach_init)
  then have ok: "world_ok ?w" using wf_reachable sample_world_ok by (auto simp: world_ok_def sample_world_def)
  have "case read_batch ?k 3 ?w of (Inl _, _) \<Rightarrow> False
      | (Inr _, w1) \<Rightarrow> map o_event_number (stream_log ''Account-b'' (log_of w1)) = [2, 3, 4]"
    by code_simp
  then obtain batch w1 where r: "read_batch ?k 3 ?w = (Inr batch, w1)"
    and l: "map o_event_number (stream_log ''Account-b'' (log_of w1)) = [2, 3, 4]"
    by (auto split: prod.splits sum.splits)
  have k: "rt_client ?k = pg_client" "rt_stream ?k = ''Account-b''" by (simp_all add: sample_router_def)
  have "length (stream_log ''Account-b'' (log_of w1)) = 3" using arg_cong [OF l, of length] by simp
  with stream_router_misses [OF k(1) _ ok _ r] k(2) have "batch = []" by (simp add: all_uuid_def)
  moreover have "cursor_of ''Account-b'' missed_db = Some 3" by code_simp
  ultimately show ?thesis using r l by (intro exI [of _ w1] conjI) simp_all
qed

end
