(* ===== verification/Pm.thy ===== *)
theory Pm
  imports Processing_Laws Aggregate
begin

text \<open>
  Process managers: workers/pm/pm-substrate.ts (load or rebuild the state of a partition, fold the
  claimed event, run the handler, acknowledge with a snapshot) and its wrapper workers/pm/pm-worker.ts,
  whose handler returns commands that are dispatched before the acknowledgement. States and commands
  are JSON values; the application's functions may throw and its handler may never return.
\<close>

section \<open>The substrate\<close>

record substrate_result =
  sr_complete :: "bool option"

type_synonym substrate_handle =
  "json \<Rightarrow> recorded_event \<Rightarrow> handler_context \<Rightarrow> world \<Rightarrow> ((thrown + substrate_result) \<times> world) option"

record 'p substrate_definition =
  sd_type :: string
  sd_streamName :: "(string \<Rightarrow> string) option"
  sd_stream :: "string option"
  sd_initialState :: json
  sd_apply :: "json \<Rightarrow> recorded_event \<Rightarrow> thrown + json"
  sd_handle :: substrate_handle
  sd_snapshotModuleVersion :: "string option"
  sd_errorPolicy :: "'p error_policy option"

text \<open>What \<open>handle\<close> leaves for \<open>complete\<close>, in a Map shared by the two callbacks.\<close>

record staged_work =
  sw_sourceUuid :: string
  sw_stagedState :: json
  sw_complete :: bool

type_synonym staged_map = "(string \<times> staged_work) list"

definition staged_key :: "string \<Rightarrow> int \<Rightarrow> string" where
  "staged_key pk en = pk @ '':'' @ show_int en"

definition sourceUuidOf :: "'p substrate_definition \<Rightarrow> string \<Rightarrow> string" where
  "sourceUuidOf def pk = (case sd_streamName def of Some f \<Rightarrow> f pk | None \<Rightarrow> prefixType (sd_type def) pk)"

fun fold_events :: "(json \<Rightarrow> recorded_event \<Rightarrow> thrown + json) \<Rightarrow> json \<Rightarrow> recorded_event list \<Rightarrow> thrown + json" where
  "fold_events f s [] = Inr s"
| "fold_events f s (ev # evs) = bind_sum (f s ev) (\<lambda>s1. fold_events f s1 evs)"

text \<open>The rebuild: every event done before the claimed one, folded from the initial state.\<close>

definition rebuildState :: "client \<Rightarrow> 'p substrate_definition \<Rightarrow> string \<Rightarrow> string \<Rightarrow> int \<Rightarrow> json io" where
  "rebuildState cl def stream pk en =
     bind_io (cl_listPmRebuildEvents cl stream (sd_type def) pk en)
       (\<lambda>evs. lift_io (fold_events (sd_apply def) (sd_initialState def) evs))"

text \<open>The snapshot is used if its data is not null and its tag is the definition's.\<close>

definition snapshot_usable :: "'p substrate_definition \<Rightarrow> snapshot \<Rightarrow> bool" where
  "snapshot_usable def s \<longleftrightarrow>
     sn_data s \<noteq> JNull \<and> tag_matches (sd_snapshotModuleVersion def) (snapshot_tag (sn_metadata s))"

definition loadState :: "client \<Rightarrow> 'p substrate_definition \<Rightarrow> string \<Rightarrow> string \<Rightarrow> string \<Rightarrow> int \<Rightarrow> json io" where
  "loadState cl def stream source pk en w =
     (case cl_readSnapshot cl source w of
        (Inr s, w1) \<Rightarrow>
          (if snapshot_usable def s then (Inr (sn_data s), w1) else rebuildState cl def stream pk en w1)
      | (Inl err, w1) \<Rightarrow>
          (if instance_of err SnapshotNotFound then rebuildState cl def stream pk en w1 else (Inl err, w1)))"

definition substrate_handle ::
  "client \<Rightarrow> 'p substrate_definition \<Rightarrow> string \<Rightarrow> staged_map handler" where
  "substrate_handle cl def stream event ctx staged w =
     (let source = sourceUuidOf def (hc_partitionKey ctx)
      in case loadState cl def stream source (hc_partitionKey ctx) (hc_eventNumber ctx) w of
           (Inl e, w1) \<Rightarrow> Some (Inl e, staged, w1)
         | (Inr base, w1) \<Rightarrow>
             (case sd_apply def base event of
                Inl e \<Rightarrow> Some (Inl e, staged, w1)
              | Inr stagedState \<Rightarrow>
                  (case sd_handle def stagedState event ctx w1 of
                     None \<Rightarrow> None
                   | Some (Inl e, w2) \<Rightarrow> Some (Inl e, staged, w2)
                   | Some (Inr result, w2) \<Rightarrow>
                       Some (Inr (),
                         map_set (staged_key (hc_partitionKey ctx) (hc_eventNumber ctx))
                           \<lparr>sw_sourceUuid = source, sw_stagedState = stagedState,
                            sw_complete = (sr_complete result = Some True)\<rparr> staged, w2))))"

definition no_staged :: "handler_context \<Rightarrow> thrown" where
  "no_staged ctx =
     js_error (''pm substrate: no staged state for '' @ hc_partitionKey ctx @ ''/'' @ show_int (hc_eventNumber ctx)
       @ ''; this is a bug'')"

definition pm_metadata :: "'p substrate_definition \<Rightarrow> json option" where
  "pm_metadata def =
     (case sd_snapshotModuleVersion def of
        None \<Rightarrow> None
      | Some v \<Rightarrow> Some (JObj [(SNAPSHOT_MODULE_VERSION_KEY, JStr v)]))"

definition drop_result :: "'a io \<Rightarrow> unit io" where
  "drop_result m = bind_io m (\<lambda>_. return_io ())"

definition substrate_complete ::
  "client \<Rightarrow> 'p substrate_definition \<Rightarrow> string \<Rightarrow> staged_map handler" where
  "substrate_complete cl def stream event ctx staged w =
     (let k = staged_key (hc_partitionKey ctx) (hc_eventNumber ctx)
      in case map_of staged k of
           None \<Rightarrow> Some (Inl (no_staged ctx), staged, w)
         | Some entry \<Rightarrow>
             (let (r, w1) =
                (if sw_complete entry then
                   drop_result (cl_completePmInstance cl stream (sd_type def) (hc_partitionKey ctx) (sw_sourceUuid entry)) w
                 else
                   cl_completeWorkItemPm cl stream (sd_type def) (hc_workerId ctx) (hc_partitionKey ctx) (hc_eventNumber ctx)
                     \<lparr>si_source_uuid = sw_sourceUuid entry, si_source_type = sd_type def,
                      si_source_version = re_event_number event, si_data = sw_stagedState entry,
                      si_metadata = pm_metadata def\<rparr> w)
              in Some (r, map_delete k staged, w1)))"

definition startPmSubstrate ::
  "host \<Rightarrow> client \<Rightarrow> 'p substrate_definition \<Rightarrow> worker_options \<Rightarrow> world \<Rightarrow> ('p, staged_map) worker \<times> ('p, staged_map) config" where
  "startPmSubstrate hst cl def opts w =
     (let stream = (case sd_stream def of Some s \<Rightarrow> s | None \<Rightarrow> all_uuid)
      in startProcessingWorker hst cl
           \<lparr>wd_name = sd_type def, wd_stream = Some stream, wd_handle = substrate_handle cl def stream,
            wd_complete = substrate_complete cl def stream, wd_errorPolicy = sd_errorPolicy def\<rparr>
           opts [] w)"

section \<open>The wrapper\<close>

text \<open>Where a command goes (facade/command-router.ts).\<close>

record command_target =
  ct_aggregateType :: string
  ct_aggregateId :: string

type_synonym command_router = "json \<Rightarrow> logger \<Rightarrow> thrown + command_target"

text \<open>
  A value a handler returned among its commands: the members \<open>streamUuid\<close> and \<open>aggregate\<close> that make it
  explicit, its member \<open>command\<close>, and the value as a command itself.
\<close>

record dispatched_command =
  dc_streamUuid :: "json option"
  dc_aggregate :: "json aggregate_def option"
  dc_command :: json
  dc_self :: json

definition isExplicitDispatch :: "dispatched_command \<Rightarrow> bool" where
  "isExplicitDispatch c \<longleftrightarrow> json_str (dc_streamUuid c) \<noteq> None \<and> dc_aggregate c \<noteq> None"

record pm_result =
  pm_commands :: "dispatched_command list option"
  pm_complete :: "bool option"

record 'p pm_definition =
  pmd_type :: string
  pmd_streamName :: "(string \<Rightarrow> string) option"
  pmd_stream :: "string option"
  pmd_initialState :: json
  pmd_apply :: "json \<Rightarrow> recorded_event \<Rightarrow> thrown + json"
  pmd_handle :: "json \<Rightarrow> recorded_event \<Rightarrow> handler_context \<Rightarrow> world \<Rightarrow> ((thrown + pm_result) \<times> world) option"
  pmd_snapshotModuleVersion :: "string option"
  pmd_errorPolicy :: "'p error_policy option"

record pm_options =
  po_worker :: worker_options
  po_router :: "command_router option"
  po_aggregates :: "(string \<times> json aggregate_def) list option"

record resolved_dispatch =
  rv_def :: "json aggregate_def"
  rv_streamUuid :: string
  rv_command :: json

definition lean_without_router :: thrown where
  "lean_without_router =
     js_error ''startPmWorker: handle returned a lean command (no `aggregate`/`streamUuid`) but no `router`/`aggregates` were supplied. Configure a CommandRouter (see `commandRouter()`) and pass it via PmWorkerOptions, or emit the explicit { aggregate, streamUuid, command } shape.''"

text \<open>The text \<open>${c.type}\<close>.\<close>

definition type_text :: "json \<Rightarrow> string" where
  "type_text c = (case json_get ''type'' c of Some v \<Rightarrow> js_string v | None \<Rightarrow> ''undefined'')"

definition unknown_aggregate :: "json \<Rightarrow> string \<Rightarrow> thrown" where
  "unknown_aggregate c ty =
     js_error (''startPmWorker: command router target '' @ [CHR 0x22] @ type_text c @ [CHR 0x22] @ '' to aggregate type ''
       @ [CHR 0x22] @ ty @ [CHR 0x22] @ '', which is not registered.'')"

definition resolveDispatch :: "dispatched_command \<Rightarrow> pm_options \<Rightarrow> logger \<Rightarrow> thrown + resolved_dispatch" where
  "resolveDispatch c opts lg =
     (case (isExplicitDispatch c, dc_aggregate c, json_str (dc_streamUuid c)) of
        (True, Some def, Some u) \<Rightarrow> Inr \<lparr>rv_def = def, rv_streamUuid = u, rv_command = dc_command c\<rparr>
      | _ \<Rightarrow>
          (case (po_router opts, po_aggregates opts) of
             (Some router, Some aggregates) \<Rightarrow>
               bind_sum (router (dc_self c) lg) (\<lambda>route.
                 case map_of aggregates (ct_aggregateType route) of
                   None \<Rightarrow> Inl (unknown_aggregate (dc_self c) (ct_aggregateType route))
                 | Some def \<Rightarrow>
                     Inr \<lparr>rv_def = def, rv_streamUuid = stream_name def (ct_aggregateId route), rv_command = dc_self c\<rparr>)
           | _ \<Rightarrow> Inl lean_without_router))"

text \<open>\<open>(target.command as { type?: string }).type ?? '<untyped>'\<close>: null has no members.\<close>

definition command_type :: "json \<Rightarrow> thrown + string" where
  "command_type c =
     (if c = JNull then Inl (type_error ''Cannot read properties of null (reading type)'')
      else Inr (case json_get ''type'' c of Some v \<Rightarrow> if v = JNull then ''<untyped>'' else js_string v | None \<Rightarrow> ''<untyped>''))"

definition pm_run_options :: "recorded_event \<Rightarrow> logger \<Rightarrow> run_options" where
  "pm_run_options event lg =
     no_options\<lparr>ro_causationId := Some (re_event_id event), ro_correlationId := re_correlation_id event,
       ro_ctx := Some lg\<rparr>"

text \<open>One command after the other, in the order given; the first failure ends it.\<close>

fun dispatch_commands ::
  "client \<Rightarrow> pm_options \<Rightarrow> recorded_event \<Rightarrow> logger \<Rightarrow> dispatched_command list \<Rightarrow> world
     \<Rightarrow> ((thrown + unit) \<times> world) option" where
  "dispatch_commands cl opts event lg [] w = Some (Inr (), w)"
| "dispatch_commands cl opts event lg (c # cs) w =
     (case resolveDispatch c opts lg of
        Inl e \<Rightarrow> Some (Inl e, w)
      | Inr target \<Rightarrow>
          (case command_type (rv_command target) of
             Inl e \<Rightarrow> Some (Inl e, w)
           | Inr cmdType \<Rightarrow>
               (let w1 = trace lg (Thunk (\<lambda>w. (''pm dispatch: '' @ ag_type (rv_def target) @ ''.'' @ cmdType @ '' -> ''
                           @ rv_streamUuid target, w))) w
                in case runCommandWithSnapshots cl (rv_def target) (rv_streamUuid target) (rv_command target)
                          (pm_run_options event lg) w1 of
                     None \<Rightarrow> None
                   | Some (Inl e, w2) \<Rightarrow> Some (Inl e, w2)
                   | Some (Inr _, w2) \<Rightarrow> dispatch_commands cl opts event lg cs w2)))"

text \<open>The substrate's handler the wrapper installs.\<close>

definition dispatching_handle :: "client \<Rightarrow> 'p pm_definition \<Rightarrow> pm_options \<Rightarrow> substrate_handle" where
  "dispatching_handle cl def opts state event ctx w =
     (case pmd_handle def state event ctx w of
        None \<Rightarrow> None
      | Some (Inl e, w1) \<Rightarrow> Some (Inl e, w1)
      | Some (Inr result, w1) \<Rightarrow>
          (let commands = (case pm_commands result of Some cs \<Rightarrow> cs | None \<Rightarrow> []);
               complete = (pm_complete result = Some True);
               w2 = trace (hc_logger ctx) (Thunk (\<lambda>w. (''pm handle: event '' @ re_type event @ ''#''
                      @ show_int (re_event_number event) @ '' -> '' @ show_nat (length commands)
                      @ '' command(s); complete='' @ (if complete then ''true'' else ''false''), w))) w1
           in case dispatch_commands cl opts event (hc_logger ctx) commands w2 of
                None \<Rightarrow> None
              | Some (Inl e, w3) \<Rightarrow> Some (Inl e, w3)
              | Some (Inr _, w3) \<Rightarrow> Some (Inr \<lparr>sr_complete = Some complete\<rparr>, w3)))"

definition startPmWorker ::
  "host \<Rightarrow> client \<Rightarrow> 'p pm_definition \<Rightarrow> pm_options \<Rightarrow> world \<Rightarrow> ('p, staged_map) worker \<times> ('p, staged_map) config" where
  "startPmWorker hst cl def opts w =
     startPmSubstrate hst cl
       \<lparr>sd_type = pmd_type def, sd_streamName = pmd_streamName def, sd_stream = pmd_stream def,
        sd_initialState = pmd_initialState def, sd_apply = pmd_apply def,
        sd_handle = dispatching_handle cl def opts, sd_snapshotModuleVersion = pmd_snapshotModuleVersion def,
        sd_errorPolicy = pmd_errorPolicy def\<rparr>
       (po_worker opts) w"

end
