(* ===== verification/Pm_Properties.thy ===== *)
theory Pm_Properties
  imports Worker_Properties Pm
begin

text \<open>
  Properties of the two kinds of processing worker, projections and process managers: what their
  acknowledgement of an item says about the handler and what it does to the tables.
\<close>

text \<open>A completion that does not abort the worker was acknowledged.\<close>

lemma completed_ok:
  assumes "run_task k Main c = Some c'" "cf_main c = Completing ev ci" "\<not> cf_aborted c'"
  shows "\<exists>v. wk_complete k ev (handler_ctx k ci 1 c) (cf_vars c) (cf_world c) = Some (Inr (), v, cf_world c')"
  using assms by (auto simp: completed_def Let_def leave_item_def at_main_def split: option.splits sum.splits if_splits)

lemma handler_ctx_fields [simp]:
  "hc_workerId (handler_ctx k ci a c) = wk_workerId k" "hc_partitionKey (handler_ctx k ci a c) = ci_partitionKey ci"
  "hc_eventNumber (handler_ctx k ci a c) = ci_eventNumber ci"
  by (simp_all add: handler_ctx_def)

section \<open>Projections\<close>

lemma projection_worker:
  assumes "startProjectionWorker hst cl def opts vars w = (k, c0)"
  shows "wk_handle k = pj_handler def \<and> wk_complete k = complete_projection cl (wk_stream k) (wk_name k)
     \<and> cf_main c0 = Claiming \<and> well_placed c0"
  using assms start_claiming well_placed_start unfolding startProjectionWorker_def Let_def
  by (auto simp: startProcessingWorker_def well_placed_def Let_def split: prod.splits)

text \<open>C10. A projection's item leaves the queue through its worker only after the application's handler has
  returned normally for the item's event in this run, and in one step: the worker holds the item's claim,
  that item is deleted and nothing else changes.\<close>

theorem projection_acknowledges:
  assumes "startProjectionWorker hst pg_client def opts vars w = (k, c0)" "(worker_step k)\<^sup>*\<^sup>* c0 c"
    and "cf_main c = Completing ev ci" "run_task k Main c = Some c'" "\<not> cf_aborted c'"
  shows "(\<exists>a s v w1 w2. pj_handler def ev (handler_ctx k ci a s) v w1 = Some (Inr (), cf_vars c, w2))
     \<and> re_event_number ev = ci_eventNumber ci
     \<and> (\<exists>w0 s. quiet (cf_world c) w0 \<and> find_stream (wk_stream k) (w_db w0) = Some s
          \<and> holds_item (wk_stream k) (wk_name k) (wk_workerId k) (ci_partitionKey ci) (ci_eventNumber ci) (w_db w0)
          \<and> w_db (cf_world c') = (w_db w0)\<lparr>items :=
               filter (\<lambda>j. \<not> item_key (s_id s) (wk_name k) (ci_partitionKey ci) (ci_eventNumber ci) j) (items (w_db w0))\<rparr>)"
proof (intro conjI)
  note K = projection_worker [OF assms(1)]
  show "\<exists>a s v w1 w2. pj_handler def ev (handler_ctx k ci a s) v w1 = Some (Inr (), cf_vars c, w2)"
    using handled_before [OF assms(2) _ assms(3)] K by simp
  have "well_placed c" using steps_placed [OF assms(2)] K by blast
  then show "re_event_number ev = ci_eventNumber ci"
    using assms(3) by (simp add: well_placed_def on_item_def)
  from completed_ok [OF assms(4,3,5)] K
  have "cl_completeWorkItemProjection pg_client (wk_stream k) (wk_name k) (wk_workerId k) (ci_partitionKey ci)
      (ci_eventNumber ci) (cf_world c) = (Inr (), cf_world c')"
    by (auto simp: complete_projection_def split: prod.splits)
  from pgd.complete_projection_deletes [OF this]
  show "\<exists>w0 s. quiet (cf_world c) w0 \<and> find_stream (wk_stream k) (w_db w0) = Some s
      \<and> holds_item (wk_stream k) (wk_name k) (wk_workerId k) (ci_partitionKey ci) (ci_eventNumber ci) (w_db w0)
      \<and> w_db (cf_world c') = (w_db w0)\<lparr>items :=
          filter (\<lambda>j. \<not> item_key (s_id s) (wk_name k) (ci_partitionKey ci) (ci_eventNumber ci) j) (items (w_db w0))\<rparr>" .
qed

definition counter_projection :: "(unit, nat) projection_definition" where
  "counter_projection = \<lparr>pj_name = ''balances'', pj_stream = None, pj_handler = counting, pj_errorPolicy = None\<rparr>"

definition acknowledged_item :: "(unit, nat) config \<Rightarrow> bool" where
  "acknowledged_item c \<longleftrightarrow> \<not> cf_aborted c \<and> items (w_db (cf_world c)) = [] \<and> cf_vars c = 1"

theorem projection_acknowledges_witness:
  "\<exists>(k :: (unit, nat) worker) c c' ev ci. cf_main c = Completing ev ci \<and> re_event_number ev = ci_eventNumber ci
     \<and> run_task k Main c = Some c' \<and> acknowledged_item c'
     \<and> (\<exists>w0 :: world. holds_item all_uuid ''balances'' ''worker-a'' (ci_partitionKey ci) (ci_eventNumber ci) (w_db w0))"
proof -
  have "runs_to counting None [Main, Main, Main] completing" by code_simp
  moreover have "runs_to counting None ([Main, Main, Main] @ [Main]) acknowledged_item" by code_simp
  ultimately show ?thesis
  proof (rule runs_to_append)
    fix k c0 c c'
    assume r: "startProcessingWorker this_host pg_client (counter_definition counting None) counter_options 0
        (sample_world\<lparr>w_db := routed_db\<rparr>) = (k, c0)" "run_schedule k [Main, Main, Main] c0 = Some c" "completing c"
      "run_schedule k [Main] c = Some c'" "acknowledged_item c'"
    have s: "startProjectionWorker this_host pg_client counter_projection counter_options 0
        (sample_world\<lparr>w_db := routed_db\<rparr>) = (k, c0)"
      using r(1) by (simp add: startProjectionWorker_def counter_projection_def counter_definition_def startProcessingWorker_def)
    from r(3) obtain ev ci where m: "cf_main c = Completing ev ci" by (auto simp: completing_def split: main_pc.splits)
    from r(4) have t: "run_task k Main c = Some c'" by (simp split: option.splits)
    from r(1) have k: "wk_stream k = all_uuid" "wk_name k = ''balances''" "wk_workerId k = ''worker-a''"
      by (auto simp: startProcessingWorker_def counter_definition_def counter_options_def)
    have "\<not> cf_aborted c'" using r(5) by (simp add: acknowledged_item_def)
    from projection_acknowledges [OF s schedule_steps [OF r(2)] m t this] k
    have "re_event_number ev = ci_eventNumber ci"
      "\<exists>w0 :: world. holds_item all_uuid ''balances'' ''worker-a'' (ci_partitionKey ci) (ci_eventNumber ci) (w_db w0)" by auto
    with m t r(5) show ?thesis by blast
  qed
qed

section \<open>Process managers\<close>

text \<open>The state a handler was given its base from: the usable snapshot, or the fold of the rebuild.\<close>

lemma loadState_sources:
  assumes "loadState cl def stream source pk en w = (Inr base, w')"
  shows "(\<exists>s. cl_readSnapshot cl source w = (Inr s, w') \<and> snapshot_usable def s \<and> base = sn_data s)
     \<or> (\<exists>evs w1. cl_listPmRebuildEvents cl stream (sd_type def) pk en w1 = (Inr evs, w')
          \<and> fold_events (sd_apply def) (sd_initialState def) evs = Inr base)"
  using assms
  by (auto simp: loadState_def rebuildState_def bind_io_def lift_io_def split: prod.splits sum.splits if_splits)

lemma substrate_worker:
  assumes "startPmSubstrate hst cl def opts w = (k, c0)"
  shows "wk_handle k = substrate_handle cl def (wk_stream k) \<and> wk_complete k = substrate_complete cl def (wk_stream k)
     \<and> wk_name k = sd_type def \<and> cf_main c0 = Claiming"
  using assms start_claiming unfolding startPmSubstrate_def Let_def
  by (auto simp: startProcessingWorker_def Let_def split: prod.splits)

lemma substrate_handled:
  assumes "substrate_handle cl def stream ev ctx staged w = Some (Inr (), staged', w')"
  shows "\<exists>base st w1 r. loadState cl def stream (sourceUuidOf def (hc_partitionKey ctx)) (hc_partitionKey ctx)
       (hc_eventNumber ctx) w = (Inr base, w1)
     \<and> sd_apply def base ev = Inr st \<and> sd_handle def st ev ctx w1 = Some (Inr r, w')
     \<and> map_of staged' (staged_key (hc_partitionKey ctx) (hc_eventNumber ctx))
       = Some \<lparr>sw_sourceUuid = sourceUuidOf def (hc_partitionKey ctx), sw_stagedState = st,
               sw_complete = (sr_complete r = Some True)\<rparr>"
  using assms
  by (auto simp: substrate_handle_def Let_def map_of_map_set split: prod.splits sum.splits option.splits)

text \<open>
  The acknowledgement of an item, from the world before the call to the world after it: the item done and
  the state \<open>st\<close> stored as the snapshot at the event's number, or, if the instance is finished, all items of
  the partition and the snapshot deleted.
\<close>

definition acknowledged ::
  "('p, staged_map) worker \<Rightarrow> 'p substrate_definition \<Rightarrow> claim \<Rightarrow> recorded_event \<Rightarrow> json \<Rightarrow> bool \<Rightarrow> world \<Rightarrow> world \<Rightarrow> bool" where
  "acknowledged k def ci ev st finished w w' \<longleftrightarrow>
     (\<exists>w0 s. quiet w w0 \<and> find_stream (wk_stream k) (w_db w0) = Some s
        \<and> (if finished
           then w_db w' = (w_db w0)\<lparr>
                  items := filter (\<lambda>j. \<not> (item_of (s_id s) (sd_type def) j \<and> i_partition j = ci_partitionKey ci)) (items (w_db w0)),
                  snaps := filter (\<lambda>x. n_source_uuid x \<noteq> sourceUuidOf def (ci_partitionKey ci)) (snaps (w_db w0))\<rparr>
           else holds_item (wk_stream k) (sd_type def) (wk_workerId k) (ci_partitionKey ci) (ci_eventNumber ci) (w_db w0)
              \<and> (\<exists>i \<in> set (items (w_db w')).
                   item_key (s_id s) (sd_type def) (ci_partitionKey ci) (ci_eventNumber ci) i \<and> i_state i = Done)
              \<and> (\<exists>t. snap_of (sourceUuidOf def (ci_partitionKey ci)) w' = Some t \<and> sn_data t = st
                   \<and> sn_source_version t = re_event_number ev)
              \<and> log_of w' = log_of w0))"

lemma substrate_completed:
  assumes "substrate_complete pg_client def (wk_stream k) ev ctx staged w = Some (Inr (), staged', w')"
    and "map_of staged (staged_key (ci_partitionKey ci) (ci_eventNumber ci)) =
      Some \<lparr>sw_sourceUuid = sourceUuidOf def (ci_partitionKey ci), sw_stagedState = st, sw_complete = finished\<rparr>"
    and "hc_partitionKey ctx = ci_partitionKey ci" "hc_eventNumber ctx = ci_eventNumber ci" "hc_workerId ctx = wk_workerId k"
  shows "acknowledged k def ci ev st finished w w'"
proof (cases finished)
  case True
  with assms obtain z where "cl_completePmInstance pg_client (wk_stream k) (sd_type def) (ci_partitionKey ci)
      (sourceUuidOf def (ci_partitionKey ci)) w = (Inr z, w')"
    by (auto simp: substrate_complete_def Let_def drop_result_def bind_io_Inr return_io_def split: prod.splits)
  from pgd.complete_instance_deletes [OF this] True show ?thesis by (simp add: acknowledged_def)
next
  case False
  let ?si = "\<lparr>si_source_uuid = sourceUuidOf def (ci_partitionKey ci), si_source_type = sd_type def,
      si_source_version = re_event_number ev, si_data = st, si_metadata = pm_metadata def\<rparr>"
  from False assms have "cl_completeWorkItemPm pg_client (wk_stream k) (sd_type def) (wk_workerId k)
      (ci_partitionKey ci) (ci_eventNumber ci) ?si w = (Inr (), w')"
    by (auto simp: substrate_complete_def Let_def split: prod.splits)
  from pgd.complete_pm_records [OF this] obtain w0 s where "quiet w w0" "find_stream (wk_stream k) (w_db w0) = Some s"
    "holds_item (wk_stream k) (sd_type def) (wk_workerId k) (ci_partitionKey ci) (ci_eventNumber ci) (w_db w0)"
    "\<exists>i \<in> set (items (w_db w')). item_key (s_id s) (sd_type def) (ci_partitionKey ci) (ci_eventNumber ci) i \<and> i_state i = Done"
    "\<exists>t. snap_of (sourceUuidOf def (ci_partitionKey ci)) w' = Some t \<and> sn_data t = st
      \<and> sn_source_version t = re_event_number ev" "log_of w' = log_of w0" by auto
  with False show ?thesis unfolding acknowledged_def by auto
qed

text \<open>C9. A process manager acknowledges what it handled: at the completion of an item the staged entry is
  there (the error "this is a bug" is unreachable), its state is the event applied to the state loaded for
  the handler, and a completion that goes through is one step under the worker's claim that stores exactly
  that state, or deletes the instance if the handler finished it.\<close>

theorem pm_acknowledges:
  assumes "startPmSubstrate hst pg_client def opts w = (k, c0)" "(worker_step k)\<^sup>*\<^sup>* c0 c"
    and "cf_main c = Completing ev ci"
  shows "\<exists>base st w1 w2 w3 ctx r. loadState pg_client def (wk_stream k) (sourceUuidOf def (ci_partitionKey ci))
         (ci_partitionKey ci) (ci_eventNumber ci) w1 = (Inr base, w2)
     \<and> sd_apply def base ev = Inr st \<and> sd_handle def st ev ctx w2 = Some (Inr r, w3)
     \<and> map_of (cf_vars c) (staged_key (ci_partitionKey ci) (ci_eventNumber ci)) \<noteq> None
     \<and> (\<forall>c'. run_task k Main c = Some c' \<longrightarrow> \<not> cf_aborted c' \<longrightarrow>
          acknowledged k def ci ev st (sr_complete r = Some True) (cf_world c) (cf_world c'))"
proof -
  note K = substrate_worker [OF assms(1)]
  let ?key = "staged_key (ci_partitionKey ci) (ci_eventNumber ci)"
  from handled_before [OF assms(2) _ assms(3)] K obtain a c1 v w1 w3 where
    "substrate_handle pg_client def (wk_stream k) ev (handler_ctx k ci a c1) v w1 = Some (Inr (), cf_vars c, w3)"
    by auto
  from substrate_handled [OF this] obtain base st w2 r where
    l: "loadState pg_client def (wk_stream k) (sourceUuidOf def (ci_partitionKey ci)) (ci_partitionKey ci)
      (ci_eventNumber ci) w1 = (Inr base, w2)"
    and a: "sd_apply def base ev = Inr st" "sd_handle def st ev (handler_ctx k ci a c1) w2 = Some (Inr r, w3)"
    and m: "map_of (cf_vars c) ?key = Some \<lparr>sw_sourceUuid = sourceUuidOf def (ci_partitionKey ci), sw_stagedState = st,
      sw_complete = (sr_complete r = Some True)\<rparr>" by auto
  have "acknowledged k def ci ev st (sr_complete r = Some True) (cf_world c) (cf_world c')"
    if "run_task k Main c = Some c'" "\<not> cf_aborted c'" for c'
  proof -
    from completed_ok [OF that(1) assms(3) that(2)] K obtain v where
      "substrate_complete pg_client def (wk_stream k) ev (handler_ctx k ci 1 c) (cf_vars c) (cf_world c)
        = Some (Inr (), v, cf_world c')" by auto
    from substrate_completed [OF this m] show ?thesis by simp
  qed
  with l a m show ?thesis by blast
qed

definition tally :: "unit substrate_definition" where
  "tally = \<lparr>sd_type = ''balances'', sd_streamName = None, sd_stream = None, sd_initialState = JNum 0,
     sd_apply = (\<lambda>st ev. Inr (JArr [st, JStr (re_type ev)])),
     sd_handle = (\<lambda>st ev ctx w. Some (Inr \<lparr>sr_complete = None\<rparr>, w)), sd_snapshotModuleVersion = None,
     sd_errorPolicy = None\<rparr>"

definition tally_start :: "(unit, staged_map) worker \<times> (unit, staged_map) config" where
  "tally_start = startPmSubstrate this_host pg_client tally counter_options (sample_world\<lparr>w_db := routed_db\<rparr>)"

definition tally_run :: "task list \<Rightarrow> ((unit, staged_map) config \<Rightarrow> bool) \<Rightarrow> bool" where
  "tally_run ts P = (case tally_start of (k, c) \<Rightarrow> (case run_schedule k ts c of Some c' \<Rightarrow> P c' | None \<Rightarrow> False))"

lemma tally_runE:
  assumes "tally_run ts P" "tally_start = (k, c0)"
  shows "\<exists>c. run_schedule k ts c0 = Some c \<and> P c"
  using assms(1) unfolding tally_run_def assms(2) by (simp split: option.splits)

definition at_completion :: "(unit, staged_map) config \<Rightarrow> bool" where
  "at_completion c = (case cf_main c of Completing ev ci \<Rightarrow> ci_eventNumber ci = 1 | _ \<Rightarrow> False)"

definition tally_done :: "(unit, staged_map) config \<Rightarrow> bool" where
  "tally_done c \<longleftrightarrow> \<not> cf_aborted c \<and> map i_state (items (w_db (cf_world c))) = [Done]
     \<and> map n_data (snaps (w_db (cf_world c))) = [JArr [JNum 0, JStr ''Opened'']]"

theorem pm_acknowledges_witness:
  "\<exists>(k :: (unit, staged_map) worker) c c' ev ci st. cf_main c = Completing ev ci \<and> run_task k Main c = Some c' \<and> tally_done c'
     \<and> map_of (cf_vars c) (staged_key (ci_partitionKey ci) (ci_eventNumber ci)) \<noteq> None
     \<and> acknowledged k tally ci ev st False (cf_world c) (cf_world c')"
proof -
  obtain k c0 where s: "tally_start = (k, c0)" by force
  have "tally_run [Main, Main, Main] at_completion" by code_simp
  from tally_runE [OF this s] obtain c where c: "run_schedule k [Main, Main, Main] c0 = Some c" "at_completion c"
    by blast
  have "tally_run ([Main, Main, Main] @ [Main]) tally_done" by code_simp
  from tally_runE [OF this s] obtain c' where c': "run_schedule k [Main] c = Some c'" "tally_done c'"
    unfolding schedule_append c(1) by auto
  from c(2) obtain ev ci where m: "cf_main c = Completing ev ci" by (auto simp: at_completion_def split: main_pc.splits)
  from c'(1) have t: "run_task k Main c = Some c'" by (simp split: option.splits)
  have a: "\<not> cf_aborted c'" using c'(2) by (simp add: tally_done_def)
  from pm_acknowledges [OF s [unfolded tally_start_def] schedule_steps [OF c(1)] m] obtain st ctx w2 w3 r where
    "sd_handle tally st ev ctx w2 = Some (Inr r, w3)"
    and st: "map_of (cf_vars c) (staged_key (ci_partitionKey ci) (ci_eventNumber ci)) \<noteq> None"
    and k: "\<forall>c'. run_task k Main c = Some c' \<longrightarrow> \<not> cf_aborted c' \<longrightarrow>
      acknowledged k tally ci ev st (sr_complete r = Some True) (cf_world c) (cf_world c')" by blast
  then have "sr_complete r = None" by (auto simp: tally_def)
  with k t a have "acknowledged k tally ci ev st False (cf_world c) (cf_world c')" by simp
  with m t c'(2) st show ?thesis by blast
qed

end
