(* ===== verification/Facade.thy ===== *)
theory Facade
  imports Consistency Projection Pm Routing
begin

text \<open>
  facade/instructed.ts: the class applications use. Registration fills a registry, \<open>dispatch\<close>
  runs a command on the aggregate the router or the caller names and optionally waits for
  projections, \<open>poll\<close> starts a routing and a processing worker for every projection and process
  manager. The state of the policies (\<open>'p\<close>) and of the projections' handlers (\<open>'s\<close>) is erased to one
  type, as in the code. Also facade/command-router.ts.
\<close>

section \<open>The static command router\<close>

record command_route =
  cr_aggregate :: "json aggregate_def"
  cr_id :: "json \<Rightarrow> thrown + string"

text \<open>Names every plain object inherits: looking one of them up finds a value without an \<open>aggregate\<close>.\<close>

definition inherited_keys :: "string list" where
  "inherited_keys =
     [''constructor'', ''toString'', ''toLocaleString'', ''valueOf'', ''hasOwnProperty'', ''isPrototypeOf'',
      ''propertyIsEnumerable'', ''__proto__'', ''__defineGetter__'', ''__defineSetter__'',
      ''__lookupGetter__'', ''__lookupSetter__'']"

definition commandRouter :: "(string \<times> command_route) list \<Rightarrow> command_router" where
  "commandRouter routes command ctx =
     (case map_of routes (type_text command) of
        Some entry \<Rightarrow>
          bind_sum (cr_id entry command) (\<lambda>i.
            Inr \<lparr>ct_aggregateType = ag_type (cr_aggregate entry), ct_aggregateId = i\<rparr>)
      | None \<Rightarrow>
          if type_text command \<in> set inherited_keys
          then Inl (type_error ''Cannot read properties of undefined (reading type)'')
          else Inl (js_error (''commandRouter: no route for command type '' @ [CHR 0x22] @ type_text command @ [CHR 0x22])))"

section \<open>Options\<close>

text \<open>The tuning of a worker; a field of \<open>WorkerOptions\<close> by name.\<close>

record tuning =
  tu_batchSize :: "rat option"
  tu_leaseSeconds :: "rat option"
  tu_heartbeatInterval :: "rat option"
  tu_pollInterval :: "rat option"

datatype tuning_field = BatchSize | LeaseSeconds | HeartbeatInterval | PollInterval

fun tuning_get :: "tuning_field \<Rightarrow> tuning \<Rightarrow> rat option" where
  "tuning_get BatchSize t = tu_batchSize t"
| "tuning_get LeaseSeconds t = tu_leaseSeconds t"
| "tuning_get HeartbeatInterval t = tu_heartbeatInterval t"
| "tuning_get PollInterval t = tu_pollInterval t"

fun tuning_put :: "tuning_field \<Rightarrow> rat \<Rightarrow> tuning \<Rightarrow> tuning" where
  "tuning_put BatchSize v t = t\<lparr>tu_batchSize := Some v\<rparr>"
| "tuning_put LeaseSeconds v t = t\<lparr>tu_leaseSeconds := Some v\<rparr>"
| "tuning_put HeartbeatInterval v t = t\<lparr>tu_heartbeatInterval := Some v\<rparr>"
| "tuning_put PollInterval v t = t\<lparr>tu_pollInterval := Some v\<rparr>"

definition no_tuning :: tuning where
  "no_tuning = \<lparr>tu_batchSize = None, tu_leaseSeconds = None, tu_heartbeatInterval = None, tu_pollInterval = None\<rparr>"

definition DEFAULT_WORKER_OPTIONS :: tuning where
  "DEFAULT_WORKER_OPTIONS =
     \<lparr>tu_batchSize = Some DEFAULT_ROUTING_BATCH_SIZE, tu_leaseSeconds = Some DEFAULT_ROUTING_LEASE_SECONDS,
      tu_heartbeatInterval = None, tu_pollInterval = Some DEFAULT_ROUTING_POLL_INTERVAL_MS\<rparr>"

record poll_options =
  pl_workerId :: "string option"
  pl_defaults :: "tuning option"
  pl_workers :: "(string \<times> tuning) list option"

record registration_options =
  re_onError :: "on_error option"

record dispatch_options =
  dp_consistency :: "(string + subscription_ref) list option"
  dp_consistencyTimeout :: "rat option"
  dp_retryBudget :: "js_num option"
  dp_expectedVersion :: "expected_version option"

definition no_dispatch_options :: dispatch_options where
  "no_dispatch_options =
     \<lparr>dp_consistency = None, dp_consistencyTimeout = None, dp_retryBudget = None, dp_expectedVersion = None\<rparr>"

section \<open>The registry\<close>

record ('p, 's) projection_registration =
  pr_type :: string
  pr_stream :: "string option"
  pr_partitionBy :: "partition_by option"
  pr_routeFn :: "routing_fn option"
  pr_startFrom :: "start_from option"
  pr_handler :: "'s handler"
  pr_errorPolicy :: "'p error_policy option"

record 'p pm_registration =
  pg_def :: "'p pm_definition"
  pg_routeFn :: routing_fn
  pg_startFrom :: "start_from option"

record ('p, 's) registered_projection =
  rp_stream :: string
  rp_def :: "('p, 's) projection_registration"
  rp_opts :: registration_options

record 'p registered_pm =
  rm_stream :: string
  rm_def :: "'p pm_registration"
  rm_opts :: registration_options

record ('p, 's) instructed =
  in_client :: client
  in_logger :: logger
  in_aggregates :: "(string \<times> json aggregate_def) list"
  in_projections :: "('p, 's) registered_projection list"
  in_processManagers :: "'p registered_pm list"
  in_commandRouter :: "command_router option"

definition new_Instructed :: "connection \<Rightarrow> logger_impl option \<Rightarrow> thrown + ('p, 's) instructed" where
  "new_Instructed con lg =
     bind_sum (new_Client con) (\<lambda>_. Inr
       \<lparr>in_client = pg_client,
        in_logger = fromImpl (Some (case lg of Some i \<Rightarrow> i | None \<Rightarrow> DEFAULT_LOGGER_IMPL)) None,
        in_aggregates = [], in_projections = [], in_processManagers = [], in_commandRouter = None\<rparr>)"

text \<open>
  What \<open>register\<close> is given: a function, or an object with some of the marker members, in the order
  they are looked for (\<open>execute\<close>; \<open>handle\<close> and \<open>routeFn\<close>; \<open>handler\<close>).
\<close>

record ('p, 's) registered_object =
  ob_execute :: "json aggregate_def option"
  ob_handle :: "'p pm_registration option"
  ob_handler :: "('p, 's) projection_registration option"

datatype ('p, 's) registerable = RouterArg command_router | ObjectArg "('p, 's) registered_object"

definition quote :: "string \<Rightarrow> string" where
  "quote s = [CHR 0x22] @ s @ [CHR 0x22]"

definition log_info :: "logger \<Rightarrow> string \<Rightarrow> world \<Rightarrow> world" where
  "log_info lg m w = info lg (Text m) w"

definition registerAggregate ::
  "json aggregate_def \<Rightarrow> ('p, 's) instructed \<Rightarrow> world \<Rightarrow> (thrown + ('p, 's) instructed) \<times> world" where
  "registerAggregate def app w =
     (if map_of (in_aggregates app) (ag_type def) \<noteq> None then
        (Inl (js_error (''Instructed.register: aggregate type '' @ quote (ag_type def) @ '' already registered'')), w)
      else (Inr (app\<lparr>in_aggregates := map_set (ag_type def) def (in_aggregates app)\<rparr>),
            log_info (in_logger app) (''registered aggregate '' @ quote (ag_type def)) w))"

definition no_registration_options :: registration_options where
  "no_registration_options = \<lparr>re_onError = None\<rparr>"

definition registerProjection ::
  "('p, 's) projection_registration \<Rightarrow> registration_options option \<Rightarrow> ('p, 's) instructed \<Rightarrow> world
     \<Rightarrow> (thrown + ('p, 's) instructed) \<times> world" where
  "registerProjection def opts app w =
     (if pr_partitionBy def \<noteq> None \<and> pr_routeFn def \<noteq> None then
        (Inl (js_error (''Instructed.register('' @ quote (pr_type def) @ ''): `partitionBy` and `routeFn` are mutually exclusive'')), w)
      else (Inr (app\<lparr>in_projections := in_projections app @
              [\<lparr>rp_stream = (case pr_stream def of Some s \<Rightarrow> s | None \<Rightarrow> all_uuid), rp_def = def,
                rp_opts = (case opts of Some o1 \<Rightarrow> o1 | None \<Rightarrow> no_registration_options)\<rparr>]\<rparr>),
            log_info (in_logger app) (''registered projection '' @ quote (pr_type def)) w))"

definition registerProcessManager ::
  "'p pm_registration \<Rightarrow> registration_options option \<Rightarrow> ('p, 's) instructed \<Rightarrow> world
     \<Rightarrow> (thrown + ('p, 's) instructed) \<times> world" where
  "registerProcessManager def opts app w =
     (Inr (app\<lparr>in_processManagers := in_processManagers app @
        [\<lparr>rm_stream = (case pmd_stream (pg_def def) of Some s \<Rightarrow> s | None \<Rightarrow> all_uuid), rm_def = def,
          rm_opts = (case opts of Some o1 \<Rightarrow> o1 | None \<Rightarrow> no_registration_options)\<rparr>]\<rparr>),
      log_info (in_logger app) (''registered process manager '' @ quote (pmd_type (pg_def def))) w)"

definition registerCommandRouter ::
  "command_router \<Rightarrow> ('p, 's) instructed \<Rightarrow> world \<Rightarrow> (thrown + ('p, 's) instructed) \<times> world" where
  "registerCommandRouter router app w =
     (if in_commandRouter app \<noteq> None then
        (Inl (js_error ''Instructed.register: a command router is already registered''), w)
      else (Inr (app\<lparr>in_commandRouter := Some router\<rparr>), log_info (in_logger app) ''registered command router'' w))"

definition register ::
  "('p, 's) registerable \<Rightarrow> registration_options option \<Rightarrow> ('p, 's) instructed \<Rightarrow> world
     \<Rightarrow> (thrown + ('p, 's) instructed) \<times> world" where
  "register arg opts app w =
     (case arg of
        RouterArg router \<Rightarrow>
          (if opts \<noteq> None then (Inl (js_error ''Instructed.register: a CommandRouter takes no options''), w)
           else registerCommandRouter router app w)
      | ObjectArg obj \<Rightarrow>
          (case ob_execute obj of
             Some def \<Rightarrow>
               (if opts \<noteq> None then (Inl (js_error ''Instructed.register: an AggregateDefinition takes no options''), w)
                else registerAggregate def app w)
           | None \<Rightarrow>
               (case ob_handle obj of
                  Some def \<Rightarrow> registerProcessManager def opts app w
                | None \<Rightarrow>
                    (case ob_handler obj of
                       Some def \<Rightarrow> registerProjection def opts app w
                     | None \<Rightarrow> (Inl (js_error (''Instructed.register: argument doesn'' @ [CHR 0x27] @ ''t match any registerable shape (CommandRouter / AggregateDefinition / ProjectionDefinition / ProcessManagerDefinition)'')), w)))))"

section \<open>dispatch\<close>

datatype dispatch_call =
    DispatchExplicit string string json "dispatch_options option"
  | DispatchLean json "dispatch_options option"

definition normaliseConsistency :: "(string + subscription_ref) list \<Rightarrow> subscription_ref list" where
  "normaliseConsistency = map (\<lambda>entry. case entry of Inl n \<Rightarrow> \<lparr>sr_stream = all_uuid, sr_name = n\<rparr> | Inr r \<Rightarrow> r)"

definition given :: "dispatch_options option \<Rightarrow> dispatch_options" where
  "given opts = (case opts of Some o1 \<Rightarrow> o1 | None \<Rightarrow> no_dispatch_options)"

text \<open>Which aggregate a call names: its type, its id, the command and the options.\<close>

definition dispatch_route :: "('p, 's) instructed \<Rightarrow> dispatch_call \<Rightarrow> thrown + (string \<times> string \<times> json \<times> dispatch_options)" where
  "dispatch_route app call =
     (case call of
        DispatchExplicit ty i c opts \<Rightarrow> Inr (ty, i, c, given opts)
      | DispatchLean c opts \<Rightarrow>
          (case in_commandRouter app of
             None \<Rightarrow> Inl (js_error ''Instructed.dispatch: no command router registered. Call `register(router)` first, or use the explicit `dispatch(aggregateType, id, command, opts?)` overload.'')
           | Some router \<Rightarrow>
               bind_sum (router c (in_logger app)) (\<lambda>route.
                 Inr (ct_aggregateType route, ct_aggregateId route, c, given opts))))"

definition unknown_aggregate_type :: "string \<Rightarrow> thrown" where
  "unknown_aggregate_type ty =
     Err UnknownAggregateType (''Unknown aggregate type: '' @ ty) None None None (AggregateField ty) None"

definition dispatch_run_options :: "('p, 's) instructed \<Rightarrow> dispatch_options \<Rightarrow> run_options" where
  "dispatch_run_options app opts =
     no_options\<lparr>ro_retryBudget := Some (case dp_retryBudget opts of Some b \<Rightarrow> b | None \<Rightarrow> DEFAULT_RETRY_BUDGET),
       ro_expectedVersion := dp_expectedVersion opts, ro_ctx := Some (in_logger app)\<rparr>"

definition dispatch ::
  "('p, 's) instructed \<Rightarrow> dispatch_call \<Rightarrow> world \<Rightarrow> ((thrown + appended_event list) \<times> world) option" where
  "dispatch app call w =
     (case dispatch_route app call of
        Inl e \<Rightarrow> Some (Inl e, w)
      | Inr (ty, i, c, opts) \<Rightarrow>
          (case map_of (in_aggregates app) ty of
             None \<Rightarrow> Some (Inl (unknown_aggregate_type ty), w)
           | Some def \<Rightarrow>
               (case runCommandWithSnapshots (in_client app) def (stream_name def i) c (dispatch_run_options app opts) w of
                  None \<Rightarrow> None
                | Some (Inl e, w1) \<Rightarrow> Some (Inl e, w1)
                | Some (Inr rows, w1) \<Rightarrow>
                    (let refs = (case dp_consistency opts of Some l \<Rightarrow> l | None \<Rightarrow> [])
                     in if refs \<noteq> [] \<and> rows \<noteq> [] then
                          (case waitForProjection (in_client app) rows (normaliseConsistency refs)
                                  \<lparr>wo_pollInterval = None, wo_timeout = dp_consistencyTimeout opts\<rparr> w1 of
                             None \<Rightarrow> None
                           | Some (Inl e, w2) \<Rightarrow> Some (Inl e, w2)
                           | Some (Inr _, w2) \<Rightarrow> Some (Inr rows, w2))
                        else Some (Inr rows, w1)))))"

section \<open>poll\<close>

datatype provenance = FromWorkers | FromDefaults | FromSdk | Auto

record resolved_tuning =
  rl_tuning :: tuning
  rl_sources :: "tuning_field \<Rightarrow> provenance"

definition tuning_fields :: "tuning_field list" where
  "tuning_fields = [BatchSize, LeaseSeconds, HeartbeatInterval, PollInterval]"

definition worker_override :: "poll_options \<Rightarrow> string \<Rightarrow> tuning_field \<Rightarrow> rat option" where
  "worker_override opts name f =
     (case pl_workers opts of
        None \<Rightarrow> None
      | Some ws \<Rightarrow> (case map_of ws name of None \<Rightarrow> None | Some t \<Rightarrow> tuning_get f t))"

definition poll_default :: "poll_options \<Rightarrow> tuning_field \<Rightarrow> rat option" where
  "poll_default opts f = (case pl_defaults opts of None \<Rightarrow> None | Some t \<Rightarrow> tuning_get f t)"

text \<open>One field: the first of the three levels that sets it, and where it came from.\<close>

definition resolve_field :: "string \<Rightarrow> poll_options \<Rightarrow> tuning_field \<Rightarrow> resolved_tuning \<Rightarrow> resolved_tuning" where
  "resolve_field name opts f r =
     (case worker_override opts name f of
        Some v \<Rightarrow> \<lparr>rl_tuning = tuning_put f v (rl_tuning r), rl_sources = (rl_sources r)(f := FromWorkers)\<rparr>
      | None \<Rightarrow>
          (case poll_default opts f of
             Some v \<Rightarrow> \<lparr>rl_tuning = tuning_put f v (rl_tuning r), rl_sources = (rl_sources r)(f := FromDefaults)\<rparr>
           | None \<Rightarrow>
               (case tuning_get f DEFAULT_WORKER_OPTIONS of
                  Some v \<Rightarrow> \<lparr>rl_tuning = tuning_put f v (rl_tuning r), rl_sources = (rl_sources r)(f := FromSdk)\<rparr>
                | None \<Rightarrow> r\<lparr>rl_sources := (rl_sources r)(f := Auto)\<rparr>)))"

definition resolveWorkerOptionsWithSources :: "string \<Rightarrow> poll_options \<Rightarrow> resolved_tuning" where
  "resolveWorkerOptionsWithSources name opts =
     fold (resolve_field name opts) tuning_fields \<lparr>rl_tuning = no_tuning, rl_sources = (\<lambda>_. Auto)\<rparr>"

fun field_name :: "tuning_field \<Rightarrow> string" where
  "field_name BatchSize = ''batchSize''"
| "field_name LeaseSeconds = ''leaseSeconds''"
| "field_name HeartbeatInterval = ''heartbeatInterval''"
| "field_name PollInterval = ''pollInterval''"

definition source_text :: "string \<Rightarrow> provenance \<Rightarrow> string" where
  "source_text name src =
     (case src of FromSdk \<Rightarrow> ''sdk default'' | FromWorkers \<Rightarrow> ''workers.'' @ name | _ \<Rightarrow> ''defaults'')"

definition format_field :: "string \<Rightarrow> resolved_tuning \<Rightarrow> tuning_field \<Rightarrow> string \<Rightarrow> string" where
  "format_field name r f unit =
     (if rl_sources r f = Auto then field_name f @ ''=auto (derived)''
      else field_name f @ ''='' @ (case tuning_get f (rl_tuning r) of Some v \<Rightarrow> show_num v | None \<Rightarrow> ''undefined'')
        @ unit @ '' ('' @ source_text name (rl_sources r f) @ '')'')"

definition logInfoStarting :: "logger \<Rightarrow> string \<Rightarrow> string \<Rightarrow> resolved_tuning \<Rightarrow> world \<Rightarrow> world" where
  "logInfoStarting lg kind name r w =
     info lg (Thunk (\<lambda>w. (''starting '' @ kind @ '' worker; ''
       @ join_comma [format_field name r PollInterval ''ms'', format_field name r LeaseSeconds ''s'',
                     format_field name r BatchSize [], format_field name r HeartbeatInterval ''ms''], w))) w"

definition logStopWhenDone :: "logger \<Rightarrow> string \<Rightarrow> world \<Rightarrow> world" where
  "logStopWhenDone lg name w = log_info lg (''stopped worker for '' @ quote name) w"

definition routingOpts :: "tuning \<Rightarrow> registration_options \<Rightarrow> string \<Rightarrow> logger \<Rightarrow> routing_options" where
  "routingOpts t reg workerId lg =
     \<lparr>rg_workerId = Some workerId, rg_batchSize = tu_batchSize t, rg_leaseSeconds = tu_leaseSeconds t,
      rg_pollInterval = tu_pollInterval t, rg_onError = re_onError reg, rg_logger = Some lg\<rparr>"

definition processingOpts :: "tuning \<Rightarrow> registration_options \<Rightarrow> string \<Rightarrow> logger \<Rightarrow> worker_options" where
  "processingOpts t reg workerId lg =
     \<lparr>op_workerId = Some workerId, op_leaseSeconds = tu_leaseSeconds t,
      op_heartbeatInterval = tu_heartbeatInterval t, op_pollInterval = tu_pollInterval t,
      op_onError = re_onError reg, op_logger = Some lg\<rparr>"

definition resolveProjectionRouteFn :: "('p, 's) registered_projection \<Rightarrow> routing_fn" where
  "resolveProjectionRouteFn p =
     (case pr_routeFn (rp_def p) of
        Some f \<Rightarrow> f
      | None \<Rightarrow> routingFnForPartitionBy (case pr_partitionBy (rp_def p) of Some pb \<Rightarrow> pb | None \<Rightarrow> Sequential))"

definition worker_logger :: "('p, 's) instructed \<Rightarrow> string \<Rightarrow> string \<Rightarrow> logger" where
  "worker_logger app workerId ty = child (in_logger app) (''['' @ workerId @ ''#'' @ ty @ '']'')"

text \<open>
  The two halves started for a registration: the values the workers close over. Where each of them
  starts is \<open>startRoutingWorker\<close> and \<open>startProcessingWorker\<close> in the world it runs in.
\<close>

record ('p, 's) started =
  st_type :: string
  st_routing :: router
  st_processing :: "('p, 's) worker + ('p, staged_map) worker"

definition start_projection ::
  "host \<Rightarrow> ('p, 's) instructed \<Rightarrow> poll_options \<Rightarrow> string \<Rightarrow> 's \<Rightarrow> ('p, 's) registered_projection \<Rightarrow> world
     \<Rightarrow> ('p, 's) started \<times> world" where
  "start_projection hst app opts workerId vars p w =
     (let def = rp_def p;
          routeFn = resolveProjectionRouteFn p;
          resolved = resolveWorkerOptionsWithSources (pr_type def) opts;
          lg = worker_logger app workerId (pr_type def);
          w1 = logInfoStarting lg ''projection'' (pr_type def) resolved w;
          routing = fst (startRoutingWorker hst (in_client app)
            \<lparr>rf_name = pr_type def, rf_stream = Some (rp_stream p), rf_routeFn = routeFn, rf_startFrom = pr_startFrom def\<rparr>
            (routingOpts (rl_tuning resolved) (rp_opts p) workerId lg) w1);
          processing = fst (startProjectionWorker hst (in_client app)
            \<lparr>pj_name = pr_type def, pj_stream = Some (rp_stream p), pj_handler = pr_handler def,
             pj_errorPolicy = pr_errorPolicy def\<rparr>
            (processingOpts (rl_tuning resolved) (rp_opts p) workerId lg) vars w1)
      in (\<lparr>st_type = pr_type def, st_routing = routing, st_processing = Inl processing\<rparr>, w1))"

definition start_process_manager ::
  "host \<Rightarrow> ('p, 's) instructed \<Rightarrow> poll_options \<Rightarrow> string \<Rightarrow> 'p registered_pm \<Rightarrow> world
     \<Rightarrow> ('p, 's) started \<times> world" where
  "start_process_manager hst app opts workerId pm w =
     (let def = pg_def (rm_def pm);
          resolved = resolveWorkerOptionsWithSources (pmd_type def) opts;
          lg = worker_logger app workerId (pmd_type def);
          w1 = logInfoStarting lg ''process manager'' (pmd_type def) resolved w;
          routing = fst (startRoutingWorker hst (in_client app)
            \<lparr>rf_name = pmd_type def, rf_stream = Some (rm_stream pm), rf_routeFn = pg_routeFn (rm_def pm),
             rf_startFrom = pg_startFrom (rm_def pm)\<rparr>
            (routingOpts (rl_tuning resolved) (rm_opts pm) workerId lg) w1);
          processing = fst (startPmWorker hst (in_client app) (def\<lparr>pmd_stream := Some (rm_stream pm)\<rparr>)
            \<lparr>po_worker = processingOpts (rl_tuning resolved) (rm_opts pm) workerId lg,
             po_router = in_commandRouter app, po_aggregates = Some (in_aggregates app)\<rparr> w1)
      in (\<lparr>st_type = pmd_type def, st_routing = routing, st_processing = Inr processing\<rparr>, w1))"

text \<open>The keys of \<open>workers\<close> that name nothing registered.\<close>

definition known_types :: "('p, 's) instructed \<Rightarrow> string list" where
  "known_types app =
     map (\<lambda>p. pr_type (rp_def p)) (in_projections app) @ map (\<lambda>pm. pmd_type (pg_def (rm_def pm))) (in_processManagers app)"

definition unknown_worker :: "string \<Rightarrow> thrown" where
  "unknown_worker name =
     js_error (''Instructed.poll: workers['' @ quote name @ ''] does not match any registered projection or process manager'')"

fun start_all :: "('a \<Rightarrow> world \<Rightarrow> 'b \<times> world) \<Rightarrow> 'a list \<Rightarrow> world \<Rightarrow> 'b list \<times> world" where
  "start_all f [] w = ([], w)"
| "start_all f (x # xs) w = (let (y, w1) = f x w; (ys, w2) = start_all f xs w1 in (y # ys, w2))"

definition poll ::
  "host \<Rightarrow> ('p, 's) instructed \<Rightarrow> poll_options \<Rightarrow> 's \<Rightarrow> world \<Rightarrow> (thrown + ('p, 's) started list) \<times> world" where
  "poll hst app opts vars w =
     (if in_projections app = [] \<and> in_processManagers app = [] then
        (Inl (js_error ''Instructed.poll: no projections or process managers registered''), w)
      else case (case pl_workers opts of
                   None \<Rightarrow> None
                 | Some ws \<Rightarrow> find (\<lambda>name. name \<notin> set (known_types app)) (map fst ws)) of
             Some name \<Rightarrow> (Inl (unknown_worker name), w)
           | None \<Rightarrow>
               (let (workerId, w1) = (case pl_workerId opts of Some i \<Rightarrow> (i, w) | None \<Rightarrow> defaultWorkerId hst w);
                    (ps, w2) = start_all (start_projection hst app opts workerId vars) (in_projections app) w1;
                    (pms, w3) = start_all (start_process_manager hst app opts workerId) (in_processManagers app) w2
                in (Inr (ps @ pms), w3)))"

end
