(* ===== verification/Facade_Properties.thy ===== *)
theory Facade_Properties
  imports Facade Consistency_Properties Aggregate_Properties
begin

text \<open>
  Properties of the facade: a dispatch is a linearised command followed by a wait that saw the
  projections caught up, \<open>poll\<close> starts matching halves for everything registered, and a field of a
  worker's options comes from the first level that sets it.
\<close>

section \<open>Dispatch\<close>

lemma dispatch_cases:
  assumes "dispatch app call w = Some (Inr rows, w')"
  obtains ty i c opts def w1 where "dispatch_route app call = Inr (ty, i, c, opts)"
    "map_of (in_aggregates app) ty = Some def"
    "runCommandWithSnapshots (in_client app) def (stream_name def i) c (dispatch_run_options app opts) w = Some (Inr rows, w1)"
    "w' = w1 \<and> (dp_consistency opts \<in> {None, Some []} \<or> rows = [])
     \<or> (\<exists>refs. dp_consistency opts = Some refs
          \<and> waitForProjection (in_client app) rows (normaliseConsistency refs)
              \<lparr>wo_pollInterval = None, wo_timeout = dp_consistencyTimeout opts\<rparr> w1 = Some (Inr (), w'))"
  using assms
  by (auto simp: dispatch_def Let_def split: sum.splits option.splits prod.splits if_splits)

text \<open>A command run with snapshots is linearised too: its rows are those of its execution.\<close>

lemma snapshots_linearised:
  assumes r: "runCommandWithSnapshots pg_client def u c opts w = Some (Inr rows, w')"
    and dv: "ro_expectedVersion opts = None" and ok: "world_ok w" "snap_safe def u w"
  shows "\<exists>w0 w1 s res. quiet w w0 \<and> replay def u (log_of w0) = Inr s \<and> ag_execute def s c = Inr res
     \<and> (if normaliseEvents res = [] then rows = []
        else appended_at u w0 w1 (map (fill_ids (causation opts w) (ro_correlationId opts)) (normaliseEvents res)) rows)"
proof -
  obtain rc w1 where a: "runCommandAndApply pg_client def u c opts w = Some (Inr rc, w1)" and rows: "rows = rc_appended rc"
    using r by (cases rule: pgc.with_snapshots_cases) auto
  obtain x where e: "executeCommand pg_client def u c opts w = Some (Inr x, w1)" and x: "ran_from def x rc"
    using runCommandAndApply_Inr [OF a] by blast
  from decided_default [OF pgc.execute_decided [OF e ok, unfolded dv] ok(1)] obtain w0 res where
    "quiet w w0" "replay def u (log_of w0) = Inr (ld_state (ex_loaded x))"
    "ag_execute def (ld_state (ex_loaded x)) c = Inr res" "ex_noOp x = (normaliseEvents res = [])"
    "ex_filled x = map (fill_ids (causation opts w) (ro_correlationId opts)) (normaliseEvents res)"
    "if ex_noOp x then w1 = w0 \<and> ex_appended x = [] else u \<noteq> all_uuid \<and> appended_at u w0 w1 (ex_filled x) (ex_appended x)"
    by blast
  moreover have "rows = ex_appended x" using x rows by (simp add: ran_from_def)
  ultimately show ?thesis
    by (intro exI [of _ w0] exI [of _ w1] exI [of _ "ld_state (ex_loaded x)"] exI [of _ res]) auto
qed


definition json_counter :: "json aggregate_def" where
  "json_counter =
     \<lparr>ag_type = ''Counter'', ag_streamName = None, ag_initialState = JNum 0,
      ag_execute = (\<lambda>s c. Inr (ExecOne sample_event)), ag_apply = bump,
      ag_snapshotPolicy = None, ag_snapshotModuleVersion = None\<rparr>"

definition sample_app :: "(unit, nat) instructed" where
  "sample_app = \<lparr>in_client = pg_client, in_logger = noop, in_aggregates = [(''Counter'', json_counter)],
     in_projections = [], in_processManagers = [], in_commandRouter = None\<rparr>"

definition waiting :: dispatch_options where
  "waiting = no_dispatch_options\<lparr>dp_consistency := Some [Inl ''balances'']\<rparr>"

definition ahead_world :: world where
  "ahead_world = sample_world\<lparr>w_db :=
     after (CRouteBatch (Some all_uuid) (Some ''balances'') worker_a (Some 10) (Some (JArr []))) leased_db\<rparr>"

definition dispatched_one :: "((thrown + appended_event list) \<times> world) option \<Rightarrow> bool" where
  "dispatched_one m = (case m of Some (Inr rows, _) \<Rightarrow> map ae_event_number rows = [2] | _ \<Rightarrow> False)"


section \<open>Options\<close>

lemma tuning_get_put [simp]: "tuning_get g (tuning_put f v t) = (if g = f then Some v else tuning_get g t)"
  by (cases f; cases g) simp_all

definition chosen :: "string \<Rightarrow> poll_options \<Rightarrow> tuning_field \<Rightarrow> rat option" where
  "chosen name opts f =
     (case worker_override opts name f of Some v \<Rightarrow> Some v | None \<Rightarrow>
        (case poll_default opts f of Some v \<Rightarrow> Some v | None \<Rightarrow> tuning_get f DEFAULT_WORKER_OPTIONS))"

lemma resolve_field_get:
  "tuning_get g (rl_tuning (resolve_field name opts f r))
     = (if g = f \<and> chosen name opts f \<noteq> None then chosen name opts f else tuning_get g (rl_tuning r))"
  "rl_sources (resolve_field name opts f r) g
     = (if g \<noteq> f then rl_sources r g else if worker_override opts name f \<noteq> None then FromWorkers
        else if poll_default opts f \<noteq> None then FromDefaults
        else if tuning_get f DEFAULT_WORKER_OPTIONS \<noteq> None then FromSdk else Auto)"
  by (simp_all add: resolve_field_def chosen_def split: option.split)

text \<open>Precedence. Each field of a worker's tuning is the one given for the worker by name, else the
  default of the call, else the SDK's default, and the tag says which; only the heartbeat can be left to
  the worker.\<close>

theorem resolution_precedence:
  "tuning_get f (rl_tuning (resolveWorkerOptionsWithSources name opts))
     = (case worker_override opts name f of Some v \<Rightarrow> Some v | None \<Rightarrow>
          (case poll_default opts f of Some v \<Rightarrow> Some v | None \<Rightarrow> tuning_get f DEFAULT_WORKER_OPTIONS))
   \<and> rl_sources (resolveWorkerOptionsWithSources name opts) f
     = (if worker_override opts name f \<noteq> None then FromWorkers
        else if poll_default opts f \<noteq> None then FromDefaults
        else if f = HeartbeatInterval then Auto else FromSdk)"
  unfolding chosen_def [symmetric]
  by (cases f) (simp_all add: resolveWorkerOptionsWithSources_def tuning_fields_def resolve_field_get no_tuning_def
      DEFAULT_WORKER_OPTIONS_def)

section \<open>Polling\<close>

text \<open>The two halves of a registration work on the same subscription, as the same worker.\<close>

definition same_subscription :: "router \<Rightarrow> ('p, 's) worker \<Rightarrow> bool" where
  "same_subscription r k \<longleftrightarrow>
     rt_client r = wk_client k \<and> rt_stream r = wk_stream k \<and> rt_name r = wk_name k \<and> rt_workerId r = wk_workerId k
     \<and> rt_leaseSeconds r = wk_leaseSeconds k \<and> rt_pollInterval r = wk_pollInterval k"

definition halves_agree :: "('p, 's) started \<Rightarrow> bool" where
  "halves_agree st \<longleftrightarrow> rt_name (st_routing st) = st_type st
     \<and> (case st_processing st of Inl k \<Rightarrow> same_subscription (st_routing st) k | Inr k \<Rightarrow> same_subscription (st_routing st) k)"

lemma start_all_map:
  assumes "start_all f xs w = (ys, w')" "\<And>x w y w1. x \<in> set xs \<Longrightarrow> f x w = (y, w1) \<Longrightarrow> g y = h x \<and> P y"
  shows "map g ys = map h xs \<and> (\<forall>y \<in> set ys. P y)"
  using assms by (induction xs arbitrary: w ys) (fastforce split: prod.splits)+

lemmas starting = startRoutingWorker_def startProjectionWorker_def startPmWorker_def startPmSubstrate_def
  startProcessingWorker_def routingOpts_def processingOpts_def

lemma start_projection_agrees:
  "start_projection hst app opts i vars p w = (st, w') \<Longrightarrow> st_type st = pr_type (rp_def p) \<and> halves_agree st"
  by (auto simp: start_projection_def Let_def halves_agree_def same_subscription_def starting
      DEFAULT_ROUTING_LEASE_SECONDS_def DEFAULT_PROCESSING_LEASE_SECONDS_def
      DEFAULT_ROUTING_POLL_INTERVAL_MS_def DEFAULT_PROCESSING_POLL_INTERVAL_MS_def split: option.split)

lemma start_pm_agrees:
  "start_process_manager hst app opts i pm w = (st, w') \<Longrightarrow> st_type st = pmd_type (pg_def (rm_def pm)) \<and> halves_agree st"
  by (auto simp: start_process_manager_def Let_def halves_agree_def same_subscription_def starting
      DEFAULT_ROUTING_LEASE_SECONDS_def DEFAULT_PROCESSING_LEASE_SECONDS_def
      DEFAULT_ROUTING_POLL_INTERVAL_MS_def DEFAULT_PROCESSING_POLL_INTERVAL_MS_def split: option.split)

text \<open>\<open>poll\<close> fails exactly when nothing is registered or a key of \<open>workers\<close> names nothing registered;
  otherwise it starts one pair of workers for every registration, in order, projections first, and the two of
  a pair agree on client, stream, subscription, worker id, lease and poll interval.\<close>

theorem poll_starts_pairs:
  "(case fst (poll hst app opts vars w) of
      Inl _ \<Rightarrow> known_types app = [] \<or> (\<exists>ws. pl_workers opts = Some ws \<and> \<not> fst ` set ws \<subseteq> set (known_types app))
    | Inr sts \<Rightarrow> known_types app \<noteq> [] \<and> (\<forall>ws. pl_workers opts = Some ws \<longrightarrow> fst ` set ws \<subseteq> set (known_types app))
        \<and> map st_type sts = known_types app \<and> (\<forall>st \<in> set sts. halves_agree st))"
proof (cases "in_projections app = [] \<and> in_processManagers app = []")
  case True
  then show ?thesis by (simp add: poll_def known_types_def)
next
  case False
  then have ne: "known_types app \<noteq> []" by (auto simp: known_types_def)
  let ?find = "case pl_workers opts of None \<Rightarrow> None
    | Some ws \<Rightarrow> find (\<lambda>name. name \<notin> set (known_types app)) (map fst ws)"
  show ?thesis
  proof (cases ?find)
    case (Some name)
    then obtain ws where ws: "pl_workers opts = Some ws" "find (\<lambda>name. name \<notin> set (known_types app)) (map fst ws) = Some name"
      by (auto split: option.splits)
    then have "name \<in> set (map fst ws) \<and> name \<notin> set (known_types app)"
      unfolding find_Some_iff by (metis nth_mem)
    then have "name \<in> fst ` set ws" "name \<notin> set (known_types app)" by simp_all
    with False Some ws(1) show ?thesis by (auto simp: poll_def)
  next
    case None
    obtain i w1 where i: "(case pl_workerId opts of Some i \<Rightarrow> (i, w) | None \<Rightarrow> defaultWorkerId hst w) = (i, w1)" by force
    obtain ps w2 where ps: "start_all (start_projection hst app opts i vars) (in_projections app) w1 = (ps, w2)" by force
    obtain pms w3 where pms: "start_all (start_process_manager hst app opts i) (in_processManagers app) w2 = (pms, w3)" by force
    have p: "map st_type ps = map (\<lambda>p. pr_type (rp_def p)) (in_projections app) \<and> (\<forall>st \<in> set ps. halves_agree st)"
      by (rule start_all_map [OF ps]) (rule start_projection_agrees)
    have q: "map st_type pms = map (\<lambda>pm. pmd_type (pg_def (rm_def pm))) (in_processManagers app) \<and> (\<forall>st \<in> set pms. halves_agree st)"
      by (rule start_all_map [OF pms]) (rule start_pm_agrees)
    have "fst (poll hst app opts vars w) = Inr (ps @ pms)"
      using False None i ps pms unfolding poll_def by (simp add: Let_def)
    moreover have "\<forall>ws. pl_workers opts = Some ws \<longrightarrow> fst ` set ws \<subseteq> set (known_types app)"
      using None by (fastforce simp: find_None_iff)
    ultimately show ?thesis using ne p q by (auto simp: known_types_def)
  qed
qed

definition polled_app :: "(unit, nat) instructed" where
  "polled_app = sample_app\<lparr>in_projections :=
     [\<lparr>rp_stream = all_uuid,
       rp_def = \<lparr>pr_type = ''balances'', pr_stream = None, pr_partitionBy = None, pr_routeFn = None, pr_startFrom = None,
                 pr_handler = (\<lambda>ev ctx n w. Some (Inr (), n + 1, w)), pr_errorPolicy = None\<rparr>,
       rp_opts = no_registration_options\<rparr>]\<rparr>"

definition tuned :: "string \<Rightarrow> poll_options" where
  "tuned name = \<lparr>pl_workerId = Some ''worker-a'', pl_defaults = None,
     pl_workers = Some [(name, no_tuning\<lparr>tu_leaseSeconds := Some 60\<rparr>)]\<rparr>"

theorem poll_starts_pairs_witness:
  "\<exists>sts e. fst (poll \<lparr>h_hostname = Inr ''h'', h_pid = None\<rparr> polled_app (tuned ''balances'') 0 sample_world) = Inr sts
     \<and> map st_type sts = [''balances''] \<and> (\<forall>st \<in> set sts. halves_agree st)
     \<and> fst (poll \<lparr>h_hostname = Inr ''h'', h_pid = None\<rparr> polled_app (tuned ''balance'') 0 sample_world) = Inl e"
proof -
  let ?host = "\<lparr>h_hostname = Inr ''h'', h_pid = None\<rparr>"
  let ?poll = "\<lambda>name. fst (poll \<lparr>h_hostname = Inr ''h'', h_pid = None\<rparr> polled_app (tuned name) 0 sample_world)"
  have k: "known_types polled_app = [''balances'']" by (simp add: known_types_def polled_app_def sample_app_def)
  obtain sts where s: "?poll ''balances'' = Inr sts"
    using poll_starts_pairs [where hst = ?host and app = polled_app and opts = "tuned ''balances''" and vars = 0 and w = sample_world] k
    by (cases "?poll ''balances''") (auto simp: tuned_def)
  obtain e where e: "?poll ''balance'' = Inl e"
    using poll_starts_pairs [where hst = ?host and app = polled_app and opts = "tuned ''balance''" and vars = 0 and w = sample_world] k
    by (cases "?poll ''balance''") (auto simp: tuned_def)
  show ?thesis
    using poll_starts_pairs [where hst = ?host and app = polled_app and opts = "tuned ''balances''" and vars = 0 and w = sample_world] s e k
    by simp
qed

end
