(* ===== verification/Bank.thy ===== *)
theory Bank
  imports Aggregate Sql_Queue
begin

text \<open>
  The example application examples/typescript/bank-account/src: two aggregates (aggregates/account.ts,
  aggregates/transfer.ts), the process manager that moves money between accounts
  (process-managers/transfer-pm.ts), the command router and the two projections with their SQL
  (projections/). Commands and events have the types the code declares for them; an amount is a
  JavaScript number, a column of type \<open>bigint\<close> takes only the whole ones in range. The log the
  application produces is a list of events with their streams; \<open>dispatch_app\<close> is a dispatch as the
  aggregate runner is proved to carry it out: one decision on the replay of the log it appends to.
\<close>

section \<open>Commands and events\<close>

datatype account_command =
    OpenAccount string string
  | DepositToAccount string rat "string option"
  | WithdrawFromAccount string rat "string option" "string option"

datatype transfer_command =
    RequestTransfer string string string rat
  | MarkTransferCompleted string
  | MarkTransferFailed string string

datatype account_event =
    AccountOpened string
  | AccountDepositedTo rat "string option"
  | AccountWithdrawnFrom rat "string option" "string option"
  | AccountWithdrawalRefused string rat "string option"

datatype transfer_event =
    TransferRequested string string rat string
  | TransferCompleted string
  | TransferFailed string string

datatype app_command = AccountCmd account_command | TransferCmd transfer_command

datatype app_event = AccountEv account_event | TransferEv transfer_event

section \<open>Account\<close>

record account_state =
  as_opened :: bool
  as_owner :: "string option"
  as_balance :: rat

definition Account_initialState :: account_state where
  "Account_initialState = \<lparr>as_opened = False, as_owner = None, as_balance = 0\<rparr>"

fun Account_apply :: "account_state \<Rightarrow> account_event \<Rightarrow> account_state" where
  "Account_apply st (AccountOpened owner) = st\<lparr>as_opened := True, as_owner := Some owner\<rparr>"
| "Account_apply st (AccountDepositedTo amount tid) = st\<lparr>as_balance := as_balance st + amount\<rparr>"
| "Account_apply st (AccountWithdrawnFrom amount tid to) = st\<lparr>as_balance := as_balance st - amount\<rparr>"
| "Account_apply st (AccountWithdrawalRefused reason amount tid) = st"

fun Account_execute :: "account_state \<Rightarrow> account_command \<Rightarrow> thrown + account_event list" where
  "Account_execute st (OpenAccount accountId owner) =
     (if as_opened st then Inl (js_error ''account already open'') else Inr [AccountOpened owner])"
| "Account_execute st (DepositToAccount accountId amount tid) =
     (if \<not> as_opened st then Inl (js_error ''account not open'') else Inr [AccountDepositedTo amount tid])"
| "Account_execute st (WithdrawFromAccount accountId amount tid to) =
     (if \<not> as_opened st then Inl (js_error ''account not open'')
      else if as_balance st < amount then Inr [AccountWithdrawalRefused ''insufficient funds'' amount tid]
      else Inr [AccountWithdrawnFrom amount tid to])"

section \<open>Transfer\<close>

datatype transfer_stage = StageNone | StageRequested | StageCompleted | StageFailed

definition stage_text :: "transfer_stage \<Rightarrow> string" where
  "stage_text s = (case s of StageNone \<Rightarrow> ''none'' | StageRequested \<Rightarrow> ''requested''
     | StageCompleted \<Rightarrow> ''completed'' | StageFailed \<Rightarrow> ''failed'')"

record transfer_state =
  ts_stage :: transfer_stage
  ts_from :: "string option"
  ts_to :: "string option"
  ts_amount :: "rat option"
  ts_transferId :: "string option"
  ts_reason :: "string option"

definition Transfer_initialState :: transfer_state where
  "Transfer_initialState = \<lparr>ts_stage = StageNone, ts_from = None, ts_to = None, ts_amount = None,
     ts_transferId = None, ts_reason = None\<rparr>"

fun Transfer_apply :: "transfer_state \<Rightarrow> transfer_event \<Rightarrow> transfer_state" where
  "Transfer_apply st (TransferRequested from to amount tid) =
     \<lparr>ts_stage = StageRequested, ts_from = Some from, ts_to = Some to, ts_amount = Some amount,
      ts_transferId = Some tid, ts_reason = None\<rparr>"
| "Transfer_apply st (TransferCompleted tid) = st\<lparr>ts_stage := StageCompleted\<rparr>"
| "Transfer_apply st (TransferFailed tid reason) = st\<lparr>ts_stage := StageFailed, ts_reason := Some reason\<rparr>"

definition quoted_stage :: "transfer_stage \<Rightarrow> string" where
  "quoted_stage s = [CHR 0x27] @ stage_text s @ [CHR 0x27]"

fun Transfer_execute :: "transfer_state \<Rightarrow> transfer_command \<Rightarrow> thrown + transfer_event list" where
  "Transfer_execute st (RequestTransfer tid from to amount) =
     (if ts_stage st \<noteq> StageNone then Inl (js_error (''transfer already '' @ stage_text (ts_stage st)))
      else Inr [TransferRequested from to amount tid])"
| "Transfer_execute st (MarkTransferCompleted tid) =
     (if ts_stage st = StageCompleted then Inr []
      else if ts_stage st \<noteq> StageRequested then
        Inl (js_error (''cannot complete transfer in stage '' @ quoted_stage (ts_stage st)))
      else Inr [TransferCompleted tid])"
| "Transfer_execute st (MarkTransferFailed tid reason) =
     (if ts_stage st = StageFailed then Inr []
      else if ts_stage st \<noteq> StageRequested then
        Inl (js_error (''cannot fail transfer in stage '' @ quoted_stage (ts_stage st)))
      else Inr [TransferFailed tid reason])"

section \<open>Routing of commands\<close>

fun appCommandRouter :: "app_command \<Rightarrow> string \<times> string" where
  "appCommandRouter (AccountCmd (OpenAccount accountId owner)) = (''Account'', accountId)"
| "appCommandRouter (AccountCmd (DepositToAccount accountId amount tid)) = (''Account'', accountId)"
| "appCommandRouter (AccountCmd (WithdrawFromAccount accountId amount tid to)) = (''Account'', accountId)"
| "appCommandRouter (TransferCmd (RequestTransfer tid from to amount)) = (''Transfer'', tid)"
| "appCommandRouter (TransferCmd (MarkTransferCompleted tid)) = (''Transfer'', tid)"
| "appCommandRouter (TransferCmd (MarkTransferFailed tid reason)) = (''Transfer'', tid)"

type_synonym app_log = "(string \<times> app_event) list"

fun account_part :: "app_event \<Rightarrow> account_event list" where
  "account_part (AccountEv e) = [e]"
| "account_part (TransferEv e) = []"

fun transfer_part :: "app_event \<Rightarrow> transfer_event list" where
  "transfer_part (AccountEv e) = []"
| "transfer_part (TransferEv e) = [e]"

definition account_events :: "string \<Rightarrow> app_log \<Rightarrow> account_event list" where
  "account_events u lg = concat (map (account_part \<circ> snd) (filter (\<lambda>r. fst r = u) lg))"

definition transfer_events :: "string \<Rightarrow> app_log \<Rightarrow> transfer_event list" where
  "transfer_events u lg = concat (map (transfer_part \<circ> snd) (filter (\<lambda>r. fst r = u) lg))"

definition account_of :: "account_event list \<Rightarrow> account_state" where
  "account_of es = foldl Account_apply Account_initialState es"

definition transfer_of :: "transfer_event list \<Rightarrow> transfer_state" where
  "transfer_of es = foldl Transfer_apply Transfer_initialState es"

definition target_stream :: "app_command \<Rightarrow> string" where
  "target_stream c = (case appCommandRouter c of (ty, i) \<Rightarrow> prefixType ty i)"

definition dispatch_app :: "app_command \<Rightarrow> app_log \<Rightarrow> thrown + app_log" where
  "dispatch_app c lg =
     (let u = target_stream c
      in case c of
           AccountCmd ac \<Rightarrow>
             bind_sum (Account_execute (account_of (account_events u lg)) ac)
               (\<lambda>evs. Inr (lg @ map (\<lambda>e. (u, AccountEv e)) evs))
         | TransferCmd tc \<Rightarrow>
             bind_sum (Transfer_execute (transfer_of (transfer_events u lg)) tc)
               (\<lambda>evs. Inr (lg @ map (\<lambda>e. (u, TransferEv e)) evs)))"

section \<open>The process manager\<close>

datatype pm_stage = Starting | Debited string | StageDone | StageRefused string

definition falsy :: "string option \<Rightarrow> bool" where
  "falsy v \<longleftrightarrow> v = None \<or> v = Some []"

text \<open>\<open>transferRouteFn\<close>: the partition of an event, \<open>None\<close> for \<open>'ignore'\<close>.\<close>

fun transferRouteFn :: "app_event \<Rightarrow> string option" where
  "transferRouteFn (TransferEv (TransferRequested from to amount tid)) = Some tid"
| "transferRouteFn (AccountEv (AccountWithdrawnFrom amount tid to)) = (if falsy tid then None else tid)"
| "transferRouteFn (AccountEv (AccountDepositedTo amount tid)) = (if falsy tid then None else tid)"
| "transferRouteFn (AccountEv (AccountWithdrawalRefused reason amount tid)) = (if falsy tid then None else tid)"
| "transferRouteFn _ = None"

fun transferApply :: "pm_stage \<Rightarrow> app_event \<Rightarrow> pm_stage" where
  "transferApply st (AccountEv (AccountWithdrawnFrom amount tid to)) = (if falsy tid then st else Debited (the tid))"
| "transferApply st (AccountEv (AccountDepositedTo amount tid)) = StageDone"
| "transferApply st (AccountEv (AccountWithdrawalRefused reason amount tid)) = StageRefused reason"
| "transferApply st _ = st"

text \<open>The commands and whether the instance is complete; the state is not read.\<close>

fun transferHandle :: "pm_stage \<Rightarrow> app_event \<Rightarrow> app_command list \<times> bool" where
  "transferHandle st (TransferEv (TransferRequested from to amount tid)) =
     ([AccountCmd (WithdrawFromAccount from amount (Some tid) (Some to))], False)"
| "transferHandle st (AccountEv (AccountWithdrawnFrom amount tid to)) =
     (if falsy to \<or> falsy tid then ([], False)
      else ([AccountCmd (DepositToAccount (the to) amount tid)], False))"
| "transferHandle st (AccountEv (AccountDepositedTo amount tid)) =
     (if falsy tid then ([], True) else ([TransferCmd (MarkTransferCompleted (the tid))], True))"
| "transferHandle st (AccountEv (AccountWithdrawalRefused reason amount tid)) =
     (if falsy tid then ([], True) else ([TransferCmd (MarkTransferFailed (the tid) reason)], True))"
| "transferHandle st _ = ([], False)"

text \<open>Commands in order; the first that throws ends it, what was appended before stays.\<close>

fun dispatch_list :: "app_command list \<Rightarrow> app_log \<Rightarrow> (thrown + unit) \<times> app_log" where
  "dispatch_list [] lg = (Inr (), lg)"
| "dispatch_list (c # cs) lg =
     (case dispatch_app c lg of Inl e \<Rightarrow> (Inl e, lg) | Inr lg1 \<Rightarrow> dispatch_list cs lg1)"

section \<open>The balances projection\<close>

record balance_row =
  br_stream :: string
  br_owner :: "string option"
  br_balance :: int
  br_last :: int

definition upsertOpened :: "string \<Rightarrow> string \<Rightarrow> int \<Rightarrow> balance_row list \<Rightarrow> balance_row list" where
  "upsertOpened u owner n rows =
     (if u \<in> br_stream ` set rows then
        map (\<lambda>r. if br_stream r = u \<and> br_last r < n then r\<lparr>br_owner := Some owner, br_last := n\<rparr> else r) rows
      else rows @ [\<lparr>br_stream = u, br_owner = Some owner, br_balance = 0, br_last = n\<rparr>])"

text \<open>The parameter is converted before the statement runs; the sum is checked for every row it is computed for.\<close>

definition bigint_add :: "int \<Rightarrow> int \<Rightarrow> pg_error + int" where
  "bigint_add a b =
     (if - (2 ^ 63) \<le> a + b \<and> a + b < 2 ^ 63 then Inr (a + b) else Inl (pg ''22003'' ''bigint out of range''))"

definition bumpBalance :: "string \<Rightarrow> rat \<Rightarrow> int \<Rightarrow> balance_row list \<Rightarrow> pg_error + balance_row list" where
  "bumpBalance u delta n rows =
     bind_sum (bigint_in (show_num delta)) (\<lambda>dv.
       map_sum_list (\<lambda>r. if br_stream r = u \<and> br_last r < n
                         then bind_sum (bigint_add (br_balance r) dv) (\<lambda>b. Inr (r\<lparr>br_balance := b, br_last := n\<rparr>))
                         else Inr r) rows)"

fun balances_route :: "string \<Rightarrow> app_event \<Rightarrow> string option" where
  "balances_route u (AccountEv (AccountOpened owner)) = Some u"
| "balances_route u (AccountEv (AccountDepositedTo amount tid)) = Some u"
| "balances_route u (AccountEv (AccountWithdrawnFrom amount tid to)) = Some u"
| "balances_route u _ = None"

fun balances_handler :: "string \<Rightarrow> int \<Rightarrow> app_event \<Rightarrow> balance_row list \<Rightarrow> pg_error + balance_row list" where
  "balances_handler u n (AccountEv (AccountOpened owner)) rows = Inr (upsertOpened u owner n rows)"
| "balances_handler u n (AccountEv (AccountDepositedTo amount tid)) rows = bumpBalance u amount n rows"
| "balances_handler u n (AccountEv (AccountWithdrawnFrom amount tid to)) rows = bumpBalance u (- amount) n rows"
| "balances_handler u n _ rows = Inr rows"

section \<open>The transfers projection\<close>

record transfer_row =
  tr_transferId :: string
  tr_from :: string
  tr_to :: string
  tr_amount :: int
  tr_status :: string
  tr_reason :: "string option"
  tr_requestedAt :: int
  tr_last :: int

definition upsertRequested ::
  "string \<Rightarrow> string \<Rightarrow> string \<Rightarrow> rat \<Rightarrow> int \<Rightarrow> int \<Rightarrow> transfer_row list \<Rightarrow> pg_error + transfer_row list" where
  "upsertRequested tid from to amount ts n rows =
     bind_sum (bigint_in (show_num amount)) (\<lambda>a. Inr
       (if tid \<in> tr_transferId ` set rows then
          map (\<lambda>r. if tr_transferId r = tid \<and> tr_last r < n
                   then r\<lparr>tr_from := from, tr_to := to, tr_amount := a, tr_requestedAt := ts, tr_last := n\<rparr> else r) rows
        else rows @ [\<lparr>tr_transferId = tid, tr_from = from, tr_to = to, tr_amount = a, tr_status = ''requested'',
                      tr_reason = None, tr_requestedAt = ts, tr_last = n\<rparr>]))"

definition markCompleted :: "string \<Rightarrow> int \<Rightarrow> transfer_row list \<Rightarrow> transfer_row list" where
  "markCompleted tid n rows =
     map (\<lambda>r. if tr_transferId r = tid \<and> tr_last r < n then r\<lparr>tr_status := ''completed'', tr_last := n\<rparr> else r) rows"

definition markFailed :: "string \<Rightarrow> string \<Rightarrow> int \<Rightarrow> transfer_row list \<Rightarrow> transfer_row list" where
  "markFailed tid reason n rows =
     map (\<lambda>r. if tr_transferId r = tid \<and> tr_last r < n
              then r\<lparr>tr_status := ''failed'', tr_reason := Some reason, tr_last := n\<rparr> else r) rows"

fun transfers_route :: "app_event \<Rightarrow> string option" where
  "transfers_route (TransferEv (TransferRequested from to amount tid)) = Some tid"
| "transfers_route (TransferEv (TransferCompleted tid)) = Some tid"
| "transfers_route (TransferEv (TransferFailed tid reason)) = Some tid"
| "transfers_route (AccountEv e) = None"

fun transfers_handler :: "int \<Rightarrow> int \<Rightarrow> app_event \<Rightarrow> transfer_row list \<Rightarrow> pg_error + transfer_row list" where
  "transfers_handler n ts (TransferEv (TransferRequested from to amount tid)) rows =
     upsertRequested tid from to amount ts n rows"
| "transfers_handler n ts (TransferEv (TransferCompleted tid)) rows = Inr (markCompleted tid n rows)"
| "transfers_handler n ts (TransferEv (TransferFailed tid reason)) rows = Inr (markFailed tid reason n rows)"
| "transfers_handler n ts (AccountEv e) rows = Inr rows"

section \<open>The scripts' checks\<close>

text \<open>\<open>!Number.isFinite(amount) || amount <= 0\<close> of scripts/deposit.ts and scripts/transfer.ts.\<close>

definition valid_amount :: "js_num \<Rightarrow> bool" where
  "valid_amount a \<longleftrightarrow> isFinite a \<and> \<not> num_le a 0"

text \<open>The commands of scripts/open-account.ts, deposit.ts and transfer.ts; an argument that is missing or empty ends the script.\<close>

fun user_command :: "app_command \<Rightarrow> bool" where
  "user_command (AccountCmd (OpenAccount name owner)) \<longleftrightarrow> name \<noteq> [] \<and> owner = name"
| "user_command (AccountCmd (DepositToAccount name amount tid)) \<longleftrightarrow> name \<noteq> [] \<and> valid_amount (Fin amount) \<and> tid = None"
| "user_command (TransferCmd (RequestTransfer tid from to amount)) \<longleftrightarrow>
     from \<noteq> [] \<and> to \<noteq> [] \<and> tid \<noteq> [] \<and> valid_amount (Fin amount)"
| "user_command _ \<longleftrightarrow> False"

end
