(* ===== verification/Saga.thy ===== *)
theory Saga
  imports Bank
begin

text \<open>
  The bank account example as a system: the log its dispatches build, the process manager working
  through it partition by partition, and crashes between a dispatch and its acknowledgement. The lemmas
  give the one event a dispatch can append, the reason every event has in the log before it, and the
  arithmetic of the money in the accounts and under way.
\<close>

section \<open>The system\<close>

text \<open>The log, and the positions of the events the process manager has acknowledged.\<close>

record bank =
  bk_log :: app_log
  bk_handled :: "nat list"

definition empty_bank :: bank where
  "empty_bank = \<lparr>bk_log = [], bk_handled = []\<rparr>"

text \<open>The claim of a work item: an event of a partition whose earlier events are all acknowledged.\<close>

definition due :: "bank \<Rightarrow> nat \<Rightarrow> bool" where
  "due s p \<longleftrightarrow>
     p < length (bk_log s) \<and> p \<notin> set (bk_handled s)
     \<and> (case transferRouteFn (snd (bk_log s ! p)) of
          None \<Rightarrow> False
        | Some k \<Rightarrow> \<forall>q \<in> {..<p}. transferRouteFn (snd (bk_log s ! q)) = Some k \<longrightarrow> q \<in> set (bk_handled s))"

definition handle_at :: "pm_stage \<Rightarrow> bank \<Rightarrow> nat \<Rightarrow> (thrown + unit) \<times> app_log" where
  "handle_at st s p = dispatch_list (fst (transferHandle st (snd (bk_log s ! p)))) (bk_log s)"

text \<open>
  With \<open>redelivers\<close> a worker may stop after its dispatch and before its acknowledgement: the event is
  claimed and handled again. The state the process manager has folded is arbitrary: nothing reads it.
\<close>

inductive saga :: "bool \<Rightarrow> bank \<Rightarrow> bank \<Rightarrow> bool" for redelivers :: bool where
  saga_user: "user_command c \<Longrightarrow> dispatch_app c (bk_log s) = Inr lg \<Longrightarrow> saga redelivers s (s\<lparr>bk_log := lg\<rparr>)"
| saga_handle: "due s p \<Longrightarrow> handle_at st s p = (Inr (), lg)
    \<Longrightarrow> saga redelivers s (s\<lparr>bk_log := lg, bk_handled := p # bk_handled s\<rparr>)"
| saga_lost: "redelivers \<Longrightarrow> due s p \<Longrightarrow> handle_at st s p = (r, lg) \<Longrightarrow> saga redelivers s (s\<lparr>bk_log := lg\<rparr>)"

abbreviation saga_run :: "bool \<Rightarrow> bank \<Rightarrow> bool" where
  "saga_run redelivers s \<equiv> (saga redelivers)\<^sup>*\<^sup>* empty_bank s"

text \<open>The same as a function of what happens, to run examples.\<close>

datatype bank_action = UserAct app_command | HandleAct nat | LostAct nat

fun bank_step :: "bool \<Rightarrow> bank_action \<Rightarrow> bank \<Rightarrow> bank option" where
  "bank_step redelivers (UserAct c) s =
     (if \<not> user_command c then None
      else case dispatch_app c (bk_log s) of Inl e \<Rightarrow> None | Inr lg \<Rightarrow> Some (s\<lparr>bk_log := lg\<rparr>))"
| "bank_step redelivers (HandleAct p) s =
     (if \<not> due s p then None
      else case handle_at Starting s p of
             (Inl e, lg) \<Rightarrow> None
           | (Inr _, lg) \<Rightarrow> Some (s\<lparr>bk_log := lg, bk_handled := p # bk_handled s\<rparr>))"
| "bank_step redelivers (LostAct p) s =
     (if \<not> redelivers \<or> \<not> due s p then None else Some (s\<lparr>bk_log := snd (handle_at Starting s p)\<rparr>))"

fun bank_runs :: "bool \<Rightarrow> bank_action list \<Rightarrow> bank \<Rightarrow> bank option" where
  "bank_runs redelivers [] s = Some s"
| "bank_runs redelivers (a # as) s =
     (case bank_step redelivers a s of None \<Rightarrow> None | Some s1 \<Rightarrow> bank_runs redelivers as s1)"

lemma bank_step_saga: "bank_step redelivers a s = Some s' \<Longrightarrow> saga redelivers s s'"
  by (cases a)
    (auto split: if_splits sum.splits prod.splits intro: saga_user saga_handle saga_lost [OF _ _ prod.collapse [symmetric]])

lemma bank_runs_saga: "bank_runs redelivers as s = Some s' \<Longrightarrow> (saga redelivers)\<^sup>*\<^sup>* s s'"
  by (induction as arbitrary: s)
    (auto split: option.splits dest!: bank_step_saga intro: converse_rtranclp_into_rtranclp)

section \<open>What a dispatch appends\<close>

fun emits :: "app_command \<Rightarrow> app_event \<Rightarrow> bool" where
  "emits (AccountCmd (OpenAccount i owner)) e \<longleftrightarrow> e = AccountEv (AccountOpened owner)"
| "emits (AccountCmd (DepositToAccount i a tid)) e \<longleftrightarrow> e = AccountEv (AccountDepositedTo a tid)"
| "emits (AccountCmd (WithdrawFromAccount i a tid to)) e \<longleftrightarrow>
     e = AccountEv (AccountWithdrawnFrom a tid to) \<or> e = AccountEv (AccountWithdrawalRefused ''insufficient funds'' a tid)"
| "emits (TransferCmd (RequestTransfer tid from to a)) e \<longleftrightarrow> e = TransferEv (TransferRequested from to a tid)"
| "emits (TransferCmd (MarkTransferCompleted tid)) e \<longleftrightarrow> e = TransferEv (TransferCompleted tid)"
| "emits (TransferCmd (MarkTransferFailed tid reason)) e \<longleftrightarrow> e = TransferEv (TransferFailed tid reason)"

lemma Account_execute_emits:
  "Account_execute st c = Inr evs \<Longrightarrow> \<exists>e. evs = [e] \<and> emits (AccountCmd c) (AccountEv e)"
  by (cases c) (auto split: if_splits)

lemma Transfer_execute_emits:
  "Transfer_execute st c = Inr evs \<Longrightarrow> evs = [] \<or> (\<exists>e. evs = [e] \<and> emits (TransferCmd c) (TransferEv e))"
  by (cases c) (auto split: if_splits)

lemma dispatch_app_appends:
  assumes "dispatch_app c lg = Inr lg'"
  shows "lg' = lg \<or> (\<exists>e. lg' = lg @ [(target_stream c, e)] \<and> emits c e)"
proof (cases c)
  case (AccountCmd ac)
  with assms Account_execute_emits show ?thesis by (fastforce simp: dispatch_app_def Let_def bind_sum_Inr)
next
  case (TransferCmd tc)
  with assms Transfer_execute_emits show ?thesis by (fastforce simp: dispatch_app_def Let_def bind_sum_Inr)
qed

text \<open>The process manager dispatches at most one command for an event.\<close>

lemma handle_one:
  "fst (transferHandle st e) = [] \<or> (\<exists>c. fst (transferHandle st e) = [c])"
  by (cases "(st, e)" rule: transferHandle.cases) auto

lemma handle_at_appends:
  assumes "handle_at st s p = (r, lg)"
  shows "lg = bk_log s \<or> (\<exists>c e. fst (transferHandle st (snd (bk_log s ! p))) = [c]
     \<and> lg = bk_log s @ [(target_stream c, e)] \<and> emits c e)"
  using handle_one [of st "snd (bk_log s ! p)"] assms
  by (auto simp: handle_at_def split: sum.splits dest!: dispatch_app_appends)

section \<open>Every event has its reason in the log\<close>

abbreviation account_stream :: "string \<Rightarrow> string" where
  "account_stream i \<equiv> prefixType ''Account'' i"

abbreviation transfer_stream :: "string \<Rightarrow> string" where
  "transfer_stream i \<equiv> prefixType ''Transfer'' i"

fun justified :: "app_log \<Rightarrow> string \<times> app_event \<Rightarrow> bool" where
  "justified lg (u, AccountEv (AccountOpened owner)) \<longleftrightarrow> u = account_stream owner"
| "justified lg (u, AccountEv (AccountDepositedTo a None)) \<longleftrightarrow> 0 < a"
| "justified lg (u, AccountEv (AccountDepositedTo a (Some tid))) \<longleftrightarrow>
     0 < a \<and> tid \<noteq> []
     \<and> (\<exists>to src. u = account_stream to \<and> (src, AccountEv (AccountWithdrawnFrom a (Some tid) (Some to))) \<in> set lg)"
| "justified lg (u, AccountEv (AccountWithdrawnFrom a tid to)) \<longleftrightarrow>
     0 < a \<and> \<not> falsy tid \<and> \<not> falsy to
     \<and> (\<exists>from. u = account_stream from
          \<and> (transfer_stream (the tid), TransferEv (TransferRequested from (the to) a (the tid))) \<in> set lg)"
| "justified lg (u, AccountEv (AccountWithdrawalRefused reason a tid)) \<longleftrightarrow>
     \<not> falsy tid
     \<and> (\<exists>from to. u = account_stream from
          \<and> (transfer_stream (the tid), TransferEv (TransferRequested from to a (the tid))) \<in> set lg)"
| "justified lg (u, TransferEv (TransferRequested from to a tid)) \<longleftrightarrow>
     u = transfer_stream tid \<and> from \<noteq> [] \<and> to \<noteq> [] \<and> tid \<noteq> [] \<and> 0 < a"
| "justified lg (u, TransferEv (TransferCompleted tid)) \<longleftrightarrow>
     u = transfer_stream tid \<and> (\<exists>v a. (v, AccountEv (AccountDepositedTo a (Some tid))) \<in> set lg)"
| "justified lg (u, TransferEv (TransferFailed tid reason)) \<longleftrightarrow>
     u = transfer_stream tid \<and> (\<exists>v a. (v, AccountEv (AccountWithdrawalRefused reason a (Some tid))) \<in> set lg)"

definition log_ok :: "app_log \<Rightarrow> bool" where
  "log_ok lg \<longleftrightarrow> (\<forall>p < length lg. justified (take p lg) (lg ! p))"

lemma log_ok_Nil [simp]: "log_ok []"
  by (simp add: log_ok_def)

lemma log_ok_snoc [simp]: "log_ok (lg @ [r]) \<longleftrightarrow> log_ok lg \<and> justified lg r"
  by (auto simp: log_ok_def nth_append less_Suc_eq)

lemma justified_mono: "justified lg r \<Longrightarrow> set lg \<subseteq> set lg' \<Longrightarrow> justified lg' r"
  by (induction lg r rule: justified.induct) (auto; blast)+

lemma log_ok_at: "log_ok lg \<Longrightarrow> r \<in> set lg \<Longrightarrow> justified lg r"
  by (metis in_set_conv_nth justified_mono log_ok_def set_take_subset)

lemma user_justified: "user_command c \<Longrightarrow> emits c e \<Longrightarrow> justified lg (target_stream c, e)"
  by (cases c rule: user_command.cases) (auto simp: target_stream_def valid_amount_def)

lemma handle_justified:
  assumes "log_ok lg" "(u, ev) \<in> set lg" "fst (transferHandle st ev) = [c]" "emits c e"
  shows "justified lg (target_stream c, e)"
proof -
  note J = log_ok_at [OF assms(1,2)]
  show ?thesis
    using assms(2-) J
    by (cases "(st, ev)" rule: transferHandle.cases)
      (fastforce simp: target_stream_def falsy_def split: if_splits)+
qed

end
