(* ===== verification/Saga_Laws.thy ===== *)
theory Saga_Laws
  imports Saga
begin

text \<open>
  Laws of the bank account example: the invariants of its log and of the process manager's
  acknowledgements, the shape of an account's and of a transfer's stream, and the money in the accounts
  as a sum over the log, with what one dispatch moves.
\<close>

section \<open>Invariants of the log\<close>

lemma saga_appends:
  assumes "saga b s s'"
  shows "bk_log s' = bk_log s
     \<or> (\<exists>c e. bk_log s' = bk_log s @ [(target_stream c, e)] \<and> emits c e
          \<and> (user_command c \<or> (\<exists>p st. due s p \<and> fst (transferHandle st (snd (bk_log s ! p))) = [c])))"
  using assms
proof cases
  case (saga_user c lg)
  then show ?thesis using dispatch_app_appends by fastforce
next
  case (saga_handle p st lg)
  then show ?thesis using handle_at_appends by fastforce
next
  case (saga_lost p st r lg)
  then show ?thesis using handle_at_appends by fastforce
qed

lemma saga_log_ok: "saga b s s' \<Longrightarrow> log_ok (bk_log s) \<Longrightarrow> log_ok (bk_log s')"
proof (drule saga_appends, elim disjE exE conjE)
  fix c e
  assume "log_ok (bk_log s)" "bk_log s' = bk_log s @ [(target_stream c, e)]" "emits c e" "user_command c"
  then show "log_ok (bk_log s')" by (simp add: user_justified)
next
  fix c e p st
  assume a: "log_ok (bk_log s)" "bk_log s' = bk_log s @ [(target_stream c, e)]" "emits c e" "due s p"
    "fst (transferHandle st (snd (bk_log s ! p))) = [c]"
  then have "(fst (bk_log s ! p), snd (bk_log s ! p)) \<in> set (bk_log s)" by (simp add: due_def)
  from handle_justified [OF a(1) this a(5,3)] a(1,2) show "log_ok (bk_log s')" by simp
qed simp

lemma saga_handled: "saga b s s' \<Longrightarrow> \<forall>q \<in> set (bk_handled s). q < length (bk_log s)
    \<Longrightarrow> \<forall>q \<in> set (bk_handled s'). q < length (bk_log s')"
  by (frule saga_appends) (auto elim!: saga.cases simp: due_def less_Suc_eq)

lemma saga_run_ok:
  "saga_run b s \<Longrightarrow> log_ok (bk_log s) \<and> (\<forall>q \<in> set (bk_handled s). q < length (bk_log s))"
proof (induction rule: rtranclp_induct)
  case base
  show ?case by (simp add: empty_bank_def)
next
  case (step s s')
  then show ?case using saga_log_ok saga_handled by blast
qed

section \<open>Histories of the aggregates\<close>

text \<open>The events of a stream that commands can produce, whatever the commands.\<close>

inductive account_history :: "account_event list \<Rightarrow> bool" where
  account_new: "account_history []"
| account_run: "account_history es \<Longrightarrow> Account_execute (account_of es) c = Inr evs \<Longrightarrow> account_history (es @ evs)"

inductive transfer_history :: "transfer_event list \<Rightarrow> bool" where
  transfer_new: "transfer_history []"
| transfer_run: "transfer_history es \<Longrightarrow> Transfer_execute (transfer_of es) c = Inr evs \<Longrightarrow> transfer_history (es @ evs)"

lemma account_events_append:
  "account_events u (lg @ map (\<lambda>e. (v, AccountEv e)) evs) = account_events u lg @ (if u = v then evs else [])"
  "account_events u (lg @ map (\<lambda>e. (v, TransferEv e)) tevs) = account_events u lg"
  by (induction evs) (auto simp: account_events_def comp_def filter_map concat_map_singleton)

lemma transfer_events_append:
  "transfer_events u (lg @ map (\<lambda>e. (v, TransferEv e)) tevs) = transfer_events u lg @ (if u = v then tevs else [])"
  "transfer_events u (lg @ map (\<lambda>e. (v, AccountEv e)) evs) = transfer_events u lg"
  by (induction tevs) (auto simp: transfer_events_def comp_def filter_map concat_map_singleton)

definition histories_ok :: "app_log \<Rightarrow> bool" where
  "histories_ok lg \<longleftrightarrow> (\<forall>u. account_history (account_events u lg) \<and> transfer_history (transfer_events u lg))"

lemma dispatch_histories:
  assumes "dispatch_app c lg = Inr lg'" "histories_ok lg"
  shows "histories_ok lg'"
proof (cases c)
  case (AccountCmd ac)
  with assms show ?thesis
    by (auto simp: dispatch_app_def Let_def bind_sum_Inr histories_ok_def account_events_append
        transfer_events_append intro!: account_run)
next
  case (TransferCmd tc)
  with assms show ?thesis
    by (auto simp: dispatch_app_def Let_def bind_sum_Inr histories_ok_def account_events_append
        transfer_events_append intro!: transfer_run)
qed

lemma dispatch_list_histories: "dispatch_list cs lg = (r, lg') \<Longrightarrow> histories_ok lg \<Longrightarrow> histories_ok lg'"
  by (induction cs lg rule: dispatch_list.induct) (auto split: sum.splits intro: dispatch_histories)

lemma saga_histories: "saga_run b s \<Longrightarrow> histories_ok (bk_log s)"
proof (induction rule: rtranclp_induct)
  case base
  show ?case by (simp add: empty_bank_def histories_ok_def account_events_def transfer_events_def
        account_new transfer_new)
next
  case (step s s')
  from step(2,3) show ?case
    by cases (auto simp: handle_at_def intro: dispatch_histories dispatch_list_histories)
qed

lemma account_of_snoc [simp]: "account_of (es @ [e]) = Account_apply (account_of es) e"
  by (simp add: account_of_def)

lemma transfer_of_snoc [simp]: "transfer_of (es @ [e]) = Transfer_apply (transfer_of es) e"
  by (simp add: transfer_of_def)

lemma transfer_of_Nil [simp]: "transfer_of [] = Transfer_initialState"
  by (simp add: transfer_of_def)

lemma account_of_Nil [simp]: "account_of [] = Account_initialState"
  by (simp add: account_of_def)

fun opens :: "account_event \<Rightarrow> bool" where
  "opens (AccountOpened owner) = True"
| "opens _ = False"

lemma account_history_shape:
  "account_history es \<Longrightarrow>
     (es = [] \<and> \<not> as_opened (account_of es))
     \<or> (\<exists>owner rest. es = AccountOpened owner # rest \<and> as_opened (account_of es)
          \<and> as_owner (account_of es) = Some owner \<and> list_all (\<lambda>e. \<not> opens e) rest)"
proof (induction rule: account_history.induct)
  case account_new
  show ?case by (simp add: Account_initialState_def)
next
  case (account_run es c evs)
  then show ?case by (cases c) (auto split: if_splits simp: account_of_def)
qed

lemma transfer_history_shape:
  "transfer_history es \<Longrightarrow>
     (es = [] \<and> ts_stage (transfer_of es) = StageNone)
     \<or> (\<exists>from to a tid. es = [TransferRequested from to a tid] \<and> ts_stage (transfer_of es) = StageRequested)
     \<or> (\<exists>from to a tid t. es = [TransferRequested from to a tid, TransferCompleted t]
          \<and> ts_stage (transfer_of es) = StageCompleted)
     \<or> (\<exists>from to a tid t r. es = [TransferRequested from to a tid, TransferFailed t r]
          \<and> ts_stage (transfer_of es) = StageFailed)"
proof (induction rule: transfer_history.induct)
  case transfer_new
  show ?case by (simp add: Transfer_initialState_def)
next
  case (transfer_run es c evs)
  then show ?case by (cases c) (auto split: if_splits simp: transfer_of_def)
qed

section \<open>Money\<close>

fun credit :: "app_event \<Rightarrow> rat" where
  "credit (AccountEv (AccountDepositedTo a tid)) = a"
| "credit (AccountEv (AccountWithdrawnFrom a tid to)) = - a"
| "credit _ = 0"

text \<open>What a withdrawal has taken out and its deposit has yet to put in.\<close>

fun under_way :: "app_event \<Rightarrow> rat" where
  "under_way (AccountEv (AccountWithdrawnFrom a tid to)) = (if falsy tid \<or> falsy to then 0 else a)"
| "under_way _ = 0"

text \<open>A deposit that belongs to no transfer.\<close>

fun from_outside :: "app_event \<Rightarrow> rat" where
  "from_outside (AccountEv (AccountDepositedTo a None)) = a"
| "from_outside _ = 0"

definition balance_at :: "string \<Rightarrow> app_log \<Rightarrow> rat" where
  "balance_at u lg = as_balance (account_of (account_events u lg))"

definition money :: "app_log \<Rightarrow> rat" where
  "money lg = (\<Sum>u \<in> set (map fst lg). balance_at u lg)"

definition in_flight :: "bank \<Rightarrow> rat" where
  "in_flight s = (\<Sum>p \<in> {..<length (bk_log s)} - set (bk_handled s). under_way (snd (bk_log s ! p)))"

definition deposited :: "app_log \<Rightarrow> rat" where
  "deposited lg = sum_list (map (from_outside \<circ> snd) lg)"

lemma balance_fold:
  "as_balance (foldl Account_apply st (concat (map (account_part \<circ> snd) rs)))
     = as_balance st + sum_list (map (credit \<circ> snd) rs)"
proof (induction rs arbitrary: st)
  case (Cons r rs)
  show ?case
  proof (cases "snd r")
    case (AccountEv e)
    then show ?thesis using Cons by (cases e) simp_all
  next
    case (TransferEv e)
    then show ?thesis using Cons by simp
  qed
qed simp

lemma balance_credits: "balance_at u lg = sum_list (map (credit \<circ> snd) (filter (\<lambda>r. fst r = u) lg))"
  by (simp add: balance_at_def account_of_def account_events_def balance_fold Account_initialState_def)

lemma sum_of_parts:
  assumes "finite U"
  shows "set (map g xs) \<subseteq> U \<Longrightarrow> (\<Sum>u \<in> U. sum_list (map f (filter (\<lambda>x. g x = u) xs))) = (sum_list (map f xs) :: rat)"
proof (induction xs)
  case (Cons x xs)
  have "(\<Sum>u \<in> U. sum_list (map f (filter (\<lambda>y. g y = u) (x # xs))))
      = (\<Sum>u \<in> U. (if g x = u then f x else 0) + sum_list (map f (filter (\<lambda>y. g y = u) xs)))"
    by (rule sum.cong) auto
  also have "\<dots> = f x + sum_list (map f xs)"
    using Cons assms by (simp add: sum.distrib)
  finally show ?case by simp
qed simp

lemma money_credits: "money lg = sum_list (map (credit \<circ> snd) lg)"
  by (simp only: money_def balance_credits) (rule sum_of_parts; simp)

lemma in_flight_snoc:
  assumes "\<forall>q \<in> set (bk_handled s). q < length (bk_log s)"
  shows "in_flight (s\<lparr>bk_log := bk_log s @ [r]\<rparr>) = in_flight s + under_way (snd r)"
proof -
  let ?n = "length (bk_log s)"
  have "{..<Suc ?n} - set (bk_handled s) = insert ?n ({..<?n} - set (bk_handled s))"
    using assms by auto
  then have "in_flight (s\<lparr>bk_log := bk_log s @ [r]\<rparr>) = under_way (snd r)
      + (\<Sum>p \<in> {..<?n} - set (bk_handled s). under_way (snd ((bk_log s @ [r]) ! p)))"
    by (simp add: in_flight_def)
  also have "(\<Sum>p \<in> {..<?n} - set (bk_handled s). under_way (snd ((bk_log s @ [r]) ! p))) = in_flight s"
    unfolding in_flight_def by (rule sum.cong) (auto simp: nth_append)
  finally show ?thesis by simp
qed

lemma in_flight_handled:
  assumes "p < length (bk_log s)" "p \<notin> set (bk_handled s)"
  shows "in_flight (s\<lparr>bk_handled := p # bk_handled s\<rparr>) = in_flight s - under_way (snd (bk_log s ! p))"
proof -
  have "{..<length (bk_log s)} - set (p # bk_handled s) = ({..<length (bk_log s)} - set (bk_handled s)) - {p}"
    by auto
  then show ?thesis
    using assms sum.remove [of "{..<length (bk_log s)} - set (bk_handled s)" p "\<lambda>p. under_way (snd (bk_log s ! p))"]
    by (simp add: in_flight_def)
qed

text \<open>What one dispatch moves: for a user the money deposited, for the process manager what was under way.\<close>

lemma user_moves:
  "user_command c \<Longrightarrow> emits c e \<Longrightarrow> credit e + under_way e = from_outside e"
  by (cases c rule: user_command.cases) auto

lemma handle_moves:
  assumes "justified lg (u, ev)" "fst (transferHandle st ev) = [c]" "emits c e"
  shows "credit e + under_way e = under_way ev" "from_outside e = 0"
  using assms by (cases "(st, ev)" rule: transferHandle.cases; auto simp: falsy_def split: if_splits)+

lemma handle_nothing: "justified lg (u, ev) \<Longrightarrow> fst (transferHandle st ev) = [] \<Longrightarrow> under_way ev = 0"
  by (cases "(st, ev)" rule: transferHandle.cases) (auto split: if_splits)

end
