(* ===== verification/Redelivery.thy ===== *)
theory Redelivery
  imports Prelude
begin

text \<open>
  At-least-once delivery and what makes a projection immune to it. A read model follows its events if one
  event more keeps it following and an event that was already delivered changes nothing; then every
  delivery that is in order, whatever it repeats, leaves it following. And tables whose writes are
  guarded by the number of the last event written.
\<close>

section \<open>Deliveries\<close>

text \<open>The events of a partition in order; any delivered event may come again later.\<close>

inductive delivered :: "'d list \<Rightarrow> 'd list \<Rightarrow> bool" where
  deliver_none: "delivered [] []"
| deliver_next: "delivered es ds \<Longrightarrow> delivered (es @ [d]) (ds @ [d])"
| deliver_again: "delivered es ds \<Longrightarrow> d \<in> set es \<Longrightarrow> delivered es (ds @ [d])"

fun run_deliveries :: "('d \<Rightarrow> 'r \<Rightarrow> 'e + 'r) \<Rightarrow> 'd list \<Rightarrow> 'r \<Rightarrow> 'e + 'r" where
  "run_deliveries handle [] r = Inr r"
| "run_deliveries handle (d # ds) r = bind_sum (handle d r) (run_deliveries handle ds)"

lemma run_deliveries_snoc:
  "run_deliveries handle (ds @ [d]) r = bind_sum (run_deliveries handle ds r) (handle d)"
proof (induction ds arbitrary: r)
  case Nil
  show ?case by (cases "handle d r") simp_all
next
  case (Cons c ds)
  show ?case by (cases "handle c r") (simp_all add: Cons)
qed

locale at_least_once =
  fixes handle :: "'d \<Rightarrow> 'r \<Rightarrow> 'e + 'r"
    and follows :: "'d list \<Rightarrow> 'r \<Rightarrow> bool"
    and valid :: "'d list \<Rightarrow> bool"
  assumes valid_init: "valid (es @ [d]) \<Longrightarrow> valid es"
    and first_time: "valid (es @ [d]) \<Longrightarrow> follows es r \<Longrightarrow> \<exists>r'. handle d r = Inr r' \<and> follows (es @ [d]) r'"
    and once_more: "valid es \<Longrightarrow> d \<in> set es \<Longrightarrow> follows es r \<Longrightarrow> handle d r = Inr r"
begin

lemma follows_deliveries:
  "delivered es ds \<Longrightarrow> valid es \<Longrightarrow> follows [] r \<Longrightarrow> \<exists>r'. run_deliveries handle ds r = Inr r' \<and> follows es r'"
proof (induction rule: delivered.induct)
  case (deliver_next es ds d)
  then obtain r1 where "run_deliveries handle ds r = Inr r1" "follows es r1" using valid_init by blast
  with first_time [OF deliver_next.prems(1)] show ?case by (simp add: run_deliveries_snoc)
next
  case (deliver_again es ds d)
  then obtain r1 where "run_deliveries handle ds r = Inr r1" "follows es r1" by blast
  with deliver_again once_more show ?case by (simp add: run_deliveries_snoc)
qed simp

end

section \<open>Guarded writes\<close>

text \<open>\<open>update ... where key = k and n > last_event_number\<close>\<close>

definition guarded ::
  "('r \<Rightarrow> string) \<Rightarrow> ('r \<Rightarrow> int) \<Rightarrow> string \<Rightarrow> int \<Rightarrow> ('r \<Rightarrow> 'r) \<Rightarrow> 'r list \<Rightarrow> 'r list" where
  "guarded key last_no k n f rows = map (\<lambda>r. if key r = k \<and> last_no r < n then f r else r) rows"

definition rows_at :: "('r \<Rightarrow> string) \<Rightarrow> string \<Rightarrow> 'r list \<Rightarrow> 'r list" where
  "rows_at key k rows = filter (\<lambda>r. key r = k) rows"

definition other_rows :: "('r \<Rightarrow> string) \<Rightarrow> string \<Rightarrow> 'r list \<Rightarrow> 'r list" where
  "other_rows key k rows = filter (\<lambda>r. key r \<noteq> k) rows"

lemma guarded_rows:
  assumes "\<And>r. key (f r) = key r"
  shows "rows_at key k (guarded key last_no k n f rows) = guarded key last_no k n f (rows_at key k rows)"
    and "other_rows key k (guarded key last_no k n f rows) = other_rows key k rows"
  using assms by (induction rows) (auto simp: rows_at_def other_rows_def guarded_def)

lemma rows_at_set: "rows_at key k rows = [r] \<Longrightarrow> {x \<in> set rows. key x = k} = {r}"
  unfolding rows_at_def by (drule arg_cong [of _ _ set]) simp

lemma rows_at_only: "rows_at key k rows = [r] \<Longrightarrow> x \<in> set rows \<Longrightarrow> key x = k \<Longrightarrow> x = r"
  using rows_at_set by fastforce

lemma rows_at_in: "rows_at key k rows = [r] \<Longrightarrow> r \<in> set rows \<and> key r = k"
  using rows_at_set by fastforce

lemma guarded_again: "rows_at key k rows = [r] \<Longrightarrow> n \<le> last_no r \<Longrightarrow> guarded key last_no k n f rows = rows"
  unfolding guarded_def by (rule map_idI) (auto dest: rows_at_only)

lemma guarded_single: "guarded key last_no k n f [r] = [if key r = k \<and> last_no r < n then f r else r]"
  by (simp add: guarded_def)

lemma guarded_one: "rows_at key k rows = [r] \<Longrightarrow> last_no r < n \<Longrightarrow> guarded key last_no k n f (rows_at key k rows) = [f r]"
  using rows_at_in [of key k rows r] by (simp add: guarded_def)

lemma no_rows: "rows_at key k rows = [] \<longleftrightarrow> k \<notin> key ` set rows"
  by (auto simp: rows_at_def filter_empty_conv)

lemma one_row: "rows_at key k rows = [r] \<Longrightarrow> k \<in> key ` set rows"
  using rows_at_in by fastforce

lemma appended_row:
  "rows_at key (key r) rows = [] \<Longrightarrow> rows_at key (key r) (rows @ [r]) = [r]"
  "other_rows key (key r) (rows @ [r]) = other_rows key (key r) rows"
  by (simp_all add: rows_at_def other_rows_def)

end
