(* ===== verification/Balances.thy ===== *)
theory Balances
  imports Saga_Laws Redelivery
begin

text \<open>
  The two projections of the bank account example under at-least-once delivery: what an event does to the
  row of its key when it comes for the first time and when it comes again, as interpretations of
  \<open>at_least_once\<close>; and the amounts the columns do not take.
\<close>

section \<open>Amounts in a bigint column\<close>

definition fits :: "rat \<Rightarrow> bool" where
  "fits a \<longleftrightarrow> is_int a \<and> - (2 ^ 63) \<le> a \<and> a < 2 ^ 63"

lemma fits_of_int: "fits (of_int i) \<longleftrightarrow> - (2 ^ 63) \<le> i \<and> i < 2 ^ 63"
proof -
  have "- (2 ^ 63) \<le> (of_int i :: rat) \<longleftrightarrow> of_int (- (2 ^ 63)) \<le> (of_int i :: rat)" by simp
  also have "\<dots> \<longleftrightarrow> - (2 ^ 63) \<le> i" by (rule of_int_le_iff)
  finally show ?thesis by (simp add: fits_def)
qed

lemma fits_int: "fits a \<Longrightarrow> of_int \<lfloor>a\<rfloor> = a"
  by (auto simp: fits_def is_int_def)

lemma fits_text: "fits a \<Longrightarrow> bigint_in (show_num a) = Inr \<lfloor>a\<rfloor>"
proof -
  assume f: "fits a"
  then have "fits (of_int \<lfloor>a\<rfloor>)" by (simp add: fits_int)
  then have "bigint_in (show_int \<lfloor>a\<rfloor>) = Inr \<lfloor>a\<rfloor>" by (simp only: fits_of_int bigint_in_show simp_thms)
  then show ?thesis using show_num_int [of "\<lfloor>a\<rfloor>"] fits_int [OF f] by simp
qed

section \<open>Balances\<close>

fun amount_fits :: "account_event \<Rightarrow> bool" where
  "amount_fits (AccountDepositedTo a tid) \<longleftrightarrow> fits a"
| "amount_fits (AccountWithdrawnFrom a tid to) \<longleftrightarrow> fits (- a)"
| "amount_fits _ \<longleftrightarrow> True"

fun writes :: "account_event \<Rightarrow> bool" where
  "writes (AccountWithdrawalRefused reason a tid) = False"
| "writes _ = True"

text \<open>A delivered event comes with its number in the log.\<close>

definition deliver_balance :: "string \<Rightarrow> int \<times> account_event \<Rightarrow> balance_row list \<Rightarrow> pg_error + balance_row list" where
  "deliver_balance u d rows = balances_handler u (fst d) (AccountEv (snd d)) rows"

definition balance_events :: "(int \<times> account_event) list \<Rightarrow> bool" where
  "balance_events es \<longleftrightarrow>
     account_history (map snd es) \<and> sorted_wrt (<) (map fst es) \<and> (\<forall>d \<in> set es. amount_fits (snd d))
     \<and> (\<forall>k \<le> length es. fits (as_balance (account_of (map snd (take k es)))))"

definition balance_row_for :: "(int \<times> account_event) list \<Rightarrow> balance_row list \<Rightarrow> bool" where
  "balance_row_for es rows \<longleftrightarrow>
     (let st = account_of (map snd es)
      in if es = [] then rows = []
         else \<exists>r. rows = [r] \<and> br_owner r = as_owner st \<and> of_int (br_balance r) = as_balance st
                \<and> (\<forall>d \<in> set es. writes (snd d) \<longrightarrow> fst d \<le> br_last r) \<and> br_last r \<in> fst ` set es)"

definition balance_follows :: "string \<Rightarrow> balance_row list \<Rightarrow> (int \<times> account_event) list \<Rightarrow> balance_row list \<Rightarrow> bool" where
  "balance_follows u rest es rows \<longleftrightarrow>
     balance_row_for es (rows_at br_stream u rows) \<and> other_rows br_stream u rows = rest"

abbreviation add_balance :: "int \<Rightarrow> int \<Rightarrow> balance_row \<Rightarrow> balance_row" where
  "add_balance dv n r \<equiv> r\<lparr>br_balance := br_balance r + dv, br_last := n\<rparr>"

lemma bumpBalance_ok:
  assumes "fits a" "\<forall>r \<in> set (rows_at br_stream u rows). br_last r < n \<longrightarrow> fits (of_int (br_balance r) + a)"
  shows "bumpBalance u a n rows = Inr (guarded br_stream br_last u n (add_balance \<lfloor>a\<rfloor> n) rows)"
proof -
  have "- (2 ^ 63) \<le> br_balance r + \<lfloor>a\<rfloor> \<and> br_balance r + \<lfloor>a\<rfloor> < 2 ^ 63"
    if "r \<in> set rows" "br_stream r = u" "br_last r < n" for r
  proof -
    have "fits (of_int (br_balance r) + a)" using assms(2) that by (simp add: rows_at_def)
    then have "fits (of_int (br_balance r + \<lfloor>a\<rfloor>))" by (simp add: fits_int [OF assms(1)])
    then show ?thesis by (simp only: fits_of_int)
  qed
  then have "map_sum_list (\<lambda>r. if br_stream r = u \<and> br_last r < n
      then bind_sum (bigint_add (br_balance r) \<lfloor>a\<rfloor>) (\<lambda>b. Inr (r\<lparr>br_balance := b, br_last := n\<rparr>)) else Inr r) rows
    = Inr (guarded br_stream br_last u n (add_balance \<lfloor>a\<rfloor> n) rows)"
    unfolding guarded_def by (intro map_sum_list_total) (auto simp: bigint_add_def)
  then show ?thesis by (simp add: bumpBalance_def fits_text [OF assms(1)])
qed

lemma bump_again:
  assumes "rows_at br_stream u rows = [r]" "n \<le> br_last r" "fits a"
  shows "bumpBalance u a n rows = Inr rows"
  using bumpBalance_ok [OF assms(3)] guarded_again [of br_stream u rows r n br_last, OF assms(1,2)] assms(1,2) by simp

lemma upsertOpened_new:
  "rows_at br_stream u rows = [] \<Longrightarrow>
     upsertOpened u owner n rows = rows @ [\<lparr>br_stream = u, br_owner = Some owner, br_balance = 0, br_last = n\<rparr>]"
  by (simp add: upsertOpened_def no_rows)

lemma upsertOpened_again:
  "rows_at br_stream u rows = [r] \<Longrightarrow> n \<le> br_last r \<Longrightarrow> upsertOpened u owner n rows = rows"
  using one_row [of br_stream u rows r] guarded_again [of br_stream u rows r n br_last]
  by (simp add: upsertOpened_def guarded_def)

lemma history_init: "account_history (es @ [e]) \<Longrightarrow> account_history es"
  by (cases rule: account_history.cases) (auto dest!: Account_execute_emits)

lemma history_opens: "account_history (es @ [e]) \<Longrightarrow> opens e \<longleftrightarrow> es = []"
  using account_history_shape [of "es @ [e]"] by (cases es) auto

lemma balance_events_init: "balance_events (es @ [d]) \<Longrightarrow> balance_events es"
proof -
  assume b: "balance_events (es @ [d])"
  have "fits (as_balance (account_of (map snd (take k es))))" if "k \<le> length es" for k
  proof -
    from b have "\<forall>k \<le> length (es @ [d]). fits (as_balance (account_of (map snd (take k (es @ [d])))))"
      unfolding balance_events_def by (elim conjE)
    from this [rule_format, of k] that show ?thesis by simp
  qed
  with b history_init show ?thesis by (auto simp: balance_events_def sorted_wrt_append)
qed

lemma balance_first_time:
  assumes v: "balance_events (es @ [d])" and f: "balance_follows u rest es rows"
  shows "\<exists>rows'. deliver_balance u d rows = Inr rows' \<and> balance_follows u rest (es @ [d]) rows'"
proof (cases "es = []")
  case True
  with v history_opens [of "[]" "snd d"] obtain owner where o: "snd d = AccountOpened owner"
    by (cases "snd d") (auto simp: balance_events_def)
  have n: "rows_at br_stream u rows = []" using f True by (simp add: balance_follows_def balance_row_for_def)
  let ?r = "\<lparr>br_stream = u, br_owner = Some owner, br_balance = 0, br_last = fst d\<rparr>"
  from appended_row [of br_stream ?r rows] n f o True show ?thesis
    by (simp add: deliver_balance_def upsertOpened_new balance_follows_def balance_row_for_def account_of_def
        Account_initialState_def)
next
  case False
  let ?st = "account_of (map snd es)" and ?st' = "account_of (map snd (es @ [d]))"
  have no: "\<not> opens (snd d)" using False v history_opens [of "map snd es" "snd d"] by (simp add: balance_events_def)
  have later: "\<forall>c \<in> set es. fst c < fst d" using v by (auto simp: balance_events_def sorted_wrt_append)
  from v have "fits (as_balance (account_of (map snd (take (length (es @ [d])) (es @ [d])))))"
    unfolding balance_events_def by blast
  then have new: "fits (as_balance ?st')" by simp
  obtain r where r: "rows_at br_stream u rows = [r]" "br_owner r = as_owner ?st"
    "of_int (br_balance r) = as_balance ?st" "br_last r \<in> fst ` set es"
    "\<forall>c \<in> set es. writes (snd c) \<longrightarrow> fst c \<le> br_last r"
    using f False by (auto simp: balance_follows_def balance_row_for_def Let_def)
  have l: "br_last r < fst d" using r(4) later by auto
  have bump: ?thesis
    if a: "fits a" "as_balance ?st' = as_balance ?st + a" "as_owner ?st' = as_owner ?st"
      "deliver_balance u d rows = bumpBalance u a (fst d) rows" for a
  proof -
    let ?g = "guarded br_stream br_last u (fst d) (add_balance \<lfloor>a\<rfloor> (fst d))"
    have "bumpBalance u a (fst d) rows = Inr (?g rows)"
      using bumpBalance_ok [OF a(1), of u rows "fst d"] r(1,3) a(2) new by simp
    moreover have "rows_at br_stream u (?g rows) = [add_balance \<lfloor>a\<rfloor> (fst d) r]"
      by (simp add: guarded_rows(1) guarded_one [of br_stream u rows r br_last, OF r(1) l])
    moreover have "other_rows br_stream u (?g rows) = rest"
      using f by (simp add: guarded_rows(2) balance_follows_def)
    moreover have "\<forall>c \<in> set es. fst c \<le> fst d" using later by auto
    ultimately show ?thesis using a r(2,3) fits_int [OF a(1)] by (simp add: balance_follows_def balance_row_for_def)
  qed
  have fit: "amount_fits (snd d)" using v by (simp add: balance_events_def)
  show ?thesis
  proof (cases "snd d")
    case (AccountDepositedTo a tid)
    then show ?thesis using fit by (intro bump [of a]) (auto simp: deliver_balance_def)
  next
    case (AccountWithdrawnFrom a tid to)
    then show ?thesis using fit by (intro bump [of "- a"]) (auto simp: deliver_balance_def)
  next
    case (AccountWithdrawalRefused reason a tid)
    then show ?thesis using r f False by (simp add: deliver_balance_def balance_follows_def balance_row_for_def)
  qed (use no in simp)
qed

lemma balance_once_more:
  assumes "balance_events es" "d \<in> set es" "balance_follows u rest es rows"
  shows "deliver_balance u d rows = Inr rows"
proof -
  obtain r where r: "rows_at br_stream u rows = [r]" "\<forall>c \<in> set es. writes (snd c) \<longrightarrow> fst c \<le> br_last r"
    using assms(2,3) by (auto simp: balance_follows_def balance_row_for_def Let_def split: if_splits)
  then have "writes (snd d) \<Longrightarrow> fst d \<le> br_last r" using assms(2) by blast
  moreover have "amount_fits (snd d)" using assms(1,2) by (simp add: balance_events_def)
  ultimately show ?thesis
    using r(1) by (cases "snd d") (simp_all add: deliver_balance_def upsertOpened_again bump_again)
qed

interpretation balances: at_least_once "deliver_balance u" "balance_follows u rest" balance_events for u rest
  by unfold_locales (auto intro: balance_events_init balance_first_time balance_once_more)

section \<open>Transfers\<close>

fun transfer_id :: "transfer_event \<Rightarrow> string" where
  "transfer_id (TransferRequested from to a tid) = tid"
| "transfer_id (TransferCompleted tid) = tid"
| "transfer_id (TransferFailed tid reason) = tid"

fun request_fits :: "transfer_event \<Rightarrow> bool" where
  "request_fits (TransferRequested from to a tid) \<longleftrightarrow> fits a"
| "request_fits _ \<longleftrightarrow> True"

text \<open>A delivered event comes with its number and its time.\<close>

definition deliver_transfer ::
  "int \<times> int \<times> transfer_event \<Rightarrow> transfer_row list \<Rightarrow> pg_error + transfer_row list" where
  "deliver_transfer d rows = transfers_handler (fst d) (fst (snd d)) (TransferEv (snd (snd d))) rows"

abbreviation event_part :: "int \<times> int \<times> transfer_event \<Rightarrow> transfer_event" where
  "event_part d \<equiv> snd (snd d)"

definition transfer_deliveries :: "string \<Rightarrow> (int \<times> int \<times> transfer_event) list \<Rightarrow> bool" where
  "transfer_deliveries tid es \<longleftrightarrow>
     transfer_history (map event_part es) \<and> sorted_wrt (<) (map fst es)
     \<and> (\<forall>d \<in> set es. transfer_id (event_part d) = tid \<and> request_fits (event_part d))"

definition transfer_row_for :: "(int \<times> int \<times> transfer_event) list \<Rightarrow> transfer_row list \<Rightarrow> bool" where
  "transfer_row_for es rows \<longleftrightarrow>
     (let st = transfer_of (map event_part es)
      in if es = [] then rows = []
         else \<exists>r. rows = [r] \<and> ts_from st = Some (tr_from r) \<and> ts_to st = Some (tr_to r)
                \<and> ts_amount st = Some (of_int (tr_amount r)) \<and> tr_status r = stage_text (ts_stage st)
                \<and> tr_reason r = ts_reason st \<and> (\<forall>d \<in> set es. fst d \<le> tr_last r) \<and> tr_last r \<in> fst ` set es)"

definition transfer_follows ::
  "string \<Rightarrow> transfer_row list \<Rightarrow> (int \<times> int \<times> transfer_event) list \<Rightarrow> transfer_row list \<Rightarrow> bool" where
  "transfer_follows tid rest es rows \<longleftrightarrow>
     transfer_row_for es (rows_at tr_transferId tid rows) \<and> other_rows tr_transferId tid rows = rest"

lemma transfer_history_init: "transfer_history (es @ [e]) \<Longrightarrow> transfer_history es"
proof (induction "es @ [e]" rule: transfer_history.induct)
  case (transfer_run es1 c evs)
  then show ?case using Transfer_execute_emits [of "transfer_of es1" c evs] by auto
qed simp

fun requests :: "transfer_event \<Rightarrow> bool" where
  "requests (TransferRequested from to a tid) = True"
| "requests _ = False"

lemma history_requests: "transfer_history (es @ [e]) \<Longrightarrow> requests e \<longleftrightarrow> es = []"
  using transfer_history_shape [of "es @ [e]"] by (cases es) (auto simp: Cons_eq_append_conv append_eq_Cons_conv)

lemma transfer_deliveries_init: "transfer_deliveries tid (es @ [d]) \<Longrightarrow> transfer_deliveries tid es"
  by (auto simp: transfer_deliveries_def sorted_wrt_append intro: transfer_history_init)

lemma mark_guarded:
  "markCompleted tid n rows = guarded tr_transferId tr_last tid n (\<lambda>r. r\<lparr>tr_status := ''completed'', tr_last := n\<rparr>) rows"
  "markFailed tid reason n rows = guarded tr_transferId tr_last tid n
     (\<lambda>r. r\<lparr>tr_status := ''failed'', tr_reason := Some reason, tr_last := n\<rparr>) rows"
  by (simp_all add: markCompleted_def markFailed_def guarded_def)

lemma upsertRequested_new:
  "fits a \<Longrightarrow> rows_at tr_transferId tid rows = [] \<Longrightarrow> upsertRequested tid from to a ts n rows
     = Inr (rows @ [\<lparr>tr_transferId = tid, tr_from = from, tr_to = to, tr_amount = \<lfloor>a\<rfloor>, tr_status = ''requested'',
                     tr_reason = None, tr_requestedAt = ts, tr_last = n\<rparr>])"
  by (simp add: upsertRequested_def fits_text no_rows)

lemma upsertRequested_again:
  "fits a \<Longrightarrow> rows_at tr_transferId tid rows = [r] \<Longrightarrow> n \<le> tr_last r
     \<Longrightarrow> upsertRequested tid from to a ts n rows = Inr rows"
  using one_row [of tr_transferId tid rows r] guarded_again [of tr_transferId tid rows r n tr_last]
  by (simp add: upsertRequested_def fits_text guarded_def)

lemma transfer_first_time:
  assumes v: "transfer_deliveries tid (es @ [d])" and f: "transfer_follows tid rest es rows"
  shows "\<exists>rows'. deliver_transfer d rows = Inr rows' \<and> transfer_follows tid rest (es @ [d]) rows'"
proof (cases "es = []")
  case True
  obtain "from" to a where o: "event_part d = TransferRequested from to a tid" "fits a"
    using v True history_requests [of "[]" "event_part d"] by (cases "event_part d") (auto simp: transfer_deliveries_def)
  have n: "rows_at tr_transferId tid rows = []" using f True by (simp add: transfer_follows_def transfer_row_for_def)
  let ?r = "\<lparr>tr_transferId = tid, tr_from = from, tr_to = to, tr_amount = \<lfloor>a\<rfloor>, tr_status = ''requested'',
      tr_reason = None, tr_requestedAt = fst (snd d), tr_last = fst d\<rparr>"
  from appended_row [of tr_transferId ?r rows] n f o True show ?thesis
    by (simp add: deliver_transfer_def upsertRequested_new transfer_follows_def transfer_row_for_def transfer_of_def
        fits_int stage_text_def)
next
  case False
  have no: "\<not> requests (event_part d)" "transfer_id (event_part d) = tid"
    using False v history_requests [of "map event_part es" "event_part d"] by (auto simp: transfer_deliveries_def)
  have later: "\<forall>c \<in> set es. fst c < fst d" using v by (auto simp: transfer_deliveries_def sorted_wrt_append)
  let ?st = "transfer_of (map event_part es)"
  obtain r where r: "rows_at tr_transferId tid rows = [r]" "ts_from ?st = Some (tr_from r)" "ts_to ?st = Some (tr_to r)"
    "ts_amount ?st = Some (of_int (tr_amount r))" "tr_reason r = ts_reason ?st" "tr_last r \<in> fst ` set es"
    using f False by (auto simp: transfer_follows_def transfer_row_for_def Let_def)
  have l: "tr_last r < fst d" using r(6) later by auto
  have le: "\<forall>c \<in> set es. fst c \<le> fst d" using later by auto
  note G = guarded_rows [where key = tr_transferId] guarded_single conjunct2 [OF rows_at_in [OF r(1)]] l
  show ?thesis
    using no f r le False
    by (cases "event_part d") (simp_all add: deliver_transfer_def mark_guarded G transfer_follows_def transfer_row_for_def
        stage_text_def)
qed

lemma transfer_once_more:
  assumes "transfer_deliveries tid es" "d \<in> set es" "transfer_follows tid rest es rows"
  shows "deliver_transfer d rows = Inr rows"
proof -
  obtain r where r: "rows_at tr_transferId tid rows = [r]" "fst d \<le> tr_last r"
    using assms(2,3) by (auto simp: transfer_follows_def transfer_row_for_def Let_def split: if_splits)
  have "transfer_id (event_part d) = tid" "request_fits (event_part d)"
    using assms(1,2) by (auto simp: transfer_deliveries_def)
  with r guarded_again [of tr_transferId tid rows r "fst d" tr_last] show ?thesis
    by (cases "event_part d") (simp_all add: deliver_transfer_def mark_guarded upsertRequested_again)
qed

interpretation transfers: at_least_once deliver_transfer "transfer_follows tid rest" "transfer_deliveries tid" for tid rest
  by unfold_locales (auto intro: transfer_deliveries_init transfer_first_time transfer_once_more)

section \<open>Amounts the columns do not take\<close>

lemma digits_stop: "\<exists>c \<in> set s. \<not> is_digit c \<Longrightarrow> digits_value acc s = None"
  by (induction acc s rule: digits_value.induct) (auto simp: is_digit_def split: option.splits)

lemma dropWhile_keeps: "x \<in> set xs \<Longrightarrow> \<not> P x \<Longrightarrow> x \<in> set (dropWhile P xs)"
  by (induction xs) auto

lemma slash_no_bigint:
  assumes "CHR ''/'' \<in> set s"
  shows "\<exists>e. bigint_in s = Inl e \<and> pg_code e = Some ''22P02''"
proof -
  have n: "\<not> is_space (CHR ''/'')" by (simp add: is_space_def)
  have "CHR ''/'' \<in> set (rev (dropWhile is_space s))" using dropWhile_keeps [of _ s is_space, OF assms n] by simp
  from dropWhile_keeps [of _ _ is_space, OF this n] have t: "CHR ''/'' \<in> set (trim s)" by (simp add: trim_def)
  then obtain c cs where c: "trim s = c # cs" by (cases "trim s") auto
  have d: "\<not> is_digit (CHR ''/'')" by (simp add: is_digit_def char_digit_def)
  have "digits_value 0 (trim s) = None" using t d by (intro digits_stop) blast
  moreover have "c = CHR ''-'' \<or> c = CHR ''+'' \<Longrightarrow> digits_value 0 cs = None"
    using t d c by (intro digits_stop) auto
  ultimately have "(if trim s \<noteq> [] \<and> hd (trim s) = CHR ''+'' then
                 (case tl (trim s) of [] \<Rightarrow> None | c # cs \<Rightarrow> map_option int (digits_value 0 (c # cs)))
               else read_int (trim s)) = None"
    unfolding c by (cases "c = CHR ''+''"; cases "c = CHR ''-''"; cases cs) simp_all
  then show ?thesis unfolding bigint_in_def Let_def by simp
qed

lemma fraction_text:
  assumes "\<not> is_int a"
  shows "CHR ''/'' \<in> set (show_num a)"
proof -
  obtain p q where q: "quotient_of a = (p, q)" by force
  from quotient_of_div [OF q] assms have "q \<noteq> 1" by auto
  with q show ?thesis by (simp add: show_num_def)
qed

end
