(* ===== verification/Bank_Properties.thy ===== *)
theory Bank_Properties
  imports Balances
begin

text \<open>
  Properties of the bank account example: the money in the system and where it is, what a completed
  transfer has done, the balances read model under redelivery, and what a lost acknowledgement does.
\<close>

section \<open>Money\<close>

lemma saga_conserves:
  assumes "saga False s s'" and ok: "log_ok (bk_log s)" "\<forall>q \<in> set (bk_handled s). q < length (bk_log s)"
    and "money (bk_log s) + in_flight s = deposited (bk_log s)"
  shows "money (bk_log s') + in_flight s' = deposited (bk_log s')"
  using assms(1)
proof cases
  case (saga_user c lg)
  from dispatch_app_appends [OF saga_user(3)] show ?thesis
  proof (elim disjE exE conjE)
    fix e assume "lg = bk_log s @ [(target_stream c, e)]" "emits c e"
    with saga_user user_moves [of c e] assms(4) show ?thesis
      by (simp add: in_flight_snoc [OF ok(2)] money_credits deposited_def)
  qed (use saga_user assms(4) in simp)
next
  case (saga_handle p st lg)
  let ?ev = "snd (bk_log s ! p)" and ?s = "s\<lparr>bk_handled := p # bk_handled s\<rparr>"
  have p: "p < length (bk_log s)" "p \<notin> set (bk_handled s)" using saga_handle by (auto simp: due_def)
  then have j: "justified (bk_log s) (fst (bk_log s ! p), ?ev)" using log_ok_at [OF ok(1)] by simp
  have q: "\<forall>q \<in> set (bk_handled ?s). q < length (bk_log ?s)" using ok(2) p by simp
  note F = in_flight_handled [OF p]
  from handle_one [of st ?ev] show ?thesis
  proof (elim disjE exE)
    assume n: "fst (transferHandle st ?ev) = []"
    then have "s' = ?s" using saga_handle by (simp add: handle_at_def)
    then show ?thesis using F handle_nothing [OF j n] assms(4) by simp
  next
    fix c assume c: "fst (transferHandle st ?ev) = [c]"
    then have d: "dispatch_app c (bk_log s) = Inr lg" using saga_handle by (simp add: handle_at_def split: sum.splits)
    have s': "s' = ?s\<lparr>bk_log := lg\<rparr>" using saga_handle by simp
    from dispatch_app_appends [OF d] show ?thesis
    proof (elim disjE exE conjE)
      fix e assume e: "lg = bk_log s @ [(target_stream c, e)]" "emits c e"
      with in_flight_snoc [OF q, of "(target_stream c, e)"] s' F handle_moves [OF j c e(2)] assms(4) show ?thesis
        by (simp add: money_credits deposited_def)
    next
      assume "lg = bk_log s"
      moreover have "under_way ?ev = 0" using d c j \<open>lg = bk_log s\<close>
        by (cases "(st, ?ev)" rule: transferHandle.cases)
          (auto simp: dispatch_app_def Let_def bind_sum_Inr split: if_splits)
      ultimately show ?thesis using s' F assms(4) by simp
    qed
  qed
next
  case (saga_lost p st r lg)
  then show ?thesis by simp
qed


text \<open>Two accounts, ten deposited, five requested from the first to the second.\<close>

definition before_transfer :: "bank_action list" where
  "before_transfer =
     [UserAct (AccountCmd (OpenAccount ''a'' ''a'')), UserAct (AccountCmd (OpenAccount ''b'' ''b'')),
      UserAct (AccountCmd (DepositToAccount ''a'' 10 None)), UserAct (TransferCmd (RequestTransfer ''t'' ''a'' ''b'' 5))]"

definition bank_reaches :: "bool \<Rightarrow> bank_action list \<Rightarrow> (bank \<Rightarrow> bool) \<Rightarrow> bool" where
  "bank_reaches b as P = (case bank_runs b as empty_bank of None \<Rightarrow> False | Some s \<Rightarrow> P s)"

lemma bank_reachesE: "bank_reaches b as P \<Longrightarrow> \<exists>s. saga_run b s \<and> P s"
  by (auto simp: bank_reaches_def dest!: bank_runs_saga split: option.splits)

definition five_under_way :: "bank \<Rightarrow> bool" where
  "five_under_way s \<longleftrightarrow> in_flight s = 5 \<and> balance_at (account_stream ''b'') (bk_log s) = 0"


text \<open>C31. A lost acknowledgement creates money. The aggregates do not recognise a command they have already
  carried out, so when a worker stops between its dispatch and its acknowledgement the event is handled again
  and a second deposit is made: the accounts then hold more than was ever deposited.\<close>

definition more_than_deposited :: "bank \<Rightarrow> bool" where
  "more_than_deposited s \<longleftrightarrow> money (bk_log s) = 15 \<and> deposited (bk_log s) = 10 \<and> in_flight s = 0"

lemma lost_run: "bank_reaches True (before_transfer @ [HandleAct 3, LostAct 4, HandleAct 4]) more_than_deposited"
  by code_simp


section \<open>Accounts and transfers\<close>

lemma balance_nonneg:
  "account_history es \<Longrightarrow> \<forall>a tid. AccountDepositedTo a tid \<in> set es \<longrightarrow> 0 \<le> a \<Longrightarrow> 0 \<le> as_balance (account_of es)"
proof (induction rule: account_history.induct)
  case account_new
  show ?case by (simp add: Account_initialState_def)
next
  case (account_run es c evs)
  then have b: "0 \<le> as_balance (account_of es)" by auto
  with account_run.hyps(2) account_run.prems show ?case
    by (cases c) (auto split: if_splits)
qed

lemma account_event_in: "e \<in> set (account_events u lg) \<Longrightarrow> (u, AccountEv e) \<in> set lg"
proof -
  assume "e \<in> set (account_events u lg)"
  then obtain r where r: "r \<in> set lg" "fst r = u" "e \<in> set (account_part (snd r))" by (auto simp: account_events_def)
  then have "snd r = AccountEv e" by (cases "snd r") auto
  with r(1,2) show ?thesis by (metis prod.collapse)
qed

lemma transfer_event_at: "(u, TransferEv e) \<in> set lg \<Longrightarrow> e \<in> set (transfer_events u lg)"
  by (force simp: transfer_events_def)

text \<open>C15. No account is ever overdrawn: a balance below zero is not reachable, not even when acknowledgements
  are lost and commands are carried out twice.\<close>

theorem never_overdrawn:
  assumes "saga_run b s"
  shows "0 \<le> balance_at u (bk_log s)"
  unfolding balance_at_def
proof (rule balance_nonneg)
  show "account_history (account_events u (bk_log s))"
    using saga_histories [OF assms] by (simp add: histories_ok_def)
  have "0 \<le> a" if "(u, AccountEv (AccountDepositedTo a tid)) \<in> set (bk_log s)" for a tid
    using log_ok_at [OF _ that] saga_run_ok [OF assms] by (cases tid) auto
  then show "\<forall>a tid. AccountDepositedTo a tid \<in> set (account_events u (bk_log s)) \<longrightarrow> 0 \<le> a"
    using account_event_in by blast
qed

definition refused_transfer :: "bank \<Rightarrow> bool" where
  "refused_transfer s \<longleftrightarrow> balance_at (account_stream ''b'') (bk_log s) = 0
     \<and> (transfer_stream ''t2'', TransferEv (TransferFailed ''t2'' ''insufficient funds'')) \<in> set (bk_log s)"

theorem never_overdrawn_witness:
  "\<exists>s. saga_run True s \<and> refused_transfer s \<and> 0 \<le> balance_at (account_stream ''b'') (bk_log s)"
proof -
  have "bank_reaches True (before_transfer @ [UserAct (TransferCmd (RequestTransfer ''t2'' ''b'' ''a'' 1)), HandleAct 4, HandleAct 5])
      refused_transfer" by code_simp
  then obtain s where "saga_run True s" "refused_transfer s" using bank_reachesE by blast
  with never_overdrawn show ?thesis by blast
qed

lemma reason_before:
  assumes "log_ok lg" "p < length lg" "lg ! p = (u, ev)"
  shows "justified (take p lg) (u, ev)"
  using assms by (auto simp: log_ok_def)

lemma earlier: "p < length lg \<Longrightarrow> r \<in> set (take p lg) \<Longrightarrow> \<exists>q < p. q < length lg \<and> lg ! q = r"
  by (auto simp: in_set_conv_nth)

text \<open>The request, the withdrawal, the deposit: positions of the log, in this order.\<close>

definition money_moved :: "string \<Rightarrow> app_log \<Rightarrow> nat \<Rightarrow> bool" where
  "money_moved tid lg p \<longleftrightarrow>
     (\<exists>from to a q1 q2 q3. q1 < q2 \<and> q2 < q3 \<and> q3 < p
        \<and> lg ! q1 = (transfer_stream tid, TransferEv (TransferRequested from to a tid))
        \<and> lg ! q2 = (account_stream from, AccountEv (AccountWithdrawnFrom a (Some tid) (Some to)))
        \<and> lg ! q3 = (account_stream to, AccountEv (AccountDepositedTo a (Some tid))))"

lemma completed_after_move:
  assumes ok: "log_ok lg" and p: "p < length lg" "lg ! p = (u, TransferEv (TransferCompleted tid))"
  shows "money_moved tid lg p"
proof -
  have "\<exists>v a. (v, AccountEv (AccountDepositedTo a (Some tid))) \<in> set (take p lg)"
    using reason_before [OF ok p] by simp
  then obtain v a q3 where 3: "q3 < p" "q3 < length lg" "lg ! q3 = (v, AccountEv (AccountDepositedTo a (Some tid)))"
    using earlier [OF p(1)] by blast
  have "\<exists>to src. v = account_stream to \<and> (src, AccountEv (AccountWithdrawnFrom a (Some tid) (Some to))) \<in> set (take q3 lg)"
    using reason_before [OF ok 3(2,3)] by simp
  then obtain to src q2 where to: "v = account_stream to"
    and 2: "q2 < q3" "q2 < length lg" "lg ! q2 = (src, AccountEv (AccountWithdrawnFrom a (Some tid) (Some to)))"
    using earlier [OF 3(2)] by blast
  have "\<exists>from. src = account_stream from
      \<and> (transfer_stream tid, TransferEv (TransferRequested from to a tid)) \<in> set (take q2 lg)"
    using reason_before [OF ok 2(2,3)] by simp
  then obtain "from" q1 where "from": "src = account_stream from"
    and "q1 < q2" "lg ! q1 = (transfer_stream tid, TransferEv (TransferRequested from to a tid))"
    using earlier [OF 2(2)] by blast
  with 2 3 to "from" show ?thesis unfolding money_moved_def
    by (intro exI [of _ "from"] exI [of _ to] exI [of _ a] exI [of _ q1] exI [of _ q2] exI [of _ q3]) simp
qed

text \<open>C21. A transfer marked completed has moved its money: before the mark the log holds the request, the
  withdrawal from the account it names and the deposit to the other, all of the same amount and in this order,
  and no transfer is marked both completed and failed. This holds with lost acknowledgements too.\<close>

theorem completed_moved_money:
  assumes "saga_run b s" "p < length (bk_log s)" "bk_log s ! p = (u, TransferEv (TransferCompleted tid))"
  shows "u = transfer_stream tid \<and> money_moved tid (bk_log s) p
     \<and> (\<forall>v reason. (v, TransferEv (TransferFailed tid reason)) \<notin> set (bk_log s))"
proof (intro conjI allI notI)
  have ok: "log_ok (bk_log s)" using saga_run_ok [OF assms(1)] by simp
  show u: "u = transfer_stream tid" using reason_before [OF ok assms(2,3)] by simp
  show "money_moved tid (bk_log s) p" by (rule completed_after_move [OF ok assms(2,3)])
  fix v reason assume f: "(v, TransferEv (TransferFailed tid reason)) \<in> set (bk_log s)"
  then have v: "v = transfer_stream tid" using log_ok_at [OF ok f] by simp
  have "(u, TransferEv (TransferCompleted tid)) \<in> set (bk_log s)" using assms(2,3) by (metis nth_mem)
  then have "TransferCompleted tid \<in> set (transfer_events u (bk_log s))" by (rule transfer_event_at)
  moreover have "TransferFailed tid reason \<in> set (transfer_events u (bk_log s))"
    using transfer_event_at [OF f] u v by simp
  moreover have "transfer_history (transfer_events u (bk_log s))"
    using saga_histories [OF assms(1)] by (simp add: histories_ok_def)
  ultimately show False using transfer_history_shape by fastforce
qed

definition completed_at_six :: "bank \<Rightarrow> bool" where
  "completed_at_six s \<longleftrightarrow> 6 < length (bk_log s)
     \<and> bk_log s ! 6 = (transfer_stream ''t'', TransferEv (TransferCompleted ''t''))"

theorem completed_moved_money_witness:
  "\<exists>s. saga_run False s \<and> completed_at_six s \<and> money_moved ''t'' (bk_log s) 6"
proof -
  have "bank_reaches False (before_transfer @ [HandleAct 3, HandleAct 4, HandleAct 5]) completed_at_six" by code_simp
  then obtain s where s: "saga_run False s" "completed_at_six s" using bank_reachesE by blast
  then have "money_moved ''t'' (bk_log s) 6"
    using completed_moved_money [OF s(1), of 6 "transfer_stream ''t''" "''t''"] by (simp add: completed_at_six_def)
  with s show ?thesis by blast
qed

lemma unopened_stuck:
  assumes "saga b s s'" and p: "bk_log s ! p = (u, AccountEv (AccountWithdrawnFrom a (Some tid) (Some to)))"
    "tid \<noteq> []" "to \<noteq> []" "p < length (bk_log s)" "p \<notin> set (bk_handled s)"
    and closed: "account_events (account_stream to) (bk_log s) = []"
  shows "p \<notin> set (bk_handled s') \<and> p < length (bk_log s') \<and> bk_log s' ! p = bk_log s ! p"
proof -
  have l: "p < length (bk_log s') \<and> bk_log s' ! p = bk_log s ! p"
    using saga_appends [OF assms(1)] p(4) by (auto simp: nth_append)
  from assms(1) have "p \<notin> set (bk_handled s')"
  proof cases
    case (saga_handle q st lg)
    have "handle_at st s p \<noteq> (Inr (), lg)"
      using p closed by (auto simp: handle_at_def falsy_def dispatch_app_def target_stream_def Account_initialState_def)
    with saga_handle p(5) show ?thesis by auto
  qed (use p(5) in auto)
  with l show ?thesis by simp
qed

inductive closed_run :: "bool \<Rightarrow> string \<Rightarrow> bank \<Rightarrow> bank \<Rightarrow> bool" for b :: bool and to :: string where
  closed_here: "account_events (account_stream to) (bk_log s) = [] \<Longrightarrow> closed_run b to s s"
| closed_step: "closed_run b to s s1 \<Longrightarrow> saga b s1 s2 \<Longrightarrow> account_events (account_stream to) (bk_log s2) = []
    \<Longrightarrow> closed_run b to s s2"

lemma closed_run_end: "closed_run b to s s' \<Longrightarrow> account_events (account_stream to) (bk_log s') = []"
  by (induction rule: closed_run.induct) auto

lemma closed_stuck:
  assumes "closed_run b to s s'" "tid \<noteq> []" "to \<noteq> []"
    and "p < length (bk_log s)" "bk_log s ! p = (u, AccountEv (AccountWithdrawnFrom a (Some tid) (Some to)))"
    and "p \<notin> set (bk_handled s)"
  shows "p < length (bk_log s') \<and> bk_log s' ! p = bk_log s ! p \<and> p \<notin> set (bk_handled s')"
  using assms(1,4-)
proof (induction rule: closed_run.induct)
  case (closed_step s s1 s2)
  then show ?case
    using unopened_stuck [of b s1 s2 p u a tid to] closed_run_end assms(2,3) by simp
qed simp

text \<open>A transfer to an account that is not open strands its money: the withdrawal is committed, its
  deposit is refused, and for as long as nobody opens the account the withdrawal stays unacknowledged and its
  amount under way, however often it is retried. So not every transfer gets an outcome.\<close>

theorem unopened_target_strands:
  assumes "closed_run False to s s'" "saga_run False s" "p < length (bk_log s)" "p \<notin> set (bk_handled s)"
    and "bk_log s ! p = (u, AccountEv (AccountWithdrawnFrom a (Some tid) (Some to)))"
  shows "p \<notin> set (bk_handled s') \<and> a \<le> in_flight s'"
proof -
  have run: "saga_run False s'"
    using assms(1,2) by (induction rule: closed_run.induct) (auto intro: rtranclp.rtrancl_into_rtrancl)
  have ok: "log_ok (bk_log s)" "log_ok (bk_log s')" using saga_run_ok assms(2) run by blast+
  have j: "justified (bk_log s) (u, AccountEv (AccountWithdrawnFrom a (Some tid) (Some to)))"
    using log_ok_at [OF ok(1)] assms(3,5) by (metis nth_mem)
  then have ne: "tid \<noteq> []" "to \<noteq> []" by (auto simp: falsy_def)
  note S = closed_stuck [OF assms(1) ne assms(3,5,4)]
  have "0 \<le> under_way (snd (bk_log s' ! q))" if q: "q < length (bk_log s')" for q
  proof -
    have "justified (bk_log s') (fst (bk_log s' ! q), snd (bk_log s' ! q))" using log_ok_at [OF ok(2)] q by simp
    then show ?thesis by (cases "snd (bk_log s' ! q)" rule: under_way.cases) auto
  qed
  then have "under_way (snd (bk_log s' ! p)) \<le> in_flight s'"
    unfolding in_flight_def using S by (intro member_le_sum) auto
  with S assms(5) ne show ?thesis by (simp add: falsy_def)
qed

definition withdrawn_for_nobody :: "bank \<Rightarrow> bool" where
  "withdrawn_for_nobody s \<longleftrightarrow> 3 < length (bk_log s) \<and> 3 \<notin> set (bk_handled s)
     \<and> bk_log s ! 3 = (account_stream ''a'', AccountEv (AccountWithdrawnFrom 5 (Some ''t'') (Some ''c'')))
     \<and> account_events (account_stream ''c'') (bk_log s) = []"

theorem unopened_target_strands_witness:
  "\<exists>s. withdrawn_for_nobody s \<and> 5 \<le> in_flight s"
proof -
  have "bank_reaches False
      [UserAct (AccountCmd (OpenAccount ''a'' ''a'')), UserAct (AccountCmd (DepositToAccount ''a'' 10 None)),
       UserAct (TransferCmd (RequestTransfer ''t'' ''a'' ''c'' 5)), HandleAct 2] withdrawn_for_nobody" by code_simp
  then obtain s where s: "saga_run False s" "withdrawn_for_nobody s" using bank_reachesE by blast
  then have "closed_run False ''c'' s s" by (simp add: closed_here withdrawn_for_nobody_def)
  from unopened_target_strands [OF this s(1), of 3 "account_stream ''a''" 5 "''t''"] s(2) have "5 \<le> in_flight s"
    by (simp add: withdrawn_for_nobody_def)
  with s(2) show ?thesis by blast
qed

section \<open>The read models\<close>


definition some_history :: "(int \<times> account_event) list" where
  "some_history = [(1, AccountOpened ''ada''), (4, AccountDepositedTo 10 None),
     (7, AccountWithdrawnFrom 3 (Some ''t'') (Some ''b''))]"

definition some_deliveries :: "(int \<times> account_event) list" where
  "some_deliveries = [(1, AccountOpened ''ada''), (4, AccountDepositedTo 10 None), (4, AccountDepositedTo 10 None),
     (1, AccountOpened ''ada''), (7, AccountWithdrawnFrom 3 (Some ''t'') (Some ''b'')), (4, AccountDepositedTo 10 None)]"

definition some_transfer :: "(int \<times> int \<times> transfer_event) list" where
  "some_transfer = [(6, 600, TransferRequested ''ada'' ''b'' 3 ''t''), (9, 900, TransferCompleted ''t'')]"

lemma some_delivered: "delivered some_history some_deliveries" "delivered some_transfer (some_transfer @ some_transfer)"
proof -
  let ?o = "(1 :: int, AccountOpened ''ada'')" and ?d = "(4 :: int, AccountDepositedTo 10 None)"
    and ?w = "(7 :: int, AccountWithdrawnFrom 3 (Some ''t'') (Some ''b''))"
  have "delivered [?o, ?d] [?o, ?d]"
    using deliver_next [OF deliver_next [OF deliver_none, of ?o], of ?d] by simp
  from deliver_again [OF deliver_again [OF this, of ?d], of ?o] have "delivered [?o, ?d] [?o, ?d, ?d, ?o]" by simp
  from deliver_again [OF deliver_next [OF this, of ?w], of ?d] show "delivered some_history some_deliveries"
    by (simp add: some_history_def some_deliveries_def)
  let ?r = "(6 :: int, 600 :: int, TransferRequested ''ada'' ''b'' 3 ''t'')" and ?c = "(9 :: int, 900 :: int, TransferCompleted ''t'')"
  have "delivered [?r, ?c] [?r, ?c]"
    using deliver_next [OF deliver_next [OF deliver_none, of ?r], of ?c] by simp
  from deliver_again [OF deliver_again [OF this, of ?r], of ?c] show "delivered some_transfer (some_transfer @ some_transfer)"
    by (simp add: some_transfer_def)
qed

lemma some_account_history: "account_history (map snd some_history)"
proof -
  have 1: "account_history [AccountOpened ''ada'']"
    using account_run [OF account_new, of "OpenAccount ''ada'' ''ada''"] by (simp add: Account_initialState_def)
  have 2: "account_history [AccountOpened ''ada'', AccountDepositedTo 10 None]"
    using account_run [OF 1, of "DepositToAccount ''ada'' 10 None"] by (simp add: account_of_def)
  show ?thesis
    using account_run [OF 2, of "WithdrawFromAccount ''ada'' 3 (Some ''t'') (Some ''b'')"]
    by (simp add: account_of_def some_history_def Account_initialState_def)
qed

lemma some_balance_events: "balance_events some_history"
proof -
  have "\<forall>k \<in> {0, 1, 2, 3}. fits (as_balance (account_of (map snd (take k some_history))))"
    by (simp add: some_history_def account_of_def Account_initialState_def fits_def is_int_def)
  moreover have "k \<in> {0, 1, 2, 3}" if "k \<le> length some_history" for k using that by (auto simp: some_history_def)
  ultimately have "\<forall>k \<le> length some_history. fits (as_balance (account_of (map snd (take k some_history))))" by blast
  with some_account_history show ?thesis
    by (simp add: balance_events_def) (simp add: some_history_def fits_def is_int_def)
qed

lemma some_transfer_deliveries: "transfer_deliveries ''t'' some_transfer"
proof -
  have 1: "transfer_history [TransferRequested ''ada'' ''b'' 3 ''t'']"
    using transfer_run [OF transfer_new, of "RequestTransfer ''t'' ''ada'' ''b'' 3"] by (simp add: Transfer_initialState_def)
  have "transfer_history [TransferRequested ''ada'' ''b'' 3 ''t'', TransferCompleted ''t'']"
    using transfer_run [OF 1, of "MarkTransferCompleted ''t''"] by (simp add: transfer_of_def)
  then show ?thesis by (simp add: transfer_deliveries_def some_transfer_def fits_def is_int_def)
qed


text \<open>C32. A fractional deposit poisons its account's read model. The deposit script accepts any positive
  amount and the aggregate records it, but the column takes only whole numbers: the projection's handler
  fails on that event with 22P02 for every state of the table, so no retry helps, and every later event of
  the account waits behind it.\<close>

theorem fractional_deposit_poisons:
  assumes "name \<noteq> []" "0 < a" "\<not> is_int a" "as_opened (account_of (account_events (account_stream name) lg))"
  shows "user_command (AccountCmd (DepositToAccount name a None))
     \<and> dispatch_app (AccountCmd (DepositToAccount name a None)) lg
        = Inr (lg @ [(account_stream name, AccountEv (AccountDepositedTo a None))])
     \<and> (\<exists>e. pg_code e = Some ''22P02''
          \<and> (\<forall>n rows. balances_handler (account_stream name) n (AccountEv (AccountDepositedTo a None)) rows = Inl e))"
  using assms slash_no_bigint [OF fraction_text [OF assms(3)]]
  by (auto simp: valid_amount_def dispatch_app_def target_stream_def bumpBalance_def)

theorem fractional_deposit_poisons_witness:
  "\<exists>s. saga_run False s \<and> (\<exists>e. \<forall>n rows. balances_handler (account_stream ''a'') n (AccountEv (AccountDepositedTo (3 / 2) None)) rows = Inl e)
     \<and> dispatch_app (AccountCmd (DepositToAccount ''a'' (3 / 2) None)) (bk_log s)
       = Inr (bk_log s @ [(account_stream ''a'', AccountEv (AccountDepositedTo (3 / 2) None))])"
proof -
  have "bank_reaches False [UserAct (AccountCmd (OpenAccount ''a'' ''a''))]
      (\<lambda>s. as_opened (account_of (account_events (account_stream ''a'') (bk_log s))))" by code_simp
  then obtain s where s: "saga_run False s" "as_opened (account_of (account_events (account_stream ''a'') (bk_log s)))"
    using bank_reachesE by blast
  have "\<lfloor>3 / 2 :: rat\<rfloor> = 1" by (simp add: floor_eq_iff)
  then have "\<not> is_int (3 / 2)" by (simp add: is_int_def)
  with fractional_deposit_poisons [of "''a''" "3 / 2" "bk_log s"] s show ?thesis by auto
qed

end
