(* ===== verification/Admin.thy ===== *)
theory Admin
  imports World
begin

text \<open>
  The operator tool's core, tools/instructedctl/src/core: typed functions over a connection. A function is
  run in a world, where other clients act while it awaits; its outcome is a value or a typed error. A
  query of the tool's own reads the tables as they are at that moment; a procedure is a \<open>call\<close>. A
  transaction runs as one step: until it writes it has changed nothing, and from its first write on the
  rows it works on are locked against the others. What orders texts in an \<open>order by\<close> is the collation of
  the database (\<open>coll\<close>).
\<close>

section \<open>Errors\<close>

text \<open>core/errors.ts and the two error classes of core/schema.ts; any other error is passed through.\<close>

datatype ctl_error =
    Driver thrown
  | CtlSubscriptionNotFound string string
  | CtlSubscriptionLeaseLost string string
  | CtlStreamNotFound string
  | CtlSubscriptionNotClaimed string string
  | SchemaAlreadyInstalled
  | SchemaVersionMismatch string string
  | NoBundledVersion

definition apos :: "string \<Rightarrow> string" where
  "apos s = [CHR 0x27] @ s @ [CHR 0x27]"

text \<open>\<open>err instanceof Error ? err.message : String(err)\<close>\<close>

fun error_text :: "ctl_error \<Rightarrow> string" where
  "error_text (Driver e) = (case message_of e of Some m \<Rightarrow> m | None \<Rightarrow> (case e of NotError j \<Rightarrow> js_string j | _ \<Rightarrow> []))"
| "error_text (CtlSubscriptionNotFound n u) = ''subscription '' @ apos n @ '' on '' @ u @ '' not found''"
| "error_text (CtlSubscriptionLeaseLost n u) =
     ''subscription '' @ apos n @ '' on '' @ u @ '': lease lost (held by another worker)''"
| "error_text (CtlStreamNotFound u) = ''stream '' @ apos u @ '' not found''"
| "error_text (CtlSubscriptionNotClaimed n u) =
     ''subscription '' @ apos n @ '' on '' @ u @ '' is not currently claimed''"
| "error_text SchemaAlreadyInstalled = ''the '' @ apos ''instructed'' @ '' schema already exists''"
| "error_text (SchemaVersionMismatch running bundled) =
     ''the installed instructed schema is version '' @ apos running @ '', but this tool installs version ''
     @ apos bundled @ ''. ensureSchema will not modify an existing schema; migration is not yet supported.''"
| "error_text NoBundledVersion =
     ''could not determine the bundled schema version from the embedded SQL (instructed.get_schema_version body did not match the expected shape)''"

text \<open>Only an error of the server carries a SQLSTATE here.\<close>

fun sqlstateOf :: "ctl_error \<Rightarrow> string option" where
  "sqlstateOf (Driver e) = code_of e"
| "sqlstateOf _ = None"

section \<open>Running against a connection\<close>

type_synonym 'a ctl = "world \<Rightarrow> (ctl_error + 'a) \<times> world"

definition bind_ctl :: "'a ctl \<Rightarrow> ('a \<Rightarrow> 'b ctl) \<Rightarrow> 'b ctl" where
  "bind_ctl m f w = (case m w of (Inl e, w1) \<Rightarrow> (Inl e, w1) | (Inr x, w1) \<Rightarrow> f x w1)"

definition return_ctl :: "'a \<Rightarrow> 'a ctl" where
  "return_ctl x w = (Inr x, w)"

definition fail_ctl :: "ctl_error \<Rightarrow> 'a ctl" where
  "fail_ctl e w = (Inl e, w)"

definition map_ctl :: "('a \<Rightarrow> 'b) \<Rightarrow> 'a ctl \<Rightarrow> 'b ctl" where
  "map_ctl f m w = (case m w of (Inl e, w1) \<Rightarrow> (Inl e, w1) | (Inr x, w1) \<Rightarrow> (Inr (f x), w1))"

text \<open>A \<open>select\<close> over the tables.\<close>

definition select :: "(db \<Rightarrow> 'a) \<Rightarrow> 'a ctl" where
  "select f w =
     (let (e, w1) = turn w
      in case ev_fault e of NoFault \<Rightarrow> (Inr (f (w_db w1)), w1)
         | FailBefore p \<Rightarrow> (Inl (Driver (PgErr p)), w1) | FailAfter p \<Rightarrow> (Inl (Driver (PgErr p)), w1))"

definition procedure :: "pg_error + call \<Rightarrow> reply ctl" where
  "procedure c w = (case query c w of (Inl e, w1) \<Rightarrow> (Inl (Driver e), w1) | (Inr r, w1) \<Rightarrow> (Inr r, w1))"

text \<open>Calls one after the other, as long as none raises.\<close>

fun exec_all :: "call list \<Rightarrow> db \<Rightarrow> pg_error + db" where
  "exec_all [] d = Inr d"
| "exec_all (c # cs) d = (case exec c d of Inl p \<Rightarrow> Inl p | Inr (r, d1) \<Rightarrow> exec_all cs d1)"

definition transact :: "call list \<Rightarrow> unit ctl" where
  "transact cs w =
     (let (e, w1) = turn w
      in case ev_fault e of
           FailBefore p \<Rightarrow> (Inl (Driver (PgErr p)), w1)
         | f \<Rightarrow>
             (case exec_all (map (with_locks e) cs) (w_db w1) of
                Inl p \<Rightarrow> (Inl (Driver (PgErr p)), w1)
              | Inr d \<Rightarrow> ((case f of FailAfter p \<Rightarrow> Inl (Driver (PgErr p)) | _ \<Rightarrow> Inr ()), w1\<lparr>w_db := d\<rparr>)))"

section \<open>Subscriptions\<close>

definition REBUILD_WORKER_ID :: string where
  "REBUILD_WORKER_ID = ''instructedctl-rebuild''"

record subscription_ref_ctl =
  cs_name :: string
  cs_streamUuid :: "string option"

definition stream_of :: "subscription_ref_ctl \<Rightarrow> string" where
  "stream_of ref = (case cs_streamUuid ref of Some u \<Rightarrow> u | None \<Rightarrow> all_uuid)"

definition mapSubscriptionError :: "ctl_error \<Rightarrow> string \<Rightarrow> string \<Rightarrow> ctl_error" where
  "mapSubscriptionError err n u =
     (if sqlstateOf err = Some ''IS020'' then CtlSubscriptionNotFound n u
      else if sqlstateOf err = Some ''IS022'' then CtlSubscriptionLeaseLost n u
      else err)"

definition mapping_errors :: "(ctl_error \<Rightarrow> ctl_error) \<Rightarrow> 'a ctl \<Rightarrow> 'a ctl" where
  "mapping_errors h m w = (case m w of (Inl e, w1) \<Rightarrow> (Inl (h e), w1) | (Inr x, w1) \<Rightarrow> (Inr x, w1))"

record subscription_summary =
  ss_name :: string
  ss_stream :: string
  ss_lastSeen :: rat
  ss_lag :: rat
  ss_claimedBy :: "string option"
  ss_expires :: "int option"
  ss_created :: int

text \<open>The join of the tool's SELECT, a row and its stream.\<close>

definition sub_join :: "db \<Rightarrow> (sub_row \<times> stream_row) list" where
  "sub_join d = [(b, s). b \<leftarrow> subs d, s \<leftarrow> filter (\<lambda>s. s_id s = b_stream b) (streams d)]"

fun toSummary :: "sub_row \<times> stream_row \<Rightarrow> subscription_summary" where
  "toSummary (b, s) =
     \<lparr>ss_name = b_name b, ss_stream = s_uuid s, ss_lastSeen = Number (int (b_last_seen b)),
      ss_lag = Number (int (s_version s) - int (b_last_seen b)), ss_claimedBy = b_claimed_by b,
      ss_expires = b_expires b, ss_created = b_created b\<rparr>"

definition listSubscriptions :: "(string \<Rightarrow> 'k :: linorder) \<Rightarrow> subscription_summary list ctl" where
  "listSubscriptions coll = select (\<lambda>d. map toSummary
     (sort_key (\<lambda>r. coll (b_name (fst r))) (sort_key (\<lambda>r. coll (s_uuid (snd r))) (sub_join d))))"

definition getSubscription :: "(string \<Rightarrow> 'k :: linorder) \<Rightarrow> string \<Rightarrow> subscription_summary list ctl" where
  "getSubscription coll name = select (\<lambda>d. map toSummary
     (sort_key (\<lambda>r. coll (s_uuid (snd r))) (filter (\<lambda>r. b_name (fst r) = name) (sub_join d))))"

text \<open>\<open>undefined\<close> is \<open>None\<close>, a holder of \<open>null\<close> is \<open>Some None\<close>.\<close>

definition holder_row :: "string \<Rightarrow> string \<Rightarrow> db \<Rightarrow> string option option" where
  "holder_row u name d =
     (case filter (\<lambda>r. s_uuid (snd r) = u \<and> b_name (fst r) = name) (sub_join d) of
        [] \<Rightarrow> None | r # _ \<Rightarrow> Some (b_claimed_by (fst r)))"

definition currentHolder :: "string \<Rightarrow> string \<Rightarrow> string option option ctl" where
  "currentHolder u name = select (holder_row u name)"

definition releaseSubscription_ctl :: "subscription_ref_ctl \<Rightarrow> string option \<Rightarrow> string ctl" where
  "releaseSubscription_ctl ref workerId =
     (let u = stream_of ref; n = cs_name ref
      in bind_ctl
           (case workerId of
              Some w \<Rightarrow> return_ctl w
            | None \<Rightarrow>
                bind_ctl (currentHolder u n) (\<lambda>holder.
                  case holder of
                    None \<Rightarrow> fail_ctl (CtlSubscriptionNotFound n u)
                  | Some None \<Rightarrow> fail_ctl (CtlSubscriptionNotClaimed n u)
                  | Some (Some h) \<Rightarrow> return_ctl h))
           (\<lambda>w. map_ctl (\<lambda>_. w)
              (mapping_errors (\<lambda>e. mapSubscriptionError e n u)
                (procedure (Inr (CReleaseSub (Some u) (Some n) (Some w)))))))"

definition deleteSubscription_ctl :: "subscription_ref_ctl \<Rightarrow> unit ctl" where
  "deleteSubscription_ctl ref =
     (let u = stream_of ref; n = cs_name ref
      in map_ctl (\<lambda>_. ())
           (mapping_errors (\<lambda>e. mapSubscriptionError e n u) (procedure (Inr (CDeleteSub (Some u) (Some n))))))"

record claim_report =
  cx_claimed :: bool
  cx_lastSeen :: rat
  cx_claimedBy :: "string option"
  cx_expires :: "int option"

definition no_rows :: ctl_error where
  "no_rows = Driver (type_error ''Cannot read properties of undefined (reading result)'')"

definition claim_options :: "string option \<Rightarrow> json" where
  "claim_options start = (case start of None \<Rightarrow> JObj [] | Some s \<Rightarrow> if s = [] then JObj [] else JObj [(''start_from'', JStr s)])"

definition claimSubscription_ctl ::
  "subscription_ref_ctl \<Rightarrow> string \<Rightarrow> rat \<Rightarrow> string option \<Rightarrow> claim_report ctl" where
  "claimSubscription_ctl ref workerId leaseSeconds start =
     bind_ctl (procedure (bind_sum (int_param leaseSeconds) (\<lambda>secs. Inr
         (CClaimSub False (Some (stream_of ref)) (Some (cs_name ref)) (Some workerId) (Some secs)
            (Some (claim_options start))))))
       (\<lambda>r. case r of
              RClaim (q # _) \<Rightarrow> return_ctl \<lparr>cx_claimed = q_claimed q, cx_lastSeen = Number (int (q_last_seen q)),
                                  cx_claimedBy = q_claimed_by q, cx_expires = q_expires q\<rparr>
            | _ \<Rightarrow> fail_ctl no_rows)"

definition rebuild_calls :: "string \<Rightarrow> string \<Rightarrow> bool \<Rightarrow> call list" where
  "rebuild_calls u n existed =
     (if existed then [CDeleteSub (Some u) (Some n)] else [])
     @ [CClaimSub False (Some u) (Some n) (Some REBUILD_WORKER_ID) (Some 1)
          (Some (JObj [(''start_from'', JStr ''origin'')])),
        CReleaseSub (Some u) (Some n) (Some REBUILD_WORKER_ID)]"

definition rebuildSubscription :: "subscription_ref_ctl \<Rightarrow> bool ctl" where
  "rebuildSubscription ref =
     (let u = stream_of ref; n = cs_name ref
      in bind_ctl (currentHolder u n) (\<lambda>holder.
           map_ctl (\<lambda>_. holder \<noteq> None) (transact (rebuild_calls u n (holder \<noteq> None)))))"

section \<open>Streams and events\<close>

record stream_summary =
  sx_stream :: string
  sx_head :: rat
  sx_count :: rat

definition stream_summary_of :: "db \<Rightarrow> stream_row \<Rightarrow> stream_summary" where
  "stream_summary_of d s =
     \<lparr>sx_stream = s_uuid s, sx_head = Number (int (s_version s)),
      sx_count = Number (int (length (filter (\<lambda>l. l_stream l = s_id s) (links d))))\<rparr>"

definition user_streams :: "db \<Rightarrow> stream_row list" where
  "user_streams d = filter (\<lambda>s. s_id s \<noteq> 0) (streams d)"

definition listStreams :: "(string \<Rightarrow> 'k :: linorder) \<Rightarrow> stream_summary list ctl" where
  "listStreams coll = select (\<lambda>d. map (stream_summary_of d) (sort_key (\<lambda>s. coll (s_uuid s)) (user_streams d)))"

definition getStream :: "string \<Rightarrow> stream_summary option ctl" where
  "getStream u = select (\<lambda>d.
     case filter (\<lambda>s. s_uuid s = u) (user_streams d) of [] \<Rightarrow> None | s # _ \<Rightarrow> Some (stream_summary_of d s))"

record event_record =
  ev_eventId :: string
  ev_eventNumber :: rat
  ev_streamUuid :: string
  ev_streamVersion :: rat
  ev_eventType :: string
  ev_causationId :: "string option"
  ev_correlationId :: "string option"
  ev_data :: json
  ev_metadata :: "json option"
  ev_createdAt :: int

definition toEvent :: "event_out \<Rightarrow> event_record" where
  "toEvent r =
     \<lparr>ev_eventId = o_event_id r, ev_eventNumber = Number (int (o_event_number r)), ev_streamUuid = o_stream_uuid r,
      ev_streamVersion = Number (int (o_stream_version r)), ev_eventType = o_event_type r,
      ev_causationId = o_causation r, ev_correlationId = o_correlation r, ev_data = o_data r,
      ev_metadata = o_metadata r, ev_createdAt = o_created r\<rparr>"

definition event_records :: "reply \<Rightarrow> event_record list" where
  "event_records r = (case r of REvents rows \<Rightarrow> map toEvent rows | _ \<Rightarrow> [])"

text \<open>A number sent for a bigint parameter.\<close>

definition number_param :: "rat \<Rightarrow> pg_error + int" where
  "number_param r = bigint_in (show_num r)"

definition readStreamCtl :: "string \<Rightarrow> rat \<Rightarrow> rat \<Rightarrow> event_record list ctl" where
  "readStreamCtl u from count =
     mapping_errors (\<lambda>e. if sqlstateOf e = Some ''IS003'' then CtlStreamNotFound u else e)
       (map_ctl event_records (procedure
          (bind_sum (number_param from) (\<lambda>f. bind_sum (int_param count) (\<lambda>c.
             Inr (CReadStream (Some u) (Some f) (Some c)))))))"

definition readAllCtl :: "rat \<Rightarrow> rat \<Rightarrow> event_record list ctl" where
  "readAllCtl from count =
     map_ctl event_records (procedure
       (bind_sum (number_param from) (\<lambda>f. bind_sum (int_param count) (\<lambda>c. Inr (CReadAll (Some f) (Some c))))))"

section \<open>Snapshots\<close>

record snapshot_record =
  sr_sourceUuid :: string
  sr_sourceType :: string
  sr_sourceVersion :: rat
  sr_data :: json
  sr_metadata :: "json option"
  sr_createdAt :: int

definition getSnapshot :: "string \<Rightarrow> snapshot_record option ctl" where
  "getSnapshot u = select (\<lambda>d.
     case filter (\<lambda>r. n_source_uuid r = u) (snaps d) of
       [] \<Rightarrow> None
     | r # _ \<Rightarrow> Some \<lparr>sr_sourceUuid = n_source_uuid r, sr_sourceType = n_source_type r,
                       sr_sourceVersion = Number (int (n_source_version r)), sr_data = n_data r,
                       sr_metadata = n_metadata r, sr_createdAt = n_created r\<rparr>)"

section \<open>Work items\<close>

record work_item_counts =
  wc_name :: string
  wc_pending :: rat
  wc_claimed :: rat
  wc_failed :: rat
  wc_done :: rat
  wc_total :: rat
  wc_oldest :: "rat option"

text \<open>A filter by name is given if it is a text that is not empty.\<close>

definition wanted :: "string option \<Rightarrow> item_row \<Rightarrow> bool" where
  "wanted name i \<longleftrightarrow> (case name of None \<Rightarrow> True | Some n \<Rightarrow> n = [] \<or> i_sub i = n)"

definition count_state :: "item_state \<Rightarrow> item_row list \<Rightarrow> rat" where
  "count_state st is = Number (int (length (filter (\<lambda>i. i_state i = st) is)))"

fun least :: "int list \<Rightarrow> int option" where
  "least [] = None"
| "least (x # xs) = Some (fold min xs x)"

definition counts_row :: "string \<Rightarrow> item_row list \<Rightarrow> work_item_counts" where
  "counts_row n is =
     \<lparr>wc_name = n, wc_pending = count_state Pending is, wc_claimed = count_state ClaimedS is,
      wc_failed = count_state Failed is, wc_done = count_state Done is, wc_total = Number (int (length is)),
      wc_oldest = map_option Number (least (map i_event (filter open_item is)))\<rparr>"

definition listWorkItemCounts :: "(string \<Rightarrow> 'k :: linorder) \<Rightarrow> string option \<Rightarrow> work_item_counts list ctl" where
  "listWorkItemCounts coll name = select (\<lambda>d.
     let rows = filter (wanted name) (items d)
     in map (\<lambda>n. counts_row n (filter (\<lambda>i. i_sub i = n) rows)) (sort_key coll (remdups (map i_sub rows))))"

record failed_work_item =
  fw_name :: string
  fw_partition :: string
  fw_event :: rat
  fw_failedAt :: "int option"
  fw_error :: "string option"

definition listFailedWorkItems :: "(string \<Rightarrow> 'k :: linorder) \<Rightarrow> string option \<Rightarrow> failed_work_item list ctl" where
  "listFailedWorkItems coll name = select (\<lambda>d.
     map (\<lambda>i. \<lparr>fw_name = i_sub i, fw_partition = i_partition i, fw_event = Number (i_event i),
               fw_failedAt = i_failed_at i, fw_error = i_error i\<rparr>)
       (sort_key (\<lambda>i. coll (i_sub i)) (sort_key i_event
          (filter (\<lambda>i. i_state i = Failed \<and> wanted name i) (items d)))))"

section \<open>Health\<close>

record health_check =
  hk_name :: string
  hk_ok :: bool
  hk_detail :: string

record health_report =
  hr_ok :: bool
  hr_checks :: "health_check list"

text \<open>The dash of a message, in UTF-8.\<close>

definition dash :: string where
  "dash = [CHR 0xE2, CHR 0x80, CHR 0x94]"

definition allContiguous :: "db \<Rightarrow> health_check" where
  "allContiguous d =
     (let vs = map l_version (filter (\<lambda>l. l_stream l = 0) (links d));
          cnt = Number (int (length vs));
          maxEn = Number (int (fold max vs 0));
          minEn = Number (int (case vs of [] \<Rightarrow> 0 | v # rest \<Rightarrow> fold min rest v));
          ok = (cnt = maxEn \<and> (cnt = 0 \<or> minEn = 1))
      in \<lparr>hk_name = ''$all contiguous'', hk_ok = ok,
          hk_detail = (if ok then show_num cnt @ '' events, head '' @ show_num maxEn
                       else ''count='' @ show_num cnt @ '' max='' @ show_num maxEn @ '' min='' @ show_num minEn
                            @ '' '' @ dash @ '' gap or offset in $all'')\<rparr>)"

definition zero_check :: "string \<Rightarrow> string \<Rightarrow> nat \<Rightarrow> health_check" where
  "zero_check name tail_text n =
     (let k = Number (int n)
      in \<lparr>hk_name = name, hk_ok = (k = 0), hk_detail = (if k = 0 then ''none'' else show_num k @ tail_text)\<rparr>)"

definition noOrphanedStreamEvents :: "db \<Rightarrow> health_check" where
  "noOrphanedStreamEvents d =
     zero_check ''no orphaned stream_events'' '' stream_events rows with no event''
       (length (filter (\<lambda>l. l_event l \<notin> e_id ` set (events d)) (links d)))"

definition zombie :: "int \<Rightarrow> sub_row \<Rightarrow> bool" where
  "zombie t b \<longleftrightarrow> b_claimed_by b \<noteq> None \<and> (case b_expires b of None \<Rightarrow> False | Some ex \<Rightarrow> ex < t)"

definition noExpiredLeaseZombies :: "db \<Rightarrow> health_check" where
  "noExpiredLeaseZombies d =
     zero_check ''no expired-lease zombies'' '' subscription(s) claimed past lease expiry (dead worker?)''
       (length (filter (zombie (now d)) (subs d)))"

definition noOrphanedWorkItems :: "db \<Rightarrow> health_check" where
  "noOrphanedWorkItems d =
     zero_check ''no orphaned work items'' '' work item(s) with no subscription''
       (length (filter (\<lambda>i. (i_stream i, i_sub i) \<notin> (\<lambda>b. (b_stream b, b_name b)) ` set (subs d)) (items d)))"

text \<open>Four queries, each in its own moment.\<close>

definition checkHealth :: "health_report ctl" where
  "checkHealth =
     bind_ctl (select allContiguous) (\<lambda>c1.
     bind_ctl (select noOrphanedStreamEvents) (\<lambda>c2.
     bind_ctl (select noExpiredLeaseZombies) (\<lambda>c3.
     bind_ctl (select noOrphanedWorkItems) (\<lambda>c4.
       let checks = [c1, c2, c3, c4] in return_ctl \<lparr>hr_ok = list_all hk_ok checks, hr_checks = checks\<rparr>))))"

end
