(* ===== verification/Admin_Schema.thy ===== *)
theory Admin_Schema
  imports Admin
begin

text \<open>
  The schema's life cycle, tools/instructedctl/src/core/schema.ts, over a database that may or may not
  have the schema. The SQL file the tool embeds (\<open>SCHEMA_SQL\<close>) is known through two things: its text, in
  which the tool looks up the version, and what running it does, creating the tables in a database
  without them and failing in one that has them. The version is a parameter: release automation writes it
  into the file.
\<close>

section \<open>The version in the text\<close>

definition lower :: "char \<Rightarrow> char" where
  "lower c = (let n = of_char c :: nat in if 65 \<le> n \<and> n \<le> 90 then char_of (n + 32) else c)"

definition skip_ci :: "string \<Rightarrow> string \<Rightarrow> string option" where
  "skip_ci p s = (if map lower (take (length p) s) = p then Some (drop (length p) s) else None)"

definition is_word :: "char \<Rightarrow> bool" where
  "is_word c = (let n = of_char c :: nat in
     48 \<le> n \<and> n \<le> 57 \<or> 65 \<le> n \<and> n \<le> 90 \<or> n = 95 \<or> 97 \<le> n \<and> n \<le> 122)"

text \<open>\<open>create\s+or\s+replace\s+function\s+instructed\.get_schema_version\<close>: what follows the match.\<close>

definition match_head :: "string \<Rightarrow> string option" where
  "match_head s =
     Option.bind (skip_ci ''create'' s) (\<lambda>s. Option.bind (skip_spaces1 s) (\<lambda>s.
     Option.bind (skip_ci ''or'' s) (\<lambda>s. Option.bind (skip_spaces1 s) (\<lambda>s.
     Option.bind (skip_ci ''replace'' s) (\<lambda>s. Option.bind (skip_spaces1 s) (\<lambda>s.
     Option.bind (skip_ci ''function'' s) (\<lambda>s. Option.bind (skip_spaces1 s) (\<lambda>s.
     skip_ci ''instructed.get_schema_version'' s))))))))"

text \<open>\<open>\bselect\s+'([^']*)'::text\<close> at a place whose previous character is \<open>prev\<close>: the group.\<close>

definition match_tail :: "char \<Rightarrow> string \<Rightarrow> string option" where
  "match_tail prev s =
     (if is_word prev then None
      else Option.bind (skip_ci ''select'' s) (\<lambda>s. Option.bind (skip_spaces1 s) (\<lambda>s.
           case s of
             [] \<Rightarrow> None
           | c # rest \<Rightarrow>
               (if c \<noteq> CHR 0x27 then None
                else let v = takeWhile (\<lambda>c. c \<noteq> CHR 0x27) rest
                     in map_option (\<lambda>_. v) (skip_ci (CHR 0x27 # ''::text'') (drop (length v) rest))))))"

fun search_tail :: "char \<Rightarrow> string \<Rightarrow> string option" where
  "search_tail prev [] = None"
| "search_tail prev (c # s) = (case match_tail prev (c # s) of Some v \<Rightarrow> Some v | None \<Rightarrow> search_tail c s)"

text \<open>The head ends in an \<open>n\<close>.\<close>

fun search_version :: "string \<Rightarrow> string option" where
  "search_version [] = None"
| "search_version (c # s) =
     (case Option.bind (match_head (c # s)) (search_tail (CHR ''n'')) of Some v \<Rightarrow> Some v | None \<Rightarrow> search_version s)"

definition bundledSchemaVersion :: "string \<Rightarrow> ctl_error + string" where
  "bundledSchemaVersion sql = (case search_version sql of Some v \<Rightarrow> Inr v | None \<Rightarrow> Inl NoBundledVersion)"

text \<open>The function of sql/instructed.sql, with a release's version.\<close>

definition nl :: string where
  "nl = [CHR 0x0A]"

definition version_function :: "string \<Rightarrow> string" where
  "version_function v =
     ''create or replace function instructed.get_schema_version ()'' @ nl @ ''  returns text'' @ nl @ ''  language sql'' @ nl
     @ ''as $$'' @ nl @ ''  select '' @ [CHR 0x27] @ v @ [CHR 0x27] @ ''::text;'' @ nl @ ''$$;'' @ nl"

section \<open>Databases with and without the schema\<close>

record installation =
  is_version :: string
  is_db :: db

text \<open>
  A site is a database as the tool sees it: for the n-th awaited query, what others do to it before and
  whether the connection fails.
\<close>

record site =
  st_schema :: "installation option"
  st_others :: "nat \<Rightarrow> installation option \<Rightarrow> installation option"
  st_fault :: "nat \<Rightarrow> fault"
  st_now :: int
  st_pos :: nat

type_synonym 'a on_site = "site \<Rightarrow> (ctl_error + 'a) \<times> site"

definition bind_site :: "'a on_site \<Rightarrow> ('a \<Rightarrow> 'b on_site) \<Rightarrow> 'b on_site" where
  "bind_site m f s = (case m s of (Inl e, s1) \<Rightarrow> (Inl e, s1) | (Inr x, s1) \<Rightarrow> f x s1)"

definition arrive :: "site \<Rightarrow> fault \<times> site" where
  "arrive s = (st_fault s (st_pos s), s\<lparr>st_schema := st_others s (st_pos s) (st_schema s), st_pos := Suc (st_pos s)\<rparr>)"

text \<open>One statement, or one transaction: it changes the schema if it does not raise.\<close>

definition on_schema :: "(installation option \<Rightarrow> pg_error + ('a \<times> installation option)) \<Rightarrow> 'a on_site" where
  "on_schema f s =
     (let (flt, s1) = arrive s
      in case flt of
           FailBefore p \<Rightarrow> (Inl (Driver (PgErr p)), s1)
         | _ \<Rightarrow>
             (case f (st_schema s1) of
                Inl p \<Rightarrow> (Inl (Driver (PgErr p)), s1)
              | Inr (x, i) \<Rightarrow>
                  ((case flt of FailAfter p \<Rightarrow> Inl (Driver (PgErr p)) | _ \<Rightarrow> Inr x), s1\<lparr>st_schema := i\<rparr>)))"

definition no_schema :: pg_error where
  "no_schema = pg ''3F000'' ''schema instructed does not exist''"

definition drop_schema :: "installation option \<Rightarrow> pg_error + installation option" where
  "drop_schema i = (case i of None \<Rightarrow> Inl no_schema | Some _ \<Rightarrow> Inr None)"

definition run_schema_sql :: "string \<Rightarrow> int \<Rightarrow> installation option \<Rightarrow> pg_error + installation option" where
  "run_schema_sql release t i =
     (case i of
        None \<Rightarrow> Inr (Some \<lparr>is_version = release, is_db = initial_db t\<rparr>)
      | Some _ \<Rightarrow> Inl (pg ''42P07'' ''relation streams already exists''))"

definition schemaPresent :: "bool on_site" where
  "schemaPresent = on_schema (\<lambda>i. Inr (i \<noteq> None, i))"

definition getSchemaVersion :: "string on_site" where
  "getSchemaVersion = on_schema (\<lambda>i. case i of None \<Rightarrow> Inl no_schema | Some x \<Rightarrow> Inr (is_version x, i))"

record store_status =
  so_version :: string
  so_allHead :: rat
  so_streams :: rat
  so_events :: rat
  so_subscriptions :: rat

definition status_of :: "installation \<Rightarrow> store_status" where
  "status_of x =
     (let d = is_db x
      in \<lparr>so_version = is_version x,
          so_allHead = (case filter (\<lambda>s. s_id s = 0) (streams d) of [] \<Rightarrow> 0 | s # _ \<Rightarrow> Number (int (s_version s))),
          so_streams = Number (int (length (user_streams d))),
          so_events = Number (int (length (events d))),
          so_subscriptions = Number (int (length (subs d)))\<rparr>)"

definition getStatus :: "store_status on_site" where
  "getStatus = on_schema (\<lambda>i. case i of None \<Rightarrow> Inl no_schema | Some x \<Rightarrow> Inr (status_of x, i))"

datatype install_action = Installed | Reinstalled | AlreadyCurrent

record install_result =
  ir_alreadyExisted :: bool
  ir_action :: install_action
  ir_version :: string

definition installSchema :: "string \<Rightarrow> bool \<Rightarrow> install_result on_site" where
  "installSchema release force =
     bind_site schemaPresent (\<lambda>existed.
       if existed \<and> \<not> force then (\<lambda>s. (Inl SchemaAlreadyInstalled, s))
       else bind_site
              (\<lambda>s. on_schema (\<lambda>i. bind_sum (if existed \<and> force then drop_schema i else Inr i) (\<lambda>i1.
                 bind_sum (run_schema_sql release (st_now s) i1) (\<lambda>i2. Inr ((), i2)))) s)
              (\<lambda>_. bind_site getSchemaVersion (\<lambda>v s.
                 (Inr \<lparr>ir_alreadyExisted = existed, ir_action = (if existed then Reinstalled else Installed),
                       ir_version = v\<rparr>, s))))"

record ensure_result =
  er_action :: install_action
  er_version :: string

definition ensureSchema :: "string \<Rightarrow> string \<Rightarrow> ensure_result on_site" where
  "ensureSchema sql release =
     bind_site schemaPresent (\<lambda>present.
       if \<not> present then
         bind_site (installSchema release False) (\<lambda>r s. (Inr \<lparr>er_action = Installed, er_version = ir_version r\<rparr>, s))
       else bind_site getSchemaVersion (\<lambda>running s.
              case bundledSchemaVersion sql of
                Inl e \<Rightarrow> (Inl e, s)
              | Inr bundled \<Rightarrow>
                  (if running \<noteq> bundled then (Inl (SchemaVersionMismatch running bundled), s)
                   else (Inr \<lparr>er_action = AlreadyCurrent, er_version = running\<rparr>, s))))"

end
