(* ===== verification/Admin_Laws.thy ===== *)
theory Admin_Laws
  imports Admin_Schema Queue_Laws
begin

text \<open>
  Lemmas on the operator tool's core: what a query sees, the rows its look-up of a subscription reads,
  the outcome of a transaction, and the rules of the site monad.
\<close>

section \<open>Moments\<close>

text \<open>
  The database after \<open>n\<close> more awaited queries, if only the others act; and a world whose connection does
  not fail.
\<close>

definition moment :: "world \<Rightarrow> nat \<Rightarrow> db" where
  "moment w n = fold interfere (map (w_env w) [w_pos w..<w_pos w + n]) (w_db w)"

definition no_faults :: "world \<Rightarrow> bool" where
  "no_faults w \<longleftrightarrow> (\<forall>n. ev_fault (w_env w n) = NoFault)"

definition after_waits :: "nat \<Rightarrow> world \<Rightarrow> world" where
  "after_waits n w = ((\<lambda>w. snd (turn w)) ^^ n) w"

lemma turn_waits: "turn w = (w_env w (w_pos w), after_waits 1 w)"
  by (simp add: after_waits_def turn_def Let_def)

lemma waits_add [simp]: "after_waits m (after_waits n w) = after_waits (m + n) w"
  by (simp add: after_waits_def funpow_add)

lemma waits_fields [simp]: "w_env (after_waits n w) = w_env w" "w_pos (after_waits n w) = w_pos w + n"
  "no_faults (after_waits n w) = no_faults w"
  by (induction n) (simp_all add: after_waits_def turn_def Let_def no_faults_def)

lemma waits_db: "w_db (after_waits n w) = moment w n"
proof (induction n)
  case (Suc n)
  have "after_waits (Suc n) w = snd (turn (after_waits n w))" by (simp add: after_waits_def)
  with Suc show ?case by (simp add: turn_def Let_def moment_def)
qed (simp add: after_waits_def moment_def)

lemma moment_wf: "wf_db (w_db w) \<Longrightarrow> wf_db (moment w n)"
  unfolding moment_def
proof (induction n)
  case (Suc n)
  with interfere_wf show ?case by simp
qed simp

section \<open>Queries and transactions without failures\<close>

lemma select_calm: "no_faults w \<Longrightarrow> select f w = (Inr (f (moment w 1)), after_waits 1 w)"
  by (simp add: select_def turn_waits no_faults_def waits_db)

lemma procedure_calm: "no_faults w \<Longrightarrow> procedure (Inr c) w =
   (case exec (with_locks (w_env w (w_pos w)) c) (moment w 1) of
      Inl p \<Rightarrow> (Inl (Driver (PgErr p)), after_waits 1 w)
    | Inr (r, d) \<Rightarrow> (Inr r, (after_waits 1 w)\<lparr>w_db := d\<rparr>))"
  by (auto simp: procedure_def query_def turn_waits no_faults_def waits_db split: sum.splits)

lemma transact_calm: "no_faults w \<Longrightarrow> transact cs w =
   (case exec_all (map (with_locks (w_env w (w_pos w))) cs) (moment w 1) of
      Inl p \<Rightarrow> (Inl (Driver (PgErr p)), after_waits 1 w)
    | Inr d \<Rightarrow> (Inr (), (after_waits 1 w)\<lparr>w_db := d\<rparr>))"
  by (auto simp: transact_def turn_waits no_faults_def waits_db split: sum.splits)

lemma moment_moment [simp]: "moment (after_waits n w) m = moment w (n + m)"
  by (metis waits_db waits_add add.commute)

section \<open>Looking up a subscription\<close>

lemma find_filter: "find P xs = (case filter P xs of [] \<Rightarrow> None | x # _ \<Rightarrow> Some x)"
  by (induction xs) auto

definition its_stream :: "db \<Rightarrow> sub_row \<Rightarrow> stream_row" where
  "its_stream d b = hd (filter (\<lambda>s. s_id s = b_stream b) (streams d))"

lemma its_stream:
  assumes wf: "wf_db d" and b: "b \<in> set (subs d)"
  shows "filter (\<lambda>s. s_id s = b_stream b) (streams d) = [its_stream d b]"
    and "its_stream d b \<in> set (streams d)" "s_id (its_stream d b) = b_stream b"
proof -
  from wf b obtain s where s: "s \<in> set (streams d)" "b_stream b = s_id s"
    by (auto simp: wf_db_def wf_queue_def)
  moreover from wf have "distinct (map s_id (streams d))" by (simp add: wf_db_def wf_events_def wf_streams_def)
  ultimately have f: "filter (\<lambda>s. s_id s = b_stream b) (streams d) = [s]" by (simp add: filter_key_unique)
  with s show "filter (\<lambda>s. s_id s = b_stream b) (streams d) = [its_stream d b]"
    "its_stream d b \<in> set (streams d)" "s_id (its_stream d b) = b_stream b" by (simp_all add: its_stream_def)
qed

lemma sub_join_map: "wf_db d \<Longrightarrow> sub_join d = map (\<lambda>b. (b, its_stream d b)) (subs d)"
  unfolding sub_join_def by (rule concat_map_single) (simp add: its_stream)

lemma find_stream_its:
  assumes wf: "wf_db d" and b: "b \<in> set (subs d)" and f: "find_stream u d = Some s"
  shows "s_uuid (its_stream d b) = u \<longleftrightarrow> b_stream b = s_id s"
proof -
  from wf have D: "distinct (map s_id (streams d))" "distinct (map s_uuid (streams d))"
    by (simp_all add: wf_db_def wf_events_def wf_streams_def)
  from find_key_Some [OF f [unfolded find_stream_def]] have s: "s \<in> set (streams d)" "s_uuid s = u" by auto
  with its_stream(2,3) [OF wf b] D show ?thesis by (metis distinct_map inj_onD)
qed

lemma holder_row_find:
  assumes wf: "wf_db d"
  shows "holder_row u n d =
     (case find_stream u d of None \<Rightarrow> None | Some s \<Rightarrow> map_option b_claimed_by (find_sub (s_id s) n d))"
proof -
  have rows: "filter (\<lambda>r. s_uuid (snd r) = u \<and> b_name (fst r) = n) (sub_join d)
      = map (\<lambda>b. (b, its_stream d b)) (filter (\<lambda>b. s_uuid (its_stream d b) = u \<and> b_name b = n) (subs d))"
    by (simp add: sub_join_map [OF wf] filter_map comp_def)
  show ?thesis
  proof (cases "find_stream u d")
    case None
    then have "s_uuid s \<noteq> u" if "s \<in> set (streams d)" for s
      using that by (auto simp: find_stream_def find_None_iff)
    with its_stream(2) [OF wf] have "filter (\<lambda>b. s_uuid (its_stream d b) = u \<and> b_name b = n) (subs d) = []"
      by (auto simp: filter_empty_conv)
    with None show ?thesis unfolding holder_row_def rows by simp
  next
    case (Some s)
    have "filter (\<lambda>b. s_uuid (its_stream d b) = u \<and> b_name b = n) (subs d)
        = filter (\<lambda>b. b_stream b = s_id s \<and> b_name b = n) (subs d)"
      by (rule filter_cong) (use find_stream_its [OF wf _ Some] in auto)
    with Some show ?thesis unfolding holder_row_def rows find_sub_def find_filter by (auto split: list.split)
  qed
qed

lemma holds_holder: "wf_db d \<Longrightarrow> holds_sub u n w d \<longleftrightarrow> holder_row u n d = Some (Some w)"
  by (auto simp: holds_sub_def holder_row_find split: option.splits)

section \<open>Releasing\<close>

text \<open>The lease of a subscription is free, everything else as it was.\<close>

definition lease_freed :: "string \<Rightarrow> string \<Rightarrow> db \<Rightarrow> db" where
  "lease_freed u n d =
     (case find_stream u d of
        None \<Rightarrow> d
      | Some s \<Rightarrow> update_sub (s_id s) n (\<lambda>r. r\<lparr>b_claimed_by := None, b_expires := None\<rparr>) d)"

lemma release_exec:
  "exec (CReleaseSub (Some u) (Some n) (Some w)) d = Inr (r, d') \<Longrightarrow> holds_sub u n w d \<and> d' = lease_freed u n d"
  using fenced [of "CReleaseSub (Some u) (Some n) (Some w)"]
  by (auto simp: release_subscription_def check_sub_def check_worker_def guard_sum_def with_lease_def with_stream_def
      lease_freed_def tag_Inr split: if_splits option.splits)

lemma release_error:
  assumes wf: "wf_db d" and e: "exec (CReleaseSub (Some u) (Some n) (Some w)) d = Inl p"
  shows "pg_code p = Some ''IS020'' \<and> holder_row u n d = None
     \<or> pg_code p = Some ''IS022'' \<and> (\<exists>h. holder_row u n d = Some h \<and> h \<noteq> Some w)
     \<or> pg_code p = Some ''22023'' \<and> (n = [] \<or> w = [])"
  using e
  by (auto simp: release_subscription_def check_sub_def check_worker_def guard_sum_def with_lease_def with_stream_def
      tag_Inl sub_not_found_def lease_lost_def null_or_empty_def holder_row_find [OF wf]
      split: if_splits option.splits)

definition release_call :: "string \<Rightarrow> string \<Rightarrow> string \<Rightarrow> reply ctl" where
  "release_call u n v = mapping_errors (\<lambda>e. mapSubscriptionError e n u)
     (procedure (Inr (CReleaseSub (Some u) (Some n) (Some v))))"

text \<open>Why a release was refused, in the database it was refused in.\<close>

definition refusal :: "string \<Rightarrow> string \<Rightarrow> string \<Rightarrow> ctl_error \<Rightarrow> db \<Rightarrow> bool" where
  "refusal u n v e d \<longleftrightarrow>
     e = CtlSubscriptionNotFound n u \<and> holder_row u n d = None
     \<or> e = CtlSubscriptionLeaseLost n u \<and> (\<exists>h. holder_row u n d = Some h \<and> h \<noteq> Some v)
     \<or> sqlstateOf e = Some ''22023'' \<and> (n = [] \<or> v = [])"

lemma release_call_outcome:
  assumes wf: "wf_db (moment w 1)" and nf: "no_faults w" and r: "release_call u n v w = (r, w')"
  shows "w_pos w' = Suc (w_pos w)"
    and "r = Inr y \<Longrightarrow> holds_sub u n v (moment w 1) \<and> w_db w' = lease_freed u n (moment w 1)"
    and "r = Inl e \<Longrightarrow> w_db w' = moment w 1 \<and> refusal u n v e (moment w 1)"
proof -
  let ?c = "CReleaseSub (Some u) (Some n) (Some v)"
  have c: "with_locks x ?c = ?c" for x by simp
  note r = r [unfolded release_call_def mapping_errors_def procedure_calm [OF nf] c]
  from r show "w_pos w' = Suc (w_pos w)" by (auto split: sum.splits prod.splits)
  show "holds_sub u n v (moment w 1) \<and> w_db w' = lease_freed u n (moment w 1)" if "r = Inr y"
    using that r release_exec [of u n v "moment w 1"] by (auto simp del: exec.simps split: sum.splits prod.splits)
  show "w_db w' = moment w 1 \<and> refusal u n v e (moment w 1)" if "r = Inl e"
  proof (cases "exec ?c (moment w 1)")
    case (Inl p)
    with that r have "e = mapSubscriptionError (Driver (PgErr p)) n u" "w' = after_waits 1 w"
      by (auto simp del: exec.simps)
    with release_error [OF wf Inl] show ?thesis
      by (auto simp: refusal_def mapSubscriptionError_def waits_db)
  next
    case (Inr x)
    with that r show ?thesis by (auto simp del: exec.simps split: prod.splits)
  qed
qed

section \<open>Rebuilding\<close>

text \<open>The subscription starts over: cursor 0, no lease, no work items; everything else as it was.\<close>

definition started_over :: "string \<Rightarrow> string \<Rightarrow> db \<Rightarrow> db" where
  "started_over u n d =
     (case find_stream u d of
        None \<Rightarrow> d
      | Some s \<Rightarrow>
          d\<lparr>subs := filter (\<lambda>b. \<not> (b_stream b = s_id s \<and> b_name b = n)) (subs d)
                   @ [\<lparr>b_stream = s_id s, b_name = n, b_last_seen = 0, b_claimed_by = None, b_expires = None,
                       b_created = now d\<rparr>],
            items := filter (\<lambda>i. \<not> item_of (s_id s) n i) (items d)\<rparr>)"

lemma find_sub_absent: "find_sub k n d = None \<longleftrightarrow> (\<forall>b \<in> set (subs d). \<not> (b_stream b = k \<and> b_name b = n))"
  by (auto simp: find_sub_def find_None_iff)

lemma no_sub_no_items:
  assumes wf: "wf_db d" and f: "find_sub k n d = None"
  shows "filter (\<lambda>b. \<not> (b_stream b = k \<and> b_name b = n)) (subs d) = subs d"
    "filter (\<lambda>i. \<not> item_of k n i) (items d) = items d"
proof -
  from f show "filter (\<lambda>b. \<not> (b_stream b = k \<and> b_name b = n)) (subs d) = subs d"
    by (auto simp: find_sub_absent filter_id_conv)
  have "\<not> item_of k n i" if "i \<in> set (items d)" for i
    using that wf f by (fastforce simp: wf_db_def wf_queue_def item_of_def find_sub_absent sub_key_def)
  then show "filter (\<lambda>i. \<not> item_of k n i) (items d) = items d" by (simp add: filter_id_conv)
qed

text \<open>The claim and the release of the two last calls, where the subscription does not exist.\<close>

lemma recreate:
  assumes s: "find_stream u d = Some s" and n: "n \<noteq> []" and f: "find_sub (s_id s) n d = None"
  shows "exec_all (map (with_locks e) (rebuild_calls u n False)) d =
     Inr (d\<lparr>subs := subs d @ [\<lparr>b_stream = s_id s, b_name = n, b_last_seen = 0, b_claimed_by = None,
                                b_expires = None, b_created = now d\<rparr>]\<rparr>)"
proof -
  have frees: "map (\<lambda>b. if b_stream b = s_id s \<and> b_name b = n then g b else b) (subs d) = subs d" for g
    using f by (intro map_idI) (auto simp: find_sub_absent)
  have w: "REBUILD_WORKER_ID \<noteq> []" by (simp add: REBUILD_WORKER_ID_def)
  have look: "find_stream u (d\<lparr>subs := X\<rparr>) = Some s" for X using s by (simp add: find_stream_def)
  have found: "find_sub (s_id s) n (d\<lparr>subs := subs d @ [x]\<rparr>) = Some x" if "b_stream x = s_id s" "b_name x = n" for x
  proof -
    have "filter (\<lambda>b. b_stream b = s_id s \<and> b_name b = n) (subs d) = []"
      using f by (auto simp: find_sub_absent filter_empty_conv)
    with that show ?thesis by (simp add: find_sub_def find_filter)
  qed
  show ?thesis
    using s n f w
    by (simp add: rebuild_calls_def claim_subscription_def release_subscription_def check_sub_def check_worker_def
        check_lease_def guard_sum_def null_or_empty_def tag_def option_text_def initial_cursor_def with_lease_def
        with_stream_def look found update_sub_def frees Let_def)
qed

lemma rebuild_present:
  assumes s: "find_stream u d = Some s" and n: "n \<noteq> []" and f: "find_sub (s_id s) n d \<noteq> None"
  shows "exec_all (map (with_locks e) (rebuild_calls u n True)) d = Inr (started_over u n d)"
proof -
  let ?d = "d\<lparr>subs := filter (\<lambda>b. \<not> (b_stream b = s_id s \<and> b_name b = n)) (subs d),
              items := filter (\<lambda>i. \<not> item_of (s_id s) n i) (items d)\<rparr>"
  have "exec (CDeleteSub (Some u) (Some n)) d = Inr (RUnit, ?d)"
    using s n f by (auto simp: delete_subscription_def check_sub_def guard_sum_def null_or_empty_def tag_def with_stream_def)
  then have "exec_all (map (with_locks e) (rebuild_calls u n True)) d
      = exec_all (map (with_locks e) (rebuild_calls u n False)) ?d"
    by (simp add: rebuild_calls_def)
  also have "\<dots> = Inr (started_over u n d)"
    using s n by (subst recreate [where s = s]) (simp_all add: find_stream_def find_sub_absent started_over_def)
  finally show ?thesis .
qed

lemma rebuild_absent:
  assumes wf: "wf_db d" and s: "find_stream u d = Some s" and n: "n \<noteq> []" and f: "find_sub (s_id s) n d = None"
  shows "exec_all (map (with_locks e) (rebuild_calls u n False)) d = Inr (started_over u n d)"
  using recreate [OF s n f] s no_sub_no_items [OF wf f] by (simp add: started_over_def)

lemma rebuild_gone:
  assumes s: "find_stream u d = Some s" and n: "n \<noteq> []" and f: "find_sub (s_id s) n d = None"
  shows "exec_all (map (with_locks e) (rebuild_calls u n True)) d = Inl (sub_not_found ''delete_subscription'' n u)"
  using s n f by (simp add: rebuild_calls_def delete_subscription_def check_sub_def guard_sum_def null_or_empty_def tag_def with_stream_def)

text \<open>Two of the three calls on a subscription that exists leave its cursor and its items where they are.\<close>

lemma claim_keeps_cursors:
  assumes "exec (CClaimSub l (Some u) (Some n) wk secs opts) d = Inr (r, d')"
    "find_stream u d = Some s" "find_sub (s_id s) n d \<noteq> None"
  shows "map b_last_seen (subs d') = map b_last_seen (subs d) \<and> items d' = items d"
  using assms
  by (auto simp: claim_subscription_def check_sub_def check_worker_def check_lease_def guard_sum_def tag_Inr Let_def
      update_sub_def split: if_splits option.splits)

lemma rebuild_appeared:
  assumes s: "find_stream u d = Some s" and f: "find_sub (s_id s) n d \<noteq> None"
    and r: "exec_all (map (with_locks e) (rebuild_calls u n False)) d = Inr d'"
  shows "map b_last_seen (subs d') = map b_last_seen (subs d) \<and> items d' = items d"
proof -
  from r obtain x d1 y where
    c: "exec (CClaimSub (ev_locked e) (Some u) (Some n) (Some REBUILD_WORKER_ID) (Some 1)
          (Some (JObj [(''start_from'', JStr ''origin'')]))) d = Inr (x, d1)"
    and l: "exec (CReleaseSub (Some u) (Some n) (Some REBUILD_WORKER_ID)) d1 = Inr (y, d')"
    by (auto simp: rebuild_calls_def simp del: exec.simps split: sum.splits prod.splits)
  have "map b_last_seen (subs d') = map b_last_seen (subs d1) \<and> items d' = items d1"
    using release_exec [OF l] by (auto simp: lease_freed_def update_sub_def split: option.splits)
  with claim_keeps_cursors [OF c s f] show ?thesis by simp
qed

section \<open>The version in the text\<close>

lemma match_tail_other: "lower c \<noteq> CHR ''s'' \<Longrightarrow> match_tail prev (c # s) = None"
  by (simp add: match_tail_def skip_ci_def)

lemma match_tail_word: "is_word prev \<Longrightarrow> match_tail prev s = None"
  by (simp add: match_tail_def)

lemma match_tail_second: "lower c \<noteq> CHR ''e'' \<Longrightarrow> match_tail prev (x # c # s) = None"
  by (simp add: match_tail_def skip_ci_def)

lemma match_tail_found:
  "\<forall>c \<in> set v. c \<noteq> CHR 0x27 \<Longrightarrow> match_tail (CHR '' '') (''select '' @ [CHR 0x27] @ v @ [CHR 0x27] @ ''::text'' @ s) = Some v"
  by (simp add: match_tail_def skip_ci_def is_word_def Let_def lower_def skip_spaces1_def is_space_def takeWhile_append2)

lemma match_head_found: 
  "match_head (''create or replace function instructed.get_schema_version'' @ s) = Some s"
  by (simp add: match_head_def skip_ci_def lower_def Let_def skip_spaces1_def is_space_def)

lemma search_tail_body:
  "\<forall>c \<in> set v. c \<noteq> CHR 0x27 \<Longrightarrow> search_tail (CHR ''n'')
    ('' ()'' @ nl @ ''  returns text'' @ nl @ ''  language sql'' @ nl
     @ ''as $$'' @ nl @ ''  select '' @ [CHR 0x27] @ v @ [CHR 0x27] @ ''::text'' @ s) = Some v"
  using match_tail_found [of v s]
  by (simp add: match_tail_other match_tail_word match_tail_second lower_def is_word_def Let_def nl_def)

lemma search_version_at: "match_head s = Some r \<Longrightarrow> search_tail (CHR ''n'') r = Some v \<Longrightarrow> search_version s = Some v"
  by (cases s) (auto simp: match_head_def skip_ci_def)

lemma search_version_skip:
  "\<forall>i < length pre. match_head (drop i (pre @ t)) = None \<Longrightarrow> search_version (pre @ t) = search_version t"
proof (induction pre)
  case (Cons c pre)
  from Cons.prems have "match_head (c # pre @ t) = None" by force
  moreover from Cons.prems have "\<forall>i < length pre. match_head (drop i (pre @ t)) = None" by force
  ultimately show ?case using Cons.IH by simp
qed simp

lemma search_version_function:
  assumes v: "\<forall>c \<in> set v. c \<noteq> CHR 0x27"
    and pre: "\<forall>i < length pre. match_head (drop i (pre @ version_function v @ post)) = None"
  shows "bundledSchemaVersion (pre @ version_function v @ post) = Inr v"
proof -
  let ?rest = "'' ()'' @ nl @ ''  returns text'' @ nl @ ''  language sql'' @ nl @ ''as $$'' @ nl @ ''  select ''
      @ [CHR 0x27] @ v @ [CHR 0x27] @ ''::text'' @ ('';'' @ nl @ ''$$;'' @ nl @ post)"
  have "version_function v @ post = ''create or replace function instructed.get_schema_version'' @ ?rest"
    by (simp add: version_function_def)
  then have "search_version (version_function v @ post) = Some v"
    by (simp only: search_version_at [OF match_head_found search_tail_body [OF v]])
  with search_version_skip [OF pre] show ?thesis by (simp add: bundledSchemaVersion_def)
qed

section \<open>Sites\<close>

lemma bind_site_rule:
  assumes "bind_site m f s = (r, s')" "P s"
    and "\<And>r1 s1. m s = (r1, s1) \<Longrightarrow> P s1" and "\<And>x r1 s1 s2. P s1 \<Longrightarrow> f x s1 = (r1, s2) \<Longrightarrow> P s2"
  shows "P s'"
  using assms by (auto simp: bind_site_def split: prod.splits sum.splits)

lemma arrive_fields: "arrive s = (flt, s1) \<Longrightarrow> st_others s1 = st_others s \<and> st_now s1 = st_now s
    \<and> st_fault s1 = st_fault s \<and> st_schema s1 = st_others s (st_pos s) (st_schema s)"
  by (auto simp: arrive_def)

text \<open>
  What a sequence of statements keeps: a property of the schema that others keep and that each change of
  its own keeps.
\<close>

definition holding :: "(installation option \<Rightarrow> bool) \<Rightarrow> (nat \<Rightarrow> installation option \<Rightarrow> installation option) \<Rightarrow> int \<Rightarrow> site \<Rightarrow> bool" where
  "holding P ot t s \<longleftrightarrow> st_others s = ot \<and> st_now s = t \<and> P (st_schema s)"

lemma on_schema_holding:
  assumes r: "on_schema f s = (r, s')" and s: "holding P ot t s"
    and ot: "\<And>n i. P i \<Longrightarrow> P (ot n i)" and f: "\<And>i x i'. P i \<Longrightarrow> f i = Inr (x, i') \<Longrightarrow> P i'"
  shows "holding P ot t s'"
proof -
  obtain flt s1 where a: "arrive s = (flt, s1)" by force
  from arrive_fields [OF a] s ot have s1: "holding P ot t s1" by (simp add: holding_def)
  from r a have "s' = s1 \<or> (\<exists>x i'. f (st_schema s1) = Inr (x, i') \<and> s' = s1\<lparr>st_schema := i'\<rparr>)"
    by (auto simp: on_schema_def split: fault.splits sum.splits prod.splits)
  with s1 f show ?thesis by (auto simp: holding_def)
qed

lemma schemaPresent_holding:
  "schemaPresent s = (r, s') \<Longrightarrow> holding P ot t s \<Longrightarrow> (\<And>n i. P i \<Longrightarrow> P (ot n i)) \<Longrightarrow> holding P ot t s'"
  unfolding schemaPresent_def by (erule on_schema_holding) auto

lemma getSchemaVersion_holding:
  "getSchemaVersion s = (r, s') \<Longrightarrow> holding P ot t s \<Longrightarrow> (\<And>n i. P i \<Longrightarrow> P (ot n i)) \<Longrightarrow> holding P ot t s'"
  unfolding getSchemaVersion_def by (erule on_schema_holding) (auto split: option.splits)

lemma installSchema_holding:
  assumes r: "installSchema release False s = (r, s')" and s: "holding P ot t s" and ot: "\<And>n i. P i \<Longrightarrow> P (ot n i)"
    and new: "P None \<Longrightarrow> P (Some \<lparr>is_version = release, is_db = initial_db t\<rparr>)"
  shows "holding P ot t s'"
proof -
  have create: "holding P ot t s2"
    if "on_schema (\<lambda>i. bind_sum (run_schema_sql release (st_now s1) i) (\<lambda>i2. Inr ((), i2))) s1 = (r1, s2)"
      "holding P ot t s1" for s1 r1 s2
    by (rule on_schema_holding [OF that ot])
      (use new that(2) in \<open>auto simp: run_schema_sql_def holding_def split: option.splits\<close>)
  show ?thesis
    using r unfolding installSchema_def
    by (rule bind_site_rule [where P = "holding P ot t"])
      (use s ot in \<open>auto dest: schemaPresent_holding create getSchemaVersion_holding
          simp: bind_site_def split: if_splits prod.splits sum.splits\<close>)
qed

end
