(* ===== verification/Admin_Properties.thy ===== *)
theory Admin_Properties
  imports Admin_Laws Queue_Properties
begin

text \<open>
  Properties of the operator tool: the health report says what is the case, releasing and rebuilding do
  what they say and nothing else, and installing never destroys a store.
\<close>

section \<open>Health\<close>

lemma gapless_iff:
  assumes "distinct (vs :: nat list)"
  shows "length vs = fold max vs 0 \<and> (vs = [] \<or> (case vs of [] \<Rightarrow> 0 | v # rest \<Rightarrow> fold min rest v) = 1)
     \<longleftrightarrow> set vs = {1..length vs}" (is "?L \<longleftrightarrow> ?R")
proof (cases vs)
  case (Cons v rest)
  have mx: "fold max vs 0 = Max (insert 0 (set vs))" using Max.set_eq_fold [of 0 vs] by simp
  have mn: "fold min rest v = Min (set vs)" using Min.set_eq_fold [of v rest] Cons by simp
  show ?thesis
  proof
    assume L: ?L
    then have "x \<le> length vs" "1 \<le> x" if "x \<in> set vs" for x
      using that mx mn Cons Max_ge [of "insert 0 (set vs)" x] Min_le [of "set vs" x] by auto
    then have "set vs \<subseteq> {1..length vs}" by auto
    moreover have "card (set vs) = card {1..length vs}" using assms by (simp add: distinct_card)
    ultimately show ?R by (intro card_subset_eq) simp_all
  next
    assume R: ?R
    have "1 \<le> length vs" using Cons by (simp add: Suc_le_eq)
    then have "Max (insert 0 (set vs)) = length vs" "Min (set vs) = 1"
      unfolding R by (auto intro!: Max_eqI Min_eqI)
    with mx mn Cons show ?L by simp
  qed
qed simp

text \<open>The check of the global log passes exactly when the event numbers are 1 to N without a gap.\<close>

theorem gap_check_exact:
  assumes "distinct (map l_version (glinks d))" "\<forall>l \<in> set (glinks d). l_version l < 2 ^ 53" "length (glinks d) < 2 ^ 53"
  shows "hk_ok (allContiguous d) \<longleftrightarrow> l_version ` set (glinks d) = {1..length (glinks d)}"
proof -
  let ?vs = "map l_version (glinks d)"
  have num: "Number (int k) = of_nat k" if "k < 2 ^ 53" for k
    using that by (subst Number_exact) simp_all
  have "fold max ?vs 0 \<in> insert 0 (set ?vs)" using Max.set_eq_fold [of 0 ?vs] Max_in [of "insert 0 (set ?vs)"] by simp
  then have top: "fold max ?vs 0 < 2 ^ 53" using assms(2) by auto
  have low: "(case ?vs of [] \<Rightarrow> 0 | v # rest \<Rightarrow> fold min rest v) < 2 ^ 53"
  proof (cases ?vs)
    case (Cons v rest)
    have "fold min rest v \<in> set ?vs" using Cons Min.set_eq_fold [of v rest] Min_in [of "set ?vs"] by simp
    then show ?thesis using assms(2) Cons by auto
  qed simp
  have "hk_ok (allContiguous d) \<longleftrightarrow> length ?vs = fold max ?vs 0
      \<and> (?vs = [] \<or> (case ?vs of [] \<Rightarrow> 0 | v # rest \<Rightarrow> fold min rest v) = 1)"
    using num [OF top] num [OF low] num [OF assms(3)]
    by (simp add: allContiguous_def glinks_def [symmetric] Let_def)
  also have "\<dots> \<longleftrightarrow> set ?vs = {1..length ?vs}" by (rule gapless_iff [OF assms(1)])
  finally show ?thesis by simp
qed

text \<open>A store with a gap: the events 1 and 3.\<close>

definition gap_db :: db where
  "gap_db = (initial_db 0)\<lparr>links :=
     [\<lparr>l_event = ''a'', l_stream = 0, l_version = 1, l_orig_stream = 1, l_orig_version = 1\<rparr>,
      \<lparr>l_event = ''c'', l_stream = 0, l_version = 3, l_orig_stream = 1, l_orig_version = 3\<rparr>]\<rparr>"

theorem gap_check_exact_witness:
  "\<not> hk_ok (allContiguous gap_db)"
proof -
  have g: "glinks gap_db = links gap_db" by (simp add: glinks_def gap_db_def)
  have "hk_ok (allContiguous gap_db) \<longleftrightarrow> l_version ` set (glinks gap_db) = {1..length (glinks gap_db)}"
    by (rule gap_check_exact; simp add: g; simp add: gap_db_def)
  moreover have "3 \<in> l_version ` set (glinks gap_db)" "length (glinks gap_db) = 2"
    by (simp_all add: g) (simp_all add: gap_db_def)
  ultimately have "hk_ok (allContiguous gap_db) \<longrightarrow> (3 :: nat) \<in> {1..2}" by metis
  then show ?thesis by simp
qed

text \<open>On a store the procedures made, over a connection that does not fail, three of the four checks always pass.\<close>

lemma checkHealth_exact:
  assumes "wf_db (w_db w)" "no_faults w"
  shows "\<exists>rep. checkHealth w = (Inr rep, after_waits 4 w) \<and> length (hr_checks rep) = 4
     \<and> (hr_ok rep \<longleftrightarrow> (\<forall>b \<in> set (subs (moment w 3)). \<not> zombie (now (moment w 3)) b))"
proof -
  have wf: "wf_db (moment w n)" for n using moment_wf [OF assms(1)] .
  have one: "hk_ok (allContiguous d)" if "wf_db d" for d
  proof -
    have v: "map l_version (filter (\<lambda>l. l_stream l = 0) (links d)) = [1..<Suc (length (events d))]"
      using that by (simp add: wf_db_def wf_events_def wf_links_def glinks_def)
    have "length [1..<Suc k] = fold max [1..<Suc k] 0 \<and> ([1..<Suc k] = []
        \<or> (case [1..<Suc k] of [] \<Rightarrow> 0 | v # rest \<Rightarrow> fold min rest v) = 1)" for k
      by (subst gapless_iff) auto
    from this [of "length (events d)"] show ?thesis
      unfolding allContiguous_def v Let_def
      by (auto simp: Number_exact simp del: upt_Suc)
  qed
  have two: "hk_ok (noOrphanedStreamEvents d)" if wfd: "wf_db d" for d
  proof -
    have "l_event l \<in> e_id ` set (events d)" if l: "l \<in> set (links d)" for l
    proof -
      have all: "l_event ` set (glinks d) = e_id ` set (events d)"
        using wfd by (metis list.set_map wf_db_def wf_events_def wf_links_def)
      show ?thesis
      proof (cases "l_stream l = 0")
        case True
        with l all show ?thesis by (auto simp: glinks_def)
      next
        case False
        from wfd l obtain s where s: "s \<in> set (streams d)" "l_stream l = s_id s"
          by (auto simp: wf_db_def wf_events_def wf_links_def)
        with wfd False have "filter (\<lambda>l. l_stream l = s_id s) (links d) = map relink (from_stream (s_id s) (glinks d))"
          by (simp add: wf_db_def wf_events_def wf_origin_def)
        with l s have "l \<in> set (map relink (from_stream (s_id s) (glinks d)))" by (metis (mono_tags, lifting) mem_Collect_eq set_filter)
        with all show ?thesis by (auto simp: from_stream_def relink_def)
      qed
    qed
    then show ?thesis by (auto simp: noOrphanedStreamEvents_def zero_check_def Let_def filter_empty_conv)
  qed
  have four: "hk_ok (noOrphanedWorkItems d)" if "wf_db d" for d
    using that by (auto simp: noOrphanedWorkItems_def zero_check_def Let_def filter_empty_conv wf_db_def wf_queue_def
        sub_key_def [abs_def])
  show ?thesis
    using one [OF wf] two [OF wf] four [OF wf] assms(2)
    by (simp add: checkHealth_def bind_ctl_def select_calm return_ctl_def Let_def noExpiredLeaseZombies_def zero_check_def
       filter_empty_conv eval_nat_numeral)
qed

section \<open>Releasing\<close>

text \<open>What the tool claims of its outcome.\<close>

definition released_exactly :: "string \<Rightarrow> string \<Rightarrow> string option \<Rightarrow> db \<Rightarrow> ctl_error + string \<Rightarrow> db \<Rightarrow> bool" where
  "released_exactly u n wk d r d' \<longleftrightarrow>
     (case r of
        Inr h \<Rightarrow> holds_sub u n h d \<and> d' = lease_freed u n d \<and> wk \<in> {None, Some h}
      | Inl e \<Rightarrow> d' = d \<and>
          (if e = CtlSubscriptionNotClaimed n u then wk = None \<and> holder_row u n d = Some None
           else \<exists>v. wk \<in> {None, Some v} \<and> refusal u n v e d))"

lemma release_once:
  assumes "reachable (w_db w)" "no_faults w"
    and c: "map_ctl (\<lambda>_. v) (release_call u n v) (after_waits k w) = (r, w')" and v: "wk \<in> {None, Some v}"
  shows "released_exactly u n wk (moment w (w_pos w' - w_pos w)) r (w_db w')"
proof -
  have wf: "wf_db (moment w n)" for n using moment_wf [OF wf_reachable [OF assms(1)]] .
  obtain x w1 where x: "release_call u n v (after_waits k w) = (x, w1)" by force
  note out = release_call_outcome [OF _ _ x]
  from assms(2) wf have pre: "wf_db (moment (after_waits k w) 1)" "no_faults (after_waits k w)" by simp_all
  from c x have w1: "w1 = w'" by (auto simp: map_ctl_def split: sum.splits)
  from out(1) [OF pre] w1 have pos: "w_pos w' - w_pos w = k + 1" by simp
  show ?thesis
  proof (cases x)
    case (Inl e)
    with c x have "r = Inl e" by (auto simp: map_ctl_def)
    moreover have "e \<noteq> CtlSubscriptionNotClaimed n u" using out(3) [OF pre Inl] by (auto simp: refusal_def)
    ultimately show ?thesis using out(3) [OF pre Inl] v unfolding pos w1 by (auto simp: released_exactly_def)
  next
    case (Inr y)
    with c x have "r = Inr v" by (auto simp: map_ctl_def)
    with out(2) [OF pre Inr] v show ?thesis unfolding pos w1 by (simp add: released_exactly_def)
  qed
qed

text \<open>\<open>releaseSubscription_ctl\<close> frees the lease of the holder it names and of nobody else: when it succeeds, that
  worker held the lease at that very moment, and only that lease is gone. When it fails it has changed
  nothing, and the error is true: not found, not claimed, held by another.\<close>

theorem release_exact:
  assumes "reachable (w_db w)" "no_faults w" "releaseSubscription_ctl ref wk w = (r, w')"
  shows "let u = stream_of ref; n = cs_name ref; d = moment w (w_pos w' - w_pos w)
     in case r of
          Inr h \<Rightarrow> holds_sub u n h d \<and> w_db w' = lease_freed u n d \<and> wk \<in> {None, Some h}
        | Inl e \<Rightarrow> w_db w' = d \<and>
            (if e = CtlSubscriptionNotClaimed n u then wk = None \<and> holder_row u n d = Some None
             else \<exists>v. wk \<in> {None, Some v} \<and> refusal u n v e d)"
proof -
  let ?u = "stream_of ref" and ?n = "cs_name ref"
  note call = release_once [OF assms(1,2)]
  have "released_exactly ?u ?n wk (moment w (w_pos w' - w_pos w)) r (w_db w')"
  proof (cases wk)
    case (Some v)
    with assms(3) have "map_ctl (\<lambda>_. v) (release_call ?u ?n v) (after_waits 0 w) = (r, w')"
      by (simp add: releaseSubscription_ctl_def Let_def bind_ctl_def return_ctl_def release_call_def after_waits_def)
    from call [OF this] Some show ?thesis by simp
  next
    case None
    note r = assms(3) [unfolded releaseSubscription_ctl_def Let_def None bind_ctl_def currentHolder_def]
    note sel = select_calm [OF assms(2)]
    show ?thesis
    proof (cases "holder_row ?u ?n (moment w 1)")
      case N: None
      from r have "r = Inl (CtlSubscriptionNotFound ?n ?u)" "w' = after_waits 1 w" by (simp_all add: sel N fail_ctl_def del: One_nat_def)
      with N None show ?thesis by (auto simp: waits_db refusal_def released_exactly_def)
    next
      case H: (Some holder)
      show ?thesis
      proof (cases holder)
        case F: None
        from r have "r = Inl (CtlSubscriptionNotClaimed ?n ?u)" "w' = after_waits 1 w" by (simp_all add: sel H F fail_ctl_def del: One_nat_def)
        with H F None show ?thesis by (simp add: waits_db released_exactly_def)
      next
        case (Some h)
        from r have "map_ctl (\<lambda>_. h) (release_call ?u ?n h) (after_waits 1 w) = (r, w')"
          by (simp add: sel H Some return_ctl_def release_call_def del: One_nat_def)
        from call [OF this] None show ?thesis by simp
      qed
    qed
  qed
  then show ?thesis by (simp add: released_exactly_def Let_def)
qed

theorem release_exact_witness:
  "\<exists>w'. releaseSubscription_ctl \<lparr>cs_name = ''balances'', cs_streamUuid = None\<rparr> None (sample_world\<lparr>w_db := leased_db\<rparr>)
       = (Inr ''worker-a'', w')
     \<and> holds_sub all_uuid ''balances'' ''worker-a'' leased_db \<and> w_db w' = lease_freed all_uuid ''balances'' leased_db"
proof -
  let ?ref = "\<lparr>cs_name = ''balances'', cs_streamUuid = None\<rparr>" and ?w = "sample_world\<lparr>w_db := leased_db\<rparr>"
  have nf: "no_faults ?w" by (simp add: no_faults_def sample_world_def calm_def)
  have c: "interfere calm d = d" for d by (simp add: interfere_def calm_def pass_def)
  have m: "moment ?w n = leased_db" for n
    by (induction n) (simp_all add: moment_def sample_world_def c)
  obtain r w' where r: "releaseSubscription_ctl ?ref None ?w = (r, w')" by force
  have "case fst (releaseSubscription_ctl ?ref None ?w) of Inr h \<Rightarrow> h = ''worker-a'' | Inl _ \<Rightarrow> False" by code_simp
  with r have h: "r = Inr ''worker-a''" by (auto split: sum.splits)
  have "holds_sub all_uuid ''balances'' ''worker-a'' leased_db \<and> w_db w' = lease_freed all_uuid ''balances'' leased_db"
    using release_exact [OF _ nf r] leased_reachable(1) by (simp add: h m stream_of_def Let_def)
  with r h show ?thesis by blast
qed

section \<open>Rebuilding\<close>

text \<open>C25. \<open>rebuildSubscription\<close> starts a subscription over: afterwards its cursor is 0, it has no lease and no
  work items, and nothing else has changed, whatever locks others hold. If the subscription disappears
  while the tool looks, it fails and changes nothing; if one appears, its cursor and items stay.\<close>

theorem rebuild_resets:
  assumes "reachable (w_db w)" "no_faults w" "cs_name ref \<noteq> []" "rebuildSubscription ref w = (r, w')"
    and "find_stream (stream_of ref) (moment w 2) \<noteq> None"
  shows "let u = stream_of ref; n = cs_name ref; d = moment w 2; existed = (holder_row u n (moment w 1) \<noteq> None);
        exists_now = (holder_row u n d \<noteq> None)
     in if existed = exists_now then r = Inr existed \<and> w_db w' = started_over u n d
        else if existed then (\<exists>p. r = Inl (Driver (PgErr p)) \<and> pg_code p = Some ''IS020'') \<and> w_db w' = d
        else map b_last_seen (subs (w_db w')) = map b_last_seen (subs d) \<and> items (w_db w') = items d"
proof -
  let ?u = "stream_of ref" and ?n = "cs_name ref" and ?d = "moment w 2"
  let ?ex = "holder_row ?u ?n (moment w 1) \<noteq> None"
  have wf: "wf_db ?d" using moment_wf [OF wf_reachable [OF assms(1)]] .
  from assms(5) obtain s where s: "find_stream ?u ?d = Some s" by auto
  have now: "holder_row ?u ?n ?d = None \<longleftrightarrow> find_sub (s_id s) ?n ?d = None" by (simp add: holder_row_find [OF wf] s)
  let ?e = "w_env w (Suc (w_pos w))"
  have run: "(r, w') = (case exec_all (map (with_locks ?e) (rebuild_calls ?u ?n ?ex)) ?d of
        Inl p \<Rightarrow> (Inl (Driver (PgErr p)), after_waits 2 w) | Inr d1 \<Rightarrow> (Inr ?ex, (after_waits 2 w)\<lparr>w_db := d1\<rparr>))"
    using assms(4) [symmetric] assms(2)
    by (simp add: rebuildSubscription_def Let_def bind_ctl_def currentHolder_def select_calm map_ctl_def transact_calm
        eval_nat_numeral split: sum.splits)
  consider (same) "?ex" "find_sub (s_id s) ?n ?d \<noteq> None" | (none) "\<not> ?ex" "find_sub (s_id s) ?n ?d = None"
    | (gone) "?ex" "find_sub (s_id s) ?n ?d = None" | (new) "\<not> ?ex" "find_sub (s_id s) ?n ?d \<noteq> None" by blast
  then show ?thesis
  proof cases
    case same
    with run now rebuild_present [OF s assms(3)] show ?thesis by (simp add: Let_def)
  next
    case none
    with run now rebuild_absent [OF wf s assms(3)] show ?thesis by (simp add: Let_def)
  next
    case gone
    with run now rebuild_gone [OF s assms(3)] show ?thesis by (simp add: Let_def sub_not_found_def waits_db)
  next
    case new
    then show ?thesis using run now rebuild_appeared [OF s]
      by (auto simp: Let_def waits_db split: sum.splits)
  qed
qed

text \<open>A routed subscription whose worker still holds the lease.\<close>

theorem rebuild_resets_witness:
  "\<exists>w'. rebuildSubscription \<lparr>cs_name = ''balances'', cs_streamUuid = None\<rparr> (sample_world\<lparr>w_db := routed_db\<rparr>) = (Inr True, w')
     \<and> w_db w' = started_over all_uuid ''balances'' routed_db \<and> items routed_db \<noteq> []"
proof -
  let ?ref = "\<lparr>cs_name = ''balances'', cs_streamUuid = None\<rparr>" and ?w = "sample_world\<lparr>w_db := routed_db\<rparr>"
  have nf: "no_faults ?w" by (simp add: no_faults_def sample_world_def calm_def)
  have c: "interfere calm d = d" for d by (simp add: interfere_def calm_def pass_def)
  have m: "moment ?w n = routed_db" for n
    by (induction n) (simp_all add: moment_def sample_world_def c)
  obtain r w' where r: "rebuildSubscription ?ref ?w = (r, w')" by force
  have f: "find_stream all_uuid routed_db \<noteq> None \<and> holder_row all_uuid ''balances'' routed_db \<noteq> None
     \<and> items routed_db \<noteq> []" by code_simp
  from rebuild_resets [OF _ nf _ r] leased_reachable(2) f
  have "r = Inr True \<and> w_db w' = started_over all_uuid ''balances'' routed_db"
    by (simp add: m stream_of_def Let_def)
  with r f show ?thesis by blast
qed

section \<open>The schema\<close>


definition sample_site :: "installation option \<Rightarrow> site" where
  "sample_site i = \<lparr>st_schema = i, st_others = (\<lambda>_ i. i), st_fault = (\<lambda>_. NoFault), st_now = 0, st_pos = 0\<rparr>"

definition sample_sql :: string where
  "sample_sql = ''-- create or replace'' @ nl @ version_function ''main'' @ ''select 1;''"


text \<open>Deploying twice is deploying once: with a release whose version the tool reads from its own SQL, a first
  \<open>ensureSchema\<close> that succeeds leaves a store of that version, a second finds it current and changes nothing;
  a store of another version is refused and left alone.\<close>

theorem ensure_idempotent:
  assumes "\<forall>c \<in> set v. c \<noteq> CHR 0x27" "\<forall>i < length pre. match_head (drop i (pre @ version_function v @ post)) = None"
    and "\<And>n i. st_others s n i = i" "\<And>n. st_fault s n = NoFault"
  shows "let (r1, s1) = ensureSchema (pre @ version_function v @ post) v s
     in case r1 of
          Inl e \<Rightarrow> (\<exists>x. st_schema s = Some x \<and> is_version x \<noteq> v \<and> e = SchemaVersionMismatch (is_version x) v \<and> st_schema s1 = st_schema s)
        | Inr _ \<Rightarrow> (\<exists>s2. ensureSchema (pre @ version_function v @ post) v s1
                       = (Inr \<lparr>er_action = AlreadyCurrent, er_version = v\<rparr>, s2) \<and> st_schema s2 = st_schema s1)"
proof -
  note V = search_version_function [OF assms(1,2)]
  have stmt: "on_schema f t = (case f (st_schema t) of Inl p \<Rightarrow> (Inl (Driver (PgErr p)), t\<lparr>st_pos := Suc (st_pos t)\<rparr>)
      | Inr (x, i) \<Rightarrow> (Inr x, t\<lparr>st_pos := Suc (st_pos t), st_schema := i\<rparr>))"
    if "st_others t = st_others s" "st_fault t = st_fault s" for t :: site and f :: "installation option \<Rightarrow> pg_error + 'a \<times> installation option"
    using that assms(3,4) by (simp add: on_schema_def arrive_def split: sum.splits)
  note defs = ensureSchema_def bind_site_def schemaPresent_def getSchemaVersion_def installSchema_def stmt V
  show ?thesis
  proof (cases "st_schema s")
    case None
    then show ?thesis by (simp add: defs run_schema_sql_def)
  next
    case (Some x)
    then show ?thesis by (simp add: defs)
  qed
qed

theorem ensure_idempotent_witness:
  "\<exists>s1 s2. ensureSchema sample_sql ''main'' (sample_site None) = (Inr \<lparr>er_action = Installed, er_version = ''main''\<rparr>, s1)
     \<and> ensureSchema sample_sql ''main'' s1 = (Inr \<lparr>er_action = AlreadyCurrent, er_version = ''main''\<rparr>, s2)
     \<and> st_schema s2 = st_schema s1"
proof -
  let ?pre = "''-- create or replace'' @ nl"
  have sql: "sample_sql = ?pre @ version_function ''main'' @ ''select 1;''" by (simp add: sample_sql_def)
  obtain r1 s1 where r1: "ensureSchema sample_sql ''main'' (sample_site None) = (r1, s1)" by force
  have "list_all (\<lambda>i. match_head (drop i sample_sql) = None) [0..<length ?pre]" by code_simp
  moreover have "list_all Q [0..<k] \<Longrightarrow> \<forall>i < k. Q i" for Q :: "nat \<Rightarrow> bool" and k by (simp add: list_all_iff)
  ultimately have pre: "\<forall>i < length ?pre. match_head (drop i sample_sql) = None" by blast
  have "case fst (ensureSchema sample_sql ''main'' (sample_site None)) of
      Inr x \<Rightarrow> x = \<lparr>er_action = Installed, er_version = ''main''\<rparr> | Inl _ \<Rightarrow> False" by code_simp
  with r1 have r: "r1 = Inr \<lparr>er_action = Installed, er_version = ''main''\<rparr>" by (auto split: sum.splits)
  have "let (r1, s1) = ensureSchema (?pre @ version_function ''main'' @ ''select 1;'') ''main'' (sample_site None)
     in case r1 of
          Inl e \<Rightarrow> (\<exists>x. st_schema (sample_site None) = Some x \<and> is_version x \<noteq> ''main''
             \<and> e = SchemaVersionMismatch (is_version x) ''main'' \<and> st_schema s1 = st_schema (sample_site None))
        | Inr _ \<Rightarrow> (\<exists>s2. ensureSchema (?pre @ version_function ''main'' @ ''select 1;'') ''main'' s1
                       = (Inr \<lparr>er_action = AlreadyCurrent, er_version = ''main''\<rparr>, s2) \<and> st_schema s2 = st_schema s1)"
    by (rule ensure_idempotent) (use pre sql in \<open>simp_all add: sample_site_def\<close>)
  with r1 r show ?thesis unfolding sql [symmetric] by auto
qed

text \<open>Two deployments at once: the other one installs the same release after this one has looked. This one fails
  although the store is current from then on.\<close>

definition racing_site :: site where
  "racing_site = (sample_site None)\<lparr>st_others := (\<lambda>n i. if n = 1 \<and> i = None
     then Some \<lparr>is_version = ''main'', is_db = initial_db 0\<rparr> else i)\<rparr>"

theorem ensure_loses_race:
  "\<exists>s'. ensureSchema sample_sql ''main'' racing_site = (Inl SchemaAlreadyInstalled, s')
     \<and> st_schema s' = Some \<lparr>is_version = ''main'', is_db = initial_db 0\<rparr>"
  by (simp add: ensureSchema_def bind_site_def schemaPresent_def on_schema_def arrive_def racing_site_def sample_site_def
      installSchema_def)

end
