(* ===== verification/Admin_Cli.thy ===== *)
theory Admin_Cli
  imports Admin_Schema Json_Text Client_Laws
begin

text \<open>
  The command line of the operator tool, tools/instructedctl/src/cli: what each command prints and the
  code it exits with. Parsing the arguments is the option parser's; here a command comes with its parsed
  options, an option that was not given being \<open>None\<close>. A table is handed to the table library as headers and
  rows.
\<close>

section \<open>Output (output.ts)\<close>

datatype out = Out string | Err string | TableOut "string list" "string list list"

datatype cell_value = Text string | Num rat | Null

definition opt_text :: "string option \<Rightarrow> cell_value" where
  "opt_text s = (case s of None \<Rightarrow> Null | Some t \<Rightarrow> Text t)"

definition opt_num :: "rat option \<Rightarrow> cell_value" where
  "opt_num s = (case s of None \<Rightarrow> Null | Some t \<Rightarrow> Num t)"

fun cell :: "cell_value \<Rightarrow> string" where
  "cell (Text s) = s"
| "cell (Num r) = show_num r"
| "cell Null = ''-''"

definition printJson :: "json \<Rightarrow> out list" where
  "printJson v = [Out (json_indented [] v)]"

definition printTable :: "string list \<Rightarrow> cell_value list list \<Rightarrow> out list" where
  "printTable headers rows = (if rows = [] then [Out ''(none)''] else [TableOut headers (map (map cell) rows)])"

definition printKeyValue :: "(string \<times> cell_value) list \<Rightarrow> out list" where
  "printKeyValue pairs =
     (let width = fold max (map (length \<circ> fst) pairs) 0
      in map (\<lambda>(k, v). Out (padEnd width k @ '' : '' @ cell v)) pairs)"

section \<open>Configuration (db.ts, options.ts)\<close>

record global_options =
  go_database :: "string option"
  go_host :: "string option"
  go_port :: "rat option"
  go_user :: "string option"
  go_verbose :: bool
  go_json :: bool

text \<open>\<open>a || b\<close> on texts: a missing or empty one gives way.\<close>

definition or_text :: "string option \<Rightarrow> string option \<Rightarrow> string option" where
  "or_text a b = (case a of None \<Rightarrow> b | Some [] \<Rightarrow> b | Some s \<Rightarrow> Some s)"

definition DEFAULT_URI :: string where
  "DEFAULT_URI = ''postgresql://localhost/instructed''"

definition looksLikeUri :: "string \<Rightarrow> bool" where
  "looksLikeUri v \<longleftrightarrow> skip_ci ''postgres://'' v \<noteq> None \<or> skip_ci ''postgresql://'' v \<noteq> None"

definition resolveDatabaseArgument :: "(string \<Rightarrow> string option) \<Rightarrow> string option \<Rightarrow> string" where
  "resolveDatabaseArgument env explicit =
     the (or_text explicit (or_text (env ''INSTRUCTED_DATABASE_URL'') (or_text (env ''PGDATABASE'') (Some DEFAULT_URI))))"

text \<open>A port given as a number, or the text that \<open>Number\<close> is applied to.\<close>

datatype port = Port rat | PortText string

record host_config =
  hc_host :: string
  hc_port :: port
  hc_user :: string
  hc_password :: "string option"
  hc_database :: string

datatype db_config = Uri string | Parts host_config

definition configFromOptions :: "(string \<Rightarrow> string option) \<Rightarrow> global_options \<Rightarrow> db_config" where
  "configFromOptions env g =
     (let database = resolveDatabaseArgument env (go_database g)
      in if looksLikeUri database then Uri database
         else Parts
           \<lparr>hc_host = the (or_text (go_host g) (or_text (env ''PGHOST'') (Some ''localhost''))),
            hc_port = (case go_port g of Some p \<Rightarrow> if p = 0 then PortText (the (or_text (env ''PGPORT'') (Some ''5432''))) else Port p
                       | None \<Rightarrow> PortText (the (or_text (env ''PGPORT'') (Some ''5432'')))),
            hc_user = the (or_text (go_user g) (or_text (env ''PGUSER'') (or_text (env ''USER'') (Some [])))),
            hc_password = or_text (env ''PGPASSWORD'') None,
            hc_database = database\<rparr>)"

text \<open>
  \<open>parse_url\<close> is the platform's \<open>URL\<close>: \<open>None\<close> where the constructor throws, else the password and the text of the
  URL with a given password. \<open>number_text\<close> is its \<open>String(Number(text))\<close>.
\<close>

type_synonym url_parser = "string \<Rightarrow> (string \<times> (string \<Rightarrow> string)) option"

definition sanitizeUri :: "url_parser \<Rightarrow> string \<Rightarrow> string" where
  "sanitizeUri parse_url uri =
     (case parse_url uri of
        None \<Rightarrow> uri
      | Some (password, text_with) \<Rightarrow> text_with (if password \<noteq> [] then ''****'' else password))"

definition describeConfig :: "url_parser \<Rightarrow> (string \<Rightarrow> string) \<Rightarrow> db_config \<Rightarrow> (string \<times> string) list" where
  "describeConfig parse_url number_text c =
     (case c of
        Uri u \<Rightarrow> [(''URI'', sanitizeUri parse_url u)]
      | Parts h \<Rightarrow>
          [(''Host'', hc_host h),
           (''Port'', case hc_port h of Port p \<Rightarrow> show_num p | PortText t \<Rightarrow> number_text t),
           (''User'', hc_user h), (''Database'', hc_database h)])"

text \<open>What \<open>runWith\<close> prints first.\<close>

definition verbose_lines :: "url_parser \<Rightarrow> (string \<Rightarrow> string) \<Rightarrow> (string \<Rightarrow> string option) \<Rightarrow> global_options \<Rightarrow> out list" where
  "verbose_lines parse_url number_text env g =
     (if go_verbose g
      then Err ''Configuration:'' # map (\<lambda>(l, v). Err (''  '' @ l @ '': '' @ v)) (describeConfig parse_url number_text (configFromOptions env g))
      else [])"

text \<open>\<open>withDb\<close>: connecting and closing are awaited calls that may fail; the connection is closed in any case.\<close>

definition withDb :: "'a ctl \<Rightarrow> 'a ctl" where
  "withDb fn = bind_ctl (select (\<lambda>_. ())) (\<lambda>_ w1.
     case fn w1 of (r, w2) \<Rightarrow>
       (case select (\<lambda>_. ()) w2 of (Inl e, w3) \<Rightarrow> (Inl e, w3) | (Inr _, w3) \<Rightarrow> (r, w3)))"

section \<open>A command\<close>

type_synonym 'w cli = "'w \<Rightarrow> (out list \<times> nat) \<times> 'w"

text \<open>\<open>action\<close>: an error becomes a line and exit code 1; \<open>show\<close> prints a result, with the code it exits with.\<close>

definition failing :: "string \<Rightarrow> out list \<times> nat" where
  "failing msg = ([Err msg], 1)"

definition action :: "('a \<Rightarrow> out list \<times> nat) \<Rightarrow> 'a ctl \<Rightarrow> world cli" where
  "action show m w =
     (case withDb m w of
        (Inl e, w1) \<Rightarrow> (failing (''Error: '' @ error_text e), w1)
      | (Inr x, w1) \<Rightarrow> (show x, w1))"

definition printing :: "global_options \<Rightarrow> ('a \<Rightarrow> json) \<Rightarrow> ('a \<Rightarrow> out list) \<Rightarrow> 'a \<Rightarrow> out list \<times> nat" where
  "printing g js plain x = ((if go_json g then printJson (js x) else plain x), 0)"

text \<open>As JSON a missing record is \<open>null\<close>; as a table it is an error.\<close>

definition printing_found :: "global_options \<Rightarrow> string \<Rightarrow> ('a \<Rightarrow> json) \<Rightarrow> ('a \<Rightarrow> out list) \<Rightarrow> 'a option \<Rightarrow> out list \<times> nat" where
  "printing_found g msg js plain x =
     (if go_json g then (printJson (case x of None \<Rightarrow> JNull | Some y \<Rightarrow> js y), 0)
      else case x of None \<Rightarrow> failing msg | Some y \<Rightarrow> (plain y, 0))"

definition opt_json :: "('a \<Rightarrow> json) \<Rightarrow> 'a option \<Rightarrow> json" where
  "opt_json f x = (case x of None \<Rightarrow> JNull | Some y \<Rightarrow> f y)"

definition date_json :: "int \<Rightarrow> json" where
  "date_json t = JStr (toISOString t)"

section \<open>streams and all (commands/streams.ts)\<close>

definition DEFAULT_COUNT :: rat where
  "DEFAULT_COUNT = 20"

definition or_default :: "'a \<Rightarrow> 'a option \<Rightarrow> 'a" where
  "or_default d x = (case x of None \<Rightarrow> d | Some y \<Rightarrow> y)"

definition stream_json :: "stream_summary \<Rightarrow> json" where
  "stream_json s = JObj [(''streamUuid'', JStr (sx_stream s)), (''head'', JNum (sx_head s)), (''eventCount'', JNum (sx_count s))]"

definition event_json :: "event_record \<Rightarrow> json" where
  "event_json e =
     JObj [(''eventId'', JStr (ev_eventId e)), (''eventNumber'', JNum (ev_eventNumber e)),
           (''streamUuid'', JStr (ev_streamUuid e)), (''streamVersion'', JNum (ev_streamVersion e)),
           (''eventType'', JStr (ev_eventType e)), (''causationId'', opt_json JStr (ev_causationId e)),
           (''correlationId'', opt_json JStr (ev_correlationId e)), (''data'', ev_data e),
           (''metadata'', opt_json id (ev_metadata e)), (''createdAt'', date_json (ev_createdAt e))]"

definition eventsTable :: "event_record list \<Rightarrow> out list" where
  "eventsTable es =
     printTable [''EVENT#'', ''STREAM'', ''VER'', ''TYPE'', ''CREATED'']
       (map (\<lambda>e. [Num (ev_eventNumber e), Text (ev_streamUuid e), Num (ev_streamVersion e), Text (ev_eventType e),
                   Text (toISOString (ev_createdAt e))]) es)"

definition streams_list :: "(string \<Rightarrow> 'k :: linorder) \<Rightarrow> global_options \<Rightarrow> world cli" where
  "streams_list coll g = action (printing g (JArr \<circ> map stream_json)
     (\<lambda>ss. printTable [''STREAM'', ''HEAD'', ''EVENTS'']
        (map (\<lambda>s. [Text (sx_stream s), Num (sx_head s), Num (sx_count s)]) ss))) (listStreams coll)"

definition streams_get :: "global_options \<Rightarrow> string \<Rightarrow> world cli" where
  "streams_get g u = action (printing_found g (''Stream '' @ apos u @ '' not found'') stream_json
     (\<lambda>s. printKeyValue [(''stream'', Text (sx_stream s)), (''head'', Num (sx_head s)), (''events'', Num (sx_count s))]))
     (getStream u)"

definition streams_read :: "global_options \<Rightarrow> string \<Rightarrow> rat option \<Rightarrow> rat option \<Rightarrow> world cli" where
  "streams_read g u start count = action (printing g (JArr \<circ> map event_json) eventsTable)
     (readStreamCtl u (or_default 0 start) (or_default DEFAULT_COUNT count))"

definition all_read :: "global_options \<Rightarrow> rat option \<Rightarrow> rat option \<Rightarrow> world cli" where
  "all_read g start count = action (printing g (JArr \<circ> map event_json) eventsTable)
     (readAllCtl (or_default 0 start) (or_default DEFAULT_COUNT count))"

section \<open>subscriptions (commands/subscriptions.ts)\<close>

definition iso :: "int option \<Rightarrow> cell_value" where
  "iso d = opt_text (map_option toISOString d)"

definition sub_json :: "subscription_summary \<Rightarrow> json" where
  "sub_json s =
     JObj [(''subscriptionName'', JStr (ss_name s)), (''streamUuid'', JStr (ss_stream s)),
           (''lastSeen'', JNum (ss_lastSeen s)), (''lag'', JNum (ss_lag s)),
           (''claimedBy'', opt_json JStr (ss_claimedBy s)), (''claimExpiresAt'', opt_json date_json (ss_expires s)),
           (''createdAt'', date_json (ss_created s))]"

definition subs_table :: "subscription_summary list \<Rightarrow> out list" where
  "subs_table ss =
     printTable [''NAME'', ''STREAM'', ''LAST SEEN'', ''LAG'', ''CLAIMED BY'', ''LEASE EXPIRES'']
       (map (\<lambda>s. [Text (ss_name s), Text (ss_stream s), Num (ss_lastSeen s), Num (ss_lag s), opt_text (ss_claimedBy s),
                   iso (ss_expires s)]) ss)"

definition subs_list :: "(string \<Rightarrow> 'k :: linorder) \<Rightarrow> global_options \<Rightarrow> world cli" where
  "subs_list coll g = action (printing g (JArr \<circ> map sub_json) subs_table) (listSubscriptions coll)"

definition subs_get :: "(string \<Rightarrow> 'k :: linorder) \<Rightarrow> global_options \<Rightarrow> string \<Rightarrow> world cli" where
  "subs_get coll g name = action
     (\<lambda>ss. if go_json g then (printJson (JArr (map sub_json ss)), 0)
           else if ss = [] then failing (''Subscription '' @ apos name @ '' not found'') else (subs_table ss, 0))
     (getSubscription coll name)"

text \<open>\<open>streamOf\<close>: the option parser's default is \<open>$all\<close> too.\<close>

definition ref_of :: "string \<Rightarrow> string option \<Rightarrow> subscription_ref_ctl" where
  "ref_of name stream = \<lparr>cs_name = name, cs_streamUuid = Some (or_default all_uuid stream)\<rparr>"

definition subs_release :: "global_options \<Rightarrow> string \<Rightarrow> string option \<Rightarrow> string option \<Rightarrow> world cli" where
  "subs_release g name stream workerId = action
     (printing g (\<lambda>h. JObj [(''releasedFrom'', JStr h)])
        (\<lambda>h. [Out (''Released '' @ apos name @ '' (was held by '' @ h @ '')'')]))
     (releaseSubscription_ctl (ref_of name stream) workerId)"

definition subs_delete :: "global_options \<Rightarrow> string \<Rightarrow> string option \<Rightarrow> bool \<Rightarrow> world cli" where
  "subs_delete g name stream yes w =
     (if \<not> yes then (failing (''Refusing to delete '' @ apos name
          @ '' without --yes (this removes the cursor and all its work items).''), w)
      else action (printing g (\<lambda>_. JObj [(''deleted'', JStr name)])
             (\<lambda>_. [Out (''Deleted subscription '' @ apos name)]))
             (deleteSubscription_ctl (ref_of name stream)) w)"

definition claim_text :: "claim_report \<Rightarrow> string" where
  "claim_text r = (if cx_claimed r then ''claimed'' else ''already_claimed'')"

definition claim_json :: "claim_report \<Rightarrow> json" where
  "claim_json r =
     JObj [(''result'', JStr (claim_text r)), (''lastSeen'', JNum (cx_lastSeen r)),
           (''claimedBy'', opt_json JStr (cx_claimedBy r)), (''claimExpiresAt'', opt_json date_json (cx_expires r))]"

definition subs_claim ::
  "global_options \<Rightarrow> string \<Rightarrow> string option \<Rightarrow> string option \<Rightarrow> rat option \<Rightarrow> string option \<Rightarrow> world cli" where
  "subs_claim g name stream workerId leaseSeconds startFrom = action
     (printing g claim_json
        (\<lambda>r. printKeyValue [(''result'', Text (claim_text r)), (''last seen'', Num (cx_lastSeen r)),
                             (''claimed by'', opt_text (cx_claimedBy r)), (''lease expires'', iso (cx_expires r))]))
     (claimSubscription_ctl (ref_of name stream) (or_default ''instructedctl'' workerId) (or_default 60 leaseSeconds) startFrom)"

definition subs_rebuild :: "global_options \<Rightarrow> string \<Rightarrow> string option \<Rightarrow> bool \<Rightarrow> world cli" where
  "subs_rebuild g name stream yes w =
     (if \<not> yes then (failing (''Refusing to rebuild '' @ apos name
          @ '' without --yes (this resets the cursor to origin; stop the worker first, and wipe the read store separately).''), w)
      else action (printing g (\<lambda>existed. JObj [(''rebuilt'', JStr name), (''existed'', JBool existed)])
             (\<lambda>existed. [Out (''Rebuilt '' @ apos name @ '' '' @ dash @ '' cursor reset to origin''
                 @ (if existed then [] else '' (subscription did not previously exist)''))]))
             (rebuildSubscription (ref_of name stream)) w)"

section \<open>work-items, snapshots and health\<close>

definition counts_json :: "work_item_counts \<Rightarrow> json" where
  "counts_json c =
     JObj [(''subscriptionName'', JStr (wc_name c)), (''pending'', JNum (wc_pending c)), (''claimed'', JNum (wc_claimed c)),
           (''failed'', JNum (wc_failed c)), (''done'', JNum (wc_done c)), (''total'', JNum (wc_total c)),
           (''oldestActiveEventNumber'', opt_json JNum (wc_oldest c))]"

definition items_list :: "(string \<Rightarrow> 'k :: linorder) \<Rightarrow> global_options \<Rightarrow> string option \<Rightarrow> world cli" where
  "items_list coll g sub = action
     (printing g (JArr \<circ> map counts_json)
        (\<lambda>cs. printTable [''SUBSCRIPTION'', ''PENDING'', ''CLAIMED'', ''FAILED'', ''DONE'', ''TOTAL'', ''OLDEST ACTIVE'']
           (map (\<lambda>c. [Text (wc_name c), Num (wc_pending c), Num (wc_claimed c), Num (wc_failed c), Num (wc_done c),
                       Num (wc_total c), opt_num (wc_oldest c)]) cs)))
     (listWorkItemCounts coll sub)"

definition failed_json :: "failed_work_item \<Rightarrow> json" where
  "failed_json f =
     JObj [(''subscriptionName'', JStr (fw_name f)), (''partitionKey'', JStr (fw_partition f)),
           (''eventNumber'', JNum (fw_event f)), (''failedAt'', opt_json date_json (fw_failedAt f)),
           (''errorText'', opt_json JStr (fw_error f))]"

definition items_failed :: "(string \<Rightarrow> 'k :: linorder) \<Rightarrow> global_options \<Rightarrow> string option \<Rightarrow> world cli" where
  "items_failed coll g sub = action
     (printing g (JArr \<circ> map failed_json)
        (\<lambda>fs. printTable [''SUBSCRIPTION'', ''PARTITION'', ''EVENT#'', ''FAILED AT'', ''ERROR'']
           (map (\<lambda>f. [Text (fw_name f), Text (fw_partition f), Num (fw_event f), iso (fw_failedAt f), opt_text (fw_error f)]) fs)))
     (listFailedWorkItems coll sub)"

definition snapshot_json :: "snapshot_record \<Rightarrow> json" where
  "snapshot_json r =
     JObj [(''sourceUuid'', JStr (sr_sourceUuid r)), (''sourceType'', JStr (sr_sourceType r)),
           (''sourceVersion'', JNum (sr_sourceVersion r)), (''data'', sr_data r),
           (''metadata'', opt_json id (sr_metadata r)), (''createdAt'', date_json (sr_createdAt r))]"

definition snapshots_get :: "global_options \<Rightarrow> string \<Rightarrow> world cli" where
  "snapshots_get g u = action
     (printing_found g (''Snapshot '' @ apos u @ '' not found'') snapshot_json
        (\<lambda>r. printKeyValue
           [(''source uuid'', Text (sr_sourceUuid r)), (''source type'', Text (sr_sourceType r)),
            (''source version'', Num (sr_sourceVersion r)), (''created at'', Text (toISOString (sr_createdAt r))),
            (''data'', Text (json_stringify (sr_data r))),
            (''metadata'', case sr_metadata r of None \<Rightarrow> Null | Some JNull \<Rightarrow> Null | Some m \<Rightarrow> Text (json_stringify m))]))
     (getSnapshot u)"

definition health_json :: "health_report \<Rightarrow> json" where
  "health_json r =
     JObj [(''ok'', JBool (hr_ok r)),
           (''checks'', JArr (map (\<lambda>c. JObj [(''name'', JStr (hk_name c)), (''ok'', JBool (hk_ok c)), (''detail'', JStr (hk_detail c))])
                             (hr_checks r)))]"

definition health :: "global_options \<Rightarrow> world cli" where
  "health g = action
     (\<lambda>r. (fst (printing g health_json
              (\<lambda>r. printTable [''CHECK'', ''STATUS'', ''DETAIL'']
                 (map (\<lambda>c. [Text (hk_name c), Text (if hk_ok c then ''ok'' else ''FAIL''), Text (hk_detail c)]) (hr_checks r))) r),
            if hr_ok r then 0 else 1))
     checkHealth"

section \<open>The command line\<close>

datatype command =
    StreamsList
  | StreamsGet string
  | StreamsRead string "rat option" "rat option"
  | AllRead "rat option" "rat option"
  | SubsList
  | SubsGet string
  | SubsRelease string "string option" "string option"
  | SubsDelete string "string option" bool
  | SubsClaim string "string option" "string option" "rat option" "string option"
  | SubsRebuild string "string option" bool
  | ItemsList "string option"
  | ItemsFailed "string option"
  | SnapshotsGet string
  | Health

fun run_command :: "(string \<Rightarrow> 'k :: linorder) \<Rightarrow> global_options \<Rightarrow> command \<Rightarrow> world cli" where
  "run_command coll g StreamsList = streams_list coll g"
| "run_command coll g (StreamsGet u) = streams_get g u"
| "run_command coll g (StreamsRead u start count) = streams_read g u start count"
| "run_command coll g (AllRead start count) = all_read g start count"
| "run_command coll g SubsList = subs_list coll g"
| "run_command coll g (SubsGet n) = subs_get coll g n"
| "run_command coll g (SubsRelease n stream wk) = subs_release g n stream wk"
| "run_command coll g (SubsDelete n stream yes) = subs_delete g n stream yes"
| "run_command coll g (SubsClaim n stream wk secs start) = subs_claim g n stream wk secs start"
| "run_command coll g (SubsRebuild n stream yes) = subs_rebuild g n stream yes"
| "run_command coll g (ItemsList sub) = items_list coll g sub"
| "run_command coll g (ItemsFailed sub) = items_failed coll g sub"
| "run_command coll g (SnapshotsGet u) = snapshots_get g u"
| "run_command coll g Health = health g"

text \<open>
  What the process prints and its exit code. The configuration is described before the tool connects; the
  two refusals come before that.
\<close>

fun refused_command :: "command \<Rightarrow> bool" where
  "refused_command (SubsDelete _ _ yes) \<longleftrightarrow> \<not> yes"
| "refused_command (SubsRebuild _ _ yes) \<longleftrightarrow> \<not> yes"
| "refused_command _ \<longleftrightarrow> False"

definition run_tool ::
  "url_parser \<Rightarrow> (string \<Rightarrow> string) \<Rightarrow> (string \<Rightarrow> string option) \<Rightarrow> (string \<Rightarrow> 'k :: linorder) \<Rightarrow> global_options
     \<Rightarrow> command \<Rightarrow> world cli" where
  "run_tool parse_url number_text env coll g c w =
     (case run_command coll g c w of ((outs, code), w1) \<Rightarrow>
        (((if refused_command c then outs else verbose_lines parse_url number_text env g @ outs), code), w1))"

section \<open>schema (commands/schema.ts)\<close>

definition with_site :: "'a on_site \<Rightarrow> 'a on_site" where
  "with_site fn = bind_site (on_schema (\<lambda>i. Inr ((), i))) (\<lambda>_ s1.
     case fn s1 of (r, s2) \<Rightarrow>
       (case on_schema (\<lambda>i. Inr ((), i)) s2 of (Inl e, s3) \<Rightarrow> (Inl e, s3) | (Inr u, s3) \<Rightarrow> (r, s3)))"

text \<open>These commands leave their errors to \<open>main\<close>, except for the two they explain.\<close>

definition site_action :: "(ctl_error \<Rightarrow> string) \<Rightarrow> ('a \<Rightarrow> out list \<times> nat) \<Rightarrow> 'a on_site \<Rightarrow> site cli" where
  "site_action explain show m s =
     (case with_site m s of
        (Inl e, s1) \<Rightarrow> (failing (explain e), s1)
      | (Inr x, s1) \<Rightarrow> (show x, s1))"

definition plain_error :: "ctl_error \<Rightarrow> string" where
  "plain_error e = ''Error: '' @ error_text e"

definition status_json :: "store_status \<Rightarrow> json" where
  "status_json r =
     JObj [(''schemaVersion'', JStr (so_version r)), (''allHead'', JNum (so_allHead r)), (''streams'', JNum (so_streams r)),
           (''events'', JNum (so_events r)), (''subscriptions'', JNum (so_subscriptions r))]"

definition schema_status :: "global_options \<Rightarrow> site cli" where
  "schema_status g = site_action plain_error
     (printing g status_json
        (\<lambda>r. printKeyValue [(''schema version'', Text (so_version r)), (''$all head'', Num (so_allHead r)),
               (''streams'', Num (so_streams r)), (''events'', Num (so_events r)), (''subscriptions'', Num (so_subscriptions r))]))
     getStatus"

definition schema_version :: "global_options \<Rightarrow> site cli" where
  "schema_version g = site_action plain_error (\<lambda>v. ([Out v], 0)) getSchemaVersion"

definition action_text :: "install_action \<Rightarrow> string" where
  "action_text a = (case a of Installed \<Rightarrow> ''installed'' | Reinstalled \<Rightarrow> ''reinstalled'' | AlreadyCurrent \<Rightarrow> ''already-current'')"

definition install_json :: "install_result \<Rightarrow> json" where
  "install_json r =
     JObj [(''alreadyExisted'', JBool (ir_alreadyExisted r)), (''action'', JStr (action_text (ir_action r))),
           (''schemaVersion'', JStr (ir_version r))]"

definition schema_install :: "string \<Rightarrow> global_options \<Rightarrow> bool option \<Rightarrow> site cli" where
  "schema_install release g force = site_action
     (\<lambda>e. if e = SchemaAlreadyInstalled
          then ''Error: the '' @ apos ''instructed'' @ '' schema already exists. Re-run with --force to drop and reinstall (this destroys all data).''
          else plain_error e)
     (printing g install_json
        (\<lambda>r. [Out (''instructed schema '' @ action_text (ir_action r) @ '' successfully (version '' @ ir_version r @ '')'')]))
     (installSchema release (force = Some True))"

definition ensure_json :: "ensure_result \<Rightarrow> json" where
  "ensure_json r = JObj [(''action'', JStr (action_text (er_action r))), (''schemaVersion'', JStr (er_version r))]"

definition schema_ensure :: "string \<Rightarrow> string \<Rightarrow> global_options \<Rightarrow> site cli" where
  "schema_ensure sql release g = site_action
     (\<lambda>e. case e of SchemaVersionMismatch a b \<Rightarrow>
              ''Error: '' @ error_text e @ '' Use '' @ apos ''schema install --force'' @ '' to drop and reinstall (this destroys all data).''
          | _ \<Rightarrow> plain_error e)
     (printing g ensure_json
        (\<lambda>r. [Out (if er_action r = Installed
                   then ''instructed schema installed successfully (version '' @ er_version r @ '')''
                   else ''instructed schema already current (version '' @ er_version r @ ''); nothing to do'')]))
     (ensureSchema sql release)"

end
