(* ===== verification/Cli_Properties.thy ===== *)
theory Cli_Properties
  imports Admin_Properties Admin_Cli
begin

text \<open>
  Properties of the operator tool's command line: which commands change the store, what an exit code
  means.
\<close>

section \<open>Functions that change nothing, functions whose failure changes nothing\<close>

definition untouched :: "'a ctl \<Rightarrow> bool" where
  "untouched m \<longleftrightarrow> (\<forall>w r w'. m w = (r, w') \<longrightarrow> quiet w w')"

definition harmless :: "'a ctl \<Rightarrow> bool" where
  "harmless m \<longleftrightarrow> (\<forall>w r w'. no_faults w \<longrightarrow> m w = (r, w') \<longrightarrow> no_faults w' \<and> (\<forall>e. r = Inl e \<longrightarrow> quiet w w'))"

lemma quiet_faults: "quiet w w' \<Longrightarrow> no_faults w' = no_faults w"
  by (simp add: quiet_def no_faults_def)

lemma quiet_turn_fst: "turn w = (e, w1) \<Longrightarrow> quiet w w1"
  by (rule quiet_turn) (auto simp: turn_def Let_def)

lemma quiet_waits: "quiet w (after_waits n w)"
proof (induction n)
  case (Suc n)
  have "after_waits (Suc n) w = snd (turn (after_waits n w))" by (simp add: after_waits_def)
  with Suc quiet_turn_fst show ?case by (metis prod.collapse quiet_trans)
qed (simp add: after_waits_def quiet_refl)

lemma untouched_select: "untouched (select f)"
  unfolding untouched_def
  by (auto simp: select_def dest: quiet_turn_fst split: prod.splits fault.splits)

lemma untouched_procedure:
  assumes "reading c"
  shows "untouched (procedure c)"
  unfolding untouched_def
proof (intro allI impI)
  fix w r w'
  assume r: "procedure c w = (r, w')"
  obtain e w1 where t: "turn w = (e, w1)" by force
  have "w' = w1"
  proof (cases c)
    case (Inl p)
    with r t show ?thesis by (auto simp: procedure_def query_def split: fault.splits)
  next
    case (Inr c1)
    show ?thesis
    proof (cases "exec (with_locks e c1) (w_db w1)")
      case (Inl p)
      with r t Inr show ?thesis by (auto simp: procedure_def query_def split: fault.splits)
    next
      case x: (Inr rd)
      obtain y d where rd: "rd = (y, d)" by force
      from assms Inr x rd have "d = w_db w1" unfolding reading_def by blast
      with r t Inr x rd show ?thesis by (auto simp: procedure_def query_def split: fault.splits)
    qed
  qed
  with quiet_turn_fst [OF t] show "quiet w w'" by simp
qed

lemma untouched_bind:
  assumes "untouched m" "\<And>x. untouched (f x)"
  shows "untouched (bind_ctl m f)"
  unfolding untouched_def
proof (intro allI impI)
  fix w r w'
  assume r: "bind_ctl m f w = (r, w')"
  obtain x w1 where m: "m w = (x, w1)" by force
  with assms(1) have q: "quiet w w1" by (simp add: untouched_def)
  show "quiet w w'"
  proof (cases x)
    case (Inr y)
    with r m have "f y w1 = (r, w')" by (simp add: bind_ctl_def)
    with assms(2) q show ?thesis unfolding untouched_def by (metis quiet_trans)
  qed (use r m q in \<open>simp add: bind_ctl_def\<close>)
qed

lemma untouched_return: "untouched (return_ctl x)" "untouched (fail_ctl e)"
  by (simp_all add: untouched_def return_ctl_def fail_ctl_def quiet_refl)

lemma untouched_map: "untouched m \<Longrightarrow> untouched (map_ctl f m)" "untouched m \<Longrightarrow> untouched (mapping_errors h m)"
  unfolding untouched_def by (auto simp: map_ctl_def mapping_errors_def split: prod.splits sum.splits)

lemma untouched_harmless: "untouched m \<Longrightarrow> harmless m"
  unfolding untouched_def harmless_def using quiet_faults by blast

lemma harmless_bind:
  assumes "untouched m" "\<And>x. harmless (f x)"
  shows "harmless (bind_ctl m f)"
  unfolding harmless_def
proof (intro allI impI)
  fix w r w'
  assume nf: "no_faults w" and r: "bind_ctl m f w = (r, w')"
  obtain x w1 where m: "m w = (x, w1)" by force
  with assms(1) have q: "quiet w w1" by (simp add: untouched_def)
  with nf have nf1: "no_faults w1" by (simp add: quiet_faults)
  show "no_faults w' \<and> (\<forall>e. r = Inl e \<longrightarrow> quiet w w')"
  proof (cases x)
    case (Inr y)
    with r m have "f y w1 = (r, w')" by (simp add: bind_ctl_def)
    with assms(2) nf1 q show ?thesis unfolding harmless_def by (metis quiet_trans)
  qed (use r m q nf1 in \<open>simp add: bind_ctl_def\<close>)
qed

lemma harmless_map: "harmless m \<Longrightarrow> harmless (map_ctl f m)" "harmless m \<Longrightarrow> harmless (mapping_errors h m)"
  unfolding harmless_def by (auto simp: map_ctl_def mapping_errors_def split: prod.splits sum.splits)

lemma no_faults_db: "no_faults (w\<lparr>w_db := d\<rparr>) = no_faults w"
  by (simp add: no_faults_def)

lemma harmless_procedure: "harmless (procedure c)"
  unfolding harmless_def
proof (intro allI impI)
  fix w r w'
  assume nf: "no_faults w" and r: "procedure c w = (r, w')"
  show "no_faults w' \<and> (\<forall>e. r = Inl e \<longrightarrow> quiet w w')"
  proof (cases c)
    case (Inl p)
    then have "reading c" by (simp add: reading_def)
    with untouched_procedure r nf quiet_faults show ?thesis unfolding untouched_def by blast
  next
    case (Inr c1)
    from r nf quiet_waits [of w 1] show ?thesis
      by (auto simp: Inr procedure_calm no_faults_db simp del: exec.simps split: sum.splits prod.splits)
  qed
qed

lemma harmless_transact: "harmless (transact cs)"
  unfolding harmless_def using quiet_waits [of _ 1]
  by (auto simp: transact_calm no_faults_db split: sum.splits)

section \<open>The connection around a function\<close>

lemma untouched_withDb:
  assumes "untouched m"
  shows "untouched (withDb m)"
  unfolding withDb_def
proof (rule untouched_bind [OF untouched_select])
  fix x :: unit
  have sel: "select (\<lambda>_. ()) w2 = (r3, w3) \<Longrightarrow> quiet w2 w3" for w2 r3 w3
    using untouched_select unfolding untouched_def by blast
  have m: "m w1 = (r2, w2) \<Longrightarrow> quiet w1 w2" for w1 r2 w2 using assms unfolding untouched_def by blast
  show "untouched (\<lambda>w1. case m w1 of (r, w2) \<Rightarrow>
       (case select (\<lambda>_. ()) w2 of (Inl e, w3) \<Rightarrow> (Inl e, w3) | (Inr _, w3) \<Rightarrow> (r, w3)))"
    unfolding untouched_def
    by (auto split: prod.splits sum.splits dest!: m sel intro: quiet_trans)
qed

lemma harmless_withDb:
  assumes "harmless m"
  shows "harmless (withDb m)"
  unfolding withDb_def
proof (rule harmless_bind [OF untouched_select])
  fix x :: unit
  have m: "no_faults w2 \<and> (\<forall>e. r2 = Inl e \<longrightarrow> quiet w1 w2)" if "m w1 = (r2, w2)" "no_faults w1" for w1 r2 w2
    using assms that unfolding harmless_def by blast
  show "harmless (\<lambda>w1. case m w1 of (r, w2) \<Rightarrow>
       (case select (\<lambda>_. ()) w2 of (Inl e, w3) \<Rightarrow> (Inl e, w3) | (Inr _, w3) \<Rightarrow> (r, w3)))"
    unfolding harmless_def
  proof (intro allI impI)
    fix w1 r w'
    assume nf: "no_faults w1" and r: "(case m w1 of (r, w2) \<Rightarrow>
       (case select (\<lambda>_. ()) w2 of (Inl e, w3) \<Rightarrow> (Inl e, w3) | (Inr _, w3) \<Rightarrow> (r, w3))) = (r, w')"
    obtain r2 w2 where 2: "m w1 = (r2, w2)" by force
    note f = m [OF 2 nf]
    with r 2 have "r = r2" "w' = after_waits 1 w2" by (simp_all add: select_calm)
    with f quiet_waits [of w2 1] show "no_faults w' \<and> (\<forall>e. r = Inl e \<longrightarrow> quiet w1 w')"
      by (auto intro: quiet_trans)
  qed
qed

section \<open>The core functions\<close>

lemma claim_one_row:
  "claim_subscription l su n wk secs opts d = Inr (rows, d') \<Longrightarrow> \<exists>q. rows = [q]"
  by (auto simp: claim_subscription_def check_sub_def check_worker_def check_lease_def guard_sum_def Let_def sum_iffs
      split: if_splits option.splits)

lemma claim_reply:
  assumes "procedure (bind_sum s (\<lambda>secs. Inr (CClaimSub l su n wk (Some secs) opts))) w = (Inr r, w')"
  shows "\<exists>q. r = RClaim [q]"
  using assms
  by (cases s) (auto simp: procedure_def query_def tag_def dest: claim_one_row split: prod.splits fault.splits sum.splits)

lemma harmless_claim: "harmless (claimSubscription_ctl ref wk secs start)"
  unfolding harmless_def
proof (intro allI impI)
  fix w r w'
  assume nf: "no_faults w" and r: "claimSubscription_ctl ref wk secs start w = (r, w')"
  let ?c = "bind_sum (int_param secs) (\<lambda>secs. Inr (CClaimSub False (Some (stream_of ref)) (Some (cs_name ref)) (Some wk)
      (Some secs) (Some (claim_options start))))"
  obtain x w1 where p: "procedure ?c w = (x, w1)" by force
  with harmless_procedure nf have h: "no_faults w1 \<and> (\<forall>e. x = Inl e \<longrightarrow> quiet w w1)" unfolding harmless_def by blast
  show "no_faults w' \<and> (\<forall>e. r = Inl e \<longrightarrow> quiet w w')"
  proof (cases x)
    case (Inl e)
    with r p h show ?thesis by (simp add: claimSubscription_ctl_def bind_ctl_def)
  next
    case (Inr y)
    with claim_reply p obtain q where "y = RClaim [q]" by blast
    with r p Inr h show ?thesis by (auto simp: claimSubscription_ctl_def bind_ctl_def return_ctl_def)
  qed
qed

lemma harmless_release: "harmless (releaseSubscription_ctl ref wk)"
  unfolding releaseSubscription_ctl_def Let_def currentHolder_def
  by (rule harmless_bind)
    (auto intro!: untouched_bind untouched_select untouched_return harmless_map harmless_procedure split: option.splits)

lemma harmless_delete: "harmless (deleteSubscription_ctl ref)"
  unfolding deleteSubscription_ctl_def Let_def by (intro harmless_map harmless_procedure)

lemma harmless_rebuild: "harmless (rebuildSubscription ref)"
  unfolding rebuildSubscription_def Let_def currentHolder_def
  by (intro harmless_bind untouched_select harmless_map harmless_transact)

lemma untouched_reads: "untouched (readStreamCtl u f c)" "untouched (readAllCtl f c)" "untouched checkHealth"
  unfolding readStreamCtl_def readAllCtl_def checkHealth_def Let_def
  by (intro untouched_map untouched_procedure untouched_bind untouched_select untouched_return reading_bind reading_calls)+

section \<open>Commands\<close>

text \<open>The commands that look, and the two that ask for a confirmation they were not given.\<close>

fun looks_only :: "command \<Rightarrow> bool" where
  "looks_only (SubsRelease _ _ _) \<longleftrightarrow> False"
| "looks_only (SubsClaim _ _ _ _ _) \<longleftrightarrow> False"
| "looks_only (SubsDelete _ _ yes) \<longleftrightarrow> \<not> yes"
| "looks_only (SubsRebuild _ _ yes) \<longleftrightarrow> \<not> yes"
| "looks_only _ \<longleftrightarrow> True"

lemma action_quiet: "untouched m \<Longrightarrow> action show m w = (x, w') \<Longrightarrow> quiet w w'"
  using untouched_withDb [of m] unfolding untouched_def
  by (auto simp: action_def split: prod.splits sum.splits)

lemma action_failed:
  assumes "harmless m" "action (printing g js plain) m w = ((outs, code), w')" "no_faults w" "code \<noteq> 0"
  shows "quiet w w'"
proof -
  obtain r w1 where r: "withDb m w = (r, w1)" by force
  with harmless_withDb [OF assms(1)] assms(3) have "\<forall>e. r = Inl e \<longrightarrow> quiet w w1" unfolding harmless_def by blast
  with r assms(2,4) show ?thesis by (auto simp: action_def printing_def split: sum.splits)
qed

lemma looking_quiet:
  assumes "looks_only c" "run_command coll g c w = (x, w')"
  shows "quiet w w'"
proof (cases c)
  case StreamsList
  with assms(2) show ?thesis by (auto simp: streams_list_def listStreams_def intro: action_quiet [OF untouched_select])
next
  case (StreamsGet u)
  with assms(2) show ?thesis by (auto simp: streams_get_def getStream_def intro: action_quiet [OF untouched_select])
next
  case SubsList
  with assms(2) show ?thesis by (auto simp: subs_list_def listSubscriptions_def intro: action_quiet [OF untouched_select])
next
  case (SubsGet n)
  with assms(2) show ?thesis by (auto simp: subs_get_def getSubscription_def intro: action_quiet [OF untouched_select])
next
  case (ItemsList sub)
  with assms(2) show ?thesis by (auto simp: items_list_def listWorkItemCounts_def intro: action_quiet [OF untouched_select])
next
  case (ItemsFailed sub)
  with assms(2) show ?thesis by (auto simp: items_failed_def listFailedWorkItems_def intro: action_quiet [OF untouched_select])
next
  case (SnapshotsGet u)
  with assms(2) show ?thesis by (auto simp: snapshots_get_def getSnapshot_def intro: action_quiet [OF untouched_select])
qed (use assms in \<open>auto simp: streams_read_def all_read_def health_def subs_delete_def subs_rebuild_def quiet_refl
      intro: action_quiet [OF untouched_reads(1)] action_quiet [OF untouched_reads(2)] action_quiet [OF untouched_reads(3)]\<close>)


definition plain_options :: global_options where
  "plain_options = \<lparr>go_database = None, go_host = None, go_port = None, go_user = None, go_verbose = False, go_json = False\<rparr>"


text \<open>As a monitoring probe, over a store only the procedures have written and a connection that does not
  fail: \<open>health\<close> exits with 0 exactly when no subscription is held past its lease when that is looked up.
  It raises no other alarm.\<close>

theorem health_probe:
  assumes "reachable (w_db w)" "no_faults w" "run_tool parse_url number_text env coll g Health w = ((outs, code), w')"
  shows "code \<le> 1 \<and> (code = 0 \<longleftrightarrow> (\<forall>b \<in> set (subs (moment w 4)). \<not> zombie (now (moment w 4)) b))"
proof -
  let ?w1 = "after_waits 1 w"
  have "wf_db (w_db ?w1)" "no_faults ?w1"
    using moment_wf [OF wf_reachable [OF assms(1)], of 1] assms(2) by (simp_all add: waits_db)
  from checkHealth_exact [OF this] obtain rep where rep: "checkHealth ?w1 = (Inr rep, after_waits 4 ?w1)"
    "hr_ok rep \<longleftrightarrow> (\<forall>b \<in> set (subs (moment ?w1 3)). \<not> zombie (now (moment ?w1 3)) b)" by blast
  have "no_faults (after_waits 4 ?w1)" using assms(2) by simp
  then have "withDb checkHealth w = (Inr rep, after_waits 1 (after_waits 4 ?w1))"
    by (simp only: withDb_def bind_ctl_def select_calm [OF assms(2)] rep prod.case sum.case select_calm)
  with assms(3) have "code = (if hr_ok rep then 0 else 1)"
    by (auto simp: run_tool_def health_def action_def printing_def)
  with rep(2) show ?thesis by (simp add: eval_nat_numeral)
qed

text \<open>The lease taken at 0 for 30 seconds has run out a minute later.\<close>

theorem health_probe_witness:
  "snd (fst (run_tool (\<lambda>_. None) id (\<lambda>_. None) length plain_options Health (sample_world\<lparr>w_db := pass 60000 leased_db\<rparr>))) = 1"
proof -
  let ?w = "sample_world\<lparr>w_db := pass 60000 leased_db\<rparr>"
  obtain outs code w' where r: "run_tool (\<lambda>_. None) id (\<lambda>_. None) length plain_options Health ?w = ((outs, code), w')"
    by (metis prod.collapse)
  have re: "reachable (w_db ?w)" using reach_step [OF leased_reachable(1) step_pass] by simp
  have nf: "no_faults ?w" by (simp add: no_faults_def sample_world_def calm_def)
  have "interfere calm d = d" for d by (simp add: interfere_def calm_def pass_def)
  then have "moment ?w 4 = pass 60000 leased_db" by (simp add: moment_def sample_world_def upt_rec)
  moreover have "now leased_db = 0 \<and> list_ex (zombie 60000) (subs leased_db)" by code_simp
  ultimately have "code = 1" using health_probe [OF re nf r] by (auto simp: list_ex_iff pass_def)
  with r show ?thesis by simp
qed

end
