(* ===== verification/Bank_App.thy ===== *)
theory Bank_App
  imports Bank Facade_Properties
begin

text \<open>
  The bank account example on the SDK: its commands, events and states as the JSON that goes through the
  facade and the store, and its aggregates and its router as the definitions the SDK runs. A member that is
  \<open>undefined\<close> is left out, as JSON.stringify does. The lemmas: a dispatch through the facade does to the
  log exactly what \<open>dispatch_app\<close> does to the application's view of it.
\<close>

section \<open>Members\<close>

definition str_member :: "string \<Rightarrow> json \<Rightarrow> string option" where
  "str_member k v = (case json_get k v of Some (JStr s) \<Rightarrow> Some s | _ \<Rightarrow> None)"

definition num_member :: "string \<Rightarrow> json \<Rightarrow> rat option" where
  "num_member k v = (case json_get k v of Some (JNum r) \<Rightarrow> Some r | _ \<Rightarrow> None)"

definition bool_member :: "string \<Rightarrow> json \<Rightarrow> bool option" where
  "bool_member k v = (case json_get k v of Some (JBool b) \<Rightarrow> Some b | _ \<Rightarrow> None)"

definition optional :: "string \<Rightarrow> string option \<Rightarrow> (string \<times> json) list" where
  "optional k v = (case v of None \<Rightarrow> [] | Some s \<Rightarrow> [(k, JStr s)])"

section \<open>Commands and events\<close>

fun command_json :: "app_command \<Rightarrow> json" where
  "command_json (AccountCmd (OpenAccount i owner)) =
     JObj [(''type'', JStr ''OpenAccount''), (''accountId'', JStr i), (''owner'', JStr owner)]"
| "command_json (AccountCmd (DepositToAccount i amount tid)) =
     JObj ([(''type'', JStr ''DepositToAccount''), (''accountId'', JStr i), (''amount'', JNum amount)] @ optional ''transferId'' tid)"
| "command_json (AccountCmd (WithdrawFromAccount i amount tid to)) =
     JObj ([(''type'', JStr ''WithdrawFromAccount''), (''accountId'', JStr i), (''amount'', JNum amount)]
       @ optional ''transferId'' tid @ optional ''to'' to)"
| "command_json (TransferCmd (RequestTransfer tid from to amount)) =
     JObj [(''type'', JStr ''RequestTransfer''), (''transferId'', JStr tid), (''from'', JStr from), (''to'', JStr to),
           (''amount'', JNum amount)]"
| "command_json (TransferCmd (MarkTransferCompleted tid)) =
     JObj [(''type'', JStr ''MarkTransferCompleted''), (''transferId'', JStr tid)]"
| "command_json (TransferCmd (MarkTransferFailed tid reason)) =
     JObj [(''type'', JStr ''MarkTransferFailed''), (''transferId'', JStr tid), (''reason'', JStr reason)]"

text \<open>The switch of each \<open>execute\<close> over the command's type; another type leaves it without a value.\<close>

definition account_command_of :: "json \<Rightarrow> account_command option" where
  "account_command_of c =
     (let ty = str_member ''type'' c; i = str_member ''accountId'' c
      in if ty = Some ''OpenAccount'' then
           Option.bind i (\<lambda>i. map_option (OpenAccount i) (str_member ''owner'' c))
         else if ty = Some ''DepositToAccount'' then
           Option.bind i (\<lambda>i. map_option (\<lambda>a. DepositToAccount i a (str_member ''transferId'' c)) (num_member ''amount'' c))
         else if ty = Some ''WithdrawFromAccount'' then
           Option.bind i (\<lambda>i. map_option (\<lambda>a. WithdrawFromAccount i a (str_member ''transferId'' c) (str_member ''to'' c))
             (num_member ''amount'' c))
         else None)"

definition transfer_command_of :: "json \<Rightarrow> transfer_command option" where
  "transfer_command_of c =
     (let ty = str_member ''type'' c
      in Option.bind (str_member ''transferId'' c) (\<lambda>i.
         if ty = Some ''RequestTransfer'' then
           Option.bind (str_member ''from'' c) (\<lambda>f. Option.bind (str_member ''to'' c) (\<lambda>t.
             map_option (RequestTransfer i f t) (num_member ''amount'' c)))
         else if ty = Some ''MarkTransferCompleted'' then Some (MarkTransferCompleted i)
         else if ty = Some ''MarkTransferFailed'' then map_option (MarkTransferFailed i) (str_member ''reason'' c)
         else None))"

fun event_type :: "app_event \<Rightarrow> string" where
  "event_type (AccountEv (AccountOpened _)) = ''AccountOpened''"
| "event_type (AccountEv (AccountDepositedTo _ _)) = ''AccountDepositedTo''"
| "event_type (AccountEv (AccountWithdrawnFrom _ _ _)) = ''AccountWithdrawnFrom''"
| "event_type (AccountEv (AccountWithdrawalRefused _ _ _)) = ''AccountWithdrawalRefused''"
| "event_type (TransferEv (TransferRequested _ _ _ _)) = ''TransferRequested''"
| "event_type (TransferEv (TransferCompleted _)) = ''TransferCompleted''"
| "event_type (TransferEv (TransferFailed _ _)) = ''TransferFailed''"

fun event_data :: "app_event \<Rightarrow> json" where
  "event_data (AccountEv (AccountOpened owner)) = JObj [(''owner'', JStr owner)]"
| "event_data (AccountEv (AccountDepositedTo amount tid)) = JObj ((''amount'', JNum amount) # optional ''transferId'' tid)"
| "event_data (AccountEv (AccountWithdrawnFrom amount tid to)) =
     JObj ((''amount'', JNum amount) # optional ''transferId'' tid @ optional ''to'' to)"
| "event_data (AccountEv (AccountWithdrawalRefused reason amount tid)) =
     JObj ([(''reason'', JStr reason), (''amount'', JNum amount)] @ optional ''transferId'' tid)"
| "event_data (TransferEv (TransferRequested from to amount tid)) =
     JObj [(''from'', JStr from), (''to'', JStr to), (''amount'', JNum amount), (''transferId'', JStr tid)]"
| "event_data (TransferEv (TransferCompleted tid)) = JObj [(''transferId'', JStr tid)]"
| "event_data (TransferEv (TransferFailed tid reason)) = JObj [(''transferId'', JStr tid), (''reason'', JStr reason)]"

definition new_event_of :: "app_event \<Rightarrow> new_event" where
  "new_event_of e =
     \<lparr>ne_event_id = None, ne_type = event_type e, ne_data = Some (event_data e), ne_metadata = None,
      ne_causation_id = None, ne_correlation_id = None\<rparr>"

text \<open>What a stored event says.\<close>

definition event_of :: "string \<Rightarrow> json \<Rightarrow> app_event option" where
  "event_of ty d =
     (let tid = str_member ''transferId'' d
      in if ty = ''AccountOpened'' then map_option (AccountEv \<circ> AccountOpened) (str_member ''owner'' d)
         else if ty = ''AccountDepositedTo'' then map_option (\<lambda>a. AccountEv (AccountDepositedTo a tid)) (num_member ''amount'' d)
         else if ty = ''AccountWithdrawnFrom'' then
           map_option (\<lambda>a. AccountEv (AccountWithdrawnFrom a tid (str_member ''to'' d))) (num_member ''amount'' d)
         else if ty = ''AccountWithdrawalRefused'' then
           Option.bind (str_member ''reason'' d) (\<lambda>r.
             map_option (\<lambda>a. AccountEv (AccountWithdrawalRefused r a tid)) (num_member ''amount'' d))
         else if ty = ''TransferRequested'' then
           Option.bind (str_member ''from'' d) (\<lambda>f. Option.bind (str_member ''to'' d) (\<lambda>t.
             Option.bind (num_member ''amount'' d) (\<lambda>a. map_option (\<lambda>i. TransferEv (TransferRequested f t a i)) tid)))
         else if ty = ''TransferCompleted'' then map_option (TransferEv \<circ> TransferCompleted) tid
         else if ty = ''TransferFailed'' then
           Option.bind tid (\<lambda>i. map_option (\<lambda>r. TransferEv (TransferFailed i r)) (str_member ''reason'' d))
         else None)"

lemma members [simp]:
  "str_member k (JObj ((k1, v) # kvs)) = (if k1 = k then (case v of JStr s \<Rightarrow> Some s | _ \<Rightarrow> None) else str_member k (JObj kvs))"
  "num_member k (JObj ((k1, v) # kvs)) = (if k1 = k then (case v of JNum s \<Rightarrow> Some s | _ \<Rightarrow> None) else num_member k (JObj kvs))"
  "bool_member k (JObj ((k1, v) # kvs)) = (if k1 = k then (case v of JBool s \<Rightarrow> Some s | _ \<Rightarrow> None) else bool_member k (JObj kvs))"
  "str_member k (JObj []) = None" "num_member k (JObj []) = None" "bool_member k (JObj []) = None"
  by (simp_all add: str_member_def num_member_def bool_member_def)

lemma optional_members [simp]:
  "str_member k (JObj (optional k v)) = v"
  "k \<noteq> k1 \<Longrightarrow> str_member k (JObj (optional k1 v)) = None"
  "k \<noteq> k1 \<Longrightarrow> str_member k (JObj (optional k1 v @ kvs)) = str_member k (JObj kvs)"
  "str_member k (JObj (optional k v @ optional k1 v1)) = (case v of None \<Rightarrow> str_member k (JObj (optional k1 v1)) | Some s \<Rightarrow> Some s)"
  by (auto simp: optional_def split: option.splits)

lemma event_roundtrip: "event_of (event_type e) (event_data e) = Some e"
  by (cases e rule: event_type.cases) (auto simp: event_of_def Let_def split: option.splits)

lemma command_roundtrip:
  "account_command_of (command_json (AccountCmd ac)) = Some ac"
  "transfer_command_of (command_json (TransferCmd tc)) = Some tc"
  by (cases ac; auto simp: account_command_of_def Let_def split: option.splits)
     (cases tc; auto simp: transfer_command_of_def Let_def split: option.splits)

section \<open>States\<close>

definition account_state_json :: "account_state \<Rightarrow> json" where
  "account_state_json st =
     JObj [(''opened'', JBool (as_opened st)), (''owner'', case as_owner st of None \<Rightarrow> JNull | Some s \<Rightarrow> JStr s),
           (''balance'', JNum (as_balance st))]"

definition account_state_of :: "json \<Rightarrow> account_state option" where
  "account_state_of v =
     Option.bind (bool_member ''opened'' v) (\<lambda>b. map_option (\<lambda>r.
       \<lparr>as_opened = b, as_owner = str_member ''owner'' v, as_balance = r\<rparr>) (num_member ''balance'' v))"

definition optional_num :: "string \<Rightarrow> rat option \<Rightarrow> (string \<times> json) list" where
  "optional_num k v = (case v of None \<Rightarrow> [] | Some r \<Rightarrow> [(k, JNum r)])"

definition transfer_state_json :: "transfer_state \<Rightarrow> json" where
  "transfer_state_json st =
     JObj ((''stage'', JStr (stage_text (ts_stage st))) # optional ''from'' (ts_from st) @ optional ''to'' (ts_to st)
       @ optional_num ''amount'' (ts_amount st) @ optional ''transferId'' (ts_transferId st) @ optional ''reason'' (ts_reason st))"

definition stage_of :: "string \<Rightarrow> transfer_stage option" where
  "stage_of s =
     (if s = ''none'' then Some StageNone else if s = ''requested'' then Some StageRequested
      else if s = ''completed'' then Some StageCompleted else if s = ''failed'' then Some StageFailed else None)"

definition transfer_state_of :: "json \<Rightarrow> transfer_state option" where
  "transfer_state_of v =
     map_option (\<lambda>st. \<lparr>ts_stage = st, ts_from = str_member ''from'' v, ts_to = str_member ''to'' v,
         ts_amount = num_member ''amount'' v, ts_transferId = str_member ''transferId'' v, ts_reason = str_member ''reason'' v\<rparr>)
       (Option.bind (str_member ''stage'' v) stage_of)"

lemma account_state_roundtrip [simp]: "account_state_of (account_state_json st) = Some st"
  by (cases st) (auto simp: account_state_of_def account_state_json_def split: option.splits)

lemma stage_roundtrip [simp]: "stage_of (stage_text s) = Some s"
  by (cases s) (simp_all add: stage_of_def stage_text_def)

lemma transfer_state_roundtrip [simp]: "transfer_state_of (transfer_state_json st) = Some st"
  by (cases st) (auto simp: transfer_state_of_def transfer_state_json_def optional_def optional_num_def split: option.splits)

section \<open>The aggregates, the router and the application\<close>

definition exec_of :: "('e \<Rightarrow> app_event) \<Rightarrow> 'e list \<Rightarrow> exec_result" where
  "exec_of k evs = (case evs of [e] \<Rightarrow> ExecOne (new_event_of (k e)) | _ \<Rightarrow> ExecMany (map (new_event_of \<circ> k) evs))"

text \<open>Outside their types both switches end without a value.\<close>

definition Account_def :: "json aggregate_def" where
  "Account_def =
     \<lparr>ag_type = ''Account'', ag_streamName = None, ag_initialState = account_state_json Account_initialState,
      ag_execute = (\<lambda>s c. case (account_state_of s, account_command_of c) of
          (Some st, Some ac) \<Rightarrow> bind_sum (Account_execute st ac) (\<lambda>evs. Inr (exec_of AccountEv evs))
        | _ \<Rightarrow> Inr ExecVoid),
      ag_apply = (\<lambda>s ev. case (account_state_of s, event_of (de_type ev) (null_json (de_data ev))) of
          (Some st, Some (AccountEv e)) \<Rightarrow> Inr (account_state_json (Account_apply st e))
        | _ \<Rightarrow> Inr JNull),
      ag_snapshotPolicy = None, ag_snapshotModuleVersion = None\<rparr>"

definition Transfer_def :: "json aggregate_def" where
  "Transfer_def =
     \<lparr>ag_type = ''Transfer'', ag_streamName = None, ag_initialState = transfer_state_json Transfer_initialState,
      ag_execute = (\<lambda>s c. case (transfer_state_of s, transfer_command_of c) of
          (Some st, Some tc) \<Rightarrow> bind_sum (Transfer_execute st tc) (\<lambda>evs. Inr (exec_of TransferEv evs))
        | _ \<Rightarrow> Inr ExecVoid),
      ag_apply = (\<lambda>s ev. case (transfer_state_of s, event_of (de_type ev) (null_json (de_data ev))) of
          (Some st, Some (TransferEv e)) \<Rightarrow> Inr (transfer_state_json (Transfer_apply st e))
        | _ \<Rightarrow> Inr JNull),
      ag_snapshotPolicy = None, ag_snapshotModuleVersion = None\<rparr>"

definition id_member :: "string \<Rightarrow> json \<Rightarrow> thrown + string" where
  "id_member k c = Inr (case str_member k c of Some i \<Rightarrow> i | None \<Rightarrow> ''undefined'')"

definition bank_router :: command_router where
  "bank_router = commandRouter
     [(''OpenAccount'', \<lparr>cr_aggregate = Account_def, cr_id = id_member ''accountId''\<rparr>),
      (''DepositToAccount'', \<lparr>cr_aggregate = Account_def, cr_id = id_member ''accountId''\<rparr>),
      (''WithdrawFromAccount'', \<lparr>cr_aggregate = Account_def, cr_id = id_member ''accountId''\<rparr>),
      (''RequestTransfer'', \<lparr>cr_aggregate = Transfer_def, cr_id = id_member ''transferId''\<rparr>),
      (''MarkTransferCompleted'', \<lparr>cr_aggregate = Transfer_def, cr_id = id_member ''transferId''\<rparr>),
      (''MarkTransferFailed'', \<lparr>cr_aggregate = Transfer_def, cr_id = id_member ''transferId''\<rparr>)]"

definition aggregate_object :: "json aggregate_def \<Rightarrow> ('p, 's) registerable" where
  "aggregate_object def = ObjectArg \<lparr>ob_execute = Some def, ob_handle = None, ob_handler = None\<rparr>"

lemma bank_types [simp]: "ag_type Account_def = ''Account''" "ag_type Transfer_def = ''Transfer''"
  "ag_snapshotPolicy Account_def = None" "ag_snapshotPolicy Transfer_def = None"
  by (simp_all add: Account_def_def Transfer_def_def)

lemma bank_routes:
  "bank_router (command_json c) lg = Inr \<lparr>ct_aggregateType = fst (appCommandRouter c), ct_aggregateId = snd (appCommandRouter c)\<rparr>"
  by (cases c rule: command_json.cases)
    (simp_all add: bank_router_def commandRouter_def type_text_def id_member_def Account_def_def Transfer_def_def)

section \<open>The application's view of the log\<close>

definition decoded :: "event_out \<Rightarrow> app_event option" where
  "decoded r = event_of (o_event_type r) (o_data r)"

definition app_of :: "event_out list \<Rightarrow> app_log" where
  "app_of lg = map (\<lambda>r. (o_stream_uuid r, the (decoded r))) lg"

text \<open>A log only the application has written: every event is one of its own, as it writes it, on a stream of its kind.\<close>

definition says :: "event_out \<Rightarrow> app_event \<Rightarrow> bool" where
  "says r e \<longleftrightarrow> o_event_type r = event_type e \<and> o_data r = event_data e"

definition bank_event :: "event_out \<Rightarrow> bool" where
  "bank_event r \<longleftrightarrow>
     (case decoded r of
        None \<Rightarrow> False
      | Some e \<Rightarrow> says r e
          \<and> prefix (case e of AccountEv _ \<Rightarrow> ''Account-'' | TransferEv _ \<Rightarrow> ''Transfer-'') (o_stream_uuid r))"

lemma says_decoded [simp]: "says r e \<Longrightarrow> decoded r = Some e"
  by (simp add: says_def decoded_def event_roundtrip)

definition bank_log :: "event_out list \<Rightarrow> bool" where
  "bank_log lg \<longleftrightarrow> list_all bank_event lg"

lemma account_replay:
  assumes "bank_log lg" "prefix ''Account-'' u"
  shows "replay_from Account_def (account_state_json st) (stream_log u lg)
     = Inr (account_state_json (foldl Account_apply st (account_events u (app_of lg))))"
  using assms(1)
proof (induction lg arbitrary: st)
  case (Cons r lg)
  then have lg: "bank_log lg" and r: "bank_event r" by (simp_all add: bank_log_def)
  show ?case
  proof (cases "o_stream_uuid r = u")
    case True
    with r assms(2) obtain e where e: "decoded r = Some (AccountEv e)"
      by (auto simp: bank_event_def prefix_def split: option.splits app_event.splits)
    have "ag_apply Account_def (account_state_json st) (recordedToDomain (recorded r)) = Inr (account_state_json (Account_apply st e))"
      using e by (simp add: Account_def_def recordedToDomain_def recorded_def null_json_def decoded_def)
    with True e Cons.IH [OF lg, of "Account_apply st e"] show ?thesis
      by (simp add: stream_log_def replay_from_def app_of_def account_events_def)
  next
    case False
    with Cons.IH [OF lg, of st] show ?thesis
      by (simp add: stream_log_def replay_from_def app_of_def account_events_def)
  qed
qed (simp add: stream_log_def app_of_def account_events_def)

lemma transfer_replay:
  assumes "bank_log lg" "prefix ''Transfer-'' u"
  shows "replay_from Transfer_def (transfer_state_json st) (stream_log u lg)
     = Inr (transfer_state_json (foldl Transfer_apply st (transfer_events u (app_of lg))))"
  using assms(1)
proof (induction lg arbitrary: st)
  case (Cons r lg)
  then have lg: "bank_log lg" and r: "bank_event r" by (simp_all add: bank_log_def)
  show ?case
  proof (cases "o_stream_uuid r = u")
    case True
    with r assms(2) obtain e where e: "decoded r = Some (TransferEv e)"
      by (auto simp: bank_event_def prefix_def split: option.splits app_event.splits)
    have "ag_apply Transfer_def (transfer_state_json st) (recordedToDomain (recorded r)) = Inr (transfer_state_json (Transfer_apply st e))"
      using e by (simp add: Transfer_def_def recordedToDomain_def recorded_def null_json_def decoded_def)
    with True e Cons.IH [OF lg, of "Transfer_apply st e"] show ?thesis
      by (simp add: stream_log_def replay_from_def app_of_def transfer_events_def)
  next
    case False
    with Cons.IH [OF lg, of st] show ?thesis
      by (simp add: stream_log_def replay_from_def app_of_def transfer_events_def)
  qed
qed (simp add: stream_log_def app_of_def transfer_events_def)

text \<open>The aggregate a command is for, on the log: what it decides is what \<open>dispatch_app\<close> appends.\<close>

definition bank_def :: "app_command \<Rightarrow> json aggregate_def" where
  "bank_def c = (case c of AccountCmd _ \<Rightarrow> Account_def | TransferCmd _ \<Rightarrow> Transfer_def)"

lemma target_prefix: "prefix (case c of AccountCmd _ \<Rightarrow> ''Account-'' | TransferCmd _ \<Rightarrow> ''Transfer-'') (target_stream c)"
  by (cases c rule: command_json.cases) (simp_all add: target_stream_def prefixType_def)

lemma exec_of_events: "normaliseEvents (exec_of k evs) = map (new_event_of \<circ> k) evs"
  by (auto simp: exec_of_def normaliseEvents_def split: list.split)

lemma bank_decides:
  assumes lg: "bank_log lg" and s: "replay (bank_def c) (target_stream c) lg = Inr s"
    and x: "ag_execute (bank_def c) s (command_json c) = Inr res"
  shows "\<exists>evs. normaliseEvents res = map new_event_of evs \<and> dispatch_app c (app_of lg)
     = Inr (app_of lg @ map (\<lambda>e. (target_stream c, e)) evs)
     \<and> (\<forall>e \<in> set evs. case e of AccountEv _ \<Rightarrow> prefix ''Account-'' (target_stream c) | TransferEv _ \<Rightarrow> prefix ''Transfer-'' (target_stream c))"
proof (cases c)
  case (AccountCmd ac)
  let ?st = "account_of (account_events (target_stream c) (app_of lg))"
  have p: "prefix ''Account-'' (target_stream c)" using target_prefix [of c] AccountCmd by simp
  from s account_replay [OF lg p, of Account_initialState] have "s = account_state_json ?st"
    by (simp add: AccountCmd bank_def_def replay_def Account_def_def account_of_def)
  with x obtain evs where e: "Account_execute ?st ac = Inr evs" and r: "res = exec_of AccountEv evs"
    by (cases "Account_execute ?st ac") (auto simp: AccountCmd bank_def_def Account_def_def command_roundtrip)
  show ?thesis
    by (rule exI [of _ "map AccountEv evs"])
      (use e r p in \<open>simp add: AccountCmd dispatch_app_def Let_def exec_of_events\<close>)
next
  case (TransferCmd tc)
  let ?st = "transfer_of (transfer_events (target_stream c) (app_of lg))"
  have p: "prefix ''Transfer-'' (target_stream c)" using target_prefix [of c] TransferCmd by simp
  from s transfer_replay [OF lg p, of Transfer_initialState] have "s = transfer_state_json ?st"
    by (simp add: TransferCmd bank_def_def replay_def Transfer_def_def transfer_of_def)
  with x obtain evs where e: "Transfer_execute ?st tc = Inr evs" and r: "res = exec_of TransferEv evs"
    by (cases "Transfer_execute ?st tc") (auto simp: TransferCmd bank_def_def Transfer_def_def command_roundtrip)
  show ?thesis
    by (rule exI [of _ "map TransferEv evs"])
      (use e r p in \<open>simp add: TransferCmd dispatch_app_def Let_def exec_of_events\<close>)
qed

section \<open>A dispatch\<close>

lemma no_policy_run:
  assumes "runCommandWithSnapshots cl def u c opts w = Some (Inr rows, w')" "ag_snapshotPolicy def = None"
  shows "\<exists>rc. runCommandAndApply cl def u c opts w = Some (Inr rc, w') \<and> rows = rc_appended rc"
  using assms by (auto simp: runCommandWithSnapshots_def split: option.splits sum.splits if_splits)

text \<open>The events a command appends, read back.\<close>

lemma decoded_appended:
  assumes "list_all2 written (map (fill_ids ca co \<circ> new_event_of) evs) erows"
  shows "app_of (appended_log u n m erows) = map (\<lambda>e. (u, e)) evs
     \<and> (\<forall>r \<in> set (appended_log u n m erows). o_stream_uuid r = u \<and> (\<exists>e \<in> set evs. says r e))"
  using assms
proof (induction evs arbitrary: erows n m)
  case Nil
  then show ?case by (simp add: appended_log_def app_of_def)
next
  case (Cons e evs)
  from Cons.prems obtain r rs where r: "erows = r # rs" "written (fill_ids ca co (new_event_of e)) r"
    "list_all2 written (map (fill_ids ca co \<circ> new_event_of) evs) rs"
    unfolding list.map list_all2_Cons1 by (auto simp del: map_map)
  have d: "says (out_row (Suc m) u (Suc n) r) e"
    using r(2) by (simp add: written_def fill_ids_def new_event_of_def says_def out_row_def)
  from d Cons.IH [OF r(3), of "Suc n" "Suc m"] show ?case
    unfolding r(1) appended_log_simps by (auto simp: app_of_def out_row_def)
qed

text \<open>The others are applications of the same kind: the log stays one, and nobody snapshots the stream.\<close>

definition bank_clients :: "string \<Rightarrow> world \<Rightarrow> bool" where
  "bank_clients u w \<longleftrightarrow> (\<forall>w1. quiet w w1 \<longrightarrow> bank_log (log_of w1) \<and> snap_of u w1 = None)"

text \<open>A run of one of its commands, whoever asked for it.\<close>

lemma run_refines:
  assumes "runCommandWithSnapshots pg_client (bank_def c) (target_stream c) (command_json c) o1 w = Some (Inr rows, w')"
    and "ro_expectedVersion o1 = None" "world_ok w" "bank_clients (target_stream c) w"
  shows "\<exists>w0. quiet w w0 \<and> dispatch_app c (app_of (log_of w0)) = Inr (app_of (log_of w')) \<and> bank_log (log_of w')"
proof -
  let ?u = "target_stream c" and ?def = "bank_def c"
  have sv: "snap_safe ?def ?u w"
    using assms(4) by (auto simp: snap_safe_def bank_clients_def snap_valid_of)
  obtain rc where a: "runCommandAndApply pg_client ?def ?u (command_json c) o1 w = Some (Inr rc, w')"
    using no_policy_run [OF assms(1)] by (cases c) (auto simp: bank_def_def)
  obtain x where e: "executeCommand pg_client ?def ?u (command_json c) o1 w = Some (Inr x, w')"
    using runCommandAndApply_Inr [OF a] by blast
  from decided_default [OF pgc.execute_decided [OF e assms(3) sv, unfolded assms(2)] assms(3)] obtain w0 res where
    d: "quiet w w0" "replay ?def ?u (log_of w0) = Inr (ld_state (ex_loaded x))"
      "ag_execute ?def (ld_state (ex_loaded x)) (command_json c) = Inr res"
      "ex_noOp x = (normaliseEvents res = [])"
      "ex_filled x = map (fill_ids (causation o1 w) (ro_correlationId o1)) (normaliseEvents res)"
      "if ex_noOp x then w' = w0 \<and> ex_appended x = [] else ?u \<noteq> all_uuid \<and> appended_at ?u w0 w' (ex_filled x) (ex_appended x)"
    by blast
  have bl: "bank_log (log_of w0)" using assms(4) d(1) by (simp add: bank_clients_def)
  from bank_decides [OF bl d(2,3)] obtain evs where evs: "normaliseEvents res = map new_event_of evs"
    "dispatch_app c (app_of (log_of w0)) = Inr (app_of (log_of w0) @ map (\<lambda>e. (?u, e)) evs)"
    "\<forall>e \<in> set evs. case e of AccountEv _ \<Rightarrow> prefix ''Account-'' ?u | TransferEv _ \<Rightarrow> prefix ''Transfer-'' ?u" by blast
  show ?thesis
  proof (cases "evs = []")
    case True
    with d evs bl show ?thesis by auto
  next
    case False
    with d(4,6) evs(1) have "appended_at ?u w0 w' (ex_filled x) (ex_appended x)" by simp
    then obtain n m erows where wr: "list_all2 written (ex_filled x) erows"
      and l: "log_of w' = log_of w0 @ appended_log ?u n m erows" unfolding appended_at_def Let_def by blast
    note dec = decoded_appended [OF wr [unfolded d(5) evs(1) map_map], of ?u n m]
    have be: "bank_event r" if "r \<in> set (appended_log ?u n m erows)" for r
    proof -
      from dec that obtain e where r: "o_stream_uuid r = ?u" "says r e" "e \<in> set evs" by blast
      with evs(3) have "case e of AccountEv _ \<Rightarrow> prefix ''Account-'' ?u | TransferEv _ \<Rightarrow> prefix ''Transfer-'' ?u" by blast
      with r show ?thesis by (cases e) (simp_all add: bank_event_def)
    qed
    then have "bank_log (log_of w')" using bl by (simp add: l bank_log_def list_all_iff) blast
    moreover have "app_of (log_of w') = app_of (log_of w0) @ map (\<lambda>e. (?u, e)) evs"
      using dec by (simp add: l app_of_def)
    ultimately have "bank_log (log_of w')" "app_of (log_of w') = app_of (log_of w0) @ map (\<lambda>e. (?u, e)) evs" by auto
    with d(1) evs(2) show ?thesis by auto
  qed
qed

lemma bank_stream: "stream_name (bank_def c) (snd (appCommandRouter c)) = target_stream c"
  by (cases c rule: command_json.cases)
    (simp_all add: stream_name_def target_stream_def bank_def_def Account_def_def Transfer_def_def)

lemma bank_registered:
  "map_of [(''Account'', Account_def), (''Transfer'', Transfer_def)] (fst (appCommandRouter c)) = Some (bank_def c)"
  by (cases c rule: command_json.cases) (simp_all add: bank_def_def)

text \<open>A dispatch of one of its commands through the facade: at one instant, and whatever other clients did around
  it, it did to the application's view of the log exactly what \<open>dispatch_app\<close> does.\<close>

definition bank_app :: "('p, 's) instructed \<Rightarrow> app_command \<Rightarrow> bool" where
  "bank_app app c \<longleftrightarrow>
     in_client app = pg_client \<and> in_commandRouter app = Some bank_router
     \<and> map_of (in_aggregates app) (fst (appCommandRouter c)) = Some (bank_def c)"

lemma dispatch_refines:
  assumes "bank_app app c" "dispatch app (DispatchLean (command_json c) None) w = Some (Inr rows, w')"
    and "world_ok w" "bank_clients (target_stream c) w"
  shows "\<exists>w0. quiet w w0 \<and> dispatch_app c (app_of (log_of w0)) = Inr (app_of (log_of w')) \<and> bank_log (log_of w')"
proof -
  let ?u = "target_stream c" and ?def = "bank_def c" and ?o = "dispatch_run_options app no_dispatch_options"
  have made: "in_client app = pg_client" "in_commandRouter app = Some bank_router"
    "map_of (in_aggregates app) (fst (appCommandRouter c)) = Some ?def" using assms(1) by (simp_all add: bank_app_def)
  have route: "dispatch_route app (DispatchLean (command_json c) None)
      = Inr (fst (appCommandRouter c), snd (appCommandRouter c), command_json c, no_dispatch_options)"
    by (simp add: dispatch_route_def made bank_routes given_def)
  from assms(2) have run: "runCommandWithSnapshots pg_client ?def ?u (command_json c) ?o w = Some (Inr rows, w')"
    by (rule dispatch_cases) (use route made bank_stream in \<open>auto simp: no_dispatch_options_def\<close>)
  have o: "ro_expectedVersion ?o = None" by (simp add: dispatch_run_options_def no_dispatch_options_def no_options_def)
  show ?thesis by (rule run_refines [OF run o assms(3,4)])
qed

text \<open>What the application writes besides the database does not matter to the others.\<close>

lemma bank_clients_eq:
  assumes "bank_clients u w" "w_db w1 = w_db w" "w_env w1 = w_env w" "w_pos w1 = w_pos w"
  shows "bank_clients u w1"
proof -
  have "bank_log (log_of w2) \<and> snap_of u w2 = None" if "quiet w1 w2" for w2
  proof -
    from that assms(2-4) have "quiet w (w2\<lparr>w_log := w_log w\<rparr>)" by (simp add: quiet_def)
    with assms(1) show ?thesis by (auto simp: bank_clients_def log_of_def snap_of_def)
  qed
  then show ?thesis by (simp add: bank_clients_def)
qed

lemma alone_clients:
  assumes "w_env w = (\<lambda>_. calm)" "bank_log (log_of w)" "snap_of u w = None"
  shows "bank_clients u w"
proof -
  have "interfere calm = id" by (rule ext) (simp add: interfere_def calm_def pass_def)
  moreover have "fold interfere (map (\<lambda>_. calm) xs) d = d" if "interfere calm = id" for xs :: "nat list" and d
    by (induction xs) (simp_all add: that)
  ultimately have "quiet w w1 \<Longrightarrow> w_db w1 = w_db w" for w1 by (simp add: quiet_def assms(1))
  with assms(2,3) show ?thesis by (auto simp: bank_clients_def log_of_def snap_of_def)
qed

definition log_after :: "((thrown + 'a) \<times> world) option \<Rightarrow> app_log option" where
  "log_after m = (case m of Some (Inr _, w) \<Rightarrow> Some (app_of (log_of w)) | _ \<Rightarrow> None)"

text \<open>An event another client has stored.\<close>

definition stored :: "string \<Rightarrow> string \<Rightarrow> app_event \<Rightarrow> db \<Rightarrow> db" where
  "stored i u e = after (CAppend (Some u) (Some ''any'') None
     (Some (JArr [JObj [(''event_id'', JStr i), (''event_type'', JStr (event_type e)), (''data'', event_data e)]])))"

end
