(* ===== verification/Bank_Scripts.thy ===== *)
theory Bank_Scripts
  imports Bank_App Saga
begin

text \<open>
  The scripts users run (examples/typescript/bank-account/scripts: open-account.ts, deposit.ts, transfer.ts)
  from their arguments to their exit code, and the conversion of texts to numbers they use. The theorem: a
  script that exits with 0 is one step of a user in the system of \<open>Saga\<close>. Closing the pool is not modelled.
\<close>

section \<open>\<open>Number(text)\<close>\<close>

definition pow10 :: "int \<Rightarrow> rat" where
  "pow10 k = (if 0 \<le> k then 10 ^ nat k else 1 / 10 ^ nat (- k))"

text \<open>An optional sign and at least one digit.\<close>

definition exponent_value :: "string \<Rightarrow> int option" where
  "exponent_value s =
     (case s of
        [] \<Rightarrow> None
      | c # cs \<Rightarrow>
          (if c \<in> {CHR ''+'', CHR ''-''} then
             (if cs = [] then None
              else map_option (\<lambda>n. if c = CHR ''-'' then - int n else int n) (digits_value 0 cs))
           else map_option int (digits_value 0 s)))"

definition unsigned_decimal :: "string \<Rightarrow> js_num" where
  "unsigned_decimal s =
     (if s = ''Infinity'' then Infinity
      else let whole = takeWhile is_digit s; rest = dropWhile is_digit s;
               (frac, rest) = (case rest of
                    [] \<Rightarrow> ([], [])
                  | c # cs \<Rightarrow> if c = CHR ''.'' then (takeWhile is_digit cs, dropWhile is_digit cs) else ([], rest));
               expo = (case rest of
                    [] \<Rightarrow> Some 0
                  | c # cs \<Rightarrow> if c \<in> {CHR ''e'', CHR ''E''} then exponent_value cs else None)
           in if whole @ frac = [] then NaN
              else case (digits_value 0 (whole @ frac), expo) of
                     (Some m, Some k) \<Rightarrow> Fin (rat_of_nat m * pow10 (k - int (length frac)))
                   | _ \<Rightarrow> NaN)"

fun negated :: "js_num \<Rightarrow> js_num" where
  "negated (Fin r) = Fin (- r)"
| "negated Infinity = NegInfinity"
| "negated NegInfinity = Infinity"
| "negated NaN = NaN"

definition radix_of :: "char \<Rightarrow> nat option" where
  "radix_of c =
     (if c \<in> {CHR ''x'', CHR ''X''} then Some 16 else if c \<in> {CHR ''o'', CHR ''O''} then Some 8
      else if c \<in> {CHR ''b'', CHR ''B''} then Some 2 else None)"

definition number_of_text :: "string \<Rightarrow> js_num" where
  "number_of_text s =
     (case trim s of
        [] \<Rightarrow> Fin 0
      | c # cs \<Rightarrow>
          (case (c = CHR ''0'', cs) of
             (True, p # ds) \<Rightarrow>
               (case radix_of p of
                  Some b \<Rightarrow> (case base_value b 0 ds of Some n \<Rightarrow> if ds = [] then NaN else Fin (of_nat n) | None \<Rightarrow> NaN)
                | None \<Rightarrow> unsigned_decimal (c # cs))
           | _ \<Rightarrow> (if c = CHR ''-'' then negated (unsigned_decimal cs)
                   else if c = CHR ''+'' then unsigned_decimal cs
                   else unsigned_decimal (c # cs))))"


section \<open>A script\<close>

text \<open>How \<open>main\<close> stops short: \<open>process.exit\<close> with what was written to the error stream, or a rejection.\<close>

datatype abrupt = Exits nat string | Rejects thrown

record script_end =
  se_out :: string
  se_err :: string
  se_code :: nat

definition requireArg :: "string list \<Rightarrow> nat \<Rightarrow> string \<Rightarrow> abrupt + string" where
  "requireArg argv index name =
     (case drop index argv of
        v # _ \<Rightarrow> if v = [] then Inl (Exits 2 (''missing argument: <'' @ name @ ''>'' @ [CHR 0x0A])) else Inr v
      | [] \<Rightarrow> Inl (Exits 2 (''missing argument: <'' @ name @ ''>'' @ [CHR 0x0A])))"

text \<open>\<open>Number(requireArg(...))\<close> and the check behind it.\<close>

definition require_amount :: "string list \<Rightarrow> nat \<Rightarrow> abrupt + rat" where
  "require_amount argv index =
     bind_sum (requireArg argv index ''amount'') (\<lambda>v.
       if valid_amount (number_of_text v) then Inr (num_value (number_of_text v))
       else Inl (Rejects (js_error (''invalid amount: '' @ v))))"

text \<open>\<open>new Instructed({ db: pool }).register(aggregate).register(appCommandRouter)\<close>\<close>

definition script_app :: "json aggregate_def \<Rightarrow> (unit, unit) instructed io" where
  "script_app def =
     bind_io (lift_io (new_Instructed Pool None)) (\<lambda>a0.
     bind_io (register (aggregate_object def) None a0) (\<lambda>a1.
     register (RouterArg bank_router) None a1))"

text \<open>The body of every \<open>main\<close>: one dispatch, then a line.\<close>

definition dispatching_main :: "app_command \<Rightarrow> string \<Rightarrow> world \<Rightarrow> ((abrupt + string) \<times> world) option" where
  "dispatching_main c line w =
     (case script_app (bank_def c) w of
        (Inl e, w1) \<Rightarrow> Some (Inl (Rejects e), w1)
      | (Inr app, w1) \<Rightarrow>
          (case dispatch app (DispatchLean (command_json c) None) w1 of
             None \<Rightarrow> None
           | Some (Inl e, w2) \<Rightarrow> Some (Inl (Rejects e), w2)
           | Some (Inr _, w2) \<Rightarrow> Some (Inr (line @ [CHR 0x0A]), w2)))"

definition open_account_main :: "string list \<Rightarrow> world \<Rightarrow> ((abrupt + string) \<times> world) option" where
  "open_account_main argv w =
     (case requireArg argv 2 ''name'' of
        Inl e \<Rightarrow> Some (Inl e, w)
      | Inr name \<Rightarrow> dispatching_main (AccountCmd (OpenAccount name name)) (''opened account '' @ quote name) w)"

definition deposit_main :: "string list \<Rightarrow> world \<Rightarrow> ((abrupt + string) \<times> world) option" where
  "deposit_main argv w =
     (case bind_sum (requireArg argv 2 ''name'') (\<lambda>name. bind_sum (require_amount argv 3) (\<lambda>a. Inr (name, a))) of
        Inl e \<Rightarrow> Some (Inl e, w)
      | Inr (name, amount) \<Rightarrow>
          dispatching_main (AccountCmd (DepositToAccount name amount None))
            (''deposited '' @ show_num amount @ '' to '' @ quote name) w)"

definition transfer_main :: "string list \<Rightarrow> world \<Rightarrow> ((abrupt + string) \<times> world) option" where
  "transfer_main argv w =
     (case bind_sum (requireArg argv 2 ''from'') (\<lambda>from1. bind_sum (requireArg argv 3 ''to'') (\<lambda>to1.
             bind_sum (require_amount argv 4) (\<lambda>a. Inr (from1, to1, a)))) of
        Inl e \<Rightarrow> Some (Inl e, w)
      | Inr (from1, to1, amount) \<Rightarrow>
          (let (transferId, w1) = randomUUID w
           in dispatching_main (TransferCmd (RequestTransfer transferId from1 to1 amount))
                (''requested transfer '' @ take 8 transferId @ ''  '' @ from1 @ '' -> '' @ to1 @ ''  '' @ show_num amount) w1))"

datatype user_script = OpenAccountScript | DepositScript | TransferScript

fun script_name :: "user_script \<Rightarrow> string" where
  "script_name OpenAccountScript = ''open-account''"
| "script_name DepositScript = ''deposit''"
| "script_name TransferScript = ''transfer''"

fun script_main :: "user_script \<Rightarrow> string list \<Rightarrow> world \<Rightarrow> ((abrupt + string) \<times> world) option" where
  "script_main OpenAccountScript = open_account_main"
| "script_main DepositScript = deposit_main"
| "script_main TransferScript = transfer_main"

text \<open>\<open>main().catch(...)\<close>; a value that is not an object with a message shows as \<open>undefined\<close>.\<close>

definition run_script :: "user_script \<Rightarrow> string list \<Rightarrow> world \<Rightarrow> (script_end \<times> world) option" where
  "run_script s argv w =
     (case script_main s argv w of
        None \<Rightarrow> None
      | Some (Inr line, w1) \<Rightarrow> Some (\<lparr>se_out = line, se_err = [], se_code = 0\<rparr>, w1)
      | Some (Inl (Exits n t), w1) \<Rightarrow> Some (\<lparr>se_out = [], se_err = t, se_code = n\<rparr>, w1)
      | Some (Inl (Rejects e), w1) \<Rightarrow>
          Some (\<lparr>se_out = [],
             se_err = script_name s @ '' failed: '' @ (case message_of e of Some m \<Rightarrow> m | None \<Rightarrow> ''undefined'') @ [CHR 0x0A],
             se_code = 1\<rparr>, w1))"

section \<open>A script is a step of a user\<close>

lemma script_app_made:
  assumes "script_app def w = (r, w1)"
  shows "\<exists>app l. r = Inr app \<and> in_client app = pg_client \<and> in_commandRouter app = Some bank_router
     \<and> in_aggregates app = [(ag_type def, def)] \<and> w1 = w\<lparr>w_log := l\<rparr>"
proof -
  have "log_info (fromImpl (Some DEFAULT_LOGGER_IMPL) None) m w = w\<lparr>w_log := w_log w @ [(Info, m)]\<rparr>" for m w
    by (simp add: log_info_def fromImpl_def new_Logger_def bind_level_def DEFAULT_LOGGER_IMPL_def console_def)
  with assms show ?thesis
    by (auto simp: script_app_def new_Instructed_def new_Client_def isQueryable_def bind_io_def lift_io_def register_def
        aggregate_object_def registerAggregate_def registerCommandRouter_def)
qed

lemma dispatching_main_step:
  assumes "dispatching_main c line w = Some (Inr out, w')" "world_ok w" "bank_clients (target_stream c) w" "user_command c"
  shows "\<exists>lg. prefix (app_of (log_of w)) lg \<and> bank_log (log_of w')
     \<and> saga lost \<lparr>bk_log = lg, bk_handled = hs\<rparr> \<lparr>bk_log = app_of (log_of w'), bk_handled = hs\<rparr>"
proof -
  obtain r w1 where m: "script_app (bank_def c) w = (r, w1)" by fastforce
  from script_app_made [OF m] obtain app l where app: "r = Inr app" "in_client app = pg_client"
    "in_commandRouter app = Some bank_router" "in_aggregates app = [(ag_type (bank_def c), bank_def c)]" "w1 = w\<lparr>w_log := l\<rparr>"
    by blast
  have "bank_app app c"
    using app by (cases c rule: command_json.cases) (simp_all add: bank_app_def bank_def_def)
  moreover obtain rows where "dispatch app (DispatchLean (command_json c) None) w1 = Some (Inr rows, w')"
    using assms(1) app(1) by (auto simp: dispatching_main_def m split: option.splits sum.splits prod.splits)
  moreover have ok: "world_ok w1" using assms(2) by (simp add: app(5) world_ok_def)
  moreover have "bank_clients (target_stream c) w1" by (rule bank_clients_eq [OF assms(3)]) (simp_all add: app(5))
  ultimately obtain w0 where
    w0: "quiet w1 w0" "dispatch_app c (app_of (log_of w0)) = Inr (app_of (log_of w'))" "bank_log (log_of w')"
    using dispatch_refines by blast
  have "prefix (log_of w) (log_of w0)" using quiet_ok [OF w0(1) ok] by (simp add: app(5) log_of_def)
  then have "prefix (app_of (log_of w)) (app_of (log_of w0))" by (auto simp: app_of_def prefix_def)
  moreover have "saga lost \<lparr>bk_log = app_of (log_of w0), bk_handled = hs\<rparr> \<lparr>bk_log = app_of (log_of w'), bk_handled = hs\<rparr>"
    using saga_user [OF assms(4), of "\<lparr>bk_log = app_of (log_of w0), bk_handled = hs\<rparr>"] w0(2) by simp
  ultimately show ?thesis using w0(3) by blast
qed

lemma requireArg_given: "requireArg argv i name = Inr v \<Longrightarrow> v \<noteq> []"
  by (auto simp: requireArg_def split: list.splits if_splits)

lemma require_amount_valid:
  assumes "require_amount argv i = Inr a"
  shows "valid_amount (Fin a)"
proof -
  from assms obtain v where "valid_amount (number_of_text v)" "a = num_value (number_of_text v)"
    by (auto simp: require_amount_def bind_sum_Inr split: if_splits)
  then show ?thesis by (cases "number_of_text v") (simp_all add: valid_amount_def)
qed

text \<open>A script stops at an argument, having done nothing, or makes its dispatch.\<close>

definition bad_argument :: "abrupt \<Rightarrow> bool" where
  "bad_argument e \<longleftrightarrow> (case e of Exits n t \<Rightarrow> n = 2 | Rejects _ \<Rightarrow> True)"

lemma arguments_bad:
  "requireArg argv i name = Inl e \<Longrightarrow> bad_argument e"
  "require_amount argv i = Inl e \<Longrightarrow> bad_argument e"
  by (auto simp: requireArg_def require_amount_def bind_sum_Inl bad_argument_def split: list.splits if_splits)

definition dispatches :: "(abrupt + string) \<times> world \<Rightarrow> world \<Rightarrow> bool" where
  "dispatches e w \<longleftrightarrow> (\<exists>c line w1. dispatching_main c line w1 = Some e \<and> user_command c
     \<and> w_db w1 = w_db w \<and> w_env w1 = w_env w \<and> w_pos w1 = w_pos w)"

lemma dispatchesI:
  "dispatching_main c line w1 = Some e \<Longrightarrow> user_command c \<Longrightarrow> w_db w1 = w_db w \<Longrightarrow> w_env w1 = w_env w
     \<Longrightarrow> w_pos w1 = w_pos w \<Longrightarrow> dispatches e w"
  by (auto simp: dispatches_def)

lemma script_dispatches:
  assumes "script_main s argv w = Some e" "w_uuids w (w_uuid_pos w) \<noteq> []"
  shows "(\<exists>a. e = (Inl a, w) \<and> bad_argument a) \<or> dispatches e w"
proof (cases s)
  case OpenAccountScript
  then have m: "open_account_main argv w = Some e" using assms(1) by simp
  show ?thesis
  proof (cases "requireArg argv 2 ''name''")
    case (Inr name)
    with m have "dispatching_main (AccountCmd (OpenAccount name name)) (''opened account '' @ quote name) w = Some e"
      by (simp add: open_account_main_def)
    then have "dispatches e w" by (rule dispatchesI) (simp_all add: requireArg_given [OF Inr])
    then show ?thesis ..
  qed (use m in \<open>auto simp: open_account_main_def arguments_bad\<close>)
next
  case DepositScript
  let ?args = "bind_sum (requireArg argv 2 ''name'') (\<lambda>name. bind_sum (require_amount argv 3) (\<lambda>a. Inr (name, a)))"
  from DepositScript have m: "deposit_main argv w = Some e" using assms(1) by simp
  show ?thesis
  proof (cases ?args)
    case (Inr args)
    then obtain name a where a: "args = (name, a)" "requireArg argv 2 ''name'' = Inr name" "require_amount argv 3 = Inr a"
      by (auto simp: bind_sum_Inr)
    with m Inr have "dispatching_main (AccountCmd (DepositToAccount name a None))
        (''deposited '' @ show_num a @ '' to '' @ quote name) w = Some e"
      by (simp add: deposit_main_def)
    then have "dispatches e w"
      by (rule dispatchesI) (simp_all add: requireArg_given [OF a(2)] require_amount_valid [OF a(3)])
    then show ?thesis ..
  qed (use m in \<open>auto simp: deposit_main_def bind_sum_Inl arguments_bad\<close>)
next
  case TransferScript
  let ?args = "bind_sum (requireArg argv 2 ''from'') (\<lambda>from1. bind_sum (requireArg argv 3 ''to'') (\<lambda>to1.
      bind_sum (require_amount argv 4) (\<lambda>a. Inr (from1, to1, a))))"
  from TransferScript have m: "transfer_main argv w = Some e" using assms(1) by simp
  show ?thesis
  proof (cases ?args)
    case (Inr args)
    then obtain f g a where a: "args = (f, g, a)" "requireArg argv 2 ''from'' = Inr f" "requireArg argv 3 ''to'' = Inr g"
      "require_amount argv 4 = Inr a" by (auto simp: bind_sum_Inr)
    let ?tid = "w_uuids w (w_uuid_pos w)"
    from m Inr a(1) have "dispatching_main (TransferCmd (RequestTransfer ?tid f g a))
        (''requested transfer '' @ take 8 ?tid @ ''  '' @ f @ '' -> '' @ g @ ''  '' @ show_num a) (snd (randomUUID w)) = Some e"
      by (simp add: transfer_main_def randomUUID_def)
    then have "dispatches e w"
      by (rule dispatchesI)
        (simp_all add: requireArg_given [OF a(2)] requireArg_given [OF a(3)] require_amount_valid [OF a(4)] assms(2) randomUUID_def)
    then show ?thesis ..
  qed (use m in \<open>auto simp: transfer_main_def bind_sum_Inl arguments_bad\<close>)
qed

lemma dispatching_main_Inl: "dispatching_main c line w = Some (Inl e, w') \<Longrightarrow> \<exists>t. e = Rejects t"
  by (auto simp: dispatching_main_def split: sum.splits option.splits prod.splits)


definition opened_world :: world where
  "opened_world = sample_world\<lparr>w_db :=
     stored ''00000000-0000-4000-8000-000000000001'' ''Account-ada'' (AccountEv (AccountOpened ''ada'')) (initial_db 0)\<rparr>"

definition deposit_run :: "(script_end \<times> world) option" where
  "deposit_run = run_script DepositScript [''node'', ''deposit.ts'', ''ada'', ''1.2e1''] opened_world"

definition ends_with :: "script_end \<Rightarrow> app_log \<Rightarrow> (script_end \<times> world) option \<Rightarrow> bool" where
  "ends_with r lg m = (case m of Some (r1, w) \<Rightarrow> r1 = r \<and> app_of (log_of w) = lg | None \<Rightarrow> False)"


end
