(* ===== verification/Bank_Manager.thy ===== *)
theory Bank_Manager
  imports Bank_App Saga
begin

text \<open>
  The process manager of the example (process-managers/transfer-pm.ts) as the SDK runs it: its callbacks
  read the members of the stored event and build commands as plain objects, and the worker dispatches them
  through the application's router. The theorem: what the worker's handler does for an event of the log is
  the \<open>handle_at\<close> of the system of \<open>Saga\<close>.
\<close>

section \<open>Members as JavaScript reads them\<close>

text \<open>The truth value of a member; \<open>None\<close> is \<open>undefined\<close>.\<close>

definition truthy :: "json option \<Rightarrow> bool" where
  "truthy v \<longleftrightarrow> v \<notin> {None, Some JNull, Some (JBool False), Some (JNum 0), Some (JStr [])}"

text \<open>An object literal's member; one that is \<open>undefined\<close> is not read apart from one that is not there.\<close>

definition member :: "string \<Rightarrow> json option \<Rightarrow> (string \<times> json) list" where
  "member k v = (case v of None \<Rightarrow> [] | Some x \<Rightarrow> [(k, x)])"

definition data_of :: "recorded_event \<Rightarrow> thrown + json" where
  "data_of ev =
     (if re_data ev = JNull then Inl (type_error ''Cannot read properties of null (reading transferId)'') else Inr (re_data ev))"

section \<open>The definition\<close>

definition pm_route :: routing_fn where
  "pm_route = onlyTypes [''TransferRequested'', ''AccountWithdrawnFrom'', ''AccountDepositedTo'', ''AccountWithdrawalRefused'']
     (\<lambda>ev. bind_io (lift_io (data_of ev)) (\<lambda>d.
        let tid = json_get ''transferId'' d
        in return_io (if re_type ev = ''TransferRequested'' \<or> truthy tid then Some (JObj (member ''partitionKey'' tid)) else ignore)))"

definition pm_apply :: "json \<Rightarrow> recorded_event \<Rightarrow> thrown + json" where
  "pm_apply st ev =
     (if re_type ev = ''AccountWithdrawnFrom'' then
        bind_sum (data_of ev) (\<lambda>d.
          let tid = json_get ''transferId'' d
          in Inr (if truthy tid then JObj ((''stage'', JStr ''debited'') # member ''transferId'' tid) else st))
      else if re_type ev = ''AccountDepositedTo'' then Inr (JObj [(''stage'', JStr ''completed'')])
      else if re_type ev = ''AccountWithdrawalRefused'' then
        bind_sum (data_of ev) (\<lambda>d. Inr (JObj ((''stage'', JStr ''failed'') # member ''reason'' (json_get ''reason'' d))))
      else Inr st)"

definition lean :: "string \<Rightarrow> (string \<times> json) list \<Rightarrow> dispatched_command" where
  "lean ty ms =
     \<lparr>dc_streamUuid = None, dc_aggregate = None, dc_command = JNull, dc_self = JObj ((''type'', JStr ty) # ms)\<rparr>"

text \<open>Another type leaves the switch, and the worker reads \<open>commands\<close> of \<open>undefined\<close>.\<close>

definition pm_handled :: "recorded_event \<Rightarrow> thrown + pm_result" where
  "pm_handled ev =
     (let ty = re_type ev
      in if ty \<notin> {''TransferRequested'', ''AccountWithdrawnFrom'', ''AccountDepositedTo'', ''AccountWithdrawalRefused''}
         then Inl (type_error ''Cannot read properties of undefined (reading commands)'')
         else bind_sum (data_of ev) (\<lambda>d.
           let get = (\<lambda>k. json_get k d); tid = get ''transferId''
           in Inr (if ty = ''TransferRequested'' then
                \<lparr>pm_commands = Some [lean ''WithdrawFromAccount'' (member ''accountId'' (get ''from'') @ member ''amount'' (get ''amount'')
                    @ member ''transferId'' tid @ member ''to'' (get ''to''))], pm_complete = None\<rparr>
              else if ty = ''AccountWithdrawnFrom'' then
                (if \<not> truthy (get ''to'') \<or> \<not> truthy tid then \<lparr>pm_commands = None, pm_complete = None\<rparr>
                 else \<lparr>pm_commands = Some [lean ''DepositToAccount'' (member ''accountId'' (get ''to'')
                         @ member ''amount'' (get ''amount'') @ member ''transferId'' tid)], pm_complete = None\<rparr>)
              else if \<not> truthy tid then \<lparr>pm_commands = None, pm_complete = Some True\<rparr>
              else if ty = ''AccountDepositedTo'' then
                \<lparr>pm_commands = Some [lean ''MarkTransferCompleted'' (member ''transferId'' tid)], pm_complete = Some True\<rparr>
              else
                \<lparr>pm_commands = Some [lean ''MarkTransferFailed'' (member ''transferId'' tid @ member ''reason'' (get ''reason''))],
                 pm_complete = Some True\<rparr>)))"

definition transferProcessManager :: "'p pm_registration" where
  "transferProcessManager =
     \<lparr>pg_def =
        \<lparr>pmd_type = ''TransferProcessManager'', pmd_streamName = None, pmd_stream = Some all_uuid,
         pmd_initialState = JObj [(''stage'', JStr ''starting'')], pmd_apply = pm_apply,
         pmd_handle = (\<lambda>st ev ctx w. Some (pm_handled ev, w)), pmd_snapshotModuleVersion = None, pmd_errorPolicy = None\<rparr>,
      pg_routeFn = pm_route, pg_startFrom = None\<rparr>"

section \<open>The callbacks on the application's events\<close>

definition event_says :: "recorded_event \<Rightarrow> app_event \<Rightarrow> bool" where
  "event_says ev e \<longleftrightarrow> re_type ev = event_type e \<and> re_data ev = event_data e"

lemma truthy_simps [simp]:
  "truthy (map_option JStr v) \<longleftrightarrow> \<not> falsy v"
  "truthy (Some (JStr s)) \<longleftrightarrow> s \<noteq> []"
  "\<not> truthy None"
  by (auto simp: truthy_def falsy_def)

lemma member_simps [simp]:
  "member k (map_option JStr v) = optional k v" "member k (Some x) = [(k, x)]"
  by (auto simp: member_def optional_def split: option.split)

lemma map_of_optional [simp]:
  "map_of (optional k v) k = map_option JStr v" "k \<noteq> k1 \<Longrightarrow> map_of (optional k1 v) k = None"
  by (auto simp: optional_def split: option.split)

text \<open>One value per event: the command list as \<open>transferHandle\<close> has it, as lean commands.\<close>

definition lean_of :: "app_command \<Rightarrow> dispatched_command" where
  "lean_of c = \<lparr>dc_streamUuid = None, dc_aggregate = None, dc_command = JNull, dc_self = command_json c\<rparr>"

definition commands_of :: "pm_result \<Rightarrow> dispatched_command list" where
  "commands_of r = (case pm_commands r of Some cs \<Rightarrow> cs | None \<Rightarrow> [])"

lemma optional_the: "\<not> falsy v \<Longrightarrow> optional k v = [(k, JStr (the v))] \<and> v \<noteq> None"
  by (auto simp: falsy_def optional_def split: option.split)

lemma the_member: "\<not> falsy v \<Longrightarrow> member k (map_option JStr v) = [(k, JStr (the v))]"
  using optional_the by simp

lemma handled_says:
  assumes "event_says ev e" "transferRouteFn e \<noteq> None"
  shows "\<exists>r. pm_handled ev = Inr r \<and> commands_of r = map lean_of (fst (transferHandle st e))
     \<and> (pm_complete r = Some True) = snd (transferHandle st e)"
proof (cases "(st, e)" rule: transferHandle.cases)
  case (1 st u v amount tid)
  with assms show ?thesis
    by (simp add: event_says_def pm_handled_def data_of_def Let_def lean_def lean_of_def commands_of_def optional_def)
next
  case (2 st amount tid to)
  with assms(2) obtain i where "tid = Some i" "i \<noteq> []" by (auto simp: falsy_def split: if_splits)
  with 2 assms show ?thesis
    by (cases to)
      (simp_all add: event_says_def pm_handled_def data_of_def Let_def lean_def lean_of_def commands_of_def optional_def
        map_add_def falsy_def)
next
  case (3 st amount tid)
  with assms show ?thesis
    by (simp add: event_says_def pm_handled_def data_of_def Let_def lean_def lean_of_def commands_of_def optional_the map_add_def
        split: if_splits)
next
  case (4 st reason amount tid)
  with assms show ?thesis
    by (simp add: event_says_def pm_handled_def data_of_def Let_def lean_def lean_of_def commands_of_def optional_the map_add_def
        split: if_splits)
qed (use assms in auto)

lemma route_says:
  assumes "event_says ev e"
  shows "pm_route ev w = (Inr (case transferRouteFn e of None \<Rightarrow> ignore | Some k \<Rightarrow> Some (JObj [(''partitionKey'', JStr k)])), w)"
  using assms
  by (cases e rule: transferRouteFn.cases)
    (simp_all add: event_says_def pm_route_def onlyTypes_def data_of_def Let_def bind_io_def lift_io_def return_io_def optional_the map_add_def
        falsy_def split: option.split)

section \<open>A handled event\<close>

lemma resolve_lean:
  assumes "po_router opts = Some bank_router" "po_aggregates opts = Some [(''Account'', Account_def), (''Transfer'', Transfer_def)]"
  shows "resolveDispatch (lean_of c) opts lg
     = Inr \<lparr>rv_def = bank_def c, rv_streamUuid = target_stream c, rv_command = command_json c\<rparr>"
  using bank_registered [of c] bank_stream [of c]
  by (auto simp: resolveDispatch_def assms isExplicitDispatch_def lean_of_def bank_routes split: if_splits option.splits)

text \<open>A logger whose traces are only lines of output.\<close>

definition only_prints :: "logger \<Rightarrow> bool" where
  "only_prints lg \<longleftrightarrow> (\<forall>s w. \<exists>l. trace lg (Thunk (\<lambda>w. (s, w))) w = w\<lparr>w_log := l\<rparr>)"

lemma only_printsE:
  assumes "only_prints lg"
  obtains l where "trace lg (Thunk (\<lambda>w. (s, w))) w = w\<lparr>w_log := l\<rparr>"
  using assms unfolding only_prints_def by blast

lemma noop_prints: "only_prints noop"
  unfolding only_prints_def
proof (intro allI)
  fix s and w :: world
  show "\<exists>l. trace noop (Thunk (\<lambda>w. (s, w))) w = w\<lparr>w_log := l\<rparr>"
    by (rule exI [of _ "w_log w"]) (simp add: noop_def new_Logger_def bind_level_def NOOP_def)
qed

lemma lean_dispatched:
  assumes "dispatch_commands pg_client opts ev lg [lean_of c] w = Some (Inr r, w')" "only_prints lg"
    and "po_router opts = Some bank_router" "po_aggregates opts = Some [(''Account'', Account_def), (''Transfer'', Transfer_def)]"
  obtains rows l where "runCommandWithSnapshots pg_client (bank_def c) (target_stream c) (command_json c)
      (pm_run_options ev lg) (w\<lparr>w_log := l\<rparr>) = Some (Inr rows, w')"
proof -
  obtain ty where ty: "command_type (command_json c) = Inr ty"
    by (cases c rule: command_json.cases) (auto simp: command_type_def)
  obtain l where "trace lg (Thunk (\<lambda>w. (''pm dispatch: '' @ ag_type (bank_def c) @ ''.'' @ ty @ '' -> '' @ target_stream c, w))) w
      = w\<lparr>w_log := l\<rparr>" using only_printsE [OF assms(2)] .
  with assms(1) resolve_lean [OF assms(3,4), of c lg] ty show ?thesis
    by (auto simp: Let_def split: option.splits sum.splits prod.splits intro!: that)
qed

lemma logged_says:
  assumes "\<forall>c. bank_clients (target_stream c) w"
  shows "bank_log (log_of w)"
    and "p < length (log_of w) \<Longrightarrow> ev = recorded (log_of w ! p) \<Longrightarrow> event_says ev (the (decoded (log_of w ! p)))"
proof -
  show bl: "bank_log (log_of w)" using assms quiet_refl by (auto simp: bank_clients_def)
  assume "p < length (log_of w)" "ev = recorded (log_of w ! p)"
  moreover from this bl have "bank_event (log_of w ! p)" by (simp add: bank_log_def list_all_length)
  ultimately show "event_says ev (the (decoded (log_of w ! p)))"
    by (auto simp: bank_event_def says_def event_says_def recorded_def split: option.splits)
qed

text \<open>C12. The process manager's worker refines the system's step. The worker's handler, given the event at a
  position of the log that the manager routes, and returning, did on a log that extends the one it found, and
  whatever other clients did around it, what \<open>handle_at\<close> does to the application's view of the log, and asked
  for the completion of the instance exactly when \<open>transferHandle\<close> does.\<close>

theorem handle_refines_saga:
  assumes "dispatching_handle pg_client (pg_def transferProcessManager) opts s ev ctx w = Some (Inr r, w')"
    and "po_router opts = Some bank_router" "po_aggregates opts = Some [(''Account'', Account_def), (''Transfer'', Transfer_def)]"
    and "only_prints (hc_logger ctx)" "world_ok w" "\<forall>c. bank_clients (target_stream c) w"
    and "p < length (log_of w)" "ev = recorded (log_of w ! p)" "transferRouteFn (the (decoded (log_of w ! p))) \<noteq> None"
  shows "\<exists>lg. prefix (app_of (log_of w)) lg \<and> bank_log (log_of w')
     \<and> handle_at st \<lparr>bk_log = lg, bk_handled = hs\<rparr> p = (Inr (), app_of (log_of w'))
     \<and> (sr_complete r = Some True) = snd (transferHandle st (the (decoded (log_of w ! p))))"
proof -
  let ?e = "the (decoded (log_of w ! p))" and ?lg = "hc_logger ctx"
  note bl = logged_says(1) [OF assms(6)] and es = logged_says(2) [OF assms(6-8)]
  from handled_says [OF es assms(9), of st] obtain q where
    q: "pm_handled ev = Inr q" "commands_of q = map lean_of (fst (transferHandle st ?e))"
      "(pm_complete q = Some True) = snd (transferHandle st ?e)" by blast
  obtain l where l: "trace ?lg (Thunk (\<lambda>w. (''pm handle: event '' @ re_type ev @ ''#'' @ show_int (re_event_number ev) @ '' -> ''
      @ show_nat (length (commands_of q)) @ '' command(s); complete=''
      @ (if pm_complete q = Some True then ''true'' else ''false''), w))) w = w\<lparr>w_log := l\<rparr>"
    using only_printsE [OF assms(4)] .
  from assms(1) l have d: "dispatch_commands pg_client opts ev ?lg (commands_of q) (w\<lparr>w_log := l\<rparr>) = Some (Inr (), w')"
    and c: "(sr_complete r = Some True) = snd (transferHandle st ?e)"
    using q(1,3) by (auto simp: dispatching_handle_def transferProcessManager_def Let_def commands_of_def
        split: option.splits sum.splits prod.splits)
  have at: "snd (lg ! p) = ?e" if "prefix (app_of (log_of w)) lg" for lg
    using that assms(7) by (auto simp: app_of_def prefix_def nth_append)
  consider "fst (transferHandle st ?e) = []" | c where "fst (transferHandle st ?e) = [c]" using handle_one by blast
  then show ?thesis
  proof cases
    case 1
    with d q(2) have "log_of w' = log_of w" by (auto simp: log_of_def)
    with 1 at [of "app_of (log_of w)"] bl c show ?thesis
      by (intro exI [of _ "app_of (log_of w)"]) (simp add: handle_at_def)
  next
    case (2 cmd)
    with d q(2) have "dispatch_commands pg_client opts ev ?lg [lean_of cmd] (w\<lparr>w_log := l\<rparr>) = Some (Inr (), w')" by simp
    note run_one = lean_dispatched [OF this assms(4,2,3)]
    obtain rows l1 where run: "runCommandWithSnapshots pg_client (bank_def cmd) (target_stream cmd) (command_json cmd) (pm_run_options ev ?lg)
         (w\<lparr>w_log := l1\<rparr>) = Some (Inr rows, w')"
      by (rule run_one) simp
    have ok: "world_ok (w\<lparr>w_log := l1\<rparr>)" using assms(5) by (simp add: world_ok_def)
    have "bank_clients (target_stream cmd) (w\<lparr>w_log := l1\<rparr>)" by (rule bank_clients_eq [OF assms(6) [rule_format]]) simp_all
    from run_refines [OF run _ ok this] obtain w0 where w0: "quiet (w\<lparr>w_log := l1\<rparr>) w0"
      "dispatch_app cmd (app_of (log_of w0)) = Inr (app_of (log_of w'))" "bank_log (log_of w')"
      by (auto simp: pm_run_options_def no_options_def)
    have "prefix (app_of (log_of w)) (app_of (log_of w0))"
      using quiet_ok [OF w0(1) ok] by (auto simp: log_of_def app_of_def prefix_def)
    with 2 at [of "app_of (log_of w0)"] w0 c show ?thesis
      by (intro exI [of _ "app_of (log_of w0)"]) (simp add: handle_at_def)
  qed
qed

definition requested_world :: world where
  "requested_world = sample_world\<lparr>w_db :=
     stored ''00000000-0000-4000-8000-000000000002'' ''Transfer-t'' (TransferEv (TransferRequested ''ada'' ''b'' 3 ''t''))
       (stored ''00000000-0000-4000-8000-000000000001'' ''Account-ada'' (AccountEv (AccountOpened ''ada'')) (initial_db 0))\<rparr>"

definition bank_pm_options :: pm_options where
  "bank_pm_options =
     \<lparr>po_worker = processingOpts no_tuning no_registration_options ''w'' noop, po_router = Some bank_router,
      po_aggregates = Some [(''Account'', Account_def), (''Transfer'', Transfer_def)]\<rparr>"

definition quiet_ctx :: handler_context where
  "quiet_ctx = \<lparr>hc_workerId = ''w'', hc_partitionKey = ''t'', hc_eventNumber = 2, hc_attempt = 1, hc_aborted = False, hc_logger = noop\<rparr>"

definition pm_run :: "((thrown + substrate_result) \<times> world) option" where
  "pm_run = dispatching_handle pg_client (pg_def (transferProcessManager :: unit pm_registration)) bank_pm_options JNull
     (recorded (log_of requested_world ! 1)) quiet_ctx requested_world"

theorem handle_refines_saga_witness:
  "\<exists>r w' lg. pm_run = Some (Inr r, w')
     \<and> handle_at Starting \<lparr>bk_log = lg, bk_handled = []\<rparr> 1 = (Inr (), app_of (log_of w'))
     \<and> last (app_of (log_of w')) = (''Account-ada'', AccountEv (AccountWithdrawalRefused ''insufficient funds'' 3 (Some ''t'')))"
proof -
  have "log_after pm_run = Some
      [(''Account-ada'', AccountEv (AccountOpened ''ada'')), (''Transfer-t'', TransferEv (TransferRequested ''ada'' ''b'' 3 ''t'')),
       (''Account-ada'', AccountEv (AccountWithdrawalRefused ''insufficient funds'' 3 (Some ''t'')))]" by code_simp
  then obtain r w' where r: "pm_run = Some (Inr r, w')"
    and l: "last (app_of (log_of w')) = (''Account-ada'', AccountEv (AccountWithdrawalRefused ''insufficient funds'' 3 (Some ''t'')))"
    by (auto simp: log_after_def split: option.splits prod.splits sum.splits)
  have "reachable (w_db requested_world)"
    unfolding requested_world_def stored_def by (simp add: reach_step [OF _ step_call] reach_init)
  then have ok: "world_ok requested_world"
    using wf_reachable sample_world_ok by (auto simp: world_ok_def requested_world_def sample_world_def)
  have "bank_log (log_of requested_world)" "snaps (w_db requested_world) = []" by code_simp+
  then have cl: "\<forall>c. bank_clients (target_stream c) requested_world"
    by (intro allI alone_clients) (simp_all add: requested_world_def sample_world_def snap_of_def find_snapshot_def)
  have p: "1 < length (log_of requested_world)" by code_simp
  have t: "transferRouteFn (the (decoded (log_of requested_world ! 1))) \<noteq> None" by code_simp
  have o: "po_router bank_pm_options = Some bank_router" "only_prints (hc_logger quiet_ctx)"
    "po_aggregates bank_pm_options = Some [(''Account'', Account_def), (''Transfer'', Transfer_def)]"
    by (simp_all add: bank_pm_options_def quiet_ctx_def noop_prints)
  from handle_refines_saga [OF r [unfolded pm_run_def] o(1,3,2) ok cl p refl t, of Starting "[]"] r l
  show ?thesis unfolding pm_run_def by blast
qed

end
