(* ===== verification/Bank_Workers.thy ===== *)
theory Bank_Workers
  imports Bank_Manager
begin

text \<open>
  scripts/workers.ts: the process that runs the example's two projections and its process manager, and the
  projections as the SDK runs them (projections/*/projection.ts). The read store is the state of the
  handlers; a worker writes its own table only. The theorem: the workers the script starts run the example's
  routing functions and handlers.
\<close>

section \<open>The projections\<close>

record read_store =
  rd_balances :: "balance_row list"
  rd_transfers :: "transfer_row list"

text \<open>The driver's error is thrown as it is: the pool is the application's.\<close>

definition store_result :: "('a \<Rightarrow> read_store) \<Rightarrow> pg_error + 'a \<Rightarrow> read_store \<Rightarrow> (thrown + unit) \<times> read_store" where
  "store_result put res rs = (case res of Inl e \<Rightarrow> (Inl (PgErr e), rs) | Inr rows \<Rightarrow> (Inr (), put rows))"

definition balances_handle :: "read_store handler" where
  "balances_handle ev ctx rs w =
     (let (r, rs1) = (case event_of (re_type ev) (re_data ev) of
          None \<Rightarrow> (Inr (), rs)
        | Some e \<Rightarrow> store_result (\<lambda>rows. rs\<lparr>rd_balances := rows\<rparr>)
            (balances_handler (re_stream_uuid ev) (re_event_number ev) e (rd_balances rs)) rs)
      in Some (r, rs1, w))"

text \<open>A stored event has its time.\<close>

definition transfers_handle :: "read_store handler" where
  "transfers_handle ev ctx rs w =
     (let (r, rs1) = (case event_of (re_type ev) (re_data ev) of
          None \<Rightarrow> (Inr (), rs)
        | Some e \<Rightarrow> store_result (\<lambda>rows. rs\<lparr>rd_transfers := rows\<rparr>)
            (transfers_handler (re_event_number ev) (the (re_created_at ev)) e (rd_transfers rs)) rs)
      in Some (r, rs1, w))"

definition balancesRouteFn :: routing_fn where
  "balancesRouteFn = onlyTypes [''AccountOpened'', ''AccountDepositedTo'', ''AccountWithdrawnFrom'']
     (\<lambda>ev. return_io (Some (JObj [(''partitionKey'', JStr (re_stream_uuid ev))])))"

definition transfersRouteFn :: routing_fn where
  "transfersRouteFn = onlyTypes [''TransferRequested'', ''TransferCompleted'', ''TransferFailed'']
     (\<lambda>ev. bind_io (lift_io (data_of ev)) (\<lambda>d. return_io (Some (JObj (member ''partitionKey'' (json_get ''transferId'' d))))))"

definition balancesProjection :: "(unit, read_store) projection_registration" where
  "balancesProjection =
     \<lparr>pr_type = ''Balances'', pr_stream = Some all_uuid, pr_partitionBy = None, pr_routeFn = Some balancesRouteFn,
      pr_startFrom = None, pr_handler = balances_handle, pr_errorPolicy = None\<rparr>"

definition transfersProjection :: "(unit, read_store) projection_registration" where
  "transfersProjection =
     \<lparr>pr_type = ''Transfers'', pr_stream = Some all_uuid, pr_partitionBy = None, pr_routeFn = Some transfersRouteFn,
      pr_startFrom = None, pr_handler = transfers_handle, pr_errorPolicy = None\<rparr>"

section \<open>The script\<close>

fun includes_text :: "string \<Rightarrow> string \<Rightarrow> bool" where
  "includes_text [] t = (t = [])"
| "includes_text (c # cs) t = (prefix t (c # cs) \<or> includes_text cs t)"

definition isWorkDone :: "string \<Rightarrow> bool" where
  "isWorkDone msg \<longleftrightarrow> includes_text msg ''pm handle:'' \<or> includes_text msg ''pm dispatch:''"

text \<open>What is written to a standard stream is kept in the log of the world.\<close>

definition line :: "string \<Rightarrow> string" where
  "line m = m @ [CHR 0x0A]"

definition workers_logger :: logger_impl where
  "workers_logger =
     \<lparr>li_info = Some (\<lambda>m. console Info (line m)),
      li_warn = Some (\<lambda>m. console ErrorL (line (''WARN  '' @ m))),
      li_error = Some (\<lambda>m. console ErrorL (line (''ERROR '' @ m))),
      li_trace = Some (\<lambda>m w. if isWorkDone m then console Info (line m) w else w)\<rparr>"

definition report :: "string \<Rightarrow> registration_options" where
  "report label = \<lparr>re_onError = Some (\<lambda>e w. (Inr (), console ErrorL
     (line (''  ['' @ label @ '' error] '' @ (case message_of e of Some m \<Rightarrow> m | None \<Rightarrow> ''undefined''))) w))\<rparr>"

definition projection_object :: "('p, 's) projection_registration \<Rightarrow> ('p, 's) registerable" where
  "projection_object def = ObjectArg \<lparr>ob_execute = None, ob_handle = None, ob_handler = Some def\<rparr>"

definition manager_object :: "'p pm_registration \<Rightarrow> ('p, 's) registerable" where
  "manager_object def = ObjectArg \<lparr>ob_execute = None, ob_handle = Some def, ob_handler = None\<rparr>"

definition workers_app :: "(unit, read_store) instructed io" where
  "workers_app =
     bind_io (lift_io (new_Instructed Pool (Some workers_logger))) (\<lambda>a0.
     bind_io (register (aggregate_object Account_def) None a0) (\<lambda>a1.
     bind_io (register (aggregate_object Transfer_def) None a1) (\<lambda>a2.
     bind_io (register (RouterArg bank_router) None a2) (\<lambda>a3.
     bind_io (register (projection_object balancesProjection) (Some (report ''Balances'')) a3) (\<lambda>a4.
     bind_io (register (projection_object transfersProjection) (Some (report ''Transfers'')) a4) (\<lambda>a5.
     register (manager_object transferProcessManager) (Some (report ''PM'')) a5))))))"

definition workers_options :: poll_options where
  "workers_options =
     \<lparr>pl_workerId = None, pl_defaults = Some (no_tuning\<lparr>tu_pollInterval := Some 50, tu_heartbeatInterval := Some 1000\<rparr>),
      pl_workers = None\<rparr>"

definition start_workers :: "host \<Rightarrow> read_store \<Rightarrow> (unit, read_store) started list io" where
  "start_workers hst rs = bind_io workers_app (\<lambda>app. poll hst app workers_options rs)"

section \<open>What the script runs\<close>

text \<open>What a routing function of the example answers: the partition, or \<open>'ignore'\<close>.\<close>

definition routes_as :: "routing_fn \<Rightarrow> (string \<Rightarrow> app_event \<Rightarrow> string option) \<Rightarrow> bool" where
  "routes_as f route \<longleftrightarrow> (\<forall>ev e w. event_says ev e \<longrightarrow> f ev w
     = (Inr (case route (re_stream_uuid ev) e of None \<Rightarrow> ignore | Some k \<Rightarrow> Some (JObj [(''partitionKey'', JStr k)])), w))"

lemma bank_routing:
  "routes_as balancesRouteFn balances_route"
  "routes_as transfersRouteFn (\<lambda>_. transfers_route)"
  "routes_as pm_route (\<lambda>_. transferRouteFn)"
proof -
  have "balancesRouteFn ev w = (Inr (case balances_route (re_stream_uuid ev) e of None \<Rightarrow> ignore
      | Some k \<Rightarrow> Some (JObj [(''partitionKey'', JStr k)])), w)" if "event_says ev e" for ev e w
    using that by (cases e rule: event_type.cases)
      (simp_all add: event_says_def balancesRouteFn_def onlyTypes_def return_io_def)
  moreover have "transfersRouteFn ev w = (Inr (case transfers_route e of None \<Rightarrow> ignore
      | Some k \<Rightarrow> Some (JObj [(''partitionKey'', JStr k)])), w)" if "event_says ev e" for ev e w
    using that by (cases e rule: event_type.cases)
      (simp_all add: event_says_def transfersRouteFn_def onlyTypes_def return_io_def bind_io_def lift_io_def data_of_def)
  ultimately show "routes_as balancesRouteFn balances_route" "routes_as transfersRouteFn (\<lambda>_. transfers_route)"
    "routes_as pm_route (\<lambda>_. transferRouteFn)" by (simp_all add: routes_as_def route_says)
qed

lemma handled_balances:
  "event_says ev e \<Longrightarrow> balances_handle ev ctx rs w
     = Some (case balances_handler (re_stream_uuid ev) (re_event_number ev) e (rd_balances rs) of
               Inl pe \<Rightarrow> (Inl (PgErr pe), rs, w) | Inr rows \<Rightarrow> (Inr (), rs\<lparr>rd_balances := rows\<rparr>, w))"
  by (simp add: balances_handle_def event_says_def event_roundtrip store_result_def split: sum.split)

lemma handled_transfers:
  "event_says ev e \<Longrightarrow> transfers_handle ev ctx rs w
     = Some (case transfers_handler (re_event_number ev) (the (re_created_at ev)) e (rd_transfers rs) of
               Inl pe \<Rightarrow> (Inl (PgErr pe), rs, w) | Inr rows \<Rightarrow> (Inr (), rs\<lparr>rd_transfers := rows\<rparr>, w))"
  by (simp add: transfers_handle_def event_says_def event_roundtrip store_result_def split: sum.split)

text \<open>The process manager's worker: the SDK's substrate over a handler that dispatches through the router.\<close>

definition runs_manager :: "(unit, staged_map) worker \<Rightarrow> bool" where
  "runs_manager k \<longleftrightarrow> (\<exists>opts (def :: unit substrate_definition). wk_handle k = substrate_handle pg_client def all_uuid
     \<and> sd_type def = ''TransferProcessManager'' \<and> sd_apply def = pm_apply
     \<and> sd_handle def = dispatching_handle pg_client (pg_def (transferProcessManager :: unit pm_registration)) opts
     \<and> po_router opts = Some bank_router
     \<and> po_aggregates opts = Some [(''Account'', Account_def), (''Transfer'', Transfer_def)])"

lemma log_info_prints:
  "log_info (new_Logger (Some workers_logger) pre) m w
     = w\<lparr>w_log := w_log w @ [(Info, line (case pre of None \<Rightarrow> m | Some p \<Rightarrow> p @ '' '' @ m))]\<rparr>"
  by (simp add: log_info_def new_Logger_def bind_level_def workers_logger_def console_def split: option.split)

lemma workers_trace: "only_prints (child (new_Logger (Some workers_logger) None) pre)"
  unfolding only_prints_def
proof (intro allI)
  fix s and w :: world
  show "\<exists>l. trace (child (new_Logger (Some workers_logger) None) pre) (Thunk (\<lambda>w. (s, w))) w = w\<lparr>w_log := l\<rparr>"
    by (cases "isWorkDone (pre @ '' '' @ s)")
      (auto simp: child_def new_Logger_def bind_level_def workers_logger_def console_def intro: exI [of _ "w_log w"])
qed

definition workers_made :: "(unit, read_store) instructed \<Rightarrow> bool" where
  "workers_made app \<longleftrightarrow> in_client app = pg_client \<and> in_logger app = new_Logger (Some workers_logger) None
     \<and> in_commandRouter app = Some bank_router
     \<and> in_aggregates app = [(''Account'', Account_def), (''Transfer'', Transfer_def)]
     \<and> in_projections app = [\<lparr>rp_stream = all_uuid, rp_def = balancesProjection, rp_opts = report ''Balances''\<rparr>,
          \<lparr>rp_stream = all_uuid, rp_def = transfersProjection, rp_opts = report ''Transfers''\<rparr>]
     \<and> in_processManagers app = [\<lparr>rm_stream = all_uuid, rm_def = transferProcessManager, rm_opts = report ''PM''\<rparr>]"

lemma workers_app_made: "\<exists>app l. workers_app w = (Inr app, w\<lparr>w_log := l\<rparr>) \<and> workers_made app"
  by (simp add: workers_app_def new_Instructed_def new_Client_def isQueryable_def bind_io_def lift_io_def register_def
      aggregate_object_def registerAggregate_def registerCommandRouter_def projection_object_def registerProjection_def
      manager_object_def registerProcessManager_def fromImpl_def log_info_prints balancesProjection_def
      transfersProjection_def transferProcessManager_def workers_made_def) blast

text \<open>What the handler of a projection's worker does with an event of the application.\<close>

definition delivers_balances :: "(unit, read_store) worker \<Rightarrow> bool" where
  "delivers_balances k \<longleftrightarrow> (\<forall>ev e ctx rs w. event_says ev e \<longrightarrow> wk_handle k ev ctx rs w
     = Some (case balances_handler (re_stream_uuid ev) (re_event_number ev) e (rd_balances rs) of
               Inl pe \<Rightarrow> (Inl (PgErr pe), rs, w) | Inr rows \<Rightarrow> (Inr (), rs\<lparr>rd_balances := rows\<rparr>, w)))"

definition delivers_transfers :: "(unit, read_store) worker \<Rightarrow> bool" where
  "delivers_transfers k \<longleftrightarrow> (\<forall>ev e ctx rs w. event_says ev e \<longrightarrow> wk_handle k ev ctx rs w
     = Some (case transfers_handler (re_event_number ev) (the (re_created_at ev)) e (rd_transfers rs) of
               Inl pe \<Rightarrow> (Inl (PgErr pe), rs, w) | Inr rows \<Rightarrow> (Inr (), rs\<lparr>rd_transfers := rows\<rparr>, w)))"

lemma projection_started:
  assumes "start_projection hst app opts i rs p w = (st, w')"
  obtains k where "st_type st = pr_type (rp_def p)" "st_processing st = Inl k" "wk_handle k = pr_handler (rp_def p)"
    "rt_routeFn (st_routing st) = resolveProjectionRouteFn p"
  using assms by (auto simp: start_projection_def Let_def startProjectionWorker_def startProcessingWorker_def
      startRoutingWorker_def routingOpts_def processingOpts_def)

lemma manager_started:
  fixes app :: "(unit, read_store) instructed"
  assumes "start_process_manager hst app opts i pm w = (st, w')" "workers_made app"
    and "pm = \<lparr>rm_stream = all_uuid, rm_def = transferProcessManager, rm_opts = report ''PM''\<rparr>"
  obtains k where "st_type st = ''TransferProcessManager''" "st_processing st = Inr k" "runs_manager k" "only_prints (wk_logger k)"
    "rt_routeFn (st_routing st) = pm_route"
proof -
  let ?lg = "worker_logger app i ''TransferProcessManager''"
    and ?res = "resolveWorkerOptionsWithSources ''TransferProcessManager'' opts"
  let ?w1 = "logInfoStarting ?lg ''process manager'' ''TransferProcessManager'' ?res w"
    and ?def = "pg_def transferProcessManager :: unit pm_definition"
    and ?po = "\<lparr>po_worker = processingOpts (rl_tuning ?res) (report ''PM'') i ?lg, po_router = in_commandRouter app,
                 po_aggregates = Some (in_aggregates app)\<rparr>"
  have d: "?def\<lparr>pmd_stream := Some all_uuid\<rparr> = ?def" by (simp add: transferProcessManager_def)
  let ?k = "fst (startPmWorker hst pg_client ?def ?po ?w1)"
  have st: "st_type st = ''TransferProcessManager''" "st_processing st = Inr ?k" "rt_routeFn (st_routing st) = pm_route"
    using assms(1,2) d by (auto simp: start_process_manager_def Let_def assms(3) workers_made_def startRoutingWorker_def
        routingOpts_def transferProcessManager_def)
  have "runs_manager ?k"
    unfolding runs_manager_def
    by (rule exI [of _ ?po], rule exI) (use assms(2) in \<open>auto simp: startPmWorker_def startPmSubstrate_def
        startProcessingWorker_def processingOpts_def workers_made_def transferProcessManager_def Let_def\<close>)
  moreover have "wk_logger ?k = ?lg"
    by (simp add: startPmWorker_def startPmSubstrate_def startProcessingWorker_def processingOpts_def Let_def)
  moreover have "only_prints ?lg" using assms(2) workers_trace by (simp add: worker_logger_def workers_made_def)
  ultimately show ?thesis using st that by simp
qed

text \<open>C23. The workers the script starts run the system. The script always starts three pairs of workers, for the two
  projections and the process manager; their routing functions are the example's, on every event of the
  application; the handlers of the projections do to their table what the read models' functions do; and the
  process manager's worker runs the SDK's substrate over the handler that dispatches the example's commands
  through its router, with a logger that only prints.\<close>

theorem workers_run_the_system:
  "\<exists>b t m kb kt km w'. start_workers hst rs w = (Inr [b, t, m], w')
     \<and> map st_type [b, t, m] = [''Balances'', ''Transfers'', ''TransferProcessManager'']
     \<and> st_processing b = Inl kb \<and> st_processing t = Inl kt \<and> st_processing m = Inr km
     \<and> routes_as (rt_routeFn (st_routing b)) balances_route \<and> delivers_balances kb
     \<and> routes_as (rt_routeFn (st_routing t)) (\<lambda>_. transfers_route) \<and> delivers_transfers kt
     \<and> routes_as (rt_routeFn (st_routing m)) (\<lambda>_. transferRouteFn) \<and> runs_manager km \<and> only_prints (wk_logger km)"
proof -
  obtain app l where app: "workers_app w = (Inr app, w\<lparr>w_log := l\<rparr>)" "workers_made app" using workers_app_made by blast
  let ?pb = "\<lparr>rp_stream = all_uuid, rp_def = balancesProjection, rp_opts = report ''Balances''\<rparr>"
    and ?pt = "\<lparr>rp_stream = all_uuid, rp_def = transfersProjection, rp_opts = report ''Transfers''\<rparr>"
    and ?pm = "\<lparr>rm_stream = all_uuid, rm_def = transferProcessManager, rm_opts = report ''PM''\<rparr> :: unit registered_pm"
  obtain i w1 where i: "defaultWorkerId hst (w\<lparr>w_log := l\<rparr>) = (i, w1)" by fastforce
  obtain b w2 where b: "start_projection hst app workers_options i rs ?pb w1 = (b, w2)" by fastforce
  obtain t w3 where t: "start_projection hst app workers_options i rs ?pt w2 = (t, w3)" by fastforce
  obtain m w4 where m: "start_process_manager hst app workers_options i ?pm w3 = (m, w4)" by fastforce
  have s: "start_workers hst rs w = (Inr [b, t, m], w4)"
    using app(2) i b t m by (simp add: start_workers_def bind_io_def app(1) poll_def workers_made_def workers_options_def Let_def)
  obtain kb where kb: "st_type b = ''Balances''" "st_processing b = Inl kb" "wk_handle kb = balances_handle"
    "rt_routeFn (st_routing b) = balancesRouteFn"
    using projection_started [OF b] by (auto simp: balancesProjection_def resolveProjectionRouteFn_def)
  obtain kt where kt: "st_type t = ''Transfers''" "st_processing t = Inl kt" "wk_handle kt = transfers_handle"
    "rt_routeFn (st_routing t) = transfersRouteFn"
    using projection_started [OF t] by (auto simp: transfersProjection_def resolveProjectionRouteFn_def)
  obtain km where km: "st_type m = ''TransferProcessManager''" "st_processing m = Inr km" "runs_manager km"
    "only_prints (wk_logger km)" "rt_routeFn (st_routing m) = pm_route"
    using manager_started [OF m app(2) refl] by metis
  have d: "delivers_balances kb" "delivers_transfers kt"
    by (simp_all add: delivers_balances_def delivers_transfers_def kb kt handled_balances handled_transfers)
  show ?thesis
    by (intro exI [of _ b] exI [of _ t] exI [of _ m] exI [of _ kb] exI [of _ kt] exI [of _ km] exI [of _ w4])
      (simp add: s kb kt km d bank_routing)
qed

end
