(* ===== verification/With_Transaction.thy ===== *)
theory With_Transaction
  imports World
begin

text \<open>
  internal/with-transaction.ts: a callback between BEGIN and COMMIT on a client checked out of a pool, or on
  the session the client already has. A connection is what the server and the pool know of it; each statement
  may fail before or after it took effect. The theorem says what is committed for every outcome.
\<close>

section \<open>A connection\<close>

text \<open>
  The committed state, the working state of an open transaction, whether a statement of it has failed (it can
  only be rolled back then, and COMMIT does that without an error), and how often it was released.
\<close>

record 'd conn =
  cn_committed :: 'd
  cn_open :: "'d option"
  cn_failed :: bool
  cn_released :: nat

definition statement :: "fault \<Rightarrow> ('d conn \<Rightarrow> 'd conn) \<Rightarrow> 'd conn \<Rightarrow> (thrown + unit) \<times> 'd conn" where
  "statement f eff c =
     (case f of NoFault \<Rightarrow> (Inr (), eff c) | FailBefore e \<Rightarrow> (Inl (PgErr e), c) | FailAfter e \<Rightarrow> (Inl (PgErr e), eff c))"

text \<open>A BEGIN inside a transaction is only a warning.\<close>

definition tx_begin :: "'d conn \<Rightarrow> 'd conn" where
  "tx_begin c = (if cn_open c = None then c\<lparr>cn_open := Some (cn_committed c), cn_failed := False\<rparr> else c)"

definition tx_rollback :: "'d conn \<Rightarrow> 'd conn" where
  "tx_rollback c = c\<lparr>cn_open := None, cn_failed := False\<rparr>"

definition tx_commit :: "'d conn \<Rightarrow> 'd conn" where
  "tx_commit c =
     (case cn_open c of
        None \<Rightarrow> c
      | Some d \<Rightarrow> if cn_failed c then tx_rollback c else tx_rollback (c\<lparr>cn_committed := d\<rparr>))"

definition release_client :: "'d conn \<Rightarrow> 'd conn" where
  "release_client c = c\<lparr>cn_released := Suc (cn_released c)\<rparr>"

text \<open>What happens to the statements of one call.\<close>

record tx_faults =
  tf_connect :: "thrown option"
  tf_begin :: fault
  tf_commit :: fault
  tf_rollback :: fault

section \<open>withTransaction\<close>

type_synonym ('d, 'r) tx_body = "'d conn \<Rightarrow> (thrown + 'r) \<times> 'd conn"

text \<open>The callback, and the rollback behind it when it throws; an error of the rollback is dropped.\<close>

definition guarded_body :: "tx_faults \<Rightarrow> ('d, 'r) tx_body \<Rightarrow> ('d, 'r) tx_body" where
  "guarded_body f fn c =
     (case fn c of
        (Inl e, c1) \<Rightarrow> (Inl e, snd (statement (tf_rollback f) tx_rollback c1))
      | (Inr r, c1) \<Rightarrow>
          (case statement (tf_commit f) tx_commit c1 of
             (Inl e, c2) \<Rightarrow> (Inl e, c2)
           | (Inr _, c2) \<Rightarrow> (Inr r, c2)))"

definition in_pool :: "tx_faults \<Rightarrow> ('d, 'r) tx_body \<Rightarrow> ('d, 'r) tx_body" where
  "in_pool f fn c =
     (case tf_connect f of
        Some e \<Rightarrow> (Inl e, c)
      | None \<Rightarrow>
          (let (r, c2) = (case statement (tf_begin f) tx_begin c of
               (Inl e, c1) \<Rightarrow> (Inl e, c1)
             | (Inr _, c1) \<Rightarrow> guarded_body f fn c1)
           in (r, release_client c2)))"

text \<open>On a session the error of BEGIN is mapped, the others are not.\<close>

definition in_session :: "tx_faults \<Rightarrow> ('d, 'r) tx_body \<Rightarrow> ('d, 'r) tx_body" where
  "in_session f fn c =
     (case statement (tf_begin f) tx_begin c of
        (Inl e, c1) \<Rightarrow> (Inl (mapPgError e no_ctx), c1)
      | (Inr _, c1) \<Rightarrow> guarded_body f fn c1)"

definition withTransaction :: "bool \<Rightarrow> tx_faults \<Rightarrow> ('d, 'r) tx_body \<Rightarrow> ('d, 'r) tx_body" where
  "withTransaction isPoolLike f fn = (if isPoolLike then in_pool f fn else in_session f fn)"

section \<open>What is committed\<close>

text \<open>A callback that leaves BEGIN, COMMIT and ROLLBACK to the helper.\<close>

definition plain_body :: "('d, 'r) tx_body \<Rightarrow> bool" where
  "plain_body fn \<longleftrightarrow> (\<forall>c. cn_open c \<noteq> None \<longrightarrow>
     (let c1 = snd (fn c) in cn_committed c1 = cn_committed c \<and> cn_open c1 \<noteq> None \<and> cn_released c1 = cn_released c))"

definition ran_body :: "('d, 'r) tx_body \<Rightarrow> 'd conn \<Rightarrow> (thrown + 'r) \<times> 'd conn" where
  "ran_body fn c = fn (tx_begin c)"

lemma guarded_cases:
  assumes "fn c0 = (r1, c1)" "cn_open c1 = Some d"
  shows "guarded_body f fn c0 =
     (case r1 of
        Inl e \<Rightarrow> (Inl e, case tf_rollback f of FailBefore p \<Rightarrow> c1 | _ \<Rightarrow> tx_rollback c1)
      | Inr v \<Rightarrow>
          (let done = tx_rollback (if cn_failed c1 then c1 else c1\<lparr>cn_committed := d\<rparr>)
           in case tf_commit f of NoFault \<Rightarrow> (Inr v, done) | FailBefore p \<Rightarrow> (Inl (PgErr p), c1) | FailAfter p \<Rightarrow> (Inl (PgErr p), done)))"
  using assms by (cases r1; cases "tf_commit f"; cases "tf_rollback f")
    (simp_all add: guarded_body_def statement_def tx_commit_def)

lemma with_transaction_cases:
  assumes "withTransaction pool f fn c = (r, c')"
  shows "(\<exists>e. pool \<and> tf_connect f = Some e \<and> r = Inl e \<and> c' = c)
     \<or> (\<not> pool \<or> tf_connect f = None) \<and>
        (\<exists>c2. c' = (if pool then release_client c2 else c2)
          \<and> (case tf_begin f of NoFault \<Rightarrow> guarded_body f fn (tx_begin c) = (r, c2)
             | FailBefore p \<Rightarrow> (\<exists>e. r = Inl e) \<and> c2 = c | FailAfter p \<Rightarrow> (\<exists>e. r = Inl e) \<and> c2 = tx_begin c))"
  using assms
  by (cases pool; cases "tf_connect f"; cases "tf_begin f")
    (auto simp: withTransaction_def in_pool_def in_session_def statement_def Let_def split: prod.splits)

text \<open>C24. A transaction is all or nothing, and honest when nothing was swallowed. On an idle connection: if it
  throws before its COMMIT, nothing is committed, and an error of the callback is the error thrown; if it
  returns, the callback returned that value and its work is committed as a whole, unless the callback
  swallowed the failure of a statement, when nothing is. A pooled client is released exactly once if it was
  checked out. A transaction stays open behind the call only if its ROLLBACK or its COMMIT did not arrive.\<close>

theorem transaction_all_or_nothing:
  assumes "plain_body fn" "cn_open c = None" "withTransaction pool f fn c = (r, c')"
  shows "(case r of
       Inr v \<Rightarrow> \<exists>c1. ran_body fn c = (Inr v, c1) \<and> cn_open c' = None
          \<and> cn_committed c' = (if cn_failed c1 then cn_committed c else the (cn_open c1))
     | Inl e \<Rightarrow> cn_committed c' = cn_committed c
          \<or> (\<exists>v c1 p. ran_body fn c = (Inr v, c1) \<and> tf_commit f = FailAfter p \<and> e = PgErr p \<and> cn_committed c' = the (cn_open c1)))
     \<and> (tf_connect f = None \<or> \<not> pool \<longrightarrow> tf_begin f = NoFault \<longrightarrow> (\<forall>e c1. ran_body fn c = (Inl e, c1) \<longrightarrow> r = Inl e))
     \<and> cn_released c' = cn_released c + (if pool \<and> tf_connect f = None then 1 else 0)
     \<and> (cn_open c' \<noteq> None \<longrightarrow> (\<exists>p. tf_begin f = FailAfter p \<or> tf_rollback f = FailBefore p \<or> tf_commit f = FailBefore p))"
proof -
  obtain r1 c1 where b: "fn (tx_begin c) = (r1, c1)" by fastforce
  have "cn_open (tx_begin c) \<noteq> None" "cn_committed (tx_begin c) = cn_committed c" "cn_released (tx_begin c) = cn_released c"
    using assms(2) by (simp_all add: tx_begin_def)
  with assms(1) b have c1: "cn_committed c1 = cn_committed c" "cn_open c1 \<noteq> None" "cn_released c1 = cn_released c"
    unfolding plain_body_def by (metis snd_conv)+
  from c1(2) obtain d where d: "cn_open c1 = Some d" by blast
  note g = guarded_cases [of fn "tx_begin c" r1 c1 d f, OF b d]
  from with_transaction_cases [OF assms(3)] consider e where "pool" "tf_connect f = Some e" "r = Inl e" "c' = c"
    | c2 where "\<not> pool \<or> tf_connect f = None" "c' = (if pool then release_client c2 else c2)"
        "case tf_begin f of NoFault \<Rightarrow> guarded_body f fn (tx_begin c) = (r, c2)
           | FailBefore p \<Rightarrow> (\<exists>e. r = Inl e) \<and> c2 = c | FailAfter p \<Rightarrow> (\<exists>e. r = Inl e) \<and> c2 = tx_begin c" by blast
  then show ?thesis
  proof cases
    case 1
    with assms(2) show ?thesis by simp
  next
    case (2 c2)
    note p = 2(1) and c' = 2(2) and r = 2(3)
    have f: "cn_committed c' = cn_committed c2" "cn_open c' = cn_open c2"
      "cn_released c' = cn_released c2 + (if pool then 1 else 0)" by (simp_all add: c' release_client_def)
    show ?thesis
    proof (cases "tf_begin f")
      case NoFault
      with r g have m: "(r, c2) = (case r1 of
          Inl e \<Rightarrow> (Inl e, case tf_rollback f of FailBefore p \<Rightarrow> c1 | _ \<Rightarrow> tx_rollback c1)
        | Inr v \<Rightarrow> (let done = tx_rollback (if cn_failed c1 then c1 else c1\<lparr>cn_committed := d\<rparr>)
           in case tf_commit f of NoFault \<Rightarrow> (Inr v, done) | FailBefore p \<Rightarrow> (Inl (PgErr p), c1) | FailAfter p \<Rightarrow> (Inl (PgErr p), done)))"
        by simp
      show ?thesis
      proof (cases r1)
        case (Inl e)
        with m p NoFault show ?thesis
          by (cases "tf_rollback f") (auto simp: f c1 ran_body_def b tx_rollback_def)
      next
        case (Inr v)
        with m p NoFault show ?thesis
          by (cases "tf_commit f") (auto simp: f c1 d ran_body_def b tx_rollback_def Let_def)
      qed
    qed (use r p assms(2) in \<open>auto simp: f tx_begin_def\<close>)
  qed
qed

text \<open>A body that counts, on a pooled client, with and without a lost ROLLBACK.\<close>

definition counting :: "bool \<Rightarrow> (nat, string) tx_body" where
  "counting ok c =
     (if ok then (Inr ''done'', c\<lparr>cn_open := map_option Suc (cn_open c)\<rparr>)
      else (Inl (js_error ''no''), c\<lparr>cn_open := map_option Suc (cn_open c), cn_failed := True\<rparr>))"

definition idle :: "nat conn" where
  "idle = \<lparr>cn_committed = 4, cn_open = None, cn_failed = False, cn_released = 0\<rparr>"

definition lost_rollback :: tx_faults where
  "lost_rollback = \<lparr>tf_connect = None, tf_begin = NoFault, tf_commit = NoFault, tf_rollback = FailBefore (pg ''08006'' ''gone'')\<rparr>"

theorem transaction_all_or_nothing_witness:
  "\<exists>c1 c2. withTransaction True lost_rollback (counting True) idle = (Inr ''done'', c1) \<and> cn_committed c1 = 5
     \<and> withTransaction True lost_rollback (counting False) idle = (Inl (js_error ''no''), c2) \<and> cn_committed c2 = 4
     \<and> cn_released c2 = 1 \<and> cn_open c2 = Some 5"
proof -
  have plain: "plain_body (counting ok)" for ok by (auto simp: plain_body_def counting_def Let_def)
  have i: "cn_open idle = None" by (simp add: idle_def)
  let ?c = "\<lambda>ok. snd (withTransaction True lost_rollback (counting ok) idle)"
  have r: "withTransaction True lost_rollback (counting True) idle = (Inr ''done'', ?c True)"
    "withTransaction True lost_rollback (counting False) idle = (Inl (js_error ''no''), ?c False)" "cn_open (?c False) = Some 5"
    by (simp_all add: withTransaction_def in_pool_def guarded_body_def statement_def counting_def lost_rollback_def idle_def
        tx_begin_def tx_commit_def tx_rollback_def release_client_def)
  have b: "ran_body (counting True) idle = (Inr ''done'', \<lparr>cn_committed = 4, cn_open = Some 5, cn_failed = False, cn_released = 0\<rparr>)"
    by (simp add: ran_body_def counting_def idle_def tx_begin_def)
  from transaction_all_or_nothing [OF plain i r(1)] b have "cn_committed (?c True) = 5" by simp
  moreover from transaction_all_or_nothing [OF plain i r(2)] have "cn_committed (?c False) = 4 \<and> cn_released (?c False) = 1"
    by (auto simp: lost_rollback_def idle_def)
  ultimately show ?thesis using r by blast
qed

end
