(* ===== verification/Delivery.thy ===== *)
theory Delivery
  imports Queue_Laws Redelivery
begin

text \<open>
  What the queue promises the handlers of a partition. The items of one partition of a subscription are
  a lane: a state for each event number. The lane machine says which changes a lane may undergo;
  every call of any client is a step of it, and in its runs events are acknowledged in the order they
  were routed, without a gap, and are handed out at least once and in order.
\<close>

section \<open>The lane machine\<close>

type_synonym lane = "int \<rightharpoonup> item_state"

text \<open>Events are routed to the partition; one is handed to a worker; one is acknowledged; one is
  parked as failed.\<close>

datatype lane_action = Routed "int list" | Handed int | Acked int | Parked int | Quiet

definition open_in :: "lane \<Rightarrow> int set" where
  "open_in l = {e. l e \<in> {Some Pending, Some ClaimedS, Some Failed}}"

inductive lane_step :: "lane \<Rightarrow> lane_action \<Rightarrow> lane \<Rightarrow> bool" where
  lane_route: "lane_step l (Routed es) (\<lambda>e. if l e = None \<and> e \<in> set es then Some Pending else l e)"
| lane_hand: "l e \<in> {Some Pending, Some ClaimedS} \<Longrightarrow> \<forall>e' \<in> open_in l. e \<le> e'
    \<Longrightarrow> lane_step l (Handed e) (l(e \<mapsto> ClaimedS))"
| lane_ack: "l e = Some ClaimedS \<Longrightarrow> lane_step l (Acked e) (l(e := None))"
| lane_done: "l e = Some ClaimedS \<Longrightarrow> lane_step l (Acked e) (l(e \<mapsto> Done))"
| lane_park: "l e = Some ClaimedS \<Longrightarrow> lane_step l (Parked e) (l(e \<mapsto> Failed))"
| lane_quiet: "lane_step l Quiet l"

inductive_cases lane_stepE:
  "lane_step l (Routed es) l'" "lane_step l (Handed e) l'" "lane_step l (Acked e) l'"
  "lane_step l (Parked e) l'" "lane_step l Quiet l'"

text \<open>
  Runs with their history: what was routed, acknowledged, handed out, and what the handlers were run
  for. A handler runs for an event that was handed out, at any time after that (its worker may have
  lost the claim since); an event is acknowledged after a handler ran for it.
\<close>

inductive lane_run :: "lane \<Rightarrow> int list \<Rightarrow> int list \<Rightarrow> int list \<Rightarrow> int list \<Rightarrow> bool" where
  lane_empty: "lane_run (\<lambda>_. None) [] [] [] []"
| run_route: "lane_run l todo ack hand run \<Longrightarrow> lane_step l (Routed es) l' \<Longrightarrow> sorted_wrt (<) (todo @ es)
    \<Longrightarrow> lane_run l' (todo @ es) ack hand run"
| run_hand: "lane_run l todo ack hand run \<Longrightarrow> lane_step l (Handed e) l' \<Longrightarrow> lane_run l' todo ack (hand @ [e]) run"
| run_handler: "lane_run l todo ack hand run \<Longrightarrow> e \<in> set hand \<Longrightarrow> lane_run l todo ack hand (run @ [e])"
| run_ack: "lane_run l todo ack hand run \<Longrightarrow> lane_step l (Acked e) l' \<Longrightarrow> e \<in> set run
    \<Longrightarrow> lane_run l' todo (ack @ [e]) hand run"
| run_park: "lane_run l todo ack hand run \<Longrightarrow> lane_step l (Parked e) l' \<Longrightarrow> lane_run l' todo ack hand run"

text \<open>
  The invariant: what was routed is what was acknowledged followed by what is open; only the first
  open event is claimed; what was handed out is acknowledged or the first open event; and the handlers
  saw an at-least-once delivery of the acknowledged events and perhaps the first open one.
\<close>

definition lane_ok :: "lane \<Rightarrow> int list \<Rightarrow> int list \<Rightarrow> int list \<Rightarrow> int list \<Rightarrow> int list \<Rightarrow> bool" where
  "lane_ok l todo ack hand run rest \<longleftrightarrow>
     sorted_wrt (<) todo \<and> todo = ack @ rest \<and> set rest = open_in l \<and> dom l \<subseteq> set todo
     \<and> (\<forall>e. l e = Some ClaimedS \<longrightarrow> take 1 rest = [e])
     \<and> set hand \<subseteq> set ack \<union> set (take 1 rest)
     \<and> (\<exists>es \<in> {ack, ack @ take 1 rest}. delivered es run)"

lemma delivered_set: "delivered es ds \<Longrightarrow> set ds = set es"
  by (induction rule: delivered.induct) auto

lemma first_open:
  assumes "sorted_wrt (<) rest" "set rest = open_in l" "e \<in> open_in l" "\<forall>e' \<in> open_in l. e \<le> e'"
  shows "\<exists>more. rest = (e :: int) # more"
proof (cases rest)
  case (Cons a more)
  with assms have "a \<le> e" "e \<le> a" by force+
  with Cons show ?thesis by simp
qed (use assms in simp)

lemma claimed_first:
  assumes "lane_ok l todo ack hand run rest" "l e = Some ClaimedS"
  shows "\<exists>more. rest = e # more" "l e' = Some ClaimedS \<Longrightarrow> e' = e"
proof -
  have t: "l x = Some ClaimedS \<Longrightarrow> take 1 rest = [x]" for x using assms(1) by (simp add: lane_ok_def)
  from t [OF assms(2)] show "\<exists>more. rest = e # more" by (cases rest) auto
  show "e' = e" if "l e' = Some ClaimedS" using t [OF that] t [OF assms(2)] by simp
qed

lemma lane_ok_route:
  assumes ok: "lane_ok l todo ack hand run rest" and s: "sorted_wrt (<) (todo @ es)"
  shows "lane_ok (\<lambda>e. if l e = None \<and> e \<in> set es then Some Pending else l e) (todo @ es) ack hand run (rest @ es)"
proof -
  have "l e = None" if "e \<in> set es" for e
    using ok s that by (force simp: lane_ok_def sorted_wrt_append dom_def)
  then have "open_in (\<lambda>e. if l e = None \<and> e \<in> set es then Some Pending else l e) = open_in l \<union> set es"
    by (auto simp: open_in_def)
  moreover have "take 1 (rest @ es) = take 1 rest" if "rest \<noteq> []" using that by (cases rest) auto
  moreover have "l e \<noteq> Some ClaimedS" if "rest = []" for e
    using ok that by (auto simp: lane_ok_def)
  ultimately show ?thesis
    using ok s unfolding lane_ok_def
    by (cases "rest = []") (auto simp: dom_def split: if_splits)
qed

lemma lane_ok_hand:
  assumes ok: "lane_ok l todo ack hand run rest" and st: "lane_step l (Handed e) l'"
  shows "lane_ok l' todo ack (hand @ [e]) run rest"
proof -
  from st have e: "l e \<in> {Some Pending, Some ClaimedS}" "\<forall>e' \<in> open_in l. e \<le> e'" "l' = l(e \<mapsto> ClaimedS)"
    by (auto elim: lane_stepE)
  then have o: "open_in l' = open_in l" "e \<in> open_in l" by (auto simp: open_in_def)
  have "sorted_wrt (<) rest" "set rest = open_in l" using ok by (auto simp: lane_ok_def sorted_wrt_append)
  from first_open [OF this o(2) e(2)] obtain more where rest: "rest = e # more" by blast
  have "l' e' = Some ClaimedS \<longrightarrow> e' = e" for e' using claimed_first(1) [OF ok, of e'] e(3) rest by auto
  moreover have "dom l' = dom l" using e(1,3) by auto
  ultimately show ?thesis using ok o(1) rest by (auto simp: lane_ok_def)
qed

lemma lane_ok_handler:
  assumes ok: "lane_ok l todo ack hand run rest" and e: "e \<in> set hand"
  shows "lane_ok l todo ack hand (run @ [e]) rest"
proof -
  from ok obtain es where es: "es \<in> {ack, ack @ take 1 rest}" "delivered es run" by (auto simp: lane_ok_def)
  from ok e have "e \<in> set ack \<or> e \<in> set (take 1 rest)" by (auto simp: lane_ok_def)
  then have "e \<in> set es \<or> es = ack \<and> take 1 rest = [e]" using es(1) by (cases rest) auto
  then have "\<exists>es \<in> {ack, ack @ take 1 rest}. delivered es (run @ [e])"
    using es deliver_again [OF es(2)] deliver_next [OF es(2), of e] by auto
  with ok show ?thesis unfolding lane_ok_def by blast
qed

lemma lane_ok_ack:
  assumes ok: "lane_ok l todo ack hand run rest" and st: "lane_step l (Acked e) l'" and r: "e \<in> set run"
  shows "lane_ok l' todo (ack @ [e]) hand run (tl rest)"
proof -
  from st have c: "l e = Some ClaimedS" and l': "l' = l(e := None) \<or> l' = l(e \<mapsto> Done)"
    by (auto elim: lane_stepE)
  from claimed_first(1) [OF ok c] obtain more where rest: "rest = e # more" by blast
  note only = claimed_first(2) [OF ok c]
  from rest ok have s: "e \<notin> set ack" "e \<notin> set more" by (force simp: lane_ok_def sorted_wrt_append)+
  from ok obtain es where "es \<in> {ack, ack @ [e]}" and d: "delivered es run" by (auto simp: lane_ok_def rest)
  with r s delivered_set [OF d] have d': "delivered (ack @ [e]) run" by auto
  have "open_in l' = open_in l - {e}" using l' by (auto simp: open_in_def split: if_splits)
  also have "\<dots> = set more" using ok rest s(2) by (auto simp: lane_ok_def)
  finally have "open_in l' = set more" .
  moreover have "l' e' \<noteq> Some ClaimedS" for e' using l' only [of e'] by (auto split: if_splits)
  moreover have "dom l' \<subseteq> dom l" using l' c by (auto split: if_splits)
  then have "dom l' \<subseteq> set todo" using ok unfolding lane_ok_def by blast
  ultimately show ?thesis using ok d' by (auto simp: lane_ok_def rest)
qed

lemma lane_ok_park:
  assumes ok: "lane_ok l todo ack hand run rest" and st: "lane_step l (Parked e) l'"
  shows "lane_ok l' todo ack hand run rest"
proof -
  from st have c: "l e = Some ClaimedS" "l' = l(e \<mapsto> Failed)" by (auto elim: lane_stepE)
  then have "open_in l' = open_in l" "dom l' = dom l" by (auto simp: open_in_def)
  moreover have "l' e' \<noteq> Some ClaimedS" for e' using c claimed_first(2) [OF ok c(1), of e'] by auto
  ultimately show ?thesis using ok unfolding lane_ok_def by auto
qed

lemma lane_run_ok: "lane_run l todo ack hand run \<Longrightarrow> \<exists>rest. lane_ok l todo ack hand run rest"
proof (induction rule: lane_run.induct)
  case lane_empty
  have "lane_ok (\<lambda>_. None) [] [] [] [] []" by (simp add: lane_ok_def open_in_def deliver_none)
  then show ?case ..
next
  case (run_route l todo ack hand run es l')
  then show ?case by (auto elim!: lane_stepE dest: lane_ok_route)
qed (blast intro: lane_ok_hand lane_ok_handler lane_ok_ack lane_ok_park)+

section \<open>The lanes of a subscription\<close>

definition lane_of :: "nat \<Rightarrow> string \<Rightarrow> string \<Rightarrow> db \<Rightarrow> lane" where
  "lane_of k n p d = (\<lambda>e. map_option i_state (find_item k n p e d))"

text \<open>The call is one on the subscription \<open>n\<close> of the stream \<open>k\<close>.\<close>

definition on_sub :: "nat \<Rightarrow> string \<Rightarrow> string option \<Rightarrow> string option \<Rightarrow> db \<Rightarrow> bool" where
  "on_sub k n su n' d \<longleftrightarrow> map_option s_id (find_stream (the su) d) = Some k \<and> the n' = n"

text \<open>The events a batch routes to the partition \<open>p\<close>, and what a call does to the lane.\<close>

definition decided_for :: "nat \<Rightarrow> string \<Rightarrow> string \<Rightarrow> json list \<Rightarrow> int list" where
  "decided_for k n p vs =
     (case map_sum_list (decision_row k n) vs of
        Inl _ \<Rightarrow> [] | Inr rows \<Rightarrow> map i_event (filter (\<lambda>i. i_partition i = p) rows))"

definition lane_action :: "nat \<Rightarrow> string \<Rightarrow> string \<Rightarrow> call \<Rightarrow> reply \<Rightarrow> db \<Rightarrow> lane_action" where
  "lane_action k n p c r d =
     (case c of
        CRouteBatch su n' w cur (Some (JArr vs)) \<Rightarrow>
          if on_sub k n su n' d then Routed (decided_for k n p vs) else Quiet
      | CClaimItem locked su n' w secs \<Rightarrow>
          (case r of RWork (row # _) \<Rightarrow>
             if on_sub k n su n' d \<and> w_partition row = p then Handed (w_event row) else Quiet
           | _ \<Rightarrow> Quiet)
      | CCompleteProjection su n' w p' e \<Rightarrow>
          if on_sub k n su n' d \<and> the p' = p then Acked (the e) else Quiet
      | CCompletePm su n' w p' e snu snt snv sd smd \<Rightarrow>
          if on_sub k n su n' d \<and> the p' = p then Acked (the e) else Quiet
      | CFailItem su n' w p' e err \<Rightarrow>
          if on_sub k n su n' d \<and> the p' = p then Parked (the e) else Quiet
      | _ \<Rightarrow> Quiet)"

text \<open>The calls that throw a lane away: deleting the subscription, ending a process manager instance.\<close>

definition discards :: "nat \<Rightarrow> string \<Rightarrow> string \<Rightarrow> call \<Rightarrow> db \<Rightarrow> bool" where
  "discards k n p c d =
     (case c of
        CDeleteSub su n' \<Rightarrow> on_sub k n su n' d
      | CCompleteInstance su n' p' snu \<Rightarrow> on_sub k n su n' d \<and> the p' = p
      | _ \<Rightarrow> False)"

lemma find_update_item:
  assumes "\<And>i. full_key (f i) = full_key i"
  shows "find_item k n p e (update_item k' n' p' e' f d) =
     (if k' = k \<and> n' = n \<and> p' = p \<and> e' = e then map_option f (find_item k n p e d) else find_item k n p e d)"
proof -
  have key: "item_key k n p e (f i) \<longleftrightarrow> item_key k n p e i" for i
    using assms [of i] by (simp add: item_key_def item_of_def full_key_def)
  have "find (item_key k n p e) (map (\<lambda>i. if item_key k' n' p' e' i then f i else i) xs) =
      (if k' = k \<and> n' = n \<and> p' = p \<and> e' = e then map_option f (find (item_key k n p e) xs)
       else find (item_key k n p e) xs)" for xs
    by (induction xs) (auto simp: key, auto simp: item_key_def item_of_def)
  then show ?thesis by (simp add: find_item_def update_item_def)
qed

lemma find_filter_item:
  assumes "\<And>i. item_key k n p e i \<Longrightarrow> P i \<longleftrightarrow> b"
  shows "find (item_key k n p e) (filter P xs) = (if b then find (item_key k n p e) xs else None)"
  using assms by (induction xs) auto

lemma find_insert_items:
  "find (item_key k n p e) (insert_items is old) =
     (case find (item_key k n p e) old of Some i \<Rightarrow> Some i | None \<Rightarrow> find (item_key k n p e) is)"
proof (induction "is" old rule: insert_items.induct)
  case (2 i "is" old)
  show ?case
  proof (cases "\<exists>j \<in> set old. same_item i j")
    case True
    have "find (item_key k n p e) old \<noteq> None" if "item_key k n p e i"
      using True that by (auto simp: find_None_iff same_item_iff full_key_def item_key_def item_of_def)
    with True 2 show ?thesis by (auto split: option.splits)
  next
    case False
    then have "find (item_key k n p e) (old @ [i]) =
        (case find (item_key k n p e) old of Some i \<Rightarrow> Some i | None \<Rightarrow> if item_key k n p e i then Some i else None)"
      by (induction old) auto
    with False 2 show ?thesis by (auto split: option.splits)
  qed
qed (simp split: option.splits)

section \<open>Every call is a step of the lane machine\<close>

lemma find_item_unique:
  assumes "wf_queue d" "i \<in> set (items d)" "item_key k n p e i"
  shows "find_item k n p e d = Some i"
proof -
  have "find_item k n p e d \<noteq> None" using assms(2,3) by (auto simp: find_item_def find_None_iff)
  then obtain j where j: "find_item k n p e d = Some j" by blast
  with find_item_Some [OF j] unique_item [OF assms(1,2) _ assms(3)] show ?thesis by blast
qed

lemma lane_of_items: "items d' = items d \<Longrightarrow> lane_of k n p d' = lane_of k n p d"
  by (simp add: lane_of_def find_item_def)

lemma lane_update_item:
  assumes "\<And>i. full_key (f i) = full_key i" "find_item k' n' p' e' d = Some i"
  shows "lane_of k n p (update_item k' n' p' e' f d) =
     (if k' = k \<and> n' = n \<and> p' = p then (lane_of k n p d)(e' \<mapsto> i_state (f i)) else lane_of k n p d)"
proof
  fix e show "lane_of k n p (update_item k' n' p' e' f d) e =
      (if k' = k \<and> n' = n \<and> p' = p then (lane_of k n p d)(e' \<mapsto> i_state (f i)) else lane_of k n p d) e"
    using assms(2) by (auto simp: lane_of_def find_update_item [OF assms(1)])
qed

lemma lane_remove_item:
  "lane_of k n p (d\<lparr>items := filter (\<lambda>j. \<not> item_key k' n' p' e' j) (items d)\<rparr>) =
     (if k' = k \<and> n' = n \<and> p' = p then (lane_of k n p d)(e' := None) else lane_of k n p d)"
proof
  fix e
  have "find (item_key k n p e) (filter (\<lambda>j. \<not> item_key k' n' p' e' j) (items d)) =
      (if \<not> (k' = k \<and> n' = n \<and> p' = p \<and> e' = e) then find (item_key k n p e) (items d) else None)"
    by (rule find_filter_item) (auto simp: item_key_def item_of_def)
  then show "lane_of k n p (d\<lparr>items := filter (\<lambda>j. \<not> item_key k' n' p' e' j) (items d)\<rparr>) e =
      (if k' = k \<and> n' = n \<and> p' = p then (lane_of k n p d)(e' := None) else lane_of k n p d) e"
    by (auto simp: lane_of_def find_item_def)
qed

text \<open>An item with a holder is claimed.\<close>

lemma held_claimed:
  assumes "wf_queue d" "find_item k n p e d = Some i" "i_claimed_by i \<noteq> None"
  shows "lane_of k n p d e = Some ClaimedS"
  using assms find_item_Some [OF assms(2)] by (auto simp: lane_of_def wf_queue_def row_ok_def)

lemma claim_steps_lane:
  assumes x: "claim_work_item locked su n' w secs opts d = Inr (rows, d')" and wf: "wf_queue d"
  shows "lane_step (lane_of k n p d)
     (case rows of row # _ \<Rightarrow> if on_sub k n su n' d \<and> w_partition row = p then Handed (w_event row) else Quiet | [] \<Rightarrow> Quiet)
     (lane_of k n p d')"
proof (rule claim_work_item_Inr [OF x])
  fix s u m wk sc
  assume a: "su = Some u" "n' = Some m" "find_stream u d = Some s"
    and c: "case claim_candidates (s_id s) m locked d of [] \<Rightarrow> rows = [] \<and> d' = d
      | i # _ \<Rightarrow> rows = [claimed_row wk (now d + 1000 * sc) i]
          \<and> d' = update_item (s_id s) m (i_partition i) (i_event i) (claim_update wk (now d + 1000 * sc)) d"
  show ?thesis
  proof (cases "claim_candidates (s_id s) m locked d")
    case Nil
    with c show ?thesis by (simp add: lane_quiet)
  next
    case (Cons t rest)
    note C = claim_candidates_Cons [OF Cons]
    let ?p = "i_partition t" and ?e = "i_event t" and ?f = "claim_update wk (now d + 1000 * sc)"
    have t: "find_item (s_id s) m ?p ?e d = Some t"
      by (rule find_item_unique [OF wf C(1)]) (use C(2) in \<open>simp add: item_key_def\<close>)
    have row: "w_partition (claimed_row wk ex t) = ?p" "w_event (claimed_row wk ex t) = ?e" for ex
      by (simp_all add: claimed_row_def Let_def)
    have l: "lane_of k n p d' = (if s_id s = k \<and> m = n \<and> ?p = p then (lane_of k n p d)(?e \<mapsto> ClaimedS) else lane_of k n p d)"
      using c Cons lane_update_item [of ?f, OF _ t] by (simp add: full_key_def claim_update_def)
    show ?thesis
    proof (cases "s_id s = k \<and> m = n \<and> ?p = p")
      case True
      have "lane_of k n p d ?e \<in> {Some Pending, Some ClaimedS}"
        using t C(3) True by (auto simp: lane_of_def takeable_def)
      moreover have "?e \<le> e'" if e': "e' \<in> open_in (lane_of k n p d)" for e'
      proof (rule ccontr)
        assume lt: "\<not> ?e \<le> e'"
        from e' obtain j where j: "find_item k n p e' d = Some j" "open_item j"
          by (auto simp: open_in_def lane_of_def open_item_def)
        with find_item_Some [OF j(1)] True C(2,4) lt show False
          by (auto simp: blocked_def item_key_def item_of_def)
      qed
      ultimately have "lane_step (lane_of k n p d) (Handed ?e) ((lane_of k n p d)(?e \<mapsto> ClaimedS))"
        by (blast intro: lane_hand)
      with True a c Cons row l show ?thesis by (simp add: on_sub_def)
    next
      case False
      with a c Cons row l show ?thesis by (auto simp: on_sub_def intro: lane_quiet)
    qed
  qed
qed

text \<open>The three ends of a claim, at the item the caller holds.\<close>

lemma ended_claim:
  assumes "with_claimed_item proc (the su) (the n') w (the p') (the e) d f = Inr x" "wf_queue d"
  obtains s i where "find_stream (the su) d = Some s" "find_item (s_id s) (the n') (the p') (the e) d = Some i"
    "f (s_id s) i = Inr x" "on_sub k n su n' d \<longleftrightarrow> s_id s = k \<and> the n' = n"
    "lane_of (s_id s) (the n') (the p') d (the e) = Some ClaimedS"
  using assms(1)
proof (rule with_claimed_itemE)
  fix s i
  assume a: "find_stream (the su) d = Some s" "find_item (s_id s) (the n') (the p') (the e) d = Some i"
    "i_claimed_by i = Some w" "f (s_id s) i = Inr x"
  with held_claimed [OF assms(2) a(2)] that show thesis by (simp add: on_sub_def)
qed

lemma projection_steps_lane:
  assumes "complete_work_item_projection su n' w p' e opts d = Inr (x, d')" "wf_queue d"
  shows "lane_step (lane_of k n p d)
     (if on_sub k n su n' d \<and> the p' = p then Acked (the e) else Quiet) (lane_of k n p d')"
proof -
  from assms(1) obtain proc where c: "with_claimed_item proc (the su) (the n') (the w) (the p') (the e) d
      (\<lambda>k i. Inr ((), d\<lparr>items := filter (\<lambda>j. \<not> item_key k (the n') (the p') (the e) j) (items d)\<rparr>)) = Inr (x, d')"
    by (auto simp: complete_work_item_projection_def check_defs sum_iffs)
  show ?thesis
    by (rule ended_claim [OF c assms(2), of k n])
       (auto simp: lane_remove_item intro: lane_quiet lane_ack)
qed

lemma pm_steps_lane:
  assumes "complete_work_item_pm su n' w p' e snu snt snv sd smd opts d = Inr (x, d')" "wf_queue d"
  shows "lane_step (lane_of k n p d)
     (if on_sub k n su n' d \<and> the p' = p then Acked (the e) else Quiet) (lane_of k n p d')"
proof -
  let ?f = "\<lambda>r. r\<lparr>i_state := Done, i_claimed_by := None, i_lease := None\<rparr>"
  from assms(1) obtain proc where c: "with_claimed_item proc (the su) (the n') (the w) (the p') (the e) d
      (\<lambda>k i. Inr ((), upsert_snapshot (the snu) (the snt) (nat (the snv)) (the sd) smd
          (update_item k (the n') (the p') (the e) ?f d))) = Inr (x, d')"
    by (auto simp: complete_work_item_pm_def check_defs sum_iffs)
  show ?thesis
  proof (rule ended_claim [OF c assms(2), of k n])
    fix s i
    assume i: "find_item (s_id s) (the n') (the p') (the e) d = Some i"
      and d': "Inr ((), upsert_snapshot (the snu) (the snt) (nat (the snv)) (the sd) smd
          (update_item (s_id s) (the n') (the p') (the e) ?f d)) = Inr (x, d')"
      and a: "on_sub k n su n' d \<longleftrightarrow> s_id s = k \<and> the n' = n"
        "lane_of (s_id s) (the n') (the p') d (the e) = Some ClaimedS"
    have "items d' = items (update_item (s_id s) (the n') (the p') (the e) ?f d)" using d' by auto
    from lane_of_items [OF this] lane_update_item [of ?f, OF _ i, of k n p] a show ?thesis
      by (auto simp: full_key_def intro: lane_quiet lane_done)
  qed
qed

lemma fail_steps_lane:
  assumes "fail_work_item su n' w p' e err opts d = Inr (x, d')" "wf_queue d"
  shows "lane_step (lane_of k n p d)
     (if on_sub k n su n' d \<and> the p' = p then Parked (the e) else Quiet) (lane_of k n p d')"
proof -
  let ?f = "\<lambda>r. r\<lparr>i_state := Failed, i_failed_at := Some (now d), i_error := err, i_claimed_by := None, i_lease := None\<rparr>"
  from assms(1) obtain proc where c: "with_claimed_item proc (the su) (the n') (the w) (the p') (the e) d
      (\<lambda>k i. Inr ((), update_item k (the n') (the p') (the e) ?f d)) = Inr (x, d')"
    by (auto simp: fail_work_item_def check_defs sum_iffs)
  show ?thesis
  proof (rule ended_claim [OF c assms(2), of k n])
    fix s i
    assume i: "find_item (s_id s) (the n') (the p') (the e) d = Some i"
      and d': "Inr ((), update_item (s_id s) (the n') (the p') (the e) ?f d) = Inr (x, d')"
      and a: "on_sub k n su n' d \<longleftrightarrow> s_id s = k \<and> the n' = n"
        "lane_of (s_id s) (the n') (the p') d (the e) = Some ClaimedS"
    from d' lane_update_item [of ?f, OF _ i, of k n p] a show ?thesis
      by (auto simp: full_key_def intro: lane_quiet lane_park)
  qed
qed

lemma extend_keeps_lane:
  assumes "extend_work_item_claim su n' w p' e secs opts d = Inr (x, d')"
  shows "lane_of k n p d' = lane_of k n p d"
proof (rule extend_work_item_Inr [OF assms])
  fix s t
  let ?f = "\<lambda>r. r\<lparr>i_lease := Some (now d + 1000 * the secs)\<rparr>"
  assume t: "find_item (s_id s) (the n') (the p') (the e) d = Some t"
    and d': "d' = update_item (s_id s) (the n') (the p') (the e) ?f d"
  have "lane_of k n p d (the e) = Some (i_state t)" if "s_id s = k" "the n' = n" "the p' = p"
    using t that by (simp add: lane_of_def)
  with lane_update_item [of ?f, OF _ t, of k n p] d' show ?thesis
    by (auto simp: full_key_def fun_upd_idem)
qed

lemma decision_row_new:
  assumes "decision_row k' m v = Inr i"
  shows "i_stream i = k'" "i_sub i = m" "i_state i = Pending"
  using assms by (auto simp: decision_row_def bind_sum_Inr split: option.splits json.splits)

lemma decided_rows:
  assumes "map_sum_list (decision_row k n) vs = Inr rows"
  shows "find (item_key k n p e) rows = None \<longleftrightarrow> e \<notin> set (decided_for k n p vs)"
    and "find (item_key k n p e) rows = Some i \<Longrightarrow> i_state i = Pending"
proof -
  have r: "i_stream i = k \<and> i_sub i = n \<and> i_state i = Pending" if "i \<in> set rows" for i
    using assms that decision_row_new by (fastforce simp: map_sum_list_Inr list_all2_conv_all_nth in_set_conv_nth)
  then show "find (item_key k n p e) rows = None \<longleftrightarrow> e \<notin> set (decided_for k n p vs)"
    by (auto simp: find_None_iff decided_for_def assms item_key_def item_of_def)
  show "find (item_key k n p e) rows = Some i \<Longrightarrow> i_state i = Pending"
    using r by (auto simp: find_Some_iff)
qed

lemma other_rows_None:
  assumes "map_sum_list (decision_row k' m) vs = Inr rows" "\<not> (k' = k \<and> m = n)"
  shows "find (item_key k n p e) rows = None"
proof -
  have "i_stream i = k' \<and> i_sub i = m" if "i \<in> set rows" for i
    using assms(1) that decision_row_new by (fastforce simp: map_sum_list_Inr list_all2_conv_all_nth in_set_conv_nth)
  with assms(2) show ?thesis by (auto simp: find_None_iff item_key_def item_of_def)
qed

lemma route_steps_lane:
  assumes "route_batch su n' w cur (Some (JArr vs)) opts d = Inr (x, d')"
  shows "lane_step (lane_of k n p d)
     (if on_sub k n su n' d then Routed (decided_for k n p vs) else Quiet) (lane_of k n p d')"
proof -
  from assms obtain s rows where s: "find_stream (the su) d = Some s"
    and rows: "map_sum_list (decision_row (s_id s) (the n')) vs = Inr rows"
    and its: "items d' = insert_items rows (items d)"
    by (auto simp: route_batch_def check_defs lookup_defs sum_iffs Let_def split: option.splits if_splits)
  have l: "lane_of k n p d' e = (case lane_of k n p d e of Some x \<Rightarrow> Some x
      | None \<Rightarrow> map_option i_state (find (item_key k n p e) rows))" for e
    by (simp add: lane_of_def find_item_def its find_insert_items split: option.splits)
  show ?thesis
  proof (cases "on_sub k n su n' d")
    case True
    then have "map_sum_list (decision_row k n) vs = Inr rows" using s rows by (simp add: on_sub_def)
    note D = decided_rows [OF this]
    have "lane_of k n p d' = (\<lambda>e. if lane_of k n p d e = None \<and> e \<in> set (decided_for k n p vs) then Some Pending
        else lane_of k n p d e)"
    proof
      fix e show "lane_of k n p d' e = (if lane_of k n p d e = None \<and> e \<in> set (decided_for k n p vs) then Some Pending
        else lane_of k n p d e)"
        using D [of p e] by (cases "find (item_key k n p e) rows") (auto simp: l split: option.splits)
    qed
    with True show ?thesis by (simp add: lane_route)
  next
    case False
    with s have "\<not> (s_id s = k \<and> the n' = n)" by (auto simp: on_sub_def)
    from other_rows_None [OF rows this] have "lane_of k n p d' = lane_of k n p d"
      by (auto simp: l fun_eq_iff split: option.splits)
    with False show ?thesis by (simp add: lane_quiet)
  qed
qed

lemma other_lanes_kept:
  "delete_subscription su n' opts d = Inr (x, d') \<Longrightarrow> \<not> on_sub k n su n' d \<Longrightarrow> lane_of k n p d' = lane_of k n p d"
  "complete_pm_instance su n' p' snu opts d = Inr (y, d') \<Longrightarrow> \<not> (on_sub k n su n' d \<and> the p' = p)
     \<Longrightarrow> lane_of k n p d' = lane_of k n p d"
proof -
  assume c: "delete_subscription su n' opts d = Inr (x, d')" "\<not> on_sub k n su n' d"
  then obtain s where s: "find_stream (the su) d = Some s"
    and d': "items d' = filter (\<lambda>i. \<not> item_of (s_id s) (the n') i) (items d)"
    by (auto simp: delete_subscription_def check_defs lookup_defs sum_iffs split: option.splits)
  have "find (item_key k n p e) (items d') = find (item_key k n p e) (items d)" for e
    unfolding d' by (subst find_filter_item [where b = True]) (use c(2) s in \<open>auto simp: on_sub_def item_key_def item_of_def\<close>)
  then show "lane_of k n p d' = lane_of k n p d" by (simp add: lane_of_def find_item_def)
next
  assume c: "complete_pm_instance su n' p' snu opts d = Inr (y, d')" "\<not> (on_sub k n su n' d \<and> the p' = p)"
  then obtain s where s: "find_stream (the su) d = Some s"
    and d': "items d' = filter (\<lambda>i. \<not> (item_of (s_id s) (the n') i \<and> i_partition i = the p')) (items d)"
    by (auto simp: complete_pm_instance_def check_defs lookup_defs sum_iffs Let_def split: option.splits)
  have "find (item_key k n p e) (items d') = find (item_key k n p e) (items d)" for e
    unfolding d' by (subst find_filter_item [where b = True]) (use c(2) s in \<open>auto simp: on_sub_def item_key_def item_of_def\<close>)
  then show "lane_of k n p d' = lane_of k n p d" by (simp add: lane_of_def find_item_def)
qed

lemma quiet_items:
  "claim_subscription locked su n' w secs opts d = Inr (x1, d') \<Longrightarrow> items d' = items d"
  "release_subscription su n' w opts d = Inr (x2, d') \<Longrightarrow> items d' = items d"
  "record_snapshot u ty v data md opts d = Inr (x3, d') \<Longrightarrow> items d' = items d"
  "delete_snapshot u opts d = Inr (x4, d') \<Longrightarrow> items d' = items d"
  by (auto simp: claim_subscription_def release_subscription_def record_snapshot_def delete_snapshot_def
      check_defs lookup_defs sum_iffs Let_def split: option.splits if_splits)

lemma call_steps_lane:
  assumes e: "exec c d = Inr (r, d')" and wf: "wf_db d" and g: "\<not> discards k n p c d"
  shows "lane_step (lane_of k n p d) (lane_action k n p c r d) (lane_of k n p d')"
proof -
  have wfq: "wf_queue d" and wfe: "wf_events d" using wf by (simp_all add: wf_db_def)
  have same: ?thesis if "lane_action k n p c r d = Quiet" "lane_of k n p d' = lane_of k n p d"
    using that by (simp add: lane_quiet)
  show ?thesis
  proof (cases c)
    case (CRouteBatch su n' w cur decs)
    with e obtain y vs where vs: "decs = Some (JArr vs)"
      and x: "route_batch su n' w cur (Some (JArr vs)) (Some (JObj [])) d = Inr (y, d')"
      by (auto simp: tag_Inr route_batch_def check_defs sum_iffs split: option.splits json.splits)
    from route_steps_lane [OF x, of k n p] CRouteBatch vs show ?thesis by (simp add: lane_action_def)
  next
    case (CClaimItem locked su n' w secs)
    with e obtain rows where x: "claim_work_item (\<lambda>i. i \<in> set locked) su n' w secs (Some (JObj [])) d = Inr (rows, d')"
      and r: "r = RWork rows" by (auto simp: tag_Inr)
    from claim_steps_lane [OF x wfq, of k n p] CClaimItem r show ?thesis by (simp add: lane_action_def)
  next
    case (CExtendItem su n' w p' ev secs)
    with e show ?thesis by (intro same) (auto simp: tag_Inr lane_action_def dest: extend_keeps_lane)
  next
    case (CCompleteProjection su n' w p' ev)
    with e have x: "complete_work_item_projection su n' w p' ev (Some (JObj [])) d = Inr ((), d')" by (auto simp: tag_Inr)
    from projection_steps_lane [OF x wfq, of k n p] CCompleteProjection show ?thesis by (simp add: lane_action_def)
  next
    case (CCompletePm su n' w p' ev snu snt snv sd smd)
    with e have x: "complete_work_item_pm su n' w p' ev snu snt snv sd smd (Some (JObj [])) d = Inr ((), d')"
      by (auto simp: tag_Inr)
    from pm_steps_lane [OF x wfq, of k n p] CCompletePm show ?thesis by (simp add: lane_action_def)
  next
    case (CFailItem su n' w p' ev err)
    with e have x: "fail_work_item su n' w p' ev err (Some (JObj [])) d = Inr ((), d')" by (auto simp: tag_Inr)
    from fail_steps_lane [OF x wfq, of k n p] CFailItem show ?thesis by (simp add: lane_action_def)
  next
    case (CDeleteSub su n')
    with e g show ?thesis by (intro same) (auto simp: tag_Inr lane_action_def discards_def dest: other_lanes_kept(1))
  next
    case (CCompleteInstance su n' p' snu)
    with e g show ?thesis by (intro same) (auto simp: tag_Inr lane_action_def discards_def dest: other_lanes_kept(2))
  next
    case CAppend
    with e wfe show ?thesis
      by (intro same) (auto simp: tag_Inr lane_action_def dest: append_step(6) intro: lane_of_items)
  qed (use e in \<open>intro same; auto simp: tag_Inr lane_action_def dest!: read_steps quiet_items intro: lane_of_items\<close>)+
qed

section \<open>The cursor\<close>

definition cursor :: "nat \<Rightarrow> string \<Rightarrow> db \<Rightarrow> nat" where
  "cursor k n d = (case find_sub k n d of None \<Rightarrow> 0 | Some b \<Rightarrow> b_last_seen b)"

text \<open>Only a routed batch moves the cursor of a subscription.\<close>

lemma cursor_moved:
  assumes e: "exec c d = Inr (r, d')" and wf: "wf_db d" and b: "find_sub k n d \<noteq> None"
    and g: "\<not> discards k n p c d" and q: "\<nexists>es. lane_action k n p c r d = Routed es"
  shows "find_sub k n d' \<noteq> None \<and> cursor k n d' = cursor k n d"
proof (cases "moves_lease c")
  case False
  from conjunct1 [OF exec_subs [OF e False wf]] b show ?thesis by (simp add: find_sub_def cursor_def)
next
  case True
  from b obtain b0 where b0: "find_sub k n d = Some b0" by blast
  show ?thesis
  proof (cases c)
    case (CClaimSub locked su n' w' secs opts)
    with e obtain rows where "claim_subscription locked su n' w' secs opts d = Inr (rows, d')" by (auto simp: tag_Inr)
    then show ?thesis
    proof (cases rule: claim_subscription_subs)
      case (2 x)
      with b0 have "find_sub k n d' = Some b0"
        by (auto simp: find_sub_def find_Some_iff nth_append intro: less_SucI)
      with b0 show ?thesis by (simp add: cursor_def)
    next
      case (3 k' m wk ex)
      with b0 show ?thesis by (simp add: find_update_sub cursor_def)
    qed (use b in \<open>simp add: find_sub_def cursor_def\<close>)
  next
    case (CReleaseSub su n' w')
    with e obtain k' where "d' = update_sub k' (the n') (\<lambda>r. r\<lparr>b_claimed_by := None, b_expires := None\<rparr>) d"
      by (auto simp: tag_Inr release_subscription_def check_defs lookup_defs sum_iffs split: option.splits if_splits)
    with b0 show ?thesis by (simp add: find_update_sub cursor_def)
  next
    case (CDeleteSub su n')
    with e obtain s where s: "find_stream (the su) d = Some s"
      and d': "subs d' = filter (\<lambda>b. \<not> (b_stream b = s_id s \<and> b_name b = the n')) (subs d)"
      by (auto simp: tag_Inr delete_subscription_def check_defs lookup_defs sum_iffs split: option.splits)
    have "\<not> (s_id s = k \<and> the n' = n)" using s g CDeleteSub by (auto simp: discards_def on_sub_def)
    with b show ?thesis by (simp add: find_sub_def cursor_def d' find_filter_other del: de_Morgan_conj)
  next
    case (CRouteBatch su n' w' cur decs)
    with e obtain s vs ls where vs: "decs = Some (JArr vs)" and s: "find_stream (the su) d = Some s"
      and d': "subs d' = subs (update_sub (s_id s) (the n') (\<lambda>r. r\<lparr>b_last_seen := ls\<rparr>) d)"
      by (auto simp: tag_Inr route_batch_def check_defs lookup_defs sum_iffs Let_def
          split: option.splits json.splits if_splits)
    have "\<not> (s_id s = k \<and> the n' = n)" using q CRouteBatch vs s by (auto simp: lane_action_def on_sub_def)
    then have "find_sub k n d' = find_sub k n d"
      using find_update_sub [of "\<lambda>r. r\<lparr>b_last_seen := ls\<rparr>" k n "s_id s" "the n'" d]
      by (auto simp: find_sub_def d')
    with b show ?thesis by (simp add: cursor_def)
  qed (use True in simp_all)
qed

section \<open>What a subscription has routed\<close>

text \<open>The events of the log behind the cursor \<open>a\<close>, up to \<open>b\<close>, that belong to the partition \<open>p\<close>.\<close>

definition routed_to :: "(event_out \<Rightarrow> string option) \<Rightarrow> string \<Rightarrow> nat \<Rightarrow> nat \<Rightarrow> event_out list \<Rightarrow> int list" where
  "routed_to route p a b lg =
     map (\<lambda>e. int (o_event_number e))
       (filter (\<lambda>e. a < o_event_number e \<and> o_event_number e \<le> b \<and> route e = Some p) lg)"

definition numbered :: "event_out list \<Rightarrow> bool" where
  "numbered lg \<longleftrightarrow> map o_event_number lg = [1..<Suc (length lg)]"

lemma numbered_log: "wf_db d \<Longrightarrow> numbered (store_log d)"
  using store_log_numbers length_store_log by (simp add: wf_db_def numbered_def)

lemma numbered_nth: "numbered lg \<Longrightarrow> i < length lg \<Longrightarrow> o_event_number (lg ! i) = Suc i"
  unfolding numbered_def by (drule arg_cong [of _ _ "\<lambda>l. l ! i"]) (simp del: upt_Suc)

lemma numbered_sorted: "numbered lg \<Longrightarrow> sorted_wrt (\<lambda>e e'. o_event_number e < o_event_number e') lg"
  by (auto simp: sorted_wrt_iff_nth_less numbered_nth)

lemma routed_to_sorted: "numbered lg \<Longrightarrow> sorted_wrt (<) (routed_to route p a b lg)"
  unfolding routed_to_def sorted_wrt_map
  by (rule sorted_wrt_filter) (auto intro: sorted_wrt_mono_rel [OF _ numbered_sorted])

lemma routed_to_none: "b \<le> a \<Longrightarrow> routed_to route p a b lg = []"
  by (auto simp: routed_to_def filter_empty_conv)

lemma routed_to_split:
  assumes "numbered lg" "a \<le> b" "b \<le> c"
  shows "routed_to route p a c lg = routed_to route p a b lg @ routed_to route p b c lg"
proof -
  have "filter (\<lambda>e. a < o_event_number e \<and> o_event_number e \<le> c \<and> route e = Some p) xs =
      filter (\<lambda>e. a < o_event_number e \<and> o_event_number e \<le> b \<and> route e = Some p) xs
      @ filter (\<lambda>e. b < o_event_number e \<and> o_event_number e \<le> c \<and> route e = Some p) xs"
    if "sorted_wrt (\<lambda>e e'. o_event_number e < o_event_number e') xs" for xs
    using that
  proof (induction xs)
    case (Cons x xs)
    show ?case
    proof (cases "o_event_number x \<le> b")
      case False
      with Cons.prems have "filter (\<lambda>e. a < o_event_number e \<and> o_event_number e \<le> b \<and> route e = Some p) xs = []"
        by (force simp: filter_empty_conv)
      with False Cons show ?thesis using assms(2) by auto
    qed (use Cons assms in auto)
  qed simp
  from this [OF numbered_sorted [OF assms(1)]] show ?thesis by (simp add: routed_to_def)
qed

lemma routed_to_grow:
  assumes "numbered lg'" "prefix lg lg'" "b \<le> max a (length lg)"
  shows "routed_to route p a b lg' = routed_to route p a b lg"
proof -
  from assms(2) obtain more where lg': "lg' = lg @ more" by (auto simp: prefix_def)
  have "length lg < o_event_number e" if "e \<in> set more" for e
  proof -
    from that obtain i where "i < length more" "e = more ! i" by (auto simp: in_set_conv_nth)
    with numbered_nth [OF assms(1), of "length lg + i"] show ?thesis by (simp add: lg')
  qed
  then have "filter (\<lambda>e. a < o_event_number e \<and> o_event_number e \<le> b \<and> route e = Some p) more = []"
    using assms(3) by (force simp: filter_empty_conv)
  then show ?thesis by (simp add: routed_to_def lg')
qed

section \<open>Runs of the queue\<close>

text \<open>What a call did to a lane; a call that raises does nothing.\<close>

definition action_of :: "nat \<Rightarrow> string \<Rightarrow> string \<Rightarrow> call \<Rightarrow> db \<Rightarrow> lane_action" where
  "action_of k n p c d = (case exec c d of Inl _ \<Rightarrow> Quiet | Inr (r, _) \<Rightarrow> lane_action k n p c r d)"

fun acked_by :: "lane_action \<Rightarrow> int list" where
  "acked_by (Acked e) = [e]"
| "acked_by _ = []"

fun handed_by :: "lane_action \<Rightarrow> int list" where
  "handed_by (Handed e) = [e]"
| "handed_by _ = []"

text \<open>An honest batch holds, for the partition, exactly the events between the old cursor and the new.\<close>

definition honest :: "(event_out \<Rightarrow> string option) \<Rightarrow> nat \<Rightarrow> string \<Rightarrow> string \<Rightarrow> call \<Rightarrow> db \<Rightarrow> bool" where
  "honest route k n p c d =
     (case action_of k n p c d of
        Routed es \<Rightarrow> cursor k n (after c d) \<le> length (store_log d)
          \<and> set es = set (routed_to route p (cursor k n d) (cursor k n (after c d)) (store_log d))
      | _ \<Rightarrow> True)"

text \<open>Any client may call anything at any time, except that the lane is not thrown away, that batches
  are honest, and that an event is acknowledged after the handler ran for it.\<close>

definition allowed ::
  "(event_out \<Rightarrow> string option) \<Rightarrow> nat \<Rightarrow> string \<Rightarrow> string \<Rightarrow> int list \<Rightarrow> call \<Rightarrow> db \<Rightarrow> bool" where
  "allowed route k n p run c d \<longleftrightarrow>
     \<not> discards k n p c d \<and> honest route k n p c d \<and> set (acked_by (action_of k n p c d)) \<subseteq> set run"

inductive queue_run ::
  "(event_out \<Rightarrow> string option) \<Rightarrow> nat \<Rightarrow> string \<Rightarrow> string \<Rightarrow> db \<Rightarrow> db \<Rightarrow> int list \<Rightarrow> int list \<Rightarrow> int list \<Rightarrow> bool"
  for route k n p d0 where
  queue_start: "queue_run route k n p d0 d0 [] [] []"
| queue_call: "queue_run route k n p d0 d ack hand run \<Longrightarrow> allowed route k n p run c d
    \<Longrightarrow> queue_run route k n p d0 (after c d) (ack @ acked_by (action_of k n p c d))
          (hand @ handed_by (action_of k n p c d)) run"
| queue_pass: "queue_run route k n p d0 d ack hand run \<Longrightarrow> queue_run route k n p d0 (pass ms d) ack hand run"
| queue_handler: "queue_run route k n p d0 d ack hand run \<Longrightarrow> e \<in> set hand
    \<Longrightarrow> queue_run route k n p d0 d ack hand (run @ [e])"

text \<open>A subscription that has no items yet.\<close>

definition fresh_sub :: "nat \<Rightarrow> string \<Rightarrow> db \<Rightarrow> bool" where
  "fresh_sub k n d \<longleftrightarrow> find_sub k n d \<noteq> None \<and> (\<forall>i \<in> set (items d). \<not> item_of k n i)"

definition queue_ok ::
  "(event_out \<Rightarrow> string option) \<Rightarrow> nat \<Rightarrow> string \<Rightarrow> string \<Rightarrow> nat \<Rightarrow> db \<Rightarrow> int list \<Rightarrow> int list \<Rightarrow> int list \<Rightarrow> bool" where
  "queue_ok route k n p base d ack hand run \<longleftrightarrow>
     wf_db d \<and> find_sub k n d \<noteq> None \<and> base \<le> cursor k n d \<and> cursor k n d \<le> max base (length (store_log d))
     \<and> lane_run (lane_of k n p d) (routed_to route p base (cursor k n d) (store_log d)) ack hand run"

lemma lane_step_cong:
  assumes "lane_step l (Routed es) l'" "set es = set es'"
  shows "lane_step l (Routed es') l'"
proof -
  from assms have "l' = (\<lambda>e. if l e = None \<and> e \<in> set es' then Some Pending else l e)" by (auto elim: lane_stepE)
  then show ?thesis by (simp add: lane_route)
qed

lemma queue_ok_call:
  assumes ok: "queue_ok route k n p base d ack hand run" and a: "allowed route k n p run c d"
  shows "queue_ok route k n p base (after c d) (ack @ acked_by (action_of k n p c d))
     (hand @ handed_by (action_of k n p c d)) run"
proof (cases "exec c d")
  case (Inl err)
  with ok show ?thesis by (simp add: after_def action_of_def)
next
  case (Inr x)
  then obtain r d' where e: "exec c d = Inr (r, d')" by (cases x) auto
  then have af: "after c d = d'" and ac: "action_of k n p c d = lane_action k n p c r d"
    by (simp_all add: after_def action_of_def)
  from ok have wf: "wf_db d" and b: "find_sub k n d \<noteq> None" and c: "base \<le> cursor k n d"
    "cursor k n d \<le> max base (length (store_log d))"
    and run: "lane_run (lane_of k n p d) (routed_to route p base (cursor k n d) (store_log d)) ack hand run"
    by (simp_all add: queue_ok_def)
  from a have g: "\<not> discards k n p c d" and h: "honest route k n p c d"
    and acks: "set (acked_by (lane_action k n p c r d)) \<subseteq> set run" by (simp_all add: allowed_def ac)
  note st = call_steps_lane [OF e wf g]
  have wf': "wf_db d'" using wf_after [OF wf, of c] by (simp add: af)
  have pre: "prefix (store_log d) (store_log d')" using prefix_after [OF wf, of c] by (simp add: af)
  note num = numbered_log [OF wf] numbered_log [OF wf']
  show ?thesis
  proof (cases "\<exists>es. lane_action k n p c r d = Routed es")
    case True
    then obtain es where es: "lane_action k n p c r d = Routed es" by blast
    with h af ac have hc: "cursor k n d' \<le> length (store_log d)"
      and hs: "set es = set (routed_to route p (cursor k n d) (cursor k n d') (store_log d))"
      by (simp_all add: honest_def)
    from es obtain su n' w cur vs where c': "c = CRouteBatch su n' w cur (Some (JArr vs))"
      by (auto simp: lane_action_def split: call.splits option.splits json.splits reply.splits list.splits if_splits)
    from b obtain b0 where b0: "find_sub k n d = Some b0" by blast
    from cursor_kept [OF e wf b0] c' obtain b' where b': "find_sub k n d' = Some b'" "b_last_seen b0 \<le> b_last_seen b'"
      by auto
    then have le: "cursor k n d \<le> cursor k n d'" using b0 by (simp add: cursor_def)
    let ?new = "routed_to route p (cursor k n d) (cursor k n d') (store_log d)"
    have "lane_run (lane_of k n p d') (routed_to route p base (cursor k n d) (store_log d) @ ?new) ack hand run"
    proof (rule run_route [OF run])
      show "lane_step (lane_of k n p d) (Routed ?new) (lane_of k n p d')"
        using lane_step_cong [OF _ hs] st es by simp
      show "sorted_wrt (<) (routed_to route p base (cursor k n d) (store_log d) @ ?new)"
        using routed_to_sorted [OF num(1), of route p base "cursor k n d'"]
        by (simp add: routed_to_split [OF num(1) c(1) le])
    qed
    also have "routed_to route p base (cursor k n d) (store_log d) @ ?new = routed_to route p base (cursor k n d') (store_log d')"
      using routed_to_grow [OF num(2) pre, of "cursor k n d'" base route p] hc
      by (simp add: routed_to_split [OF num(1) c(1) le])
    finally show ?thesis
      using wf' b' c le hc pre by (auto simp: queue_ok_def af ac es dest: prefix_length_le)
  next
    case False
    from cursor_moved [OF e wf b g] False have cur: "find_sub k n d' \<noteq> None" "cursor k n d' = cursor k n d" by auto
    have todo: "routed_to route p base (cursor k n d') (store_log d') = routed_to route p base (cursor k n d) (store_log d)"
      using routed_to_grow [OF num(2) pre c(2)] by (simp add: cur)
    have "lane_run (lane_of k n p d') (routed_to route p base (cursor k n d) (store_log d))
        (ack @ acked_by (lane_action k n p c r d)) (hand @ handed_by (lane_action k n p c r d)) run"
      using st acks False
      by (cases "lane_action k n p c r d")
         (auto intro: run_hand [OF run] run_ack [OF run] run_park [OF run] elim: lane_stepE(5) simp: run)
    with wf' cur c pre todo show ?thesis
      by (auto simp: queue_ok_def af ac dest: prefix_length_le)
  qed
qed

lemma queue_run_ok:
  "queue_run route k n p d0 d ack hand run \<Longrightarrow> wf_db d0 \<Longrightarrow> fresh_sub k n d0
     \<Longrightarrow> queue_ok route k n p (cursor k n d0) d ack hand run"
proof (induction rule: queue_run.induct)
  case queue_start
  then have "lane_of k n p d0 = (\<lambda>_. None)"
    by (auto simp: fun_eq_iff fresh_sub_def lane_of_def find_item_def find_None_iff item_key_def)
  with queue_start show ?case by (simp add: queue_ok_def fresh_sub_def routed_to_none lane_empty)
next
  case (queue_pass d ack hand run ms)
  then show ?case
    using wf_pass [of d ms] by (simp add: queue_ok_def cursor_def find_sub_def lane_of_def find_item_def pass_def
        store_log_def glinks_def)
next
  case (queue_handler d ack hand run e)
  then show ?case by (auto simp: queue_ok_def intro: run_handler)
qed (blast intro: queue_ok_call)

text \<open>The partition is served in order: what was acknowledged, followed by what is open, is exactly what
  the log holds for it up to the cursor, and the handlers saw an at-least-once delivery.\<close>

lemma partition_served:
  assumes "queue_run route k n p d0 d ack hand run" "wf_db d0" "fresh_sub k n d0"
  shows "\<exists>rest es. routed_to route p (cursor k n d0) (cursor k n d) (store_log d) = ack @ rest
     \<and> set rest = open_in (lane_of k n p d) \<and> delivered es run \<and> es \<in> {ack, ack @ take 1 rest}"
proof -
  from queue_run_ok [OF assms] have
    "lane_run (lane_of k n p d) (routed_to route p (cursor k n d0) (cursor k n d) (store_log d)) ack hand run"
    by (simp add: queue_ok_def)
  from lane_run_ok [OF this] show ?thesis by (auto simp: lane_ok_def)
qed

end
