(* ===== verification/Delivery_Properties.thy ===== *)
theory Delivery_Properties
  imports Delivery Routing_Properties
begin

text \<open>
  Properties of delivery as a whole: every call is a step of the lane machine, a partition is served in
  order and without a gap, and a routing worker's batches are honest.
\<close>

section \<open>Lanes\<close>


definition claim_a :: call where
  "claim_a = CClaimItem [] (Some all_uuid) (Some ''balances'') worker_a (Some 30)"

definition complete_a :: call where
  "complete_a = CCompleteProjection (Some all_uuid) (Some ''balances'') worker_a (Some ''a'') (Some 1)"



definition to_a :: "event_out \<Rightarrow> string option" where
  "to_a e = Some ''a''"

definition claimed_db :: db where
  "claimed_db = after claim_a routed_db"

lemma served_run:
  "queue_run to_a 0 ''balances'' ''a'' leased_db (after complete_a claimed_db) [1] [1] [1]"
proof -
  have a: "allowed to_a 0 ''balances'' ''a'' [] sample_route leased_db"
    "acked_by (action_of 0 ''balances'' ''a'' sample_route leased_db) = []"
    "handed_by (action_of 0 ''balances'' ''a'' sample_route leased_db) = []" by code_simp+
  have "queue_run to_a 0 ''balances'' ''a'' leased_db routed_db [] [] []"
    using queue_call [OF queue_start a(1)] a(2,3) by (simp add: routed_db_def)
  moreover have b: "allowed to_a 0 ''balances'' ''a'' [] claim_a routed_db"
    "acked_by (action_of 0 ''balances'' ''a'' claim_a routed_db) = []"
    "handed_by (action_of 0 ''balances'' ''a'' claim_a routed_db) = [1]" by code_simp+
  ultimately have "queue_run to_a 0 ''balances'' ''a'' leased_db claimed_db [] [1] []"
    using queue_call [OF _ b(1), of leased_db "[]" "[]"] b(2,3) by (simp add: claimed_db_def)
  from queue_handler [OF this, of 1] have h: "queue_run to_a 0 ''balances'' ''a'' leased_db claimed_db [] [1] [1]" by simp
  have c: "allowed to_a 0 ''balances'' ''a'' [1] complete_a claimed_db"
    "acked_by (action_of 0 ''balances'' ''a'' complete_a claimed_db) = [1]"
    "handed_by (action_of 0 ''balances'' ''a'' complete_a claimed_db) = []" by code_simp+
  show ?thesis using queue_call [OF h c(1)] c(2,3) by simp
qed

lemma fresh_leased: "fresh_sub 0 ''balances'' leased_db" "cursor 0 ''balances'' leased_db = 0"
  by code_simp+


section \<open>Honest batches\<close>

lemma numbered_window:
  assumes n: "numbered lg" and ab: "a \<le> b" "b \<le> length lg"
  shows "filter (\<lambda>e. a < o_event_number e \<and> o_event_number e \<le> b \<and> Q e) lg = filter Q (take (b - a) (drop a lg))"
proof -
  let ?P = "\<lambda>e. a < o_event_number e \<and> o_event_number e \<le> b \<and> Q e"
  have "\<not> ?P e" if e: "e \<in> set (take a lg)" for e
  proof -
    from e obtain i where "i < length (take a lg)" "e = take a lg ! i" unfolding in_set_conv_nth by metis
    with numbered_nth [OF n, of i] show ?thesis by simp
  qed
  then have 1: "filter ?P (take a lg) = []" by (simp add: filter_empty_conv)
  have "\<not> ?P e" if e: "e \<in> set (drop b lg)" for e
  proof -
    from e obtain i where "i < length (drop b lg)" "e = drop b lg ! i" unfolding in_set_conv_nth by metis
    with numbered_nth [OF n, of "b + i"] ab show ?thesis by simp
  qed
  then have 3: "filter ?P (drop b lg) = []" by (simp add: filter_empty_conv)
  have "?P e \<longleftrightarrow> Q e" if e: "e \<in> set (take (b - a) (drop a lg))" for e
  proof -
    from e obtain i where "i < length (take (b - a) (drop a lg))" "e = take (b - a) (drop a lg) ! i"
      unfolding in_set_conv_nth by metis
    with numbered_nth [OF n, of "a + i"] ab show ?thesis by auto
  qed
  then have 2: "filter ?P (take (b - a) (drop a lg)) = filter Q (take (b - a) (drop a lg))" by (intro filter_cong) auto
  have "lg = take a lg @ take (b - a) (drop a lg) @ drop b lg"
    using ab by (metis append_take_drop_id drop_drop le_add_diff_inverse2)
  then have "filter ?P lg = filter ?P (take a lg) @ filter ?P (take (b - a) (drop a lg)) @ filter ?P (drop b lg)"
    by (metis filter_append)
  then show ?thesis by (simp add: 1 2 3)
qed

lemma decided_for_decisions:
  assumes "\<forall>x \<in> set decs. \<bar>rd_event_number x\<bar> \<le> 2 ^ 53"
  shows "decided_for k n p (map decision_json decs) = map rd_event_number (filter (\<lambda>x. rd_partition_key x = p) decs)"
proof -
  let ?row = "\<lambda>x. \<lparr>i_stream = k, i_sub = n, i_partition = rd_partition_key x, i_event = rd_event_number x,
      i_state = Pending, i_claimed_by = None, i_lease = None, i_failed_at = None, i_error = None\<rparr>"
  have "map_sum_list (decision_row k n) (map decision_json decs) = Inr (map ?row decs)"
    using assms by (induction decs) (simp_all add: decision_row_exact)
  then show ?thesis by (simp add: decided_for_def filter_map comp_def)
qed

lemma decisions_of_route:
  "length keys = length evs \<Longrightarrow> map rd_event_number (filter (\<lambda>x. rd_partition_key x = p) (concat (map2 decision_for evs keys)))
     = map (re_event_number \<circ> fst) (filter (\<lambda>x. snd x = Some p) (zip evs keys))"
  by (induction keys evs rule: list_induct2) (auto simp: decision_for_def split: option.splits)

lemma decision_numbers:
  assumes "numbered lg" "prefix lg0 lg" "batch = map recorded (take q (drop ls lg0))"
    and "x \<in> set (concat (map2 decision_for batch keys))"
  shows "\<bar>rd_event_number x\<bar> \<le> int (length lg)"
proof -
  from assms(4) obtain ev key where "(ev, key) \<in> set (zip batch keys)" "x \<in> set (decision_for ev key)" by auto
  then have x: "rd_event_number x = re_event_number ev" "ev \<in> set batch"
    by (auto simp: decision_for_def split: option.splits dest: set_zip_leftD)
  with assms(3) obtain e where e: "e \<in> set lg0" "ev = recorded e" by (auto dest: in_set_takeD in_set_dropD)
  with assms(2) have "e \<in> set lg" by (auto dest: set_mono_prefix)
  then obtain i where "i < length lg" "e = lg ! i" unfolding in_set_conv_nth by metis
  with numbered_nth [OF assms(1), of i] e x show ?thesis by (simp add: recorded_def)
qed

lemma route_moves_cursor:
  assumes "route_batch su n w (Some cur) (Some (JArr vs)) opts d = Inr (x, d')" "on_sub k m su n d" "the n = m"
  shows "cursor k m d' = max (cursor k m d) (nat cur)"
proof -
  from assms obtain s b its where s: "find_stream (the su) d = Some s" and b: "find_sub (s_id s) (the n) d = Some b"
    and d': "d' = (update_sub (s_id s) (the n) (\<lambda>r. r\<lparr>b_last_seen := max (b_last_seen b) (nat cur)\<rparr>) d)\<lparr>items := its\<rparr>"
    by (auto simp: route_batch_def check_defs lookup_defs sum_iffs Let_def split: option.splits if_splits)
  from s assms(2,3) have k: "s_id s = k" "the n = m" by (auto simp: on_sub_def)
  have "find_sub k m d' = find_sub k m (update_sub k m (\<lambda>r. r\<lparr>b_last_seen := max (b_last_seen b) (nat cur)\<rparr>) d)"
    by (simp add: d' k find_sub_def)
  with b k show ?thesis by (simp add: find_update_sub cursor_def)
qed

text \<open>What a batch read behind the cursor holds for a partition.\<close>

lemma batch_of_partition:
  assumes n: "numbered lg" and pre: "prefix lg0 lg"
    and b: "batch = map recorded (take q (drop ls lg0))" "batch \<noteq> []"
  shows "nat (re_event_number (last batch)) \<le> length lg" "ls \<le> nat (re_event_number (last batch))"
    and "routed_to (route \<circ> recorded) p ls (nat (re_event_number (last batch))) lg
      = map re_event_number (filter (\<lambda>ev. route ev = Some p) batch)"
proof -
  let ?m = "length batch"
  have len: "ls + ?m \<le> length lg0" "0 < ?m" using b by auto
  from pre have le: "length lg0 \<le> length lg" and tk: "take (length lg0) lg = lg0"
    by (auto simp: prefix_def)
  have "batch = map recorded (take ?m (drop ls lg0))" using b(1) by (auto simp: min_def)
  also have "drop ls lg0 = take (length lg0 - ls) (drop ls lg)" by (metis drop_take tk)
  also have "take ?m (take (length lg0 - ls) (drop ls lg)) = take ?m (drop ls lg)" using len by (simp add: min_def)
  finally have bt: "batch = map recorded (take ?m (drop ls lg))" .
  have i: "ls + (?m - 1) < length lg" "?m - 1 < ?m" using len le by linarith+
  have "last batch = batch ! (?m - 1)" using b(2) by (simp add: last_conv_nth)
  also have "\<dots> = recorded (take ?m (drop ls lg) ! (?m - 1))" using i len le by (subst bt) simp
  also have "\<dots> = recorded (lg ! (ls + (?m - 1)))" using i by simp
  finally have "re_event_number (last batch) = int (ls + ?m)"
    using numbered_nth [OF n i(1)] len by (simp add: recorded_def)
  then have cur: "nat (re_event_number (last batch)) = ls + ?m" by linarith
  then show "nat (re_event_number (last batch)) \<le> length lg" "ls \<le> nat (re_event_number (last batch))"
    using len le by simp_all
  have "routed_to (route \<circ> recorded) p ls (ls + ?m) lg
      = map (\<lambda>e. int (o_event_number e)) (filter (\<lambda>e. route (recorded e) = Some p) (take ?m (drop ls lg)))"
    using numbered_window [OF n, of ls "ls + ?m" "\<lambda>e. route (recorded e) = Some p"] len le by (simp add: routed_to_def)
  also have "\<dots> = map re_event_number (filter (\<lambda>ev. route ev = Some p) (map recorded (take ?m (drop ls lg))))"
    by (simp add: filter_map comp_def recorded_def)
  also have "\<dots> = map re_event_number (filter (\<lambda>ev. route ev = Some p) batch)" using bt by simp
  finally show "routed_to (route \<circ> recorded) p ls (nat (re_event_number (last batch))) lg
      = map re_event_number (filter (\<lambda>ev. route ev = Some p) batch)" by (simp add: cur)
qed

definition route_call :: "router \<Rightarrow> int \<Rightarrow> route_decision list \<Rightarrow> call" where
  "route_call k cur decs =
     CRouteBatch (Some (rt_stream k)) (Some (rt_name k)) (Some (rt_workerId k)) (Some cur)
       (Some (JArr (map decision_json decs)))"


lemma per_event_decides:
  "decides (sample_router all_uuid) ev key \<longrightarrow> key = Some (show_int (re_event_number ev))"
  by (auto simp: decides_def sample_router_def return_io_def to_partition_def ignore_def route_key_def)


section \<open>The end of a process manager instance\<close>

lemma instance_discards:
  assumes "complete_pm_instance su n p snu opts d = Inr (x, d')" "on_sub k m su n d"
  shows "lane_of k m (the p) d' = (\<lambda>_. None)" "subs d' = subs d"
proof -
  from assms obtain s where "find_stream (the su) d = Some s" "s_id s = k" "the n = m"
    and d': "items d' = filter (\<lambda>i. \<not> (item_of (s_id s) (the n) i \<and> i_partition i = the p)) (items d)" "subs d' = subs d"
    by (auto simp: complete_pm_instance_def check_defs lookup_defs sum_iffs Let_def on_sub_def split: option.splits)
  then show "lane_of k m (the p) d' = (\<lambda>_. None)"
    by (auto simp: fun_eq_iff lane_of_def find_item_def find_None_iff item_key_def)
  show "subs d' = subs d" by (rule d')
qed

text \<open>C30. Completing a process manager instance is not fenced. Whoever calls complete_pm_instance, with or
  without a claim, removes every item of the partition, the ones that were never handed out and the ones
  other workers hold, and leaves the cursor behind which they would have to be read again. So a worker that
  lost its claim and then completes its instance takes away events that were routed for the next one.\<close>

theorem instance_completion_is_unfenced:
  assumes "exec (CCompleteInstance (Some u) (Some n) (Some p) (Some snu)) d = Inr (r, d')"
    and "find_stream u d = Some s"
  shows "lane_of (s_id s) n p d' = (\<lambda>_. None) \<and> cursor (s_id s) n d' = cursor (s_id s) n d"
proof -
  from assms(1) obtain y where
    c: "complete_pm_instance (Some u) (Some n) (Some p) (Some snu) (Some (JObj [])) d = Inr (y, d')"
    by (auto simp: tag_Inr)
  have "on_sub (s_id s) n (Some u) (Some n) d" using assms(2) by (simp add: on_sub_def)
  from instance_discards [OF c this] show ?thesis by (simp add: cursor_def find_sub_def)
qed

text \<open>Worker a stalls with the last event of an instance; worker b takes over and completes it; an event
  is routed for the next instance and b claims it; then a completes the instance it believes to hold.\<close>

definition worker_b :: "string option" where
  "worker_b = Some ''worker-b''"

definition claim_b :: call where
  "claim_b = CClaimItem [] (Some all_uuid) (Some ''balances'') worker_b (Some 30)"

definition end_instance :: call where
  "end_instance = CCompleteInstance (Some all_uuid) (Some ''balances'') (Some ''a'') (Some ''pm-a'')"

definition next_instance :: db where
  "next_instance =
     after claim_b
      (after (CRouteBatch (Some all_uuid) (Some ''balances'') worker_a (Some 2)
         (Some (JArr [JObj [(''partition_key'', JStr ''a''), (''event_number'', JNum 2)]])))
       (after (append_b ''00000000-0000-4000-8000-000000000002'')
        (after end_instance (after claim_b (pass 31000 claimed_db)))))"

definition complete_b :: call where
  "complete_b = CCompletePm (Some all_uuid) (Some ''balances'') worker_b (Some ''a'') (Some 2) (Some ''pm-a'')
     (Some ''pm'') (Some 2) (Some JNull) None"

definition taken_away :: "db \<Rightarrow> bool" where
  "taken_away d \<longleftrightarrow>
     map_option s_id (find_stream all_uuid d) = Some 0 \<and> cursor 0 ''balances'' d = 2
     \<and> lane_of 0 ''balances'' ''a'' d 2 = Some ClaimedS \<and> holds_item all_uuid ''balances'' ''worker-b'' ''a'' 2 d
     \<and> (case exec end_instance d of
          Inl _ \<Rightarrow> False
        | Inr (r, d') \<Rightarrow> (case exec complete_b d' of Inl e \<Rightarrow> pg_code e = Some ''IS030'' | Inr _ \<Rightarrow> False))"

theorem instance_completion_is_unfenced_witness:
  "\<exists>r d'. exec end_instance next_instance = Inr (r, d')
     \<and> lane_of 0 ''balances'' ''a'' next_instance 2 = Some ClaimedS \<and> holds_item all_uuid ''balances'' ''worker-b'' ''a'' 2 next_instance
     \<and> lane_of 0 ''balances'' ''a'' d' 2 = None \<and> cursor 0 ''balances'' d' = 2
     \<and> (\<exists>e. exec complete_b d' = Inl e \<and> pg_code e = Some ''IS030'')"
proof -
  have t: "taken_away next_instance" by code_simp
  then obtain x0 where x0: "exec end_instance next_instance = Inr x0"
    by (cases "exec end_instance next_instance") (simp_all add: taken_away_def)
  obtain r d' where rd: "x0 = (r, d')" by force
  with x0 have x: "exec end_instance next_instance = Inr (r, d')" by simp
  from t have y: "(case exec complete_b d' of Inl e \<Rightarrow> pg_code e = Some ''IS030'' | Inr _ \<Rightarrow> False)"
    and b: "lane_of 0 ''balances'' ''a'' next_instance 2 = Some ClaimedS" "cursor 0 ''balances'' next_instance = 2"
      "holds_item all_uuid ''balances'' ''worker-b'' ''a'' 2 next_instance"
    and f: "map_option s_id (find_stream all_uuid next_instance) = Some 0"
    unfolding taken_away_def x by simp_all
  from y have y: "\<exists>e. exec complete_b d' = Inl e \<and> pg_code e = Some ''IS030''" by (cases "exec complete_b d'") auto
  from f obtain s where s: "find_stream all_uuid next_instance = Some s" "s_id s = 0" by auto
  from instance_completion_is_unfenced [OF x [unfolded end_instance_def] s(1)] x y b s(2) show ?thesis by auto
qed

end
