(* ===== verification/Running.thy ===== *)
theory Running
  imports Facade Processing_Laws
begin

text \<open>
  internal/running-worker.ts and the handle \<open>Instructed.poll\<close> returns: every worker offers \<open>stop()\<close> and
  \<open>stopped\<close>, and the handle of an application stops all its workers and has stopped when they all have.
  The interface is a locale; a routing worker, a processing worker and the handle itself provide it.
\<close>

section \<open>The interface\<close>

text \<open>
  \<open>go t r\<close> lets the task \<open>t\<close> of the worker run on, if it can. A worker that was told to stop takes
  finitely many turns, and when none is left it has stopped or waits for the application's own code.
\<close>

locale running_worker =
  fixes go :: "'t \<Rightarrow> 'r \<Rightarrow> 'r option"
    and stop :: "'r \<Rightarrow> 'r"
    and stopped :: "'r \<Rightarrow> bool"
    and sound :: "'r \<Rightarrow> bool"
    and told :: "'r \<Rightarrow> bool"
    and waits :: "'r \<Rightarrow> bool"
    and rank :: "'r \<Rightarrow> nat"
  assumes stop_told: "sound r \<Longrightarrow> sound (stop r) \<and> told (stop r)"
    and told_turn: "sound r \<Longrightarrow> told r \<Longrightarrow> go t r = Some r' \<Longrightarrow> sound r' \<and> told r' \<and> rank r' < rank r"
    and told_rest: "sound r \<Longrightarrow> told r \<Longrightarrow> \<forall>t. go t r = None \<Longrightarrow> stopped r \<or> waits r"

fun runs_on :: "('t \<Rightarrow> 'r \<Rightarrow> 'r option) \<Rightarrow> 't list \<Rightarrow> 'r \<Rightarrow> 'r option" where
  "runs_on go [] r = Some r"
| "runs_on go (t # ts) r = (case go t r of None \<Rightarrow> None | Some r1 \<Rightarrow> runs_on go ts r1)"

text \<open>A group of workers: the task \<open>t\<close> of the worker number \<open>i\<close> runs on.\<close>

fun one_of :: "('t \<Rightarrow> 'r \<Rightarrow> 'r option) \<Rightarrow> nat \<times> 't \<Rightarrow> 'r list \<Rightarrow> 'r list option" where
  "one_of go (i, t) rs =
     (if i < length rs then case go t (rs ! i) of None \<Rightarrow> None | Some r \<Rightarrow> Some (rs[i := r]) else None)"

definition ranks :: "('r \<Rightarrow> nat) \<Rightarrow> 'r list \<Rightarrow> nat" where
  "ranks rank rs = sum_list (map rank rs)"

lemma ranks_update:
  "i < length rs \<Longrightarrow> rank r < rank (rs ! i) \<Longrightarrow> ranks rank (rs[i := r]) < ranks rank rs"
proof (induction rs arbitrary: i)
  case (Cons x xs)
  then show ?case by (cases i) (simp_all add: ranks_def)
qed simp

context running_worker
begin

lemma told_turns:
  "runs_on go ts r = Some r' \<Longrightarrow> sound r \<Longrightarrow> told r \<Longrightarrow> sound r' \<and> told r' \<and> length ts + rank r' \<le> rank r"
proof (induction ts arbitrary: r)
  case (Cons t ts)
  then obtain r1 where t: "go t r = Some r1" and r: "runs_on go ts r1 = Some r'" by (auto split: option.splits)
  from told_turn [OF Cons.prems(2,3) t] Cons.IH [OF r] show ?case by auto
qed simp

text \<open>After \<open>stop()\<close>, whatever the schedule, the worker ends.\<close>

lemma stop_ends:
  assumes "sound r" "runs_on go ts (stop r) = Some r'"
  shows "length ts \<le> rank (stop r) \<and> ((\<forall>t. go t r' = None) \<longrightarrow> stopped r' \<or> waits r')"
proof -
  from told_turns [OF assms(2)] stop_told [OF assms(1)] have t: "sound r'" "told r'" "length ts + rank r' \<le> rank (stop r)"
    by auto
  with told_rest [OF t(1,2)] show ?thesis by auto
qed

text \<open>A group of workers is a worker: \<open>Promise.all\<close> of its members.\<close>

lemma group: "running_worker (one_of go) (map stop) (list_all stopped) (list_all sound) (list_all told)
    (list_ex waits) (ranks rank)"
proof
  fix rs assume "list_all sound rs"
  with stop_told show "list_all sound (map stop rs) \<and> list_all told (map stop rs)" by (auto simp: list_all_iff)
next
  fix rs :: "'r list" and x :: "nat \<times> 't" and rs'
  assume s: "list_all sound rs" "list_all told rs" and t: "one_of go x rs = Some rs'"
  obtain i y where x: "x = (i, y)" by force
  with t obtain r where r: "i < length rs" "go y (rs ! i) = Some r" "rs' = rs[i := r]"
    by (auto split: if_splits option.splits)
  from s r(1) have "sound (rs ! i)" "told (rs ! i)" by (auto simp: list_all_length)
  from told_turn [OF this r(2)] have n: "sound r" "told r" "rank r < rank (rs ! i)" by auto
  from s n have "list_all sound rs'" "list_all told rs'"
    by (auto simp: r(3) list_all_iff dest!: subsetD [OF set_update_subset_insert])
  with ranks_update [OF r(1) n(3)] show "list_all sound rs' \<and> list_all told rs' \<and> ranks rank rs' < ranks rank rs"
    by (simp add: r(3))
next
  fix rs :: "'r list"
  assume s: "list_all sound rs" "list_all told rs" and none: "\<forall>x. one_of go x rs = None"
  have "stopped r \<or> waits r" if "r \<in> set rs" for r
  proof -
    from that obtain i where i: "i < length rs" "r = rs ! i" by (auto simp: in_set_conv_nth)
    have "go t r = None" for t using none [rule_format, of "(i, t)"] i by (auto split: option.splits)
    with told_rest [of r] s that show ?thesis by (auto simp: list_all_iff)
  qed
  then show "list_all stopped rs \<or> list_ex waits rs" by (auto simp: list_all_iff list_ex_iff)
qed

end

section \<open>The workers of an application\<close>

text \<open>
  A routing worker with whether its loop has ended, a projection worker and a process manager worker. The
  routing worker has one task, a pass of its loop; the processing workers run their loop and their heartbeat.
\<close>

datatype ('p, 's) running =
    RoutingRun router bool routing_state
  | ProjectionRun "('p, 's) worker" "('p, 's) config"
  | PmRun "('p, staged_map) worker" "('p, staged_map) config"

definition routing_turn :: "router \<Rightarrow> routing_state \<Rightarrow> bool \<times> routing_state" where
  "routing_turn k c =
     (if routing_halted c then (True, releaseQuietly k c)
      else case routing_pass k c of
             (Break, c1) \<Rightarrow> (True, releaseQuietly k c1)
           | (Continue, c1) \<Rightarrow> (False, c1))"

fun running_turn :: "task \<Rightarrow> ('p, 's) running \<Rightarrow> ('p, 's) running option" where
  "running_turn t (RoutingRun k ended c) =
     (if t \<noteq> Main \<or> ended then None else case routing_turn k c of (e, c1) \<Rightarrow> Some (RoutingRun k e c1))"
| "running_turn t (ProjectionRun k c) = (if t = StopCall then None else map_option (ProjectionRun k) (run_task k t c))"
| "running_turn t (PmRun k c) = (if t = StopCall then None else map_option (PmRun k) (run_task k t c))"

fun running_stop :: "('p, 's) running \<Rightarrow> ('p, 's) running" where
  "running_stop (RoutingRun k ended c) = RoutingRun k ended (stop_routing c)"
| "running_stop (ProjectionRun k c) = ProjectionRun k (stop_worker c)"
| "running_stop (PmRun k c) = PmRun k (stop_worker c)"

fun running_stopped :: "('p, 's) running \<Rightarrow> bool" where
  "running_stopped (RoutingRun k ended c) = ended"
| "running_stopped (ProjectionRun k c) = (cf_main c = Exited)"
| "running_stopped (PmRun k c) = (cf_main c = Exited)"

fun running_sound :: "('p, 's) running \<Rightarrow> bool" where
  "running_sound (RoutingRun k ended c) = True"
| "running_sound (ProjectionRun k c) = (well_behaved k \<and> wk_client k = pg_client \<and> well_placed c)"
| "running_sound (PmRun k c) = (well_behaved k \<and> wk_client k = pg_client \<and> well_placed c)"

fun running_told :: "('p, 's) running \<Rightarrow> bool" where
  "running_told (RoutingRun k ended c) = (ended \<or> routing_halted c)"
| "running_told (ProjectionRun k c) = halted c"
| "running_told (PmRun k c) = halted c"

fun running_waits :: "('p, 's) running \<Rightarrow> bool" where
  "running_waits (RoutingRun k ended c) = False"
| "running_waits (ProjectionRun k c) = user_hangs k c"
| "running_waits (PmRun k c) = user_hangs k c"

fun running_rank :: "('p, 's) running \<Rightarrow> nat" where
  "running_rank (RoutingRun k ended c) = (if ended then 0 else 1)"
| "running_rank (ProjectionRun k c) = drain c"
| "running_rank (PmRun k c) = drain c"

text \<open>The loop of a routing worker is its passes.\<close>

lemma routing_loop_turn:
  "routing_loop k (Suc n) c = (case routing_turn k c of (True, c1) \<Rightarrow> (True, c1) | (False, c1) \<Rightarrow> routing_loop k n c1)"
  by (auto simp: routing_turn_def split: prod.splits flow.splits)

lemma processing_turn:
  assumes "well_behaved k" "wk_client k = pg_client" "well_placed c" "halted c" "t \<noteq> StopCall" "run_task k t c = Some c'"
  shows "well_placed c' \<and> halted c' \<and> drain c' < drain c"
proof -
  have cl: "queue_client (wk_client k)" by (simp add: assms(2) pgq.queue_client_axioms)
  from drains [OF assms(1) cl, of "[t]" c c'] assms(3-6) show ?thesis by auto
qed

lemma stop_worker_sound: "well_placed c \<Longrightarrow> well_placed (stop_worker c) \<and> halted (stop_worker c)"
  by (cases "cf_main c") (auto simp: well_placed_def stop_worker_def halted_def in_world_def on_item_def)

lemma processing_rest:
  assumes "well_placed c" "\<forall>t. t \<noteq> StopCall \<longrightarrow> run_task k t c = None"
  shows "cf_main c = Exited \<or> user_hangs k c"
  using stuck [OF _ _ assms(1)] assms(2) [rule_format, of Main] assms(2) [rule_format, of Heartbeat] by blast

interpretation worker: running_worker running_turn running_stop running_stopped running_sound running_told running_waits running_rank
proof
  fix r :: "('a, 'b) running" assume "running_sound r"
  then show "running_sound (running_stop r) \<and> running_told (running_stop r)"
    by (cases r) (auto simp: stop_worker_sound stop_routing_def routing_halted_def)
next
  fix r r' :: "('a, 'b) running" and t
  assume a: "running_sound r" "running_told r" "running_turn t r = Some r'"
  show "running_sound r' \<and> running_told r' \<and> running_rank r' < running_rank r"
  proof (cases r)
    case (RoutingRun k ended c)
    with a show ?thesis by (auto simp: routing_turn_def split: if_splits)
  next
    case (ProjectionRun k c)
    with a(3) obtain c1 where c1: "t \<noteq> StopCall" "run_task k t c = Some c1" "r' = ProjectionRun k c1"
      by (simp split: if_splits) blast
    from processing_turn [OF _ _ _ _ c1(1,2)] a(1,2) ProjectionRun c1(3) show ?thesis by simp
  next
    case (PmRun k c)
    with a(3) obtain c1 where c1: "t \<noteq> StopCall" "run_task k t c = Some c1" "r' = PmRun k c1"
      by (simp split: if_splits) blast
    from processing_turn [OF _ _ _ _ c1(1,2)] a(1,2) PmRun c1(3) show ?thesis by simp
  qed
next
  fix r :: "('a, 'b) running"
  assume a: "running_sound r" "running_told r" "\<forall>t. running_turn t r = None"
  show "running_stopped r \<or> running_waits r"
  proof (cases r)
    case (RoutingRun k ended c)
    with a(3) show ?thesis by (auto dest!: spec [of _ Main] split: prod.splits if_splits)
  next
    case (ProjectionRun k c)
    have "run_task k t c = None" if "t \<noteq> StopCall" for t using a(3) [rule_format, of t] that by (simp add: ProjectionRun)
    with processing_rest [of c k] a(1) show ?thesis by (simp add: ProjectionRun)
  next
    case (PmRun k c)
    have "run_task k t c = None" if "t \<noteq> StopCall" for t using a(3) [rule_format, of t] that by (simp add: PmRun)
    with processing_rest [of c k] a(1) show ?thesis by (simp add: PmRun)
  qed
qed

section \<open>The handle of the application\<close>

text \<open>\<open>stop: Promise.all(workers.map((w) => w.stop()))\<close> and \<open>stopped: Promise.all(workers.map((w) => w.stopped))\<close>.\<close>

definition handle_stop :: "('p, 's) running list \<Rightarrow> ('p, 's) running list" where
  "handle_stop workers = map running_stop workers"

definition handle_stopped :: "('p, 's) running list \<Rightarrow> bool" where
  "handle_stopped workers = list_all running_stopped workers"

interpretation handle: running_worker "one_of running_turn" handle_stop handle_stopped "list_all running_sound"
  "list_all running_told" "list_ex running_waits" "ranks running_rank"
  unfolding handle_stop_def handle_stopped_def by (rule worker.group)

lemma ranks_bound: "ranks running_rank rs \<le> 6 * length rs"
proof (induction rs)
  case (Cons r rs)
  have "running_rank r \<le> 6" by (cases r) (auto intro: drain_bound)
  with Cons show ?case by (simp add: ranks_def)
qed (simp add: ranks_def)

end
