(* ===== verification/Running_Properties.thy ===== *)
theory Running_Properties
  imports Running Worker_Properties Routing_Properties
begin

text \<open>The handle of an application: after its \<open>stop()\<close> every worker ends.\<close>

text \<open>C18. Stopping the application ends it. After \<open>stop()\<close> of the handle \<open>poll\<close> returned, in whatever order the
  loops and heartbeats of its routing workers, projections and process managers run on, they take at most
  six turns each; and when none can run on, the handle's \<open>stopped\<close> has resolved, or some worker waits for a
  handler of the application's own that does not return.\<close>

theorem stop_ends_application:
  assumes "list_all running_sound workers"
    and "runs_on (one_of running_turn) ts (handle_stop workers) = Some workers'"
  shows "length ts \<le> 6 * length workers
     \<and> ((\<forall>t. one_of running_turn t workers' = None) \<longrightarrow> handle_stopped workers' \<or> list_ex running_waits workers')"
proof -
  have "ranks running_rank (handle_stop workers) \<le> 6 * length workers"
    using ranks_bound [of "handle_stop workers"] by (simp add: handle_stop_def)
  with handle.stop_ends [OF assms] show ?thesis by auto
qed

definition two_workers :: "(unit, nat) running list" where
  "two_workers =
     (case startProcessingWorker this_host pg_client (counter_definition counting None) counter_options 0
         (sample_world\<lparr>w_db := routed_db\<rparr>) of
        (k, c0) \<Rightarrow> [RoutingRun (sample_router all_uuid) False (routing_at leased_db), ProjectionRun k c0])"

theorem stop_ends_application_witness:
  "\<exists>workers'. runs_on (one_of running_turn) [(1, Main), (0, Main), (1, Main), (1, Main)] (handle_stop two_workers) = Some workers'
     \<and> handle_stopped workers' \<and> 4 \<le> 6 * length two_workers"
proof -
  obtain k c0 where k: "startProcessingWorker this_host pg_client (counter_definition counting None) counter_options 0
      (sample_world\<lparr>w_db := routed_db\<rparr>) = (k, c0)" by force
  then have s: "list_all running_sound two_workers"
    using counter_well_behaved [OF k] well_placed_start [OF k] by (simp add: two_workers_def)
  have "case runs_on (one_of running_turn) [(1, Main), (0, Main), (1, Main), (1, Main)] (handle_stop two_workers) of
      None \<Rightarrow> False | Some ws \<Rightarrow> handle_stopped ws" by code_simp
  then obtain ws where ws: "runs_on (one_of running_turn) [(1, Main), (0, Main), (1, Main), (1, Main)] (handle_stop two_workers) = Some ws"
    "handle_stopped ws" by (auto split: option.splits)
  from stop_ends_application [OF s ws(1)] ws show ?thesis by auto
qed

end
