(* ===== verification/Bank_Delivery.thy ===== *)
theory Bank_Delivery
  imports Delivery Bank_App Balances
begin

text \<open>
  The queue and the balances projection of the bank account example together: what the table holds once
  the subscription is caught up, against the account aggregate.
\<close>

section \<open>The projection on the log\<close>

definition balances_routing :: "event_out \<Rightarrow> string option" where
  "balances_routing r = (case decoded r of None \<Rightarrow> None | Some e \<Rightarrow> balances_route (o_stream_uuid r) e)"

text \<open>The handler run for the event of a work item, which it reads from the log by its number.\<close>

definition balances_on :: "event_out list \<Rightarrow> int \<Rightarrow> balance_row list \<Rightarrow> pg_error + balance_row list" where
  "balances_on lg n rows =
     (let r = lg ! (nat n - 1)
      in case decoded r of None \<Rightarrow> Inr rows | Some e \<Rightarrow> balances_handler (o_stream_uuid r) n e rows)"

fun the_account :: "app_event option \<Rightarrow> account_event" where
  "the_account (Some (AccountEv e)) = e"
| "the_account _ = AccountOpened []"

definition account_at :: "event_out list \<Rightarrow> int \<Rightarrow> int \<times> account_event" where
  "account_at lg n = (n, the_account (decoded (lg ! (nat n - 1))))"

lemma balances_route_Some:
  "balances_route u e = Some v \<longleftrightarrow> u = v \<and> (\<exists>a. e = AccountEv a \<and> writes a)"
  by (cases "(u, e)" rule: balances_route.cases) auto

lemma routing_Some:
  "balances_routing r = Some u \<longleftrightarrow> o_stream_uuid r = u \<and> (\<exists>a. decoded r = Some (AccountEv a) \<and> writes a)"
  by (auto simp: balances_routing_def balances_route_Some split: option.splits)

section \<open>The events a table row is computed from\<close>

lemma account_part_log:
  assumes "bank_log lg" "prefix ''Account-'' u"
  shows "map (\<lambda>r. the_account (decoded r)) (filter (\<lambda>r. balances_routing r = Some u) lg)
     = filter writes (account_events u (app_of lg))"
  using assms(1)
proof (induction lg)
  case (Cons r lg)
  then have r: "bank_event r" and lg: "bank_log lg" by (simp_all add: bank_log_def)
  show ?case
  proof (cases "o_stream_uuid r = u")
    case True
    with r assms(2) obtain e where "decoded r = Some (AccountEv e)"
      by (auto simp: bank_event_def prefix_def split: option.splits app_event.splits)
    with True Cons.IH [OF lg] show ?thesis by (simp add: routing_Some account_events_def app_of_def)
  next
    case False
    with Cons.IH [OF lg] show ?thesis by (simp add: routing_Some account_events_def app_of_def)
  qed
qed (simp add: account_events_def app_of_def)

lemma account_of_writes: "account_of (filter writes es) = account_of es"
proof (induction es rule: rev_induct)
  case (snoc e es)
  then show ?case by (cases e) (simp_all add: account_of_def)
qed simp

lemma history_writes: "account_history es \<Longrightarrow> account_history (filter writes es)"
proof (induction rule: account_history.induct)
  case (account_run es c evs)
  have "Account_execute (account_of (filter writes es)) c = Inr evs"
    using account_run(2) by (simp add: account_of_writes)
  obtain e where "evs = [e]" using account_run(2) by (cases c) (auto split: if_splits)
  then show ?case
    using account_history.account_run [OF account_run(3) \<open>Account_execute (account_of (filter writes es)) c = Inr evs\<close>]
      account_run(3) by (cases "writes e") auto
qed (simp add: account_new)

text \<open>The columns take every amount of the account and every balance it has had.\<close>

definition columns_take :: "account_event list \<Rightarrow> bool" where
  "columns_take es \<longleftrightarrow>
     (\<forall>e \<in> set es. amount_fits e) \<and> (\<forall>k \<le> length es. fits (as_balance (account_of (take k es))))"

lemma take_filter: "\<exists>j \<le> length xs. take k (filter P xs) = filter P (take j xs)"
proof (induction xs arbitrary: k)
  case (Cons x xs)
  show ?case
  proof (cases "P x")
    case True
    show ?thesis
    proof (cases k)
      case (Suc m)
      from Cons.IH [of m] obtain j where "j \<le> length xs" "take m (filter P xs) = filter P (take j xs)" by blast
      with True Suc show ?thesis by (intro exI [of _ "Suc j"]) simp
    qed (intro exI [of _ 0], simp)
  next
    case False
    from Cons.IH [of k] obtain j where "j \<le> length xs" "take k (filter P xs) = filter P (take j xs)" by blast
    with False show ?thesis by (intro exI [of _ "Suc j"]) simp
  qed
qed simp

lemma columns_take_writes:
  assumes "columns_take es" "k \<le> length (filter writes es)"
  shows "fits (as_balance (account_of (take k (filter writes es))))"
proof -
  from take_filter [of es k writes] obtain j where "j \<le> length es" "take k (filter writes es) = filter writes (take j es)"
    by blast
  with assms(1) show ?thesis by (simp add: account_of_writes columns_take_def)
qed

lemma run_deliveries_map:
  "\<forall>d \<in> set ds. h d = h' (f d) \<Longrightarrow> run_deliveries h ds r = run_deliveries h' (map f ds) r"
proof (induction ds arbitrary: r)
  case (Cons d ds)
  then show ?case by (cases "h d r") simp_all
qed simp

lemma delivered_map: "delivered es ds \<Longrightarrow> delivered (map f es) (map f ds)"
  by (induction rule: delivered.induct) (auto intro: delivered.intros)

section \<open>Caught up\<close>

lemma routed_account:
  assumes n: "numbered lg" and b: "bank_log lg" "prefix ''Account-'' u"
  shows "map (account_at lg) (routed_to balances_routing u 0 (length lg) lg)
     = zip (routed_to balances_routing u 0 (length lg) lg) (filter writes (account_events u (app_of lg)))"
    and "length (routed_to balances_routing u 0 (length lg) lg) = length (filter writes (account_events u (app_of lg)))"
proof -
  let ?F = "filter (\<lambda>r. balances_routing r = Some u) lg"
  have num: "0 < o_event_number r \<and> o_event_number r \<le> length lg \<and> lg ! (o_event_number r - 1) = r" if "r \<in> set lg" for r
  proof -
    from that obtain i where "i < length lg" "r = lg ! i" unfolding in_set_conv_nth by metis
    with numbered_nth [OF n, of i] show ?thesis by simp
  qed
  then have r: "routed_to balances_routing u 0 (length lg) lg = map (\<lambda>r. int (o_event_number r)) ?F"
    unfolding routed_to_def by (intro arg_cong [of _ _ "map _"] filter_cong) auto
  have "map (account_at lg) (map (\<lambda>r. int (o_event_number r)) ?F)
      = map (\<lambda>r. (int (o_event_number r), the_account (decoded r))) ?F"
    using num by (auto simp: account_at_def nat_diff_distrib)
  also have "\<dots> = zip (map (\<lambda>r. int (o_event_number r)) ?F) (map (\<lambda>r. the_account (decoded r)) ?F)"
    by (simp add: zip_map_map zip_same_conv_map)
  finally show "map (account_at lg) (routed_to balances_routing u 0 (length lg) lg)
      = zip (routed_to balances_routing u 0 (length lg) lg) (filter writes (account_events u (app_of lg)))"
    by (simp add: r account_part_log [OF b])
  show "length (routed_to balances_routing u 0 (length lg) lg) = length (filter writes (account_events u (app_of lg)))"
    using arg_cong [OF account_part_log [OF b], of length] by (simp add: r)
qed

lemma balances_on_account:
  assumes n: "numbered lg" and e: "e \<in> set (routed_to balances_routing u 0 b lg)"
  shows "balances_on lg e = deliver_balance u (account_at lg e)"
proof -
  from e obtain r where r: "r \<in> set lg" "e = int (o_event_number r)" "balances_routing r = Some u"
    by (auto simp: routed_to_def)
  then obtain i where "i < length lg" "r = lg ! i" unfolding in_set_conv_nth by metis
  moreover from this numbered_nth [OF n, of i] r(2) have "nat e - 1 = i" by simp
  ultimately have "lg ! (nat e - 1) = r" by simp
  with r(3) show ?thesis by (auto simp: balances_on_def account_at_def deliver_balance_def routing_Some fun_eq_iff)
qed

text \<open>A subscription from the origin that is caught up with the whole log has acknowledged all of it.\<close>

lemma caught_up_acknowledged:
  assumes run: "queue_run route k n p d0 d ack hand seen" and d0: "wf_db d0" "fresh_sub k n d0" "cursor k n d0 = 0"
    and up: "caught_up k n (int (length (store_log d))) d"
  shows "ack = routed_to route p 0 (length (store_log d)) (store_log d) \<and> delivered ack seen"
proof -
  from queue_run_ok [OF run d0(1,2)] have "cursor k n d \<le> length (store_log d)" by (simp add: queue_ok_def d0(3))
  moreover have "length (store_log d) \<le> cursor k n d" using up by (auto simp: caught_up_def cursor_def)
  ultimately have c: "cursor k n d = length (store_log d)" by simp
  from partition_served [OF run d0(1,2)] obtain rest es where
    rt: "routed_to route p 0 (length (store_log d)) (store_log d) = ack @ rest"
    and op: "set rest = open_in (lane_of k n p d)" and es: "delivered es seen" "es \<in> {ack, ack @ take 1 rest}"
    by (auto simp: d0(3) c)
  have "e \<notin> set rest" for e
  proof
    assume e: "e \<in> set rest"
    with rt have "e \<in> set (routed_to route p 0 (length (store_log d)) (store_log d))" by simp
    then have "e \<le> int (length (store_log d))" by (auto simp: routed_to_def)
    moreover from e op obtain i where "find_item k n p e d = Some i" "open_item i"
      by (auto simp: open_in_def lane_of_def open_item_def)
    ultimately show False using up find_item_Some [of k n p e d i] by (auto simp: caught_up_def item_key_def)
  qed
  then have "rest = []" by (meson last_in_set)
  with rt es show ?thesis by simp
qed

lemma account_deliveries:
  assumes n: "numbered lg" and b: "bank_log lg" "prefix ''Account-'' u"
    and h: "account_history (account_events u (app_of lg))" "columns_take (account_events u (app_of lg))"
  shows "balance_events (map (account_at lg) (routed_to balances_routing u 0 (length lg) lg))"
proof -
  let ?R = "routed_to balances_routing u 0 (length lg) lg" and ?es = "account_events u (app_of lg)"
  note R = routed_account [OF n b]
  have snd: "map snd (map (account_at lg) ?R) = filter writes ?es" unfolding R(1) using R(2) by (simp add: map_snd_zip)
  have fst: "map fst (map (account_at lg) ?R) = ?R" by (simp add: account_at_def comp_def)
  have "amount_fits (snd x)" if "x \<in> set (map (account_at lg) ?R)" for x
  proof -
    from that have "snd x \<in> set (map snd (map (account_at lg) ?R))" by (simp add: image_iff) blast
    with h(2) show ?thesis unfolding snd by (auto simp: columns_take_def)
  qed
  moreover have "fits (as_balance (account_of (map snd (take k (map (account_at lg) ?R)))))"
    if "k \<le> length (map (account_at lg) ?R)" for k
  proof -
    have "map snd (take k (map (account_at lg) ?R)) = take k (filter writes ?es)" by (simp only: snd [symmetric] take_map)
    with columns_take_writes [OF h(2), of k] that R(2) show ?thesis by simp
  qed
  ultimately show ?thesis
    unfolding balance_events_def snd fst
    using history_writes [OF h(1)] routed_to_sorted [OF n, of balances_routing u 0 "length lg"] by blast
qed


text \<open>An account is opened, routed, handled by a worker, handled again and acknowledged.\<close>

definition opened_ada :: call where
  "opened_ada = CAppend (Some ''Account-ada'') (Some ''any'') None
     (Some (JArr [JObj [(''event_id'', JStr ''00000000-0000-4000-8000-000000000001''),
        (''event_type'', JStr (event_type (AccountEv (AccountOpened ''ada'')))),
        (''data'', event_data (AccountEv (AccountOpened ''ada'')))]]))"

definition ada_start :: db where
  "ada_start = after (CClaimSub False (Some all_uuid) (Some ''Balances'') (Some ''w'') (Some 30) (Some (JObj [])))
     (after opened_ada (initial_db 0))"

definition ada_calls :: "call list" where
  "ada_calls =
     [CRouteBatch (Some all_uuid) (Some ''Balances'') (Some ''w'') (Some 1)
        (Some (JArr [JObj [(''partition_key'', JStr ''Account-ada''), (''event_number'', JNum 1)]])),
      CClaimItem [] (Some all_uuid) (Some ''Balances'') (Some ''w'') (Some 30),
      CCompleteProjection (Some all_uuid) (Some ''Balances'') (Some ''w'') (Some ''Account-ada'') (Some 1)]"

definition ada_end :: db where
  "ada_end = after (ada_calls ! 2) (after (ada_calls ! 1) (after (ada_calls ! 0) ada_start))"

lemma ada_run: "queue_run balances_routing 0 ''Balances'' ''Account-ada'' ada_start ada_end [1] [1] [1, 1]"
proof -
  let ?r = "ada_calls ! 0" and ?c = "ada_calls ! 1" and ?f = "ada_calls ! 2"
  let ?act = "action_of 0 ''Balances'' ''Account-ada''" and ?d1 = "after (ada_calls ! 0) ada_start"
  let ?ok = "allowed balances_routing 0 ''Balances'' ''Account-ada''"
  have a: "?ok [] ?r ada_start" "acked_by (?act ?r ada_start) = []" "handed_by (?act ?r ada_start) = []" by code_simp+
  have b: "?ok [] ?c ?d1" "acked_by (?act ?c ?d1) = []" "handed_by (?act ?c ?d1) = [1]" by code_simp+
  have c: "?ok [1, 1] ?f (after ?c ?d1)" "acked_by (?act ?f (after ?c ?d1)) = [1]" "handed_by (?act ?f (after ?c ?d1)) = []"
    by code_simp+
  have "queue_run balances_routing 0 ''Balances'' ''Account-ada'' ada_start ?d1 [] [] []"
    using queue_call [OF queue_start a(1)] a(2,3) by simp
  from queue_call [OF this b(1)] b(2,3)
  have "queue_run balances_routing 0 ''Balances'' ''Account-ada'' ada_start (after ?c ?d1) [] [1] []" by simp
  from queue_handler [OF queue_handler [OF this, of 1], of 1]
  have "queue_run balances_routing 0 ''Balances'' ''Account-ada'' ada_start (after ?c ?d1) [] [1] [1, 1]" by simp
  from queue_call [OF this c(1)] c(2,3) show ?thesis by (simp add: ada_end_def)
qed

lemma ada_account: "account_events ''Account-ada'' (app_of (store_log ada_end)) = [AccountOpened ''ada'']"
  by code_simp

lemma ada_history: "account_history [AccountOpened ''ada'']"
  using account_run [OF account_new, of "OpenAccount ''ada'' ''ada''"] by (simp add: Account_initialState_def)

lemma ada_columns: "columns_take [AccountOpened ''ada'']"
proof -
  have "fits (as_balance (account_of (take k [AccountOpened ''ada''])))" for k
    by (cases k) (simp_all add: account_of_def Account_initialState_def fits_def is_int_def)
  then show ?thesis by (simp add: columns_take_def)
qed


end
