(* ===== verification/Bank_Db.thy ===== *)
theory Bank_Db
  imports Errors
begin

text \<open>
  scripts/db.ts: the script that brings up the example's Postgres in a container, waits until it answers,
  applies the two schemas and stays attached until it is told to stop or the container dies. What Docker, the
  server and the user do are the events of a run; what the script does to the world is its log.
\<close>

section \<open>Waiting for the server\<close>

text \<open>
  \<open>waitForPg\<close>. The attempt number \<open>i\<close> connects and queries, or fails with a message, and takes the given
  time, which is measured up to the end of the pause of 500 ms when it fails and may be longer.
\<close>

definition WAIT_TIMEOUT_MS :: int where
  "WAIT_TIMEOUT_MS = 60000"

definition not_ready :: "int \<Rightarrow> string option \<Rightarrow> thrown" where
  "not_ready timeoutMs lastErr =
     js_error (''postgres not ready after '' @ show_int timeoutMs @ ''ms: ''
       @ (case lastErr of None \<Rightarrow> ''unknown'' | Some m \<Rightarrow> m))"

function wait_loop ::
  "(nat \<Rightarrow> (string + unit) \<times> nat) \<Rightarrow> int \<Rightarrow> int \<Rightarrow> nat \<Rightarrow> int \<Rightarrow> string option \<Rightarrow> (thrown + nat) \<times> int" where
  "wait_loop attempt timeoutMs deadline i t lastErr =
     (if t < deadline then
        (case attempt i of
           (Inr _, d) \<Rightarrow> (Inr i, t + int d)
         | (Inl m, d) \<Rightarrow> wait_loop attempt timeoutMs deadline (Suc i) (t + int d + 500) (Some m))
      else (Inl (not_ready timeoutMs lastErr), t))"
  by pat_completeness auto
termination by (relation "measure (\<lambda>(attempt, timeoutMs, deadline, i, t, lastErr). nat (deadline - t))") auto

declare wait_loop.simps [simp del]

definition waitForPg :: "(nat \<Rightarrow> (string + unit) \<times> nat) \<Rightarrow> int \<Rightarrow> int \<Rightarrow> (thrown + nat) \<times> int" where
  "waitForPg attempt t timeoutMs = wait_loop attempt timeoutMs (t + timeoutMs) 0 t None"

text \<open>
  The wait ends: with the first attempt that succeeds, after at most one attempt per half second of the
  timeout, and with an error only when every attempt failed and the deadline has passed.
\<close>

lemma wait_loop_ends:
  "wait_loop attempt timeoutMs deadline i t lastErr = (r, t') \<Longrightarrow>
     (case r of
        Inr j \<Rightarrow> i \<le> j \<and> (\<exists>d. attempt j = (Inr (), d)) \<and> (\<forall>k. i \<le> k \<and> k < j \<longrightarrow> (\<exists>m d. attempt k = (Inl m, d)))
          \<and> 500 * (int j - int i) < deadline - t
      | Inl e \<Rightarrow> deadline \<le> t' \<and> (\<exists>m. e = not_ready timeoutMs m)
          \<and> (0 < deadline - t \<longrightarrow> (\<exists>m d. attempt i = (Inl m, d))))"
proof (induction attempt timeoutMs deadline i t lastErr rule: wait_loop.induct)
  case (1 attempt timeoutMs deadline i t lastErr)
  show ?case
  proof (cases "t < deadline")
    case False
    with 1(2) show ?thesis by (subst (asm) wait_loop.simps) auto
  next
    case True
    obtain a d where a: "attempt i = (a, d)" by force
    show ?thesis
    proof (cases a)
      case (Inr u)
      with 1(2) True a show ?thesis by (subst (asm) wait_loop.simps) auto
    next
      case (Inl m)
      then have s: "wait_loop attempt timeoutMs deadline (Suc i) (t + int d + 500) (Some m) = (r, t')"
        using 1(2) True a by (subst (asm) wait_loop.simps) simp
      note IH = 1(1) [OF True a [symmetric] Inl s]
      show ?thesis
      proof (cases r)
        case (Inl e)
        with IH show ?thesis using a \<open>a = Inl m\<close> by auto
      next
        case (Inr j)
        with IH have j: "Suc i \<le> j" "\<exists>d. attempt j = (Inr (), d)" "500 * (int j - int (Suc i)) < deadline - (t + int d + 500)"
          and b: "\<forall>k. Suc i \<le> k \<and> k < j \<longrightarrow> (\<exists>m d. attempt k = (Inl m, d))" by auto
        have "\<exists>m d. attempt k = (Inl m, d)" if "i \<le> k" "k < j" for k
          using that b a \<open>a = Inl m\<close> by (cases "k = i") auto
        with j Inr show ?thesis by auto
      qed
    qed
  qed
qed

lemma wait_is_bounded:
  assumes "waitForPg attempt t timeoutMs = (Inr j, t')"
  shows "500 * int j < timeoutMs" "\<exists>d. attempt j = (Inr (), d)"
  using wait_loop_ends [OF assms [unfolded waitForPg_def]] by auto

text \<open>With the script's own timeout: fewer than 120 attempts.\<close>

lemma default_wait_is_bounded: "waitForPg attempt t WAIT_TIMEOUT_MS = (Inr j, t') \<Longrightarrow> j < 120"
  using wait_is_bounded(1) [of attempt t WAIT_TIMEOUT_MS j t'] by (simp add: WAIT_TIMEOUT_MS_def)

section \<open>The script\<close>

text \<open>What it does: docker compose up and down, SIGKILL to the compose process, a schema applied, READY.\<close>

datatype db_act = ComposeUp | ComposeDown | KillCompose | Applied string | ReadyPrinted

text \<open>
  Where \<open>main\<close> awaits: the server or the end of compose, the schemas still to be applied, the end of compose.
  \<open>ds_composeExit\<close> is the compose process's exit as the event loop has reported it, \<open>ds_stop\<close> the exit code a
  \<open>stop\<close> under way will end with, \<open>ds_exited\<close> the argument of \<open>process.exit\<close>.
\<close>

datatype db_phase = Waiting | Applying "string list" | Attached | MainEnded

record db_script =
  ds_phase :: db_phase
  ds_composeExit :: "int option"
  ds_stop :: "int option"
  ds_exited :: "int option"
  ds_log :: "db_act list"

datatype db_event =
    PgAnswers "(thrown + nat)"
  | SchemaDone "thrown option"
  | ComposeExits "int option"
  | Signalled
  | KillTimerFires

definition INSTRUCTED_SCHEMA :: string where
  "INSTRUCTED_SCHEMA = ''instructed.sql''"

definition READ_STORE_SCHEMA :: string where
  "READ_STORE_SCHEMA = ''read-store.sql''"

definition db_start :: db_script where
  "db_start = \<lparr>ds_phase = Waiting, ds_composeExit = None, ds_stop = None, ds_exited = None, ds_log = [ComposeUp]\<rparr>"

definition act :: "db_act \<Rightarrow> db_script \<Rightarrow> db_script" where
  "act a s = s\<lparr>ds_log := ds_log s @ [a]\<rparr>"

definition process_exit :: "int \<Rightarrow> db_script \<Rightarrow> db_script" where
  "process_exit code s = s\<lparr>ds_exited := Some code\<rparr>"

text \<open>\<open>main().catch\<close>\<close>

definition start_failed :: "db_script \<Rightarrow> db_script" where
  "start_failed s = process_exit 1 (act ComposeDown s)"

text \<open>\<open>main\<close> after \<open>await composeExit\<close>, with READY printed.\<close>

definition compose_ended :: "int \<Rightarrow> db_script \<Rightarrow> db_script" where
  "compose_ended code s =
     (if ds_stop s = None then process_exit code (act ComposeDown s) else s\<lparr>ds_phase := MainEnded\<rparr>)"

definition attach :: "db_script \<Rightarrow> db_script" where
  "attach s =
     (let s1 = act ReadyPrinted (s\<lparr>ds_phase := Attached\<rparr>)
      in case ds_composeExit s of None \<Rightarrow> s1 | Some code \<Rightarrow> compose_ended code s1)"

text \<open>The signal handler: the second signal forces the exit. The pause of \<open>stop\<close> ends with the compose process.\<close>

definition signalled :: "db_script \<Rightarrow> db_script" where
  "signalled s =
     (if ds_stop s \<noteq> None then
        process_exit 130 (if ds_composeExit s = None then act KillCompose s else s)
      else
        (let s1 = act ComposeDown (s\<lparr>ds_stop := Some 0\<rparr>)
         in if ds_composeExit s = None then s1 else process_exit 0 s1))"

text \<open>
  The exit of compose resolves the promise both await. While the server is awaited, \<open>stop\<close> awaits the promise
  itself and comes before \<open>main\<close>, which awaits a race of promises made from it.
\<close>

definition compose_exits :: "int option \<Rightarrow> db_script \<Rightarrow> db_script" where
  "compose_exits c s =
     (let code = (case c of None \<Rightarrow> 0 | Some x \<Rightarrow> x);
          s1 = s\<lparr>ds_composeExit := Some code\<rparr>
      in case ds_stop s of
           Some exitCode \<Rightarrow> process_exit exitCode (if ds_phase s = Attached then compose_ended code s1 else s1)
         | None \<Rightarrow>
             (case ds_phase s of
                Waiting \<Rightarrow> process_exit (if code = 0 then 1 else code) (act ComposeDown s1)
              | Attached \<Rightarrow> compose_ended code s1
              | _ \<Rightarrow> s1))"

fun schema_done :: "thrown option \<Rightarrow> string list \<Rightarrow> db_script \<Rightarrow> db_script" where
  "schema_done (Some e) fs s = start_failed s"
| "schema_done None [] s = s"
| "schema_done None (f # fs) s =
     (let s1 = act (Applied f) s in if fs = [] then attach s1 else s1\<lparr>ds_phase := Applying fs\<rparr>)"

text \<open>One turn of the event loop; \<open>None\<close> when the event cannot happen there.\<close>

definition db_turn :: "db_event \<Rightarrow> db_script \<Rightarrow> db_script option" where
  "db_turn ev s =
     (if ds_exited s \<noteq> None then None
      else case ev of
        PgAnswers r \<Rightarrow>
          (if ds_phase s \<noteq> Waiting then None
           else case r of
                  Inl e \<Rightarrow> Some (start_failed s)
                | Inr _ \<Rightarrow> Some (s\<lparr>ds_phase := Applying [INSTRUCTED_SCHEMA, READ_STORE_SCHEMA]\<rparr>))
      | SchemaDone r \<Rightarrow> (case ds_phase s of Applying fs \<Rightarrow> Some (schema_done r fs s) | _ \<Rightarrow> None)
      | ComposeExits c \<Rightarrow> if ds_composeExit s = None then Some (compose_exits c s) else None
      | Signalled \<Rightarrow> Some (signalled s)
      | KillTimerFires \<Rightarrow>
          (if ds_stop s \<noteq> None \<and> ds_composeExit s = None then Some (act KillCompose s) else None))"

inductive db_run :: "db_script \<Rightarrow> bool" where
  db_begin: "db_run db_start"
| db_next: "db_run s \<Longrightarrow> db_turn ev s = Some s' \<Longrightarrow> db_run s'"

text \<open>The schemas still to apply are those not applied yet, in order; a stop has begun with compose down.\<close>

definition applied :: "db_script \<Rightarrow> string list" where
  "applied s = concat (map (\<lambda>a. case a of Applied f \<Rightarrow> [f] | _ \<Rightarrow> []) (ds_log s))"

definition db_inv :: "db_script \<Rightarrow> bool" where
  "db_inv s \<longleftrightarrow>
     (ds_stop s \<noteq> None \<or> ds_exited s \<noteq> None \<longrightarrow> ComposeDown \<in> set (ds_log s))
     \<and> (case ds_phase s of
          Waiting \<Rightarrow> applied s = []
        | Applying fs \<Rightarrow> fs \<noteq> [] \<and> applied s @ fs = [INSTRUCTED_SCHEMA, READ_STORE_SCHEMA]
        | _ \<Rightarrow> applied s = [INSTRUCTED_SCHEMA, READ_STORE_SCHEMA])
     \<and> (ReadyPrinted \<in> set (ds_log s) \<longrightarrow> ds_phase s \<in> {Attached, MainEnded})
     \<and> (ds_stop s \<noteq> None \<longrightarrow> ds_stop s = Some 0 \<and> (ds_exited s = None \<longrightarrow> ds_composeExit s = None))"

lemma applied_act [simp]:
  "applied (act a s) = applied s @ (case a of Applied f \<Rightarrow> [f] | _ \<Rightarrow> [])" "ds_phase (act a s) = ds_phase s"
  "ds_stop (act a s) = ds_stop s" "ds_exited (act a s) = ds_exited s" "ds_composeExit (act a s) = ds_composeExit s"
  "ds_log (act a s) = ds_log s @ [a]"
  by (simp_all add: applied_def act_def)

lemma applied_fields [simp]:
  "applied (s\<lparr>ds_phase := ph\<rparr>) = applied s" "applied (s\<lparr>ds_composeExit := x\<rparr>) = applied s"
  "applied (s\<lparr>ds_stop := x\<rparr>) = applied s" "applied (s\<lparr>ds_exited := x\<rparr>) = applied s"
  by (simp_all add: applied_def)

lemma schema_done_inv:
  assumes "db_inv s" "ds_exited s = None" "ds_phase s = Applying fs"
  shows "db_inv (schema_done r fs s)"
  using assms
  by (cases "(r, fs, s)" rule: schema_done.cases)
     (auto simp: db_inv_def start_failed_def process_exit_def attach_def compose_ended_def Let_def split: option.splits)

lemma compose_exits_inv:
  assumes "db_inv s" "ds_exited s = None"
  shows "db_inv (compose_exits c s)"
  using assms
  by (cases "ds_phase s"; cases "ds_stop s")
     (auto simp: db_inv_def compose_exits_def process_exit_def compose_ended_def Let_def)

lemma signalled_inv: "db_inv s \<Longrightarrow> ds_exited s = None \<Longrightarrow> db_inv (signalled s)"
  by (cases "ds_phase s"; cases "ds_stop s")
     (auto simp: db_inv_def signalled_def process_exit_def Let_def)

lemma db_turn_inv:
  assumes t: "db_turn ev s = Some s'" and i: "db_inv s"
  shows "db_inv s'"
proof -
  have e: "ds_exited s = None" using t by (auto simp: db_turn_def split: if_splits)
  show ?thesis
  proof (cases ev)
    case (PgAnswers r)
    with t i e show ?thesis
      by (cases r) (auto simp: db_turn_def db_inv_def start_failed_def process_exit_def split: if_splits)
  next
    case (SchemaDone r)
    with t i e show ?thesis by (auto simp: db_turn_def intro: schema_done_inv split: db_phase.splits)
  next
    case (ComposeExits c)
    with t i e compose_exits_inv [OF i e] show ?thesis by (auto simp: db_turn_def split: if_splits)
  next
    case Signalled
    with t i e signalled_inv [OF i e] show ?thesis by (auto simp: db_turn_def)
  next
    case KillTimerFires
    with t i e show ?thesis by (cases "ds_phase s") (auto simp: db_turn_def db_inv_def split: if_splits)
  qed
qed

lemma db_run_inv: "db_run s \<Longrightarrow> db_inv s"
proof (induction rule: db_run.induct)
  case db_begin
  show ?case by (simp add: db_inv_def db_start_def applied_def)
qed (blast intro: db_turn_inv)

text \<open>
  However the script ends, it has taken the container, its volume and its network down, the second signal
  included; READY is printed only when both schemas have been applied, the event store's first; and once it
  was told to stop, the end of the compose process ends it with status 0.
\<close>

theorem db_tears_down:
  assumes "db_run s"
  shows "(ds_exited s \<noteq> None \<longrightarrow> ComposeDown \<in> set (ds_log s))
     \<and> (ReadyPrinted \<in> set (ds_log s) \<longrightarrow> applied s = [INSTRUCTED_SCHEMA, READ_STORE_SCHEMA])
     \<and> (ds_stop s \<noteq> None \<and> ds_exited s = None \<longrightarrow>
          (\<exists>s'. db_turn (ComposeExits c) s = Some s' \<and> ds_exited s' = Some 0))"
proof -
  note i = db_run_inv [OF assms]
  have "ReadyPrinted \<in> set (ds_log s) \<longrightarrow> applied s = [INSTRUCTED_SCHEMA, READ_STORE_SCHEMA]"
    using i by (cases "ds_phase s") (auto simp: db_inv_def)
  moreover have "\<exists>s'. db_turn (ComposeExits c) s = Some s' \<and> ds_exited s' = Some 0"
    if "ds_stop s \<noteq> None" "ds_exited s = None"
    using i that by (auto simp: db_inv_def db_turn_def compose_exits_def process_exit_def Let_def)
  ultimately show ?thesis using i by (auto simp: db_inv_def)
qed

text \<open>A signal while the schemas are being applied: the containers are down, the failing query then ends the
  script as a failed start.\<close>

lemma signal_while_applying:
  "\<exists>s. db_run s \<and> ds_log s = [ComposeUp, ComposeDown, ComposeDown] \<and> ds_exited s = Some 1"
proof -
  let ?s1 = "the (db_turn (PgAnswers (Inr 0)) db_start)"
  let ?s2 = "the (db_turn Signalled ?s1)"
  let ?s3 = "the (db_turn (SchemaDone (Some (js_error ''terminated''))) ?s2)"
  have t: "db_turn (PgAnswers (Inr 0)) db_start = Some ?s1" "db_turn Signalled ?s1 = Some ?s2"
    "db_turn (SchemaDone (Some (js_error ''terminated''))) ?s2 = Some ?s3"
    "ds_log ?s3 = [ComposeUp, ComposeDown, ComposeDown]" "ds_exited ?s3 = Some 1"
    by (simp_all add: db_turn_def db_start_def signalled_def act_def Let_def start_failed_def process_exit_def)
  have "db_run ?s3" using db_next [OF db_next [OF db_next [OF db_begin t(1)] t(2)] t(3)] .
  with t show ?thesis by blast
qed

end
