(* ===== verification/Pm_State.thy ===== *)
theory Pm_State
  imports Delivery_Properties Pm_Properties "HOL-Library.Multiset"
begin

text \<open>
  The state of a process manager over whole runs: the events list_pm_rebuild_events returns, and that the
  state a handler starts from, read from the snapshot or rebuilt, is the fold of the events acknowledged
  before its own, under redelivery, takeover and stale workers.
\<close>

section \<open>The rebuild\<close>

lemma distinct_concat_map:
  assumes "distinct xs" "\<And>x. x \<in> set xs \<Longrightarrow> distinct (g x)"
    and "\<And>x y z. x \<in> set xs \<Longrightarrow> y \<in> set xs \<Longrightarrow> z \<in> set (g x) \<Longrightarrow> z \<in> set (g y) \<Longrightarrow> x = y"
  shows "distinct (concat (map g xs))"
  using assms
proof (induction xs)
  case (Cons a xs)
  have "set (g a) \<inter> set (concat (map g xs)) = {}"
  proof (rule ccontr)
    assume "set (g a) \<inter> set (concat (map g xs)) \<noteq> {}"
    then obtain z b where "z \<in> set (g a)" "b \<in> set xs" "z \<in> set (g b)" by auto
    with Cons.prems(3) [of a b z] Cons.prems(1) show False by simp
  qed
  with Cons show ?case by auto
qed simp

lemma sorted_by_number:
  assumes "distinct xs" "set xs = set ys" "distinct ys" "sorted (map f ys)" "inj_on f (set ys)"
  shows "sort_key f xs = ys"
  using assms by (intro sort_key_inj_key_eq) (simp_all add: set_eq_iff_mset_eq_distinct [symmetric])

lemma distinct_log: "wf_db d \<Longrightarrow> distinct (store_log d) \<and> inj_on o_event_number (set (store_log d))
    \<and> sorted (map o_event_number (store_log d))"
proof -
  assume "wf_db d"
  from numbered_log [OF this] have n: "map o_event_number (store_log d) = [1..<Suc (length (store_log d))]"
    by (simp add: numbered_def)
  have "distinct (map o_event_number (store_log d))" "sorted (map o_event_number (store_log d))"
    by (simp_all only: n distinct_upt sorted_upt)
  then show ?thesis by (simp add: distinct_map)
qed

lemma done_items:
  assumes "wf_queue d"
  shows "(\<exists>i \<in> set (items d). item_of k n i \<and> i_partition i = p \<and> i_state i = Done \<and> i_event i = e)
     \<longleftrightarrow> lane_of k n p d e = Some Done"
proof
  assume "\<exists>i \<in> set (items d). item_of k n i \<and> i_partition i = p \<and> i_state i = Done \<and> i_event i = e"
  then obtain i where "i \<in> set (items d)" "item_key k n p e i" "i_state i = Done" by (auto simp: item_key_def)
  with find_item_unique [OF assms this(1,2)] show "lane_of k n p d e = Some Done" by (simp add: lane_of_def)
next
  assume "lane_of k n p d e = Some Done"
  then obtain i where "find_item k n p e d = Some i" "i_state i = Done" by (auto simp: lane_of_def)
  with find_item_Some [of k n p e d i]
  show "\<exists>i \<in> set (items d). item_of k n i \<and> i_partition i = p \<and> i_state i = Done \<and> i_event i = e"
    by (auto simp: item_key_def)
qed

text \<open>The rebuild returns the events of the log whose item is done, in the order of the log.\<close>

lemma rebuild_rows:
  assumes wf: "wf_db d"
  shows "rebuild_query k n p e d
     = filter (\<lambda>r. lane_of k n p d (int (o_event_number r)) = Some Done \<and> int (o_event_number r) < e) (store_log d)"
proof -
  have wfe: "wf_events d" and wfq: "wf_queue d" using wf by (simp_all add: wf_db_def)
  let ?ws = "filter (\<lambda>i. item_of k n i \<and> i_partition i = p \<and> i_state i = Done \<and> i_event i < e) (items d)"
  let ?g = "\<lambda>wi. filter (\<lambda>r. int (o_event_number r) = i_event wi) (store_log d)"
  let ?ys = "filter (\<lambda>r. lane_of k n p d (int (o_event_number r)) = Some Done \<and> int (o_event_number r) < e) (store_log d)"
  note L = distinct_log [OF wf]
  have q: "rebuild_query k n p e d = sort_key o_event_number (concat (map ?g ?ws))"
    by (simp only: rebuild_query_def log_rows_where [OF wfe, of "\<lambda>v. int v = x" for x])
  have "distinct ?ws" using wfq by (auto simp: wf_queue_def distinct_map)
  moreover have "x = y" if "x \<in> set ?ws" "y \<in> set ?ws" "z \<in> set (?g x)" "z \<in> set (?g y)" for x y z
    using that unique_item [OF wfq, of x y k n p "i_event x"] by (auto simp: item_key_def)
  ultimately have "distinct (concat (map ?g ?ws))" using L by (intro distinct_concat_map) auto
  moreover have "set (concat (map ?g ?ws)) = set ?ys"
    by (auto simp: done_items [OF wfq, symmetric])
  moreover have "distinct ?ys" "sorted (map o_event_number ?ys)" "inj_on o_event_number (set ?ys)"
    using L by (auto intro: sorted_filter inj_on_subset)
  ultimately show ?thesis unfolding q by (rule sorted_by_number)
qed

text \<open>The state of an instance after the events with the given numbers.\<close>

definition state_after :: "'p substrate_definition \<Rightarrow> event_out list \<Rightarrow> int list \<Rightarrow> thrown + json" where
  "state_after def lg es =
     fold_events (sd_apply def) (sd_initialState def) (map (\<lambda>e. recorded (lg ! (nat e - 1))) es)"

lemma fold_events_snoc: "fold_events f s (evs @ [ev]) = bind_sum (fold_events f s evs) (\<lambda>t. f t ev)"
proof (induction evs arbitrary: s)
  case Nil
  show ?case by (cases "f s ev") simp_all
next
  case (Cons e evs)
  show ?case by (cases "f s e") (simp_all add: Cons)
qed

lemma state_after_snoc:
  "state_after def lg es = Inr base \<Longrightarrow> state_after def lg (es @ [e]) = sd_apply def base (recorded (lg ! (nat e - 1)))"
  by (simp add: state_after_def fold_events_snoc)

definition in_log :: "int list \<Rightarrow> event_out list \<Rightarrow> bool" where
  "in_log es lg \<longleftrightarrow> (\<forall>e \<in> set es. 1 \<le> e \<and> e \<le> int (length lg))"

lemma state_after_grow:
  assumes "prefix lg lg'" "in_log es lg"
  shows "state_after def lg' es = state_after def lg es"
proof -
  from assms(1) obtain more where "lg' = lg @ more" by (auto simp: prefix_def)
  moreover have "nat e - 1 < length lg" if "e \<in> set es" for e using assms(2) that by (auto simp: in_log_def)
  ultimately have "map (\<lambda>e. recorded (lg' ! (nat e - 1))) es = map (\<lambda>e. recorded (lg ! (nat e - 1))) es"
    by (simp add: nth_append)
  then show ?thesis unfolding state_after_def by (rule arg_cong)
qed

lemma routed_in_log:
  assumes "numbered lg"
  shows "in_log (routed_to route p a b lg) lg"
proof -
  have "0 < o_event_number r \<and> o_event_number r \<le> length lg" if r: "r \<in> set lg" for r
  proof -
    from r obtain i where "i < length lg" "r = lg ! i" unfolding in_set_conv_nth by metis
    with numbered_nth [OF assms, of i] show ?thesis by simp
  qed
  then show ?thesis by (force simp: in_log_def routed_to_def)
qed

text \<open>Rows picked from the log by number, in the order of the numbers.\<close>

lemma picked_rows:
  assumes wf: "wf_db d" and s: "sorted_wrt (<) es" and l: "in_log es (store_log d)"
  shows "filter (\<lambda>r. int (o_event_number r) \<in> set es) (store_log d) = map (\<lambda>e. store_log d ! (nat e - 1)) es"
proof -
  let ?lg = "store_log d" and ?g = "\<lambda>e. store_log d ! (nat e - 1)"
  note n = numbered_log [OF wf]
  have g: "?g e \<in> set ?lg" "int (o_event_number (?g e)) = e" if "e \<in> set es" for e
    using l that numbered_nth [OF n, of "nat e - 1"] by (auto simp: in_log_def)
  then have m: "map (\<lambda>r. int (o_event_number r)) (map ?g es) = es" by (simp add: map_idI)
  have se: "sorted es" "distinct es" using s by (simp_all add: strict_sorted_iff)
  have "sorted (map int (map o_event_number (map ?g es)))" using se(1) m by (simp add: comp_def)
  then have srt: "sorted (map o_event_number (map ?g es))" by (simp add: sorted_map)
  have "distinct (map ?g es)" using se(2) m by (metis distinct_map)
  moreover have "set (filter (\<lambda>r. int (o_event_number r) \<in> set es) ?lg) = set (map ?g es)"
  proof (intro equalityI subsetI)
    fix r assume r: "r \<in> set (filter (\<lambda>r. int (o_event_number r) \<in> set es) ?lg)"
    then obtain i where "i < length ?lg" "r = ?lg ! i" by (metis filter_is_subset in_set_conv_nth subsetD)
    with numbered_nth [OF n, of i] have "r = ?g (int (o_event_number r))" by (simp add: nat_add_distrib)
    with r show "r \<in> set (map ?g es)" by (auto intro!: image_eqI [where x = "int (o_event_number r)"])
  qed (use g in auto)
  ultimately have "sort_key o_event_number (filter (\<lambda>r. int (o_event_number r) \<in> set es) ?lg) = map ?g es"
    using distinct_log [OF wf] srt g(1) by (intro sorted_by_number) (auto intro: inj_on_subset)
  moreover have "sorted (map o_event_number (filter (\<lambda>r. int (o_event_number r) \<in> set es) ?lg))"
    using distinct_log [OF wf] by (auto intro: sorted_filter)
  ultimately show ?thesis by (simp add: sort_key_sorted)
qed

section \<open>What the calls do to the items and the snapshot of an instance\<close>

lemma pm_completes:
  assumes x: "exec (CCompletePm su n' w p' e snu snt snv sd smd) d = Inr (r, d')" and wf: "wf_queue d"
  shows "\<exists>s. find_stream (the su) d = Some s \<and> lane_of (s_id s) (the n') (the p') d (the e) = Some ClaimedS
     \<and> (\<forall>k n p. lane_of k n p d' = (if s_id s = k \<and> the n' = n \<and> the p' = p then (lane_of k n p d)(the e \<mapsto> Done)
          else lane_of k n p d))
     \<and> (\<exists>row. find_snapshot (the snu) d' = Some row \<and> n_data row = the sd)
     \<and> (\<forall>v. v \<noteq> the snu \<longrightarrow> find_snapshot v d' = find_snapshot v d)"
proof -
  let ?f = "\<lambda>r. r\<lparr>i_state := Done, i_claimed_by := None, i_lease := None\<rparr>"
  from x obtain proc where c: "with_claimed_item proc (the su) (the n') (the w) (the p') (the e) d
      (\<lambda>k i. Inr ((), upsert_snapshot (the snu) (the snt) (nat (the snv)) (the sd) smd
          (update_item k (the n') (the p') (the e) ?f d))) = Inr ((), d')"
    by (auto simp: tag_Inr complete_work_item_pm_def check_defs sum_iffs)
  show ?thesis
  proof (rule ended_claim [OF c wf])
    fix s i
    assume s: "find_stream (the su) d = Some s" and i: "find_item (s_id s) (the n') (the p') (the e) d = Some i"
      and d': "Inr ((), upsert_snapshot (the snu) (the snt) (nat (the snv)) (the sd) smd
          (update_item (s_id s) (the n') (the p') (the e) ?f d)) = Inr ((), d')"
      and l: "lane_of (s_id s) (the n') (the p') d (the e) = Some ClaimedS"
    have its: "items d' = items (update_item (s_id s) (the n') (the p') (the e) ?f d)" using d' by auto
    have "find_snapshot v (update_item (s_id s) (the n') (the p') (the e) ?f d) = find_snapshot v d" for v
      by (simp add: find_snapshot_def update_item_def)
    with s l lane_of_items [OF its] lane_update_item [of ?f, OF _ i] d' show ?thesis
      by (auto simp: full_key_def find_upsert)
  qed
qed

text \<open>The calls that may store another snapshot under a key.\<close>

definition writes_snapshot :: "string \<Rightarrow> call \<Rightarrow> bool" where
  "writes_snapshot v c =
     (case c of
        CCompletePm su n w p e snu snt snv sd smd \<Rightarrow> the snu = v
      | CRecordSnapshot u ty n data md \<Rightarrow> the u = v
      | _ \<Rightarrow> False)"

lemma find_snapshot_kept: "snaps d' = snaps d \<Longrightarrow> find_snapshot v d' = find_snapshot v d"
  by (simp add: find_snapshot_def)

lemma find_snapshot_filtered:
  assumes "snaps d' = filter (\<lambda>r. n_source_uuid r \<noteq> u) (snaps d)"
  shows "find_snapshot v d' = (if v = u then None else find_snapshot v d)"
proof -
  have "find (\<lambda>r. n_source_uuid r = v) (filter (\<lambda>r. n_source_uuid r \<noteq> u) xs)
      = (if v = u then None else find (\<lambda>r. n_source_uuid r = v) xs)" for xs
    by (induction xs) auto
  then show ?thesis unfolding find_snapshot_def assms .
qed

lemma quiet_snaps:
  "claim_subscription lk su n' w secs opts d = Inr (x1, d') \<Longrightarrow> snaps d' = snaps d"
  "release_subscription su n' w opts d = Inr (x2, d') \<Longrightarrow> snaps d' = snaps d"
  "delete_subscription su n' opts d = Inr (x3, d') \<Longrightarrow> snaps d' = snaps d"
  "route_batch su n' w cur decs opts d = Inr (x4, d') \<Longrightarrow> snaps d' = snaps d"
  "claim_work_item ly su n' w secs opts d = Inr (x5, d') \<Longrightarrow> snaps d' = snaps d"
  "extend_work_item_claim su n' w p e secs opts d = Inr (x6, d') \<Longrightarrow> snaps d' = snaps d"
  "complete_work_item_projection su n' w p e opts d = Inr (x7, d') \<Longrightarrow> snaps d' = snaps d"
  "fail_work_item su n' w p e err opts d = Inr (x8, d') \<Longrightarrow> snaps d' = snaps d"
  by (auto simp: claim_subscription_def release_subscription_def delete_subscription_def route_batch_def
      claim_work_item_def extend_work_item_claim_def complete_work_item_projection_def fail_work_item_def
      check_defs lookup_defs sum_iffs Let_def update_sub_def update_item_def with_claimed_item_def
      split: option.splits list.splits json.splits if_splits)

lemma snapshot_kept:
  assumes e: "exec c d = Inr (r, d')" and wf: "wf_db d" and w: "\<not> writes_snapshot v c"
  shows "find_snapshot v d' \<in> {None, find_snapshot v d}"
proof (cases c)
  case CAppend
  with e wf have "snaps d' = snaps d" by (auto simp: tag_Inr wf_db_def dest: append_step(4))
  from find_snapshot_kept [OF this] show ?thesis by simp
next
  case (CRecordSnapshot u ty n data md)
  with e w show ?thesis
    by (auto simp: tag_Inr record_snapshot_def sum_iffs find_upsert writes_snapshot_def)
next
  case (CDeleteSnapshot u)
  with e have "snaps d' = filter (\<lambda>r. n_source_uuid r \<noteq> the u) (snaps d)"
    by (auto simp: tag_Inr delete_snapshot_def sum_iffs)
  from find_snapshot_filtered [OF this] show ?thesis by simp
next
  case (CCompletePm su n w' p e' snu snt snv sd smd)
  with pm_completes [OF e [unfolded CCompletePm]] wf w show ?thesis
    by (auto simp: wf_db_def writes_snapshot_def)
next
  case (CCompleteInstance su n p snu)
  with e have "snaps d' = filter (\<lambda>r. n_source_uuid r \<noteq> the snu) (snaps d)"
    by (auto simp: tag_Inr complete_pm_instance_def check_defs lookup_defs sum_iffs Let_def split: option.splits)
  from find_snapshot_filtered [OF this] show ?thesis by simp
qed (use e in \<open>auto simp: tag_Inr dest!: read_steps quiet_snaps find_snapshot_kept [of _ _ v]\<close>)+

section \<open>Runs of the workers of a process manager\<close>

text \<open>
  What the workers of the definition, and everybody else, may call beside what the queue requires: an item
  of the partition is completed with the definition's snapshot, holding what some handler staged for that
  event; nobody else writes that snapshot; and no item of the partition is completed as a projection's.
\<close>

definition keeps_state ::
  "'p substrate_definition \<Rightarrow> nat \<Rightarrow> string \<Rightarrow> (int \<times> json) set \<Rightarrow> call \<Rightarrow> db \<Rightarrow> bool" where
  "keeps_state def k p staged c d =
     (case c of
        CCompletePm su n w p' e snu snt snv sd smd \<Rightarrow>
          (if on_sub k (sd_type def) su n d \<and> the p' = p
           then the snu = sourceUuidOf def p \<and> (the e, the sd) \<in> staged else the snu \<noteq> sourceUuidOf def p)
      | CCompleteProjection su n w p' e \<Rightarrow> \<not> (on_sub k (sd_type def) su n d \<and> the p' = p)
      | CRecordSnapshot u ty n data md \<Rightarrow> the u \<noteq> sourceUuidOf def p
      | _ \<Rightarrow> True)"

text \<open>
  Runs with their history. A handler loads the state as the code does, at any time after its event was
  handed out, applies the event and leaves the result for any later completion.
\<close>

inductive manager_run ::
  "(event_out \<Rightarrow> string option) \<Rightarrow> 'p substrate_definition \<Rightarrow> nat \<Rightarrow> string \<Rightarrow> db \<Rightarrow> db
     \<Rightarrow> int list \<Rightarrow> int list \<Rightarrow> int list \<Rightarrow> (int \<times> json) set \<Rightarrow> bool"
  for route "def" k p d0 where
  manager_start: "manager_run route def k p d0 d0 [] [] [] {}"
| manager_call: "manager_run route def k p d0 d ack hand seen staged \<Longrightarrow> allowed route k (sd_type def) p seen c d
    \<Longrightarrow> keeps_state def k p staged c d
    \<Longrightarrow> manager_run route def k p d0 (after c d) (ack @ acked_by (action_of k (sd_type def) p c d))
          (hand @ handed_by (action_of k (sd_type def) p c d)) seen staged"
| manager_pass: "manager_run route def k p d0 d ack hand seen staged
    \<Longrightarrow> manager_run route def k p d0 (pass ms d) ack hand seen staged"
| manager_handler: "manager_run route def k p d0 d ack hand seen staged \<Longrightarrow> e \<in> set hand
    \<Longrightarrow> loadState pg_client def u (sourceUuidOf def p) p e w = (Inr base, w') \<Longrightarrow> w_db w' = d
    \<Longrightarrow> map_option s_id (find_stream u d) = Some k
    \<Longrightarrow> sd_apply def base (recorded (store_log d ! (nat e - 1))) = Inr st
    \<Longrightarrow> manager_run route def k p d0 d ack hand (seen @ [e]) (insert (e, st) staged)"

lemma manager_queue:
  "manager_run route def k p d0 d ack hand seen staged \<Longrightarrow> queue_run route k (sd_type def) p d0 d ack hand seen"
  by (induction rule: manager_run.induct) (auto intro: queue_run.intros)

text \<open>Where a state comes from, in the tables the last call saw.\<close>

lemma loaded_from:
  assumes "loadState pg_client def u src p e w = (Inr base, w')" "map_option s_id (find_stream u (w_db w')) = Some k"
  shows "(\<exists>row. find_snapshot src (w_db w') = Some row \<and> base = n_data row)
     \<or> fold_events (sd_apply def) (sd_initialState def) (map recorded (rebuild_query k (sd_type def) p e (w_db w'))) = Inr base"
proof -
  from loadState_sources [OF assms(1)] consider
    s where "readSnapshot src w = (Inr s, w')" "base = sn_data s"
    | evs w1 where "listPmRebuildEvents u (sd_type def) p e w1 = (Inr evs, w')"
      "fold_events (sd_apply def) (sd_initialState def) evs = Inr base"
    by (auto simp: pg_client_def)
  then show ?thesis
  proof cases
    case 1
    with readSnapshot_ok [OF 1(1)] show ?thesis by (auto simp: snap_of_def snapshot_of_def)
  next
    case 2
    from 2(1) obtain rep where
      run: "run (bind_sum (bigint_param e) (\<lambda>b. Inr (CRebuildEvents (Some u) (Some (sd_type def)) (Some p) (Some b))))
         ((sub_ctx u (sd_type def))\<lparr>ctx_partitionKey := Some p\<rparr>) w1 = (Inr rep, w')"
      and m: "mapEvents rep = Inr evs"
      by (auto simp: listPmRebuildEvents_def bind_io_Inr lift_io_eq)
    have "evs = map recorded (rebuild_query k (sd_type def) p e (w_db w'))"
    proof (rule run_Inr [OF run])
      fix c1 d
      assume c: "bind_sum (bigint_param e) (\<lambda>b. Inr (CRebuildEvents (Some u) (Some (sd_type def)) (Some p) (Some b))) = Inr c1"
        and x: "exec (with_locks (w_env w1 (w_pos w1)) c1) d = Inr (rep, w_db w')"
      from c have c1: "c1 = CRebuildEvents (Some u) (Some (sd_type def)) (Some p) (Some e)"
        by (auto simp: bind_sum_Inr bigint_param_def bigint_in_show)
      from x c1 obtain rws where l: "list_pm_rebuild_events (Some u) (Some (sd_type def)) (Some p) (Some e) (Some (JObj [])) d
          = Inr (rws, w_db w')" and rep: "rep = REvents rws" by (auto simp: tag_Inr)
      from read_steps(5) [OF l] have d: "w_db w' = d" .
      with l assms(2) have "rws = rebuild_query k (sd_type def) p e (w_db w')"
        by (auto simp: list_pm_rebuild_events_def check_defs lookup_defs sum_iffs split: option.splits)
      with m rep show ?thesis by simp
    qed
    with 2(2) show ?thesis by simp
  qed
qed

section \<open>The state is the replay of the partition\<close>

definition manager_ok ::
  "'p substrate_definition \<Rightarrow> nat \<Rightarrow> string \<Rightarrow> db \<Rightarrow> int list \<Rightarrow> int list \<Rightarrow> (int \<times> json) set \<Rightarrow> bool" where
  "manager_ok def k p d ack hand staged \<longleftrightarrow>
     {e. lane_of k (sd_type def) p d e = Some Done} = set ack
     \<and> (\<forall>row. find_snapshot (sourceUuidOf def p) d = Some row \<longrightarrow> state_after def (store_log d) ack = Inr (n_data row))
     \<and> (\<forall>(e, st) \<in> staged. e \<in> set hand \<and> (e \<notin> set ack \<longrightarrow> state_after def (store_log d) (ack @ [e]) = Inr st))"

lemma manager_okD:
  assumes "manager_ok def k p d ack hand staged"
  shows "lane_of k (sd_type def) p d e = Some Done \<longleftrightarrow> e \<in> set ack"
    and "(e, st) \<in> staged \<Longrightarrow> e \<in> set hand"
    and "(e, st) \<in> staged \<Longrightarrow> e \<notin> set ack \<Longrightarrow> state_after def (store_log d) (ack @ [e]) = Inr st"
  using assms by (auto simp: manager_ok_def)

text \<open>What the queue promises: the numbers are the log's, and a handed event that was not acknowledged
  is the first open one, behind all acknowledged ones.\<close>

definition served :: "nat \<Rightarrow> string \<Rightarrow> string \<Rightarrow> db \<Rightarrow> int list \<Rightarrow> int list \<Rightarrow> bool" where
  "served k n p d ack hand \<longleftrightarrow>
     wf_db d \<and> sorted_wrt (<) ack \<and> in_log ack (store_log d) \<and> in_log hand (store_log d)
     \<and> (\<forall>e \<in> set hand. e \<notin> set ack \<longrightarrow> (\<forall>x \<in> set ack. x < e))
     \<and> (\<forall>e e'. lane_of k n p d e = Some ClaimedS \<longrightarrow> e' \<in> set hand \<longrightarrow> e' \<notin> set ack \<longrightarrow> e' = e)"

lemma queue_served:
  assumes "queue_run route k n p d0 d ack hand seen" "wf_db d0" "fresh_sub k n d0"
  shows "served k n p d ack hand"
    and "e \<in> set hand \<Longrightarrow> e \<notin> set ack
      \<Longrightarrow> \<exists>more. routed_to route p (cursor k n d0) (cursor k n d) (store_log d) = ack @ e # more"
proof -
  let ?todo = "routed_to route p (cursor k n d0) (cursor k n d) (store_log d)"
  from queue_run_ok [OF assms] have wf: "wf_db d" and run: "lane_run (lane_of k n p d) ?todo ack hand seen"
    by (simp_all add: queue_ok_def)
  from lane_run_ok [OF run] obtain rest where ok: "lane_ok (lane_of k n p d) ?todo ack hand seen rest" ..
  then have t: "?todo = ack @ rest" "sorted_wrt (<) (ack @ rest)" "set hand \<subseteq> set ack \<union> set (take 1 rest)"
    by (auto simp: lane_ok_def)
  have hd: "\<exists>more. rest = e # more" if "e \<in> set hand" "e \<notin> set ack" for e
    using t(3) that by (cases rest) auto
  then show "e \<in> set hand \<Longrightarrow> e \<notin> set ack \<Longrightarrow> \<exists>more. ?todo = ack @ e # more" using t(1) by metis
  have l: "in_log (ack @ rest) (store_log d)" using routed_in_log [OF numbered_log [OF wf]] t(1) by metis
  have "in_log hand (store_log d)"
    using l t(3) unfolding in_log_def by (auto dest!: subsetD in_set_takeD)
  moreover have "\<forall>x \<in> set ack. x < e" if "e \<in> set hand" "e \<notin> set ack" for e
    using hd [OF that] t(2) by (auto simp: sorted_wrt_append)
  moreover have "e' = e" if "lane_of k n p d e = Some ClaimedS" "e' \<in> set hand" "e' \<notin> set ack" for e e'
    using claimed_first(1) [OF ok that(1)] hd [OF that(2,3)] by auto
  ultimately show "served k n p d ack hand"
    using wf l t(2) by (auto simp: served_def in_log_def sorted_wrt_append)
qed

text \<open>Whatever source a handler of an unacknowledged event loads from, it gets the state after the
  acknowledged ones.\<close>

lemma loaded_state:
  assumes ok: "manager_ok def k p d ack hand staged" and s: "served k (sd_type def) p d ack hand"
    and e: "e \<in> set hand" "e \<notin> set ack"
    and l: "loadState pg_client def u (sourceUuidOf def p) p e w = (Inr base, w')" "w_db w' = d"
      "map_option s_id (find_stream u d) = Some k"
  shows "state_after def (store_log d) ack = Inr base"
proof -
  from s have wf: "wf_db d" and sa: "sorted_wrt (<) ack" "in_log ack (store_log d)" and lt: "\<forall>x \<in> set ack. x < e"
    using e by (auto simp: served_def)
  have dn: "lane_of k (sd_type def) p d x = Some Done \<longleftrightarrow> x \<in> set ack" for x
    using ok by (auto simp: manager_ok_def)
  have "rebuild_query k (sd_type def) p e d = filter (\<lambda>r. int (o_event_number r) \<in> set ack) (store_log d)"
    unfolding rebuild_rows [OF wf] dn using lt by (intro filter_cong) auto
  also have "\<dots> = map (\<lambda>e. store_log d ! (nat e - 1)) ack" by (rule picked_rows [OF wf sa])
  finally have "map recorded (rebuild_query k (sd_type def) p e d) = map (\<lambda>e. recorded (store_log d ! (nat e - 1))) ack"
    by (simp add: comp_def)
  with loaded_from [OF l(1), of k] l(2,3) ok show ?thesis by (auto simp: manager_ok_def state_after_def)
qed

lemma lane_step_done:
  assumes "lane_step l a l'" "acked_by a = []"
  shows "{e. l' e = Some Done} = {e. l e = Some Done}"
  using assms by (cases rule: lane_step.cases) (auto split: if_splits)

text \<open>The staged results stay right when the log grows and nothing is acknowledged.\<close>

lemma manager_ok_grow:
  assumes ok: "manager_ok def k p d ack hand staged" and s: "served k (sd_type def) p d ack hand"
    and pre: "prefix (store_log d) (store_log d')"
    and dn: "{e. lane_of k (sd_type def) p d' e = Some Done} = {e. lane_of k (sd_type def) p d e = Some Done}"
    and sn: "find_snapshot (sourceUuidOf def p) d' \<in> {None, find_snapshot (sourceUuidOf def p) d}"
  shows "manager_ok def k p d' ack (hand @ hs) staged"
proof -
  have l: "in_log ack (store_log d)" "\<forall>e \<in> set hand. in_log (ack @ [e]) (store_log d)"
    using s by (auto simp: served_def in_log_def)
  note g = state_after_grow [OF pre]
  have st: "state_after def (store_log d') (ack @ [e]) = Inr st" if "(e, st) \<in> staged" "e \<notin> set ack" for e st
    using that g [of "ack @ [e]" "def"] l(2) manager_okD(2,3) [OF ok that(1)] by simp
  show ?thesis
    using ok dn sn st g [OF l(1), of "def"] by (auto simp: manager_ok_def)
qed

lemma manager_ok_call:
  assumes ok: "manager_ok def k p d ack hand staged" and s: "served k (sd_type def) p d ack hand"
    and a: "allowed route k (sd_type def) p seen c d" and q: "keeps_state def k p staged c d"
  shows "manager_ok def k p (after c d) (ack @ acked_by (action_of k (sd_type def) p c d))
     (hand @ handed_by (action_of k (sd_type def) p c d)) staged"
proof (cases "exec c d")
  case (Inl err)
  with ok show ?thesis by (simp add: after_def action_of_def)
next
  case (Inr x)
  then obtain r d' where e: "exec c d = Inr (r, d')" by (cases x) auto
  then have af: "after c d = d'" and ac: "action_of k (sd_type def) p c d = lane_action k (sd_type def) p c r d"
    by (simp_all add: after_def action_of_def)
  let ?l = "lane_of k (sd_type def) p d" and ?src = "sourceUuidOf def p"
  from s have wf: "wf_db d" by (simp add: served_def)
  have pre: "prefix (store_log d) (store_log d')" using prefix_after [OF wf, of c] by (simp add: af)
  from a have g: "\<not> discards k (sd_type def) p c d" by (simp add: allowed_def)
  show ?thesis
  proof (cases "acked_by (lane_action k (sd_type def) p c r d)")
    case Nil
    have "\<not> writes_snapshot ?src c"
      using q Nil by (auto simp: keeps_state_def writes_snapshot_def lane_action_def split: call.splits if_splits)
    from manager_ok_grow [OF ok s pre lane_step_done [OF call_steps_lane [OF e wf g] Nil] snapshot_kept [OF e wf this]] Nil
    show ?thesis by (simp add: af ac)
  next
    case (Cons e0 es0)
    then obtain su n' w p' en snu snt snv sd smd where c: "c = CCompletePm su n' w p' en snu snt snv sd smd"
      and on: "on_sub k (sd_type def) su n' d" "the p' = p"
      using q by (auto simp: lane_action_def keeps_state_def split: call.splits option.splits json.splits reply.splits list.splits if_splits)
    then have act: "lane_action k (sd_type def) p c r d = Acked (the en)" by (simp add: lane_action_def)
    from q c on have snu: "the snu = ?src" and stg: "(the en, the sd) \<in> staged" by (simp_all add: keeps_state_def)
    from pm_completes [OF e [unfolded c]] wf on have cl: "?l (the en) = Some ClaimedS"
      and l': "lane_of k (sd_type def) p d' = ?l(the en \<mapsto> Done)"
      and row: "\<exists>row. find_snapshot ?src d' = Some row \<and> n_data row = the sd"
      by (auto simp: wf_db_def on_sub_def snu)
    have new: "the en \<notin> set ack" using cl manager_okD(1) [OF ok, of "the en"] by simp
    have "in_log (ack @ [the en]) (store_log d)"
      using s ok stg by (auto simp: served_def manager_ok_def in_log_def)
    then have st: "state_after def (store_log d') (ack @ [the en]) = Inr (the sd)"
      using state_after_grow [OF pre, of _ "def"] manager_okD(3) [OF ok stg new] by simp
    have only: "e' \<in> set ack \<or> e' = the en" if "(e', st') \<in> staged" for e' st'
      using that ok s cl unfolding manager_ok_def served_def by fast
    have "{e. lane_of k (sd_type def) p d' e = Some Done} = set (ack @ [the en])"
      using ok by (auto simp: l' manager_ok_def)
    then show ?thesis
      using row st only ok by (auto simp: af ac act manager_ok_def)
  qed
qed

definition fresh_manager :: "'p substrate_definition \<Rightarrow> nat \<Rightarrow> string \<Rightarrow> db \<Rightarrow> bool" where
  "fresh_manager def k p d \<longleftrightarrow> fresh_sub k (sd_type def) d \<and> find_snapshot (sourceUuidOf def p) d = None"

lemma manager_run_ok:
  "manager_run route def k p d0 d ack hand seen staged \<Longrightarrow> wf_db d0 \<Longrightarrow> fresh_manager def k p d0
     \<Longrightarrow> manager_ok def k p d ack hand staged"
proof (induction rule: manager_run.induct)
  case manager_start
  then show ?case
    by (auto simp: manager_ok_def fresh_manager_def fresh_sub_def lane_of_def find_item_def find_Some_iff item_key_def)
next
  case (manager_call d ack hand seen staged c)
  then show ?case
    using queue_served(1) [OF manager_queue] by (auto intro!: manager_ok_call simp: fresh_manager_def)
next
  case (manager_pass d ack hand seen staged ms)
  then show ?case
    by (simp add: manager_ok_def lane_of_def find_item_def find_snapshot_def pass_def store_log_def glinks_def)
next
  case (manager_handler d ack hand seen staged e u w base w' st)
  have ok: "manager_ok def k p d ack hand staged" using manager_handler by blast
  have s: "served k (sd_type def) p d ack hand"
    using manager_handler queue_served(1) [OF manager_queue] by (auto simp: fresh_manager_def)
  have "state_after def (store_log d) (ack @ [e]) = Inr st" if "e \<notin> set ack"
    using loaded_state [OF ok s _ that, of u w base w'] manager_handler.hyps state_after_snoc by metis
  with ok manager_handler.hyps(2) show ?case by (auto simp: manager_ok_def)
qed

text \<open>The rows of the acknowledged events are those routed to the partition before the next one.\<close>

lemma acknowledged_rows:
  assumes s: "served k n p d ack hand" and t: "routed_to route p a b (store_log d) = ack @ e # later"
  shows "map (\<lambda>e. store_log d ! (nat e - 1)) ack =
     filter (\<lambda>r. a < o_event_number r \<and> int (o_event_number r) < e \<and> route r = Some p) (store_log d)"
proof -
  let ?lg = "store_log d"
  from s have wf: "wf_db d" and sa: "sorted_wrt (<) ack" "in_log ack ?lg" by (simp_all add: served_def)
  have srt: "sorted_wrt (<) (ack @ e # later)"
    using routed_to_sorted [OF numbered_log [OF wf], of route p a b] by (simp add: t)
  have m: "int (o_event_number r) \<in> set (ack @ e # later)
      \<longleftrightarrow> a < o_event_number r \<and> o_event_number r \<le> b \<and> route r = Some p" if "r \<in> set ?lg" for r
    using that distinct_log [OF wf] unfolding t [symmetric] by (auto simp: routed_to_def dest: inj_onD)
  have "e \<in> set (routed_to route p a b ?lg)" by (simp add: t)
  then have b: "e \<le> int b" by (auto simp: routed_to_def)
  have "int (o_event_number r) \<in> set ack
      \<longleftrightarrow> a < o_event_number r \<and> int (o_event_number r) < e \<and> route r = Some p" if "r \<in> set ?lg" for r
    using m [OF that] srt b by (auto simp: sorted_wrt_append)
  then have "filter (\<lambda>r. int (o_event_number r) \<in> set ack) ?lg
      = filter (\<lambda>r. a < o_event_number r \<and> int (o_event_number r) < e \<and> route r = Some p) ?lg"
    by (intro filter_cong) auto
  with picked_rows [OF wf sa] show ?thesis by simp
qed

lemma loaded_is_replay:
  assumes run: "manager_run route def k p d0 (w_db w') ack hand seen staged" and wf: "wf_db d0" and f: "fresh_manager def k p d0"
    and e: "e \<in> set hand" "e \<notin> set ack"
    and l: "loadState pg_client def u (sourceUuidOf def p) p e w = (Inr base, w')" "map_option s_id (find_stream u (w_db w')) = Some k"
  shows "fold_events (sd_apply def) (sd_initialState def)
     (map recorded (filter (\<lambda>r. cursor k (sd_type def) d0 < o_event_number r \<and> int (o_event_number r) < e \<and> route r = Some p)
        (log_of w'))) = Inr base"
proof -
  have fs: "fresh_sub k (sd_type def) d0" using f by (simp add: fresh_manager_def)
  note Q = queue_served [OF manager_queue [OF run] wf fs]
  from Q(2) [OF e] acknowledged_rows [OF Q(1), of route "cursor k (sd_type def) d0" "cursor k (sd_type def) (w_db w')" e]
  have "map (\<lambda>e. recorded (log_of w' ! (nat e - 1))) ack = map recorded (filter (\<lambda>r. cursor k (sd_type def) d0 < o_event_number r
      \<and> int (o_event_number r) < e \<and> route r = Some p) (log_of w'))"
    by (auto simp: log_of_def comp_def dest!: arg_cong [where f = "map recorded"])
  with loaded_state [OF manager_run_ok [OF run wf f] Q(1) e l(1) refl l(2)]
  show ?thesis by (simp only: state_after_def log_of_def)
qed


text \<open>Two events for the instance: the first handled and acknowledged with its snapshot, the second
  handed out; then the snapshot is deleted, so that the second handler rebuilds.\<close>

definition tally_state :: json where
  "tally_state = JArr [JNum 0, JStr ''Opened'']"

definition complete_tally :: call where
  "complete_tally = CCompletePm (Some all_uuid) (Some ''balances'') worker_a (Some ''a'') (Some 1) (Some ''balances-a'')
     (Some ''balances'') (Some 1) (Some tally_state) None"

definition route_two :: call where
  "route_two = CRouteBatch (Some all_uuid) (Some ''balances'') worker_a (Some 2)
     (Some (JArr [JObj [(''partition_key'', JStr ''a''), (''event_number'', JNum 2)]]))"

definition grow_two :: call where
  "grow_two = append_b ''00000000-0000-4000-8000-000000000002''"

definition tally_acked :: db where
  "tally_acked = after complete_tally claimed_db"

definition tally_routed :: db where
  "tally_routed = after route_two (after grow_two tally_acked)"

definition tally_end :: db where
  "tally_end = after (CDeleteSnapshot (Some ''balances-a'')) (after claim_a tally_routed)"

text \<open>A call that may be made, and what it does to the history.\<close>

definition tally_call :: "int list \<Rightarrow> (int \<times> json) list \<Rightarrow> call \<Rightarrow> db \<Rightarrow> int list \<Rightarrow> int list \<Rightarrow> bool" where
  "tally_call seen staged c d as hs \<longleftrightarrow>
     allowed to_a 0 ''balances'' ''a'' seen c d \<and> keeps_state tally 0 ''a'' (set staged) c d
     \<and> acked_by (action_of 0 ''balances'' ''a'' c d) = as \<and> handed_by (action_of 0 ''balances'' ''a'' c d) = hs"

lemma tally_calls:
  "manager_run to_a tally 0 ''a'' leased_db d ack hand seen (set staged) \<Longrightarrow> tally_call seen staged c d as hs
     \<Longrightarrow> manager_run to_a tally 0 ''a'' leased_db (after c d) (ack @ as) (hand @ hs) seen (set staged)"
  using manager_call [of to_a tally 0 "''a''" leased_db d ack hand seen "set staged" c]
  by (simp add: tally_call_def tally_def)

definition loads_tally :: "db \<Rightarrow> int \<Rightarrow> json \<Rightarrow> bool" where
  "loads_tally d e base \<longleftrightarrow>
     (case loadState pg_client tally all_uuid ''balances-a'' ''a'' e (sample_world\<lparr>w_db := d\<rparr>) of
        (Inr b, w') \<Rightarrow> b = base \<and> w_db w' = d | _ \<Rightarrow> False)"

lemma loads_tallyE:
  assumes "loads_tally d e base"
  shows "\<exists>w'. loadState pg_client tally all_uuid (sourceUuidOf tally ''a'') ''a'' e (sample_world\<lparr>w_db := d\<rparr>) = (Inr base, w')
     \<and> w_db w' = d"
  using assms by (auto simp: loads_tally_def tally_def sourceUuidOf_def prefixType_def split: prod.splits sum.splits)

lemma tally_run_end:
  "manager_run to_a tally 0 ''a'' leased_db tally_end [1] [1, 2] [1] (set [(1, tally_state)])"
proof -
  let ?run = "manager_run to_a tally 0 ''a'' leased_db" and ?st = "[(1 :: int, tally_state)]"
  have "tally_call [] [] sample_route leased_db [] []" by code_simp
  from tally_calls [OF _ this] have "?run routed_db [] [] [] (set [])"
    using manager_start [of to_a tally 0 "''a''" leased_db] by (simp add: routed_db_def)
  moreover have "tally_call [] [] claim_a routed_db [] [1]" by code_simp
  ultimately have h: "?run claimed_db [] [1] [] {}" using tally_calls by (fastforce simp: claimed_db_def)
  have "loads_tally claimed_db 1 (JNum 0)" by code_simp
  from loads_tallyE [OF this] obtain w' where
    l: "loadState pg_client tally all_uuid (sourceUuidOf tally ''a'') ''a'' 1 (sample_world\<lparr>w_db := claimed_db\<rparr>) = (Inr (JNum 0), w')"
    "w_db w' = claimed_db" by blast
  have f: "map_option s_id (find_stream all_uuid claimed_db) = Some 0" by code_simp
  have "sd_apply tally (JNum 0) (recorded (store_log claimed_db ! (nat 1 - 1))) = Inr tally_state" by code_simp
  from manager_handler [OF h _ l f this] have h1: "?run claimed_db [] [1] [1] (set ?st)" by simp
  have "tally_call [1] ?st complete_tally claimed_db [1] []" by code_simp
  from tally_calls [OF h1 this] have h2: "?run tally_acked [1] [1] [1] (set ?st)" by (simp add: tally_acked_def)
  have c: "tally_call [1] ?st grow_two tally_acked [] []" "tally_call [1] ?st route_two (after grow_two tally_acked) [] []"
    by code_simp+
  from tally_calls [OF tally_calls [OF h2 c(1)] c(2)] have h3: "?run tally_routed [1] [1] [1] (set ?st)"
    by (simp add: tally_routed_def)
  have c: "tally_call [1] ?st claim_a tally_routed [] [2]"
    "tally_call [1] ?st (CDeleteSnapshot (Some ''balances-a'')) (after claim_a tally_routed) [] []"
    by code_simp+
  from tally_calls [OF tally_calls [OF h3 c(1)] c(2)] show ?thesis by (simp add: tally_end_def)
qed


end
